(* ===== verification/Callbridge_Prelude.thy ===== *)
theory Callbridge_Prelude
  imports Main "HOL-Library.Word" "HOL-Library.AList"
begin

text \<open>
  The prelude of the development: the machine types of the Go sources, the parts of the Go
  language and standard library that several components use (slices, \<open>copy\<close>,
  \<open>encoding/binary\<close>, \<open>strings\<close>, maps), the generic lemmas about them, and the interfaces
  (locales) that several components implement.

  Conventions used throughout.
  \<^item> \<open>byte\<close>, \<open>uint16\<close>, \<open>uint32\<close> and \<open>uint64\<close> are words of their width; \<open>int\<close> values that
    only count or index are \<open>nat\<close>, durations and times are \<open>int\<close> nanoseconds.
  \<^item> A Go \<open>string\<close> is a sequence of bytes: a HOL \<open>string\<close> (a \<open>char list\<close>); a \<open>[]byte\<close> is a
    \<open>byte list\<close>. The conversions \<open>[]byte(s)\<close> and \<open>string(b)\<close> are \<open>bytes_of\<close> and \<open>string_of\<close>.
  \<^item> A function that returns \<open>(T, error)\<close> returns a sum: \<open>Inl\<close> the error, \<open>Inr\<close> the value.
  \<^item> A Go map is an association list with distinct keys. A \<open>range\<close> loop visits it in list
    order; Go leaves that order open, and the theorems hold for every list.
\<close>

unbundle bit_operations_syntax

named_theorems wire_simps \<open>layout of the fixed-offset packets\<close>
named_theorems gomap_simps \<open>Go maps as association lists\<close>

section \<open>Machine types\<close>

type_synonym byte = "8 word"
type_synonym uint16 = "16 word"
type_synonym uint32 = "32 word"
type_synonym uint64 = "64 word"
type_synonym bytes = "byte list"
type_synonym duration = int
type_synonym instant = int

abbreviation (input) Microsecond :: duration where "Microsecond \<equiv> 1000"
abbreviation (input) Millisecond :: duration where "Millisecond \<equiv> 1000000"
abbreviation (input) Second :: duration where "Second \<equiv> 1000000000"

subsection \<open>Strings and byte slices\<close>

definition byte_of_char :: "char \<Rightarrow> byte" where
  "byte_of_char c = of_nat (of_char c)"

definition char_of_byte :: "byte \<Rightarrow> char" where
  "char_of_byte b = char_of (unat b)"

definition bytes_of :: "string \<Rightarrow> bytes" where
  "bytes_of s = map byte_of_char s"

definition string_of :: "bytes \<Rightarrow> string" where
  "string_of b = map char_of_byte b"

lemma char_of_byte_of_char [simp]: "char_of_byte (byte_of_char c) = c"
  by (simp add: char_of_byte_def byte_of_char_def unat_of_nat)

lemma byte_of_char_of_byte [simp]: "byte_of_char (char_of_byte b) = b"
proof -
  have "unat b < 256" using unsigned_less [of b, where 'a = nat] by simp
  then show ?thesis by (simp add: char_of_byte_def byte_of_char_def)
qed

lemma string_of_bytes_of [simp]: "string_of (bytes_of s) = s"
  by (simp add: string_of_def bytes_of_def comp_def)

lemma bytes_of_string_of [simp]: "bytes_of (string_of b) = b"
  by (simp add: string_of_def bytes_of_def comp_def)

lemma length_bytes_of [simp]: "length (bytes_of s) = length s"
  by (simp add: bytes_of_def)

lemma length_string_of [simp]: "length (string_of b) = length b"
  by (simp add: string_of_def)

lemma string_of_eq_Nil [simp]: "string_of b = [] \<longleftrightarrow> b = []"
  by (simp add: string_of_def)

lemma bytes_of_eq_Nil [simp]: "bytes_of s = [] \<longleftrightarrow> s = []"
  by (simp add: bytes_of_def)

lemma string_of_Nil [simp]: "string_of [] = []"
  by (simp add: string_of_def)

lemma bytes_of_Nil [simp]: "bytes_of [] = []"
  by (simp add: bytes_of_def)

section \<open>Slices\<close>

text \<open>
  \<open>subslice i j xs\<close> is Go's \<open>xs[i:j]\<close> and \<open>blit i ys xs\<close> is \<open>copy(xs[i:], ys)\<close> for a source that
  fits; both are used only where the code has established that the range is inside the slice.
\<close>

definition subslice :: "nat \<Rightarrow> nat \<Rightarrow> 'a list \<Rightarrow> 'a list" where
  "subslice i j xs = take (j - i) (drop i xs)"

definition blit :: "nat \<Rightarrow> 'a list \<Rightarrow> 'a list \<Rightarrow> 'a list" where
  "blit i ys xs = take i xs @ ys @ drop (i + length ys) xs"

lemma length_subslice [simp]: "length (subslice i j xs) = min (j - i) (length xs - i)"
  by (simp add: subslice_def)

lemma length_blit [simp]: "i + length ys \<le> length xs \<Longrightarrow> length (blit i ys xs) = length xs"
  by (simp add: blit_def)

lemma subslice_append_left: "j \<le> length xs \<Longrightarrow> subslice i j (xs @ ys) = subslice i j xs"
  by (cases "i \<le> j") (simp_all add: subslice_def)

lemma subslice_append_right:
  "length xs \<le> i \<Longrightarrow> subslice i j (xs @ ys) = subslice (i - length xs) (j - length xs) ys"
  by (auto simp: subslice_def)

lemma subslice_Cons_nth:
  "i < j \<Longrightarrow> i < length xs \<Longrightarrow> subslice i j xs = xs ! i # subslice (Suc i) j xs"
  by (cases "j - i") (simp_all add: subslice_def Cons_nth_drop_Suc [symmetric] Suc_diff_Suc [symmetric])

lemma subslice_all: "subslice 0 (length xs) xs = xs"
  by (simp add: subslice_def)

lemma drop_subslice: "i \<le> j \<Longrightarrow> drop i p = subslice i j p @ drop j p"
  by (metis append_take_drop_id drop_drop le_add_diff_inverse2 subslice_def)

text \<open>
  Writing into a packet that is given as a concatenation of its fields. These rewrite from the
  left and never copy the packet, so a chain of writes at fixed offsets stays linear.
\<close>

lemma blit_skip [wire_simps]:
  "length xs \<le> i \<Longrightarrow> blit i ys (xs @ zs) = xs @ blit (i - length xs) ys zs"
  by (simp add: blit_def)

lemma blit_skip_Cons [wire_simps]: "0 < i \<Longrightarrow> blit i ys (x # zs) = x # blit (i - 1) ys zs"
  by (cases i) (simp_all add: blit_def)

lemma blit_here [wire_simps]: "length xs = length ys \<Longrightarrow> blit 0 ys (xs @ zs) = ys @ zs"
  by (simp add: blit_def)

lemma blit_here_end [wire_simps]: "length xs = length ys \<Longrightarrow> blit 0 ys xs = ys"
  by (simp add: blit_def)

lemma blit_zeros [wire_simps]:
  "length ys \<le> n \<Longrightarrow> blit 0 ys (replicate n x @ zs) = ys @ replicate (n - length ys) x @ zs"
  by (simp add: blit_def)

lemma blit_zeros_end [wire_simps]:
  "length ys \<le> n \<Longrightarrow> blit 0 ys (replicate n x) = ys @ replicate (n - length ys) x"
  by (simp add: blit_def)

lemma update_skip [wire_simps]:
  "length xs \<le> i \<Longrightarrow> (xs @ zs)[i := v] = xs @ zs[i - length xs := v]"
  by (simp add: list_update_append)

lemma subslice_skip [wire_simps]:
  "length xs \<le> i \<Longrightarrow> subslice i j (xs @ zs) = subslice (i - length xs) (j - length xs) zs"
  by (rule subslice_append_right)

lemma subslice_here [wire_simps]: "length xs = j \<Longrightarrow> subslice 0 j (xs @ zs) = xs"
  by (simp add: subslice_def)

lemma subslice_here_end [wire_simps]: "length xs = j \<Longrightarrow> subslice 0 j xs = xs"
  by (simp add: subslice_def)

lemma subslice_skip_Cons [wire_simps]:
  "0 < i \<Longrightarrow> subslice i j (x # zs) = subslice (i - 1) (j - 1) zs"
  by (cases i; cases j) (simp_all add: subslice_def)

lemma subslice_take_Cons [wire_simps]: "0 < j \<Longrightarrow> subslice 0 j (x # zs) = x # subslice 0 (j - 1) zs"
  by (cases j) (simp_all add: subslice_def)

lemma subslice_empty [wire_simps]: "subslice i i xs = []"
  by (simp add: subslice_def)

lemma subslice_join:
  "length xs + length ys = j \<Longrightarrow> subslice 0 j (xs @ ys @ zs) = xs @ ys"
  by (simp add: subslice_def)

lemma nth_skip [wire_simps]: "length xs \<le> i \<Longrightarrow> (xs @ zs) ! i = zs ! (i - length xs)"
  by (simp add: nth_append)

section \<open>encoding/binary\<close>

text \<open>
  \<open>put_le n w\<close> are the bytes that \<open>binary.LittleEndian.PutUint\<close> writes for an \<open>8n\<close>-bit word,
  \<open>get_le\<close> reads them back; \<open>put_be\<close> and \<open>get_be\<close> are the big-endian pair.
\<close>

primrec put_le :: "nat \<Rightarrow> 'a::len word \<Rightarrow> bytes" where
  "put_le 0 w = []"
| "put_le (Suc n) w = ucast w # put_le n (drop_bit 8 w)"

primrec get_le :: "bytes \<Rightarrow> 'a::len word" where
  "get_le [] = 0"
| "get_le (b # bs) = ucast b OR push_bit 8 (get_le bs)"

definition put_be :: "nat \<Rightarrow> 'a::len word \<Rightarrow> bytes" where
  "put_be n w = rev (put_le n w)"

definition get_be :: "bytes \<Rightarrow> 'a::len word" where
  "get_be bs = get_le (rev bs)"

lemma length_put_le [simp]: "length (put_le n w) = n"
  by (induction n arbitrary: w) auto

text \<open>A loop that returns or goes on to its next round returns, if some later round does.\<close>

lemma polling_returns:
  assumes "\<And>i. f i = f (Suc i) \<or> (\<exists>r. f i = Some r)" and "\<exists>r. f n = Some r" and "i \<le> n"
  shows "\<exists>r. f i = Some r"
  using assms(3)
proof (induction rule: inc_induct)
  case base
  show ?case by (rule assms(2))
next
  case (step i)
  with assms(1) [of i] show ?case by auto
qed

lemma word_succ_greater: "x \<noteq> - 1 \<Longrightarrow> x < x + 1" for x :: "'a::len word"
proof -
  assume "x \<noteq> - 1"
  then have "1 + x \<noteq> 0" by (metis add_eq_0_iff)
  then have "unat (1 + x) = Suc (unat x)" by (rule unatSuc)
  then show ?thesis by (simp add: word_less_nat_alt add.commute)
qed

lemma put_le_numeral: "put_le (numeral k) w = ucast w # put_le (pred_numeral k) (drop_bit 8 w)"
  by (simp add: numeral_eq_Suc)

lemma length_put_be [simp]: "length (put_be n w) = n"
  by (simp add: put_be_def)

lemma get_put_le: "get_le (put_le n w) = take_bit (8 * n) (w :: 'a::len word)"
proof (induction n arbitrary: w)
  case 0
  show ?case by simp
next
  case (Suc n)
  show ?case
  proof (rule bit_word_eqI)
    fix k
    assume "k < LENGTH('a)"
    then show "bit (get_le (put_le (Suc n) w) :: 'a word) k \<longleftrightarrow> bit (take_bit (8 * Suc n) w) k"
      by (cases "8 \<le> k")
        (auto simp: Suc bit_or_iff bit_push_bit_iff bit_take_bit_iff bit_drop_bit_eq bit_ucast_iff
          dest: bit_imp_le_length)
  qed
qed

lemma bit_get_le_bound: "bit (get_le bs :: 'a::len word) k \<Longrightarrow> k < 8 * length bs"
proof (induction bs arbitrary: k)
  case Nil
  then show ?case by simp
next
  case (Cons b bs)
  show ?case
  proof (cases "8 \<le> k")
    case True
    with Cons.prems have "bit (get_le bs :: 'a word) (k - 8)"
      by (auto simp: bit_or_iff bit_push_bit_iff bit_ucast_iff dest: bit_imp_le_length)
    with Cons.IH True show ?thesis by fastforce
  next
    case False
    then show ?thesis by simp
  qed
qed

lemma put_get_le:
  "8 * length bs \<le> LENGTH('a) \<Longrightarrow> put_le (length bs) (get_le bs :: 'a::len word) = bs"
proof (induction bs)
  case Nil
  then show ?case by simp
next
  case (Cons b bs)
  let ?w = "ucast b OR push_bit 8 (get_le bs) :: 'a word"
  have hd: "(ucast ?w :: byte) = b"
    using Cons.prems by (intro bit_eqI) (auto simp: bit_ucast_iff bit_or_iff bit_push_bit_iff)
  have tl: "drop_bit 8 ?w = get_le bs"
  proof (rule bit_eqI)
    fix k
    show "bit (drop_bit 8 ?w) k \<longleftrightarrow> bit (get_le bs :: 'a word) k"
    proof (cases "bit (get_le bs :: 'a word) k")
      case True
      then have "k < 8 * length bs" by (rule bit_get_le_bound)
      with True Cons.prems show ?thesis
        by (auto simp: bit_drop_bit_eq bit_or_iff bit_push_bit_iff)
    next
      case False
      then show ?thesis
        by (auto simp: bit_drop_bit_eq bit_or_iff bit_push_bit_iff bit_ucast_iff
            dest: bit_imp_le_length)
    qed
  qed
  show ?case using Cons hd tl by simp
qed

lemma get_put_le_full [simp]:
  "8 * n = LENGTH('a) \<Longrightarrow> get_le (put_le n w) = (w :: 'a::len word)"
  by (simp add: get_put_le take_bit_word_eq_self)

lemma get_put_le64 [simp]: "get_le (put_le 8 w) = (w :: uint64)"
  by (simp add: get_put_le take_bit_word_eq_self)

lemma get_put_le32 [simp]: "get_le (put_le 4 w) = (w :: uint32)"
  by (simp add: get_put_le take_bit_word_eq_self)

lemma get_put_le16 [simp]: "get_le (put_le 2 w) = (w :: uint16)"
  by (simp add: get_put_le take_bit_word_eq_self)

lemma get_put_be16 [simp]: "get_be (put_be 2 w) = (w :: uint16)"
  by (simp add: get_be_def put_be_def get_put_le take_bit_word_eq_self)

lemma get_put_be32 [simp]: "get_be (put_be 4 w) = (w :: uint32)"
  by (simp add: get_be_def put_be_def get_put_le take_bit_word_eq_self)

lemma put_get_le64 [simp]: "length bs = 8 \<Longrightarrow> put_le 8 (get_le bs :: uint64) = bs"
  using put_get_le [of bs, where 'a = 64] by simp

lemma put_get_le32 [simp]: "length bs = 4 \<Longrightarrow> put_le 4 (get_le bs :: uint32) = bs"
  using put_get_le [of bs, where 'a = 32] by simp

lemma put_get_le16 [simp]: "length bs = 2 \<Longrightarrow> put_le 2 (get_le bs :: uint16) = bs"
  using put_get_le [of bs, where 'a = 16] by simp

lemma get_le_replicate_zero [simp]: "get_le (replicate n 0) = 0"
  by (induction n) auto

lemma unat_of_nat16 [simp]: "n < 65536 \<Longrightarrow> unat (of_nat n :: uint16) = n"
  by (simp add: unat_of_nat)

lemma unat_of_nat8 [simp]: "n < 256 \<Longrightarrow> unat (of_nat n :: byte) = n"
  by (simp add: unat_of_nat)

section \<open>Package strings\<close>

definition HasPrefix :: "string \<Rightarrow> string \<Rightarrow> bool" where
  "HasPrefix s p \<longleftrightarrow> take (length p) s = p"

primrec Contains :: "string \<Rightarrow> string \<Rightarrow> bool" where
  "Contains [] p \<longleftrightarrow> p = []"
| "Contains (c # s) p \<longleftrightarrow> HasPrefix (c # s) p \<or> Contains s p"

definition TrimPrefix :: "string \<Rightarrow> string \<Rightarrow> string" where
  "TrimPrefix s p = (if HasPrefix s p then drop (length p) s else s)"

text \<open>\<open>IndexAny s cs\<close>: the first position of \<open>s\<close> that holds a character of \<open>cs\<close>.\<close>

primrec IndexAny :: "string \<Rightarrow> string \<Rightarrow> nat option" where
  "IndexAny [] cs = None"
| "IndexAny (c # s) cs = (if c \<in> set cs then Some 0 else map_option Suc (IndexAny s cs))"

definition IndexByte :: "string \<Rightarrow> char \<Rightarrow> nat option" where
  "IndexByte s c = IndexAny s [c]"

definition ReplaceChar :: "char \<Rightarrow> char \<Rightarrow> string \<Rightarrow> string" where
  "ReplaceChar a b s = map (\<lambda>c. if c = a then b else c) s"

text \<open>
  Case mapping is Go's on ASCII letters. The strings it is applied to are hexadecimal
  addresses and UUIDs; bytes from 128 on are left alone.
\<close>

definition upper_char :: "char \<Rightarrow> char" where
  "upper_char c = (if 97 \<le> (of_char c :: nat) \<and> (of_char c :: nat) \<le> 122
                   then char_of (of_char c - (32::nat)) else c)"

definition lower_char :: "char \<Rightarrow> char" where
  "lower_char c = (if 65 \<le> (of_char c :: nat) \<and> (of_char c :: nat) \<le> 90
                   then char_of (of_char c + (32::nat)) else c)"

definition ToUpper :: "string \<Rightarrow> string" where
  "ToUpper s = map upper_char s"

definition ToLower :: "string \<Rightarrow> string" where
  "ToLower s = map lower_char s"

definition EqualFold :: "string \<Rightarrow> string \<Rightarrow> bool" where
  "EqualFold a b \<longleftrightarrow> ToLower a = ToLower b"

definition is_digit :: "char \<Rightarrow> bool" where
  "is_digit c \<longleftrightarrow> 48 \<le> (of_char c :: nat) \<and> (of_char c :: nat) \<le> 57"

text \<open>
  \<open>strings.TrimSpace\<close> removes the runes with the Unicode property White\_Space from both ends.
  A string starts (or ends) with such a rune exactly when it starts (ends) with the rune's
  UTF-8 encoding, so trimming is stripping these byte sequences.
\<close>

definition space_encodings :: "string list" where
  "space_encodings =
    [[CHR 0x09], [CHR 0x0A], [CHR 0x0B], [CHR 0x0C], [CHR 0x0D], [CHR 0x20],
     [CHR 0xC2, CHR 0x85], [CHR 0xC2, CHR 0xA0], [CHR 0xE1, CHR 0x9A, CHR 0x80],
     [CHR 0xE2, CHR 0x80, CHR 0x80], [CHR 0xE2, CHR 0x80, CHR 0x81],
     [CHR 0xE2, CHR 0x80, CHR 0x82], [CHR 0xE2, CHR 0x80, CHR 0x83],
     [CHR 0xE2, CHR 0x80, CHR 0x84], [CHR 0xE2, CHR 0x80, CHR 0x85],
     [CHR 0xE2, CHR 0x80, CHR 0x86], [CHR 0xE2, CHR 0x80, CHR 0x87],
     [CHR 0xE2, CHR 0x80, CHR 0x88], [CHR 0xE2, CHR 0x80, CHR 0x89],
     [CHR 0xE2, CHR 0x80, CHR 0x8A], [CHR 0xE2, CHR 0x80, CHR 0xA8],
     [CHR 0xE2, CHR 0x80, CHR 0xA9], [CHR 0xE2, CHR 0x80, CHR 0xAF],
     [CHR 0xE2, CHR 0x81, CHR 0x9F], [CHR 0xE3, CHR 0x80, CHR 0x80]]"

function strip_with :: "string list \<Rightarrow> string \<Rightarrow> string" where
  "strip_with es s =
     (case find (\<lambda>e. e \<noteq> [] \<and> HasPrefix s e) es of
        None \<Rightarrow> s
      | Some e \<Rightarrow> strip_with es (drop (length e) s))"
  by pat_completeness auto
termination
proof (relation "measure (\<lambda>(es, s). length s)")
  fix es s e
  assume "find (\<lambda>e. e \<noteq> [] \<and> HasPrefix s e) es = Some e"
  then have "e \<noteq> []" "take (length e) s = e" by (auto simp: find_Some_iff HasPrefix_def)
  then show "((es, drop (length e) s), es, s) \<in> measure (\<lambda>(es, s). length s)"
    by (cases s) auto
qed simp

declare strip_with.simps [simp del]

definition TrimSpace :: "string \<Rightarrow> string" where
  "TrimSpace s =
     rev (strip_with (map rev space_encodings) (rev (strip_with space_encodings s)))"

lemma strip_with_suffix: "\<exists>p. s = p @ strip_with es s \<and> set p \<subseteq> set (concat es)"
proof (induction es s rule: strip_with.induct)
  case (1 es s)
  show ?case
  proof (cases "find (\<lambda>e. e \<noteq> [] \<and> HasPrefix s e) es")
    case None
    then show ?thesis by (simp add: strip_with.simps [of es s])
  next
    case (Some e)
    then have e: "e \<in> set es" "take (length e) s = e"
      by (auto simp: find_Some_iff HasPrefix_def)
    from "1.IH" [OF Some] obtain p where
      p: "drop (length e) s = p @ strip_with es (drop (length e) s)" "set p \<subseteq> set (concat es)"
      by blast
    have "strip_with es s = strip_with es (drop (length e) s)"
      using Some by (simp add: strip_with.simps [of es s])
    moreover have "s = e @ drop (length e) s" using e(2) by (metis append_take_drop_id)
    ultimately have "s = (e @ p) @ strip_with es s" using p(1) by simp
    moreover have "set (e @ p) \<subseteq> set (concat es)" using e p by auto
    ultimately show ?thesis by blast
  qed
qed

lemma TrimSpace_parts:
  "\<exists>p q. s = p @ TrimSpace s @ q \<and> set p \<subseteq> set (concat space_encodings)
     \<and> set q \<subseteq> set (concat space_encodings)"
proof -
  obtain p where p: "s = p @ strip_with space_encodings s" "set p \<subseteq> set (concat space_encodings)"
    using strip_with_suffix by blast
  obtain q where q: "rev (strip_with space_encodings s) = q @ rev (TrimSpace s)"
      "set q \<subseteq> set (concat (map rev space_encodings))"
    using strip_with_suffix [of "rev (strip_with space_encodings s)" "map rev space_encodings"]
    by (auto simp: TrimSpace_def)
  have "strip_with space_encodings s = TrimSpace s @ rev q"
    using q(1) by (metis rev_append rev_rev_ident)
  then have "s = p @ TrimSpace s @ rev q" using p by simp
  moreover have "set (rev q) \<subseteq> set (concat space_encodings)" using q(2) by auto
  ultimately show ?thesis using p(2) by blast
qed

lemma length_TrimSpace: "length (TrimSpace s) \<le> length s"
proof -
  obtain p q where "s = p @ TrimSpace s @ q" using TrimSpace_parts by blast
  then have "length s = length (p @ TrimSpace s @ q)" by (rule arg_cong)
  then show ?thesis by simp
qed

lemma strip_with_id:
  assumes "\<And>e. e \<in> set es \<Longrightarrow> e \<noteq> [] \<Longrightarrow> hd s \<noteq> hd e"
  shows "strip_with es s = s"
proof -
  have "\<not> (e \<noteq> [] \<and> HasPrefix s e)" if "e \<in> set es" for e
    using assms [OF that] by (cases e; cases s) (auto simp: HasPrefix_def)
  then have "find (\<lambda>e. e \<noteq> [] \<and> HasPrefix s e) es = None"
    by (auto simp: find_None_iff)
  then show ?thesis by (simp add: strip_with.simps)
qed

lemma TrimSpace_id:
  "(\<And>e. e \<in> set space_encodings \<Longrightarrow> e \<noteq> [] \<Longrightarrow> hd s \<noteq> hd e)
   \<Longrightarrow> (\<And>e. e \<in> set space_encodings \<Longrightarrow> e \<noteq> [] \<Longrightarrow> last s \<noteq> last e)
   \<Longrightarrow> TrimSpace s = s"
proof -
  assume h: "\<And>e. e \<in> set space_encodings \<Longrightarrow> e \<noteq> [] \<Longrightarrow> hd s \<noteq> hd e"
    and l: "\<And>e. e \<in> set space_encodings \<Longrightarrow> e \<noteq> [] \<Longrightarrow> last s \<noteq> last e"
  have left: "strip_with space_encodings s = s"
    using h by (rule strip_with_id)
  have "strip_with (map rev space_encodings) (rev s) = rev s"
  proof (rule strip_with_id)
    fix e assume "e \<in> set (map rev space_encodings)" "e \<noteq> []"
    then obtain f where f: "f \<in> set space_encodings" "f \<noteq> []" "e = rev f" by auto
    with l [OF f(1,2)] show "hd (rev s) \<noteq> hd e" by (simp add: hd_rev)
  qed
  with left show ?thesis by (simp add: TrimSpace_def)
qed

lemma IndexAny_None_iff: "IndexAny s cs = None \<longleftrightarrow> set s \<inter> set cs = {}"
  by (induction s) auto

lemma IndexAny_SomeD: "IndexAny s cs = Some i \<Longrightarrow> i < length s \<and> s ! i \<in> set cs \<and> set (take i s) \<inter> set cs = {}"
  by (induction s arbitrary: i) (auto split: if_splits)

lemma HasPrefix_append [simp]: "HasPrefix (p @ s) p"
  by (simp add: HasPrefix_def)

lemma HasPrefix_iff: "HasPrefix s p \<longleftrightarrow> (\<exists>r. s = p @ r)"
  by (auto simp: HasPrefix_def) (metis append_take_drop_id)

section \<open>Go maps\<close>

type_synonym ('k, 'v) gomap = "('k \<times> 'v) list"

abbreviation go_get :: "('k, 'v) gomap \<Rightarrow> 'k \<Rightarrow> 'v option" where
  "go_get m k \<equiv> map_of m k"

abbreviation go_put :: "'k \<Rightarrow> 'v \<Rightarrow> ('k, 'v) gomap \<Rightarrow> ('k, 'v) gomap" where
  "go_put k v m \<equiv> AList.update k v m"

abbreviation go_delete :: "'k \<Rightarrow> ('k, 'v) gomap \<Rightarrow> ('k, 'v) gomap" where
  "go_delete k m \<equiv> AList.delete k m"

text \<open>A map from a key to \<open>bool\<close> read with \<open>m[k]\<close>: an absent key reads as \<open>false\<close>.\<close>

definition go_flag :: "('k, bool) gomap \<Rightarrow> 'k \<Rightarrow> bool" where
  "go_flag m k \<longleftrightarrow> go_get m k = Some True"

abbreviation go_wf :: "('k, 'v) gomap \<Rightarrow> bool" where
  "go_wf m \<equiv> distinct (map fst m)"

lemma go_get_put [gomap_simps]: "go_get (go_put k v m) k' = (if k' = k then Some v else go_get m k')"
  by (simp add: update_conv')

lemma go_get_delete [gomap_simps]: "go_get (go_delete k m) k' = (if k' = k then None else go_get m k')"
  by (simp add: delete_conv')

lemma go_put_new: "k \<notin> fst ` set m \<Longrightarrow> go_put k v m = m @ [(k, v)]"
  by (induction m) auto

lemma set_go_put: "set (go_put k v m) \<subseteq> insert (k, v) (set m)"
  by (induction m) auto

lemma set_go_delete: "set (go_delete k m) = {x \<in> set m. fst x \<noteq> k}"
  by (auto simp: AList.delete_eq)

lemma go_wf_put [intro, simp]: "go_wf m \<Longrightarrow> go_wf (go_put k v m)"
  by (rule distinct_update)

lemma go_wf_delete [intro, simp]: "go_wf m \<Longrightarrow> go_wf (go_delete k m)"
  by (rule distinct_delete)

lemma go_flag_put [gomap_simps]: "go_flag (go_put k v m) k' = (if k' = k then v else go_flag m k')"
  by (simp add: go_flag_def gomap_simps)

lemma go_flag_delete [gomap_simps]: "go_flag (go_delete k m) k' = (k' \<noteq> k \<and> go_flag m k')"
  by (simp add: go_flag_def gomap_simps)

lemma go_flag_Nil [simp]: "\<not> go_flag [] k"
  by (simp add: go_flag_def)

lemma go_wf_filter [intro, simp]: "go_wf m \<Longrightarrow> go_wf (filter P m)"
  by (rule distinct_map_filter)

lemma go_get_filter_key [gomap_simps]:
  "go_get (filter (\<lambda>(k, v). P k) m) k = (if P k then go_get m k else None)"
  by (induction m) auto

lemma go_get_filter:
  "go_wf m \<Longrightarrow> go_get (filter (\<lambda>(k, v). P k v) m) k =
     (case go_get m k of None \<Rightarrow> None | Some v \<Rightarrow> if P k v then Some v else None)"
proof (induction m)
  case Nil
  then show ?case by simp
next
  case (Cons x m)
  obtain k' v where x: "x = (k', v)" by (cases x)
  show ?case
  proof (cases "k' = k")
    case True
    with Cons.prems x have "go_get m k = None" by (simp add: map_of_eq_None_iff)
    then have "go_get (filter (\<lambda>(k, v). P k v) m) k = None"
      by (auto simp: map_of_eq_None_iff)
    with True x show ?thesis by simp
  next
    case False
    with Cons x show ?thesis by simp
  qed
qed

lemma option_eqI: "(\<And>c. x = Some c \<longleftrightarrow> y = Some c) \<Longrightarrow> x = y"
  by (cases x; cases y) auto

section \<open>Error results in sequence\<close>

text \<open>
  \<open>bindE m f\<close> is the pattern \<open>x, err := m; if err != nil { return err }; f(x)\<close>, and \<open>check\<close> an early
  return with an error when a condition does not hold.
\<close>

definition bindE :: "'e + 'a \<Rightarrow> ('a \<Rightarrow> 'e + 'b) \<Rightarrow> 'e + 'b" where
  "bindE m f = (case m of Inl e \<Rightarrow> Inl e | Inr x \<Rightarrow> f x)"

definition check :: "bool \<Rightarrow> 'e \<Rightarrow> 'e + unit" where
  "check ok e = (if ok then Inr () else Inl e)"

definition the_or :: "'a option \<Rightarrow> 'e \<Rightarrow> 'e + 'a" where
  "the_or x e = (case x of None \<Rightarrow> Inl e | Some y \<Rightarrow> Inr y)"

lemma bindE_simps [simp]: "bindE (Inl e) f = Inl e" "bindE (Inr x) f = f x"
  by (simp_all add: bindE_def)

lemma bindE_Inr_iff: "bindE m f = Inr y \<longleftrightarrow> (\<exists>x. m = Inr x \<and> f x = Inr y)"
  by (cases m) auto

lemma check_Inr_iff [simp]: "check ok e = Inr u \<longleftrightarrow> ok"
  by (simp add: check_def)

lemma the_or_Inr_iff [simp]: "the_or x e = Inr y \<longleftrightarrow> x = Some y"
  by (auto simp: the_or_def split: option.splits)

section \<open>Local sockets\<close>

text \<open>
  What the two socket servers share: file descriptors, the answer of \<open>os.Lstat\<close> for the socket's
  path, how the start of a server fails and the clean-up it does then.
\<close>

type_synonym fd = nat

datatype lstat = Lstat_absent | Lstat_socket | Lstat_other | Lstat_error

datatype start_action = Close_listener | Remove_path

datatype server_error =
    Mkdir_failed | Path_not_socket | Path_exists | Inspect_failed | Socket_failed | Bind_failed
  | Chmod_failed | Listen_failed | Nonblock_failed | Already_running

section \<open>Interfaces\<close>

text \<open>
  A wire format: every valid value encodes, decoding an encoding gives the value back, and
  decoding never yields an invalid value. A canonical format has one encoding per value.
\<close>

locale wire_codec =
  fixes valid :: "'a \<Rightarrow> bool"
    and enc :: "'a \<Rightarrow> 'e + bytes"
    and dec :: "bytes \<Rightarrow> 'f + 'a"
  assumes enc_total: "valid x \<Longrightarrow> \<exists>p. enc x = Inr p"
    and dec_enc: "valid x \<Longrightarrow> enc x = Inr p \<Longrightarrow> dec p = Inr x"
    and dec_valid: "dec p = Inr x \<Longrightarrow> valid x"
begin

lemma roundtrip: "valid x \<Longrightarrow> \<exists>p. enc x = Inr p \<and> dec p = Inr x"
  using enc_total dec_enc by blast

lemma enc_inj: "valid x \<Longrightarrow> valid y \<Longrightarrow> enc x = enc y \<Longrightarrow> x = y"
  using dec_enc enc_total by (metis sum.inject(2))

lemma reencode: "dec p = Inr x \<Longrightarrow> \<exists>q. enc x = Inr q \<and> dec q = Inr x"
  using dec_valid roundtrip by blast

lemma image_iff: "(\<exists>p. dec p = Inr x) \<longleftrightarrow> valid x"
  using dec_valid roundtrip by blast

end

locale canonical_codec = wire_codec +
  assumes enc_dec: "dec p = Inr x \<Longrightarrow> enc x = Inr p"
begin

lemma dec_inj: "dec p = Inr x \<Longrightarrow> dec q = Inr x \<Longrightarrow> p = q"
  using enc_dec by (metis sum.inject(2))

lemma dec_iff_enc: "valid x \<Longrightarrow> dec p = Inr x \<longleftrightarrow> enc x = Inr p"
  using enc_dec dec_enc by blast

end

text \<open>
  A transition system and what it keeps. \<open>reachable\<close> are the states some run leads to; an
  invariant that holds at the start and that every step keeps holds in all of them.
\<close>

inductive reachable :: "('s \<Rightarrow> bool) \<Rightarrow> ('s \<Rightarrow> 's \<Rightarrow> bool) \<Rightarrow> 's \<Rightarrow> bool"
  for init :: "'s \<Rightarrow> bool" and step :: "'s \<Rightarrow> 's \<Rightarrow> bool" where
  start: "init s \<Longrightarrow> reachable init step s"
| next_state: "reachable init step s \<Longrightarrow> step s t \<Longrightarrow> reachable init step t"

locale invariant_system =
  fixes init :: "'s \<Rightarrow> bool"
    and step :: "'s \<Rightarrow> 's \<Rightarrow> bool"
    and inv :: "'s \<Rightarrow> bool"
  assumes init_inv: "init s \<Longrightarrow> inv s"
    and step_inv: "inv s \<Longrightarrow> step s t \<Longrightarrow> inv t"
begin

lemma reachable_inv: "reachable init step s \<Longrightarrow> inv s"
  by (induction rule: reachable.induct) (auto intro: init_inv step_inv)

lemma steps_inv: "step\<^sup>*\<^sup>* s t \<Longrightarrow> inv s \<Longrightarrow> inv t"
  by (induction rule: rtranclp_induct) (auto intro: step_inv)

end

end
