(* ===== verification/Call_Protocol.thy ===== *)
theory Call_Protocol
  imports Callbridge_Prelude
begin

text \<open>
  The call-control packet format (\<open>internal/protocol/protocol.go\<close> of \<open>callbridge-le-call-go\<close>):
  the caller identity payload, the 128-byte message with its validation, and device address
  normalisation. The standard library's \<open>net.ParseMAC\<close> and \<open>HardwareAddr.String\<close> are
  translated from Go's own sources, since the validity of every message depends on them.

  The lemmas show that both formats are codecs in the sense of the prelude's locale, that a
  packet of a 17-byte device address has one encoding only, and that normalisation is
  idempotent.
\<close>

section \<open>net.ParseMAC and HardwareAddr.String\<close>

definition hex_val :: "char \<Rightarrow> nat option" where
  "hex_val c =
     (let n = of_char c :: nat in
      if 48 \<le> n \<and> n \<le> 57 then Some (n - 48)
      else if 97 \<le> n \<and> n \<le> 102 then Some (n - 87)
      else if 65 \<le> n \<and> n \<le> 70 then Some (n - 55)
      else None)"

definition xtoi2 :: "string \<Rightarrow> char \<Rightarrow> byte option" where
  "xtoi2 s e =
     (if 2 < length s \<and> s ! 2 \<noteq> e then None
      else case s of
        a # b # _ \<Rightarrow> (case (hex_val a, hex_val b) of
            (Some x, Some y) \<Rightarrow> Some (of_nat (16 * x + y))
          | _ \<Rightarrow> None)
      | _ \<Rightarrow> None)"

primrec mac_colon :: "nat \<Rightarrow> char \<Rightarrow> string \<Rightarrow> bytes option" where
  "mac_colon 0 e s = Some []"
| "mac_colon (Suc n) e s =
     (case xtoi2 s e of
        None \<Rightarrow> None
      | Some b \<Rightarrow> map_option ((#) b) (mac_colon n e (drop 3 s)))"

primrec mac_dot :: "nat \<Rightarrow> char \<Rightarrow> string \<Rightarrow> bytes option" where
  "mac_dot 0 e s = Some []"
| "mac_dot (Suc n) e s =
     (case (xtoi2 (take 2 s) (CHR 0x00), xtoi2 (drop 2 s) e) of
        (Some a, Some b) \<Rightarrow> map_option (\<lambda>r. a # b # r) (mac_dot n e (drop 5 s))
      | _ \<Rightarrow> None)"

definition ParseMAC :: "string \<Rightarrow> bytes option" where
  "ParseMAC s =
     (if length s < 14 then None
      else if s ! 2 = CHR '':'' \<or> s ! 2 = CHR ''-'' then
        (if (length s + 1) mod 3 \<noteq> 0 then None
         else let n = (length s + 1) div 3 in
           if n \<noteq> 6 \<and> n \<noteq> 8 \<and> n \<noteq> 20 then None else mac_colon n (s ! 2) s)
      else if s ! 4 = CHR ''.'' then
        (if (length s + 1) mod 5 \<noteq> 0 then None
         else let n = 2 * (length s + 1) div 5 in
           if n \<noteq> 6 \<and> n \<noteq> 8 \<and> n \<noteq> 20 then None else mac_dot (n div 2) (s ! 4) s)
      else None)"

definition hex_digit :: "nat \<Rightarrow> char" where
  "hex_digit n = ''0123456789abcdef'' ! n"

definition hex_byte :: "byte \<Rightarrow> string" where
  "hex_byte b = [hex_digit (unat b div 16), hex_digit (unat b mod 16)]"

fun HardwareAddr_String :: "bytes \<Rightarrow> string" where
  "HardwareAddr_String [] = []"
| "HardwareAddr_String [b] = hex_byte b"
| "HardwareAddr_String (b # bs) = hex_byte b @ CHR '':'' # HardwareAddr_String bs"

definition normalizedDevice :: "string \<Rightarrow> string" where
  "normalizedDevice address =
     (case ParseMAC (TrimSpace address) of
        None \<Rightarrow> []
      | Some hardware \<Rightarrow>
          if length hardware \<noteq> 6 then [] else ToUpper (HardwareAddr_String hardware))"

definition NormalizeDevice :: "string \<Rightarrow> string" where
  "NormalizeDevice address = normalizedDevice address"

section \<open>Constants\<close>

definition Version :: byte where [simp]: "Version = 2"
definition PacketSize :: nat where [simp]: "PacketSize = 128"
definition PayloadSize :: nat where [simp]: "PayloadSize = 128 - 50"
definition IdentityURIMax :: nat where [simp]: "IdentityURIMax = 32"
definition IdentityNameMax :: nat where [simp]: "IdentityNameMax = 44"
definition TypeState :: byte where [simp]: "TypeState = 1"
definition TypeCommand :: byte where [simp]: "TypeCommand = 2"
definition TypeAck :: byte where [simp]: "TypeAck = 3"
definition TypeResult :: byte where [simp]: "TypeResult = 4"
definition TypeReady :: byte where [simp]: "TypeReady = 5"
definition FlagSnapshot :: byte where [simp]: "FlagSnapshot = 1"
definition FlagLast :: byte where [simp]: "FlagLast = 2"
definition NoCallState :: byte where [simp]: "NoCallState = 0xff"
definition OpcodeAccept :: byte where [simp]: "OpcodeAccept = 0"
definition OpcodeTerminate :: byte where [simp]: "OpcodeTerminate = 1"
definition OpcodeLocalHold :: byte where [simp]: "OpcodeLocalHold = 2"
definition OpcodeLocalRetrieve :: byte where [simp]: "OpcodeLocalRetrieve = 3"
definition OpcodeOriginate :: byte where [simp]: "OpcodeOriginate = 4"
definition OpcodeJoin :: byte where [simp]: "OpcodeJoin = 5"
definition AckAccepted :: byte where [simp]: "AckAccepted = 0"
definition AckStale :: byte where [simp]: "AckStale = 1"
definition AckUnavailable :: byte where [simp]: "AckUnavailable = 2"
definition AckInvalid :: byte where [simp]: "AckInvalid = 3"
definition AckWriteFailed :: byte where [simp]: "AckWriteFailed = 4"

definition magic :: bytes where
  "magic = bytes_of ''GGCC''"

section \<open>Messages and identities\<close>

record message =
  msg_Type :: byte
  msg_Flags :: byte
  msg_Sequence :: uint64
  msg_Token :: uint64
  msg_Device :: string
  msg_Index :: byte
  msg_Code :: byte
  msg_Value :: byte
  msg_Payload :: bytes

record identity =
  id_URI :: string
  id_Name :: string

datatype protocol_error =
    Identity_bound | Identity_uri_bounds | Identity_name_bounds
  | Packet_header | Payload_bound | Packet_padding
  | Message_invalid | Device_invalid
  | State_not_snapshot | State_empty_invalid | State_invalid
  | Command_flags | Command_opcode | Command_originate | Command_indexed
  | Ack_invalid | Result_invalid | Ready_invalid

definition no_identity :: identity where
  "no_identity = \<lparr>id_URI = [], id_Name = []\<rparr>"

definition identity_empty :: "identity \<Rightarrow> bool" where
  "identity_empty i \<longleftrightarrow> id_URI i = [] \<and> id_Name i = []"

definition EncodeIdentity :: "identity \<Rightarrow> protocol_error + bytes" where
  "EncodeIdentity i =
     (if identity_empty i then Inr []
      else let uri = bytes_of (id_URI i); name = bytes_of (id_Name i) in
        if length uri > IdentityURIMax \<or> length name > IdentityNameMax then Inl Identity_bound
        else Inr ([of_nat (length uri)] @ uri @ [of_nat (length name)] @ name))"

definition DecodeIdentity :: "bytes \<Rightarrow> protocol_error + identity" where
  "DecodeIdentity payload =
     (if length payload = 0 then Inr no_identity
      else let uriLength = unat (payload ! 0) in
        if uriLength > IdentityURIMax \<or> 1 + uriLength \<ge> length payload then Inl Identity_uri_bounds
        else let nameOffset = 1 + uriLength; nameLength = unat (payload ! nameOffset) in
          if nameLength > IdentityNameMax \<or> nameOffset + 1 + nameLength \<noteq> length payload
          then Inl Identity_name_bounds
          else Inr \<lparr>id_URI = string_of (subslice 1 (1 + uriLength) payload),
                    id_Name = string_of (subslice (nameOffset + 1) (nameOffset + 1 + nameLength) payload)\<rparr>)"

section \<open>Validation\<close>

definition validCallReference :: "byte \<Rightarrow> byte \<Rightarrow> uint64 \<Rightarrow> bool" where
  "validCallReference opcode index token =
     (if opcode = OpcodeOriginate
      then (index = 0 \<and> token = 0) \<or> (index \<noteq> 0 \<and> token \<noteq> 0)
      else index \<noteq> 0 \<and> token \<noteq> 0)"

definition ValidResult :: "byte \<Rightarrow> bool" where
  "ValidResult result \<longleftrightarrow> result \<le> 4 \<or> result = 6"

definition ValidURI :: "string \<Rightarrow> bool" where
  "ValidURI uri =
     (if length uri < 5 \<or> length uri > PayloadSize \<or> \<not> HasPrefix uri ''tel:'' then False
      else \<forall>c \<in> set (drop 4 uri). is_digit c \<or> c = CHR ''+'' \<or> c = CHR ''*'' \<or> c = CHR ''#'')"

definition validate :: "message \<Rightarrow> protocol_error option" where
  "validate m =
     (if msg_Type m < TypeState \<or> msg_Type m > TypeReady
         \<or> msg_Flags m AND NOT (FlagSnapshot OR FlagLast) \<noteq> 0
         \<or> msg_Sequence m = 0 \<or> length (msg_Payload m) > PayloadSize
      then Some Message_invalid
      else if normalizedDevice (msg_Device m) = [] then Some Device_invalid
      else if msg_Type m = TypeState then
        (if msg_Flags m AND FlagSnapshot = 0 then Some State_not_snapshot
         else if msg_Code m = NoCallState then
           (if msg_Index m \<noteq> 0 \<or> msg_Token m \<noteq> 0 \<or> msg_Value m \<noteq> 0 \<or> length (msg_Payload m) \<noteq> 0
            then Some State_empty_invalid else None)
         else if msg_Index m = 0 \<or> msg_Token m = 0 \<or> msg_Code m > 6 \<or> msg_Value m AND NOT 7 \<noteq> 0
         then Some State_invalid
         else (case DecodeIdentity (msg_Payload m) of Inl e \<Rightarrow> Some e | Inr _ \<Rightarrow> None))
      else if msg_Type m = TypeCommand then
        (if msg_Flags m \<noteq> 0 then Some Command_flags
         else if msg_Code m > OpcodeJoin then Some Command_opcode
         else if msg_Code m = OpcodeOriginate then
           (if msg_Index m \<noteq> 0 \<or> msg_Token m \<noteq> 0 \<or> \<not> ValidURI (string_of (msg_Payload m))
            then Some Command_originate else None)
         else if msg_Index m = 0 \<or> msg_Token m = 0 \<or> length (msg_Payload m) \<noteq> 0
         then Some Command_indexed else None)
      else if msg_Type m = TypeAck then
        (if msg_Flags m \<noteq> 0 \<or> msg_Code m > OpcodeJoin \<or> msg_Value m > AckWriteFailed
            \<or> length (msg_Payload m) \<noteq> 0
            \<or> \<not> validCallReference (msg_Code m) (msg_Index m) (msg_Token m)
         then Some Ack_invalid else None)
      else if msg_Type m = TypeResult then
        (if msg_Flags m \<noteq> 0 \<or> msg_Code m > OpcodeJoin
            \<or> \<not> validCallReference (msg_Code m) (msg_Index m) (msg_Token m)
            \<or> \<not> ValidResult (msg_Value m) \<or> length (msg_Payload m) \<noteq> 0
         then Some Result_invalid else None)
      else if msg_Type m = TypeReady then
        (if msg_Flags m \<noteq> 0 \<or> msg_Index m \<noteq> 0 \<or> msg_Token m \<noteq> 0 \<or> msg_Code m > 1
            \<or> msg_Value m \<noteq> 0 \<or> length (msg_Payload m) \<noteq> 0
         then Some Ready_invalid else None)
      else None)"

section \<open>Packets\<close>

definition Encode :: "message \<Rightarrow> protocol_error + bytes" where
  "Encode m =
     (case validate m of
        Some e \<Rightarrow> Inl e
      | None \<Rightarrow>
          let packet = replicate PacketSize 0;
              packet = blit 0 magic packet;
              packet = packet[4 := Version];
              packet = packet[5 := msg_Type m];
              packet = packet[6 := msg_Flags m];
              packet = blit 8 (put_le 8 (msg_Sequence m)) packet;
              packet = blit 16 (put_le 8 (msg_Token m)) packet;
              packet = packet[24 := msg_Index m];
              packet = packet[25 := msg_Code m];
              packet = packet[26 := msg_Value m];
              packet = blit 28 (put_le 2 (of_nat (length (msg_Payload m)) :: uint16)) packet;
              packet = blit 32 (take (49 - 32) (bytes_of (msg_Device m))) packet;
              packet = blit 50 (take (PacketSize - 50) (msg_Payload m)) packet
          in Inr packet)"

text \<open>The loop that finds the end of the device field.\<close>

function device_end :: "bytes \<Rightarrow> nat \<Rightarrow> nat" where
  "device_end packet i = (if i < 49 \<and> packet ! i \<noteq> 0 then device_end packet (Suc i) else i)"
  by pat_completeness auto
termination
  by (relation "measure (\<lambda>(packet, i). 49 - i)") auto

declare device_end.simps [simp del]

definition Decode :: "bytes \<Rightarrow> protocol_error + message" where
  "Decode packet =
     (if length packet \<noteq> PacketSize \<or> subslice 0 4 packet \<noteq> magic \<or> packet ! 4 \<noteq> Version
         \<or> packet ! 7 \<noteq> 0 \<or> packet ! 27 \<noteq> 0 \<or> get_le (subslice 30 32 packet) \<noteq> (0 :: uint16)
         \<or> packet ! 49 \<noteq> 0
      then Inl Packet_header
      else let payloadLength = unat (get_le (subslice 28 30 packet) :: uint16) in
        if payloadLength > PayloadSize then Inl Payload_bound
        else if \<exists>v \<in> set (drop (50 + payloadLength) packet). v \<noteq> 0 then Inl Packet_padding
        else let deviceEnd = device_end packet 32;
                 m = \<lparr>msg_Type = packet ! 5, msg_Flags = packet ! 6,
                      msg_Sequence = get_le (subslice 8 16 packet),
                      msg_Token = get_le (subslice 16 24 packet),
                      msg_Device = string_of (subslice 32 deviceEnd packet),
                      msg_Index = packet ! 24, msg_Code = packet ! 25, msg_Value = packet ! 26,
                      msg_Payload = subslice 50 (50 + payloadLength) packet\<rparr>
          in (case validate m of Some e \<Rightarrow> Inl e | None \<Rightarrow> Inr m))"

section \<open>The layout of a packet\<close>

text \<open>\<open>layout m\<close> is the packet \<open>Encode\<close> builds, as the concatenation of its fields.\<close>

definition layout :: "message \<Rightarrow> bytes" where
  "layout m = magic @ [Version, msg_Type m, msg_Flags m, 0] @ put_le 8 (msg_Sequence m)
     @ put_le 8 (msg_Token m) @ [msg_Index m, msg_Code m, msg_Value m, 0]
     @ put_le 2 (of_nat (length (msg_Payload m)) :: uint16) @ [0, 0]
     @ take 17 (bytes_of (msg_Device m)) @ replicate (17 - length (msg_Device m)) 0 @ [0]
     @ msg_Payload m @ replicate (78 - length (msg_Payload m)) 0"

lemma length_magic [simp]: "length magic = 4"
  by (simp add: magic_def)

lemma zero_packet:
  "replicate 128 (0::byte) = replicate 4 0 @ [0, 0, 0, 0] @ replicate 8 0 @ replicate 8 0 @ [0, 0, 0, 0]
     @ replicate 2 0 @ [0, 0] @ replicate 17 0 @ [0] @ replicate 78 0"
  by (simp add: numeral_eq_Suc)

lemma validate_payload: "validate m = None \<Longrightarrow> length (msg_Payload m) \<le> 78"
  by (auto simp: validate_def split: if_splits)

lemma Encode_layout: "validate m = None \<Longrightarrow> Encode m = Inr (layout m)"
  using validate_payload [of m]
  by (simp add: Encode_def Let_def zero_packet layout_def wire_simps)


lemma device_end_eq:
  "i \<le> 49 \<Longrightarrow> 49 \<le> length p \<Longrightarrow>
    device_end p i = i + length (takeWhile (\<lambda>b. b \<noteq> 0) (subslice i 49 p))"
proof (induction p i rule: device_end.induct)
  case (1 p i)
  show ?case
  proof (cases "i < 49")
    case True
    then have "subslice i 49 p = p ! i # subslice (Suc i) 49 p"
      using "1.prems" by (simp add: subslice_Cons_nth)
    with True "1.prems" "1.IH" show ?thesis by (simp add: device_end.simps [of p i])
  next
    case False
    with "1.prems" have "i = 49" by simp
    then show ?thesis by (simp add: device_end.simps [of p 49] subslice_def)
  qed
qed

lemma device_field:
  "49 \<le> length p \<Longrightarrow> subslice 32 (device_end p 32) p = takeWhile (\<lambda>b. b \<noteq> 0) (subslice 32 49 p)"
proof -
  assume p: "49 \<le> length p"
  let ?w = "takeWhile (\<lambda>b. b \<noteq> 0) (subslice 32 49 p)"
  have le: "length ?w \<le> 17" using length_takeWhile_le [of "\<lambda>b. b \<noteq> 0" "subslice 32 49 p"] p by simp
  have "?w = take (length ?w) (subslice 32 49 p)" by (rule takeWhile_eq_take)
  also have "\<dots> = take (length ?w) (drop 32 p)" using le by (simp add: subslice_def min_def)
  finally show ?thesis using p by (simp add: device_end_eq) (simp add: subslice_def)
qed

lemma space_encodings_no_NUL: "CHR 0x00 \<notin> set (concat space_encodings)"
  by (simp add: space_encodings_def)

definition mac_char :: "char \<Rightarrow> bool" where
  "mac_char c \<longleftrightarrow> hex_val c \<noteq> None \<or> c = CHR '':'' \<or> c = CHR ''-'' \<or> c = CHR ''.''"

lemma xtoi2_Some:
  "xtoi2 s e = Some b \<Longrightarrow> \<exists>x y r. s = x # y # r \<and> hex_val x \<noteq> None \<and> hex_val y \<noteq> None
     \<and> (r = [] \<or> hd r = e)"
  by (auto simp: xtoi2_def split: list.splits option.splits if_splits) (metis hd_conv_nth)

lemma mac_colon_chars:
  "mac_colon n e s = Some bs \<Longrightarrow> length s + 1 = 3 * n \<Longrightarrow> c \<in> set s \<Longrightarrow> hex_val c \<noteq> None \<or> c = e"
proof (induction n arbitrary: s bs)
  case 0
  then show ?case by simp
next
  case (Suc n)
  from Suc.prems(1) obtain b bs' where b: "xtoi2 s e = Some b" "mac_colon n e (drop 3 s) = Some bs'"
    by (auto split: option.splits)
  from xtoi2_Some [OF b(1)] obtain x y r where
    s: "s = x # y # r" "hex_val x \<noteq> None" "hex_val y \<noteq> None" "r = [] \<or> hd r = e" by blast
  show ?case
  proof (cases r)
    case Nil
    with s Suc.prems(3) show ?thesis by auto
  next
    case (Cons z r')
    with Suc.IH [OF b(2)] s Suc.prems show ?thesis by (auto simp: numeral_3_eq_3)
  qed
qed

lemma mac_dot_chars:
  "mac_dot n e s = Some bs \<Longrightarrow> length s + 1 = 5 * n \<Longrightarrow> c \<in> set s \<Longrightarrow> hex_val c \<noteq> None \<or> c = e"
proof (induction n arbitrary: s bs)
  case 0
  then show ?case by simp
next
  case (Suc n)
  from Suc.prems(1) obtain a b bs' where b: "xtoi2 (take 2 s) (CHR 0x00) = Some a" "xtoi2 (drop 2 s) e = Some b"
      "mac_dot n e (drop 5 s) = Some bs'"
    by (auto split: option.splits)
  from xtoi2_Some [OF b(2)] obtain x y r where
    s: "drop 2 s = x # y # r" "hex_val x \<noteq> None" "hex_val y \<noteq> None" "r = [] \<or> hd r = e" by blast
  from xtoi2_Some [OF b(1)] obtain u v q where
    t: "take 2 s = u # v # q" "hex_val u \<noteq> None" "hex_val v \<noteq> None" by blast
  have "length (take 2 s) \<le> 2" by simp
  with t have "q = []" by simp
  with s t have s': "s = u # v # x # y # r" by (metis append_Cons append_Nil append_take_drop_id)
  show ?case
  proof (cases r)
    case Nil
    with s s' t Suc.prems(3) show ?thesis by auto
  next
    case (Cons z r')
    with Suc.IH [OF b(3)] s s' t Suc.prems show ?thesis by (auto simp: eval_nat_numeral)
  qed
qed

lemma ParseMAC_chars:
  assumes "ParseMAC s = Some hw" and "c \<in> set s"
  shows "mac_char c"
proof (cases "s ! 2 = CHR '':'' \<or> s ! 2 = CHR ''-''")
  case True
  with assms(1) have "(length s + 1) mod 3 = 0" "mac_colon ((length s + 1) div 3) (s ! 2) s = Some hw"
    by (auto simp: ParseMAC_def Let_def split: if_splits)
  moreover from this(1) have "length s + 1 = 3 * ((length s + 1) div 3)" by presburger
  ultimately have "hex_val c \<noteq> None \<or> c = s ! 2" using mac_colon_chars [OF _ _ assms(2)] by blast
  with True show ?thesis by (auto simp: mac_char_def)
next
  case False
  with assms(1) have d: "(length s + 1) mod 5 = 0" "s ! 4 = CHR ''.''"
    "mac_dot (2 * (length s + 1) div 5 div 2) (s ! 4) s = Some hw"
    by (auto simp: ParseMAC_def Let_def split: if_splits)
  moreover from this(1) obtain k where "length s + 1 = 5 * k" by (auto simp: mod_eq_0_iff_dvd)
  then have "length s + 1 = 5 * (2 * (length s + 1) div 5 div 2)" by simp
  ultimately have "hex_val c \<noteq> None \<or> c = s ! 4" using mac_dot_chars [OF _ _ assms(2)] by blast
  with d(2) show ?thesis by (auto simp: mac_char_def)
qed


lemma normalizedDevice_no_NUL:
  assumes "normalizedDevice d \<noteq> []"
  shows "CHR 0x00 \<notin> set d"
proof
  assume nul: "CHR 0x00 \<in> set d"
  obtain hw where hw: "ParseMAC (TrimSpace d) = Some hw"
    using assms by (auto simp: normalizedDevice_def split: option.splits)
  obtain p q where d: "d = p @ TrimSpace d @ q" and pq: "set p \<subseteq> set (concat space_encodings)"
    "set q \<subseteq> set (concat space_encodings)"
    using TrimSpace_parts by blast
  have "CHR 0x00 \<notin> set p" "CHR 0x00 \<notin> set q"
    using pq space_encodings_no_NUL by blast+
  with nul d have "CHR 0x00 \<in> set (TrimSpace d)" by (metis Un_iff set_append)
  then have "mac_char (CHR 0x00)" by (rule ParseMAC_chars [OF hw])
  moreover have "\<not> mac_char (CHR 0x00)" by code_simp
  ultimately show False by blast
qed

lemma byte_of_char_eq_0 [simp]: "byte_of_char c = 0 \<longleftrightarrow> c = CHR 0x00"
proof
  assume "byte_of_char c = 0"
  then have "c = char_of_byte 0" by (metis char_of_byte_of_char)
  moreover have "char_of_byte 0 = CHR 0x00" by code_simp
  ultimately show "c = CHR 0x00" by simp
next
  assume "c = CHR 0x00"
  then show "byte_of_char c = 0" by (simp add: byte_of_char_def)
qed

lemma takeWhile_device:
  "CHR 0x00 \<notin> set d \<Longrightarrow> takeWhile (\<lambda>b. b \<noteq> 0) (bytes_of d @ replicate n 0) = bytes_of d"
  by (induction d) (auto simp: bytes_of_def takeWhile_replicate)

lemma validate_device: "validate m = None \<Longrightarrow> normalizedDevice (msg_Device m) \<noteq> []"
  by (auto simp: validate_def split: if_splits)

lemma layout_fields:
  assumes "length (msg_Device m) \<le> 17" and "length (msg_Payload m) \<le> 78"
  shows "length (layout m) = 128" and "subslice 0 4 (layout m) = magic" and "layout m ! 4 = 2"
    and "layout m ! 5 = msg_Type m" and "layout m ! 6 = msg_Flags m" and "layout m ! 7 = 0"
    and "subslice 8 16 (layout m) = put_le 8 (msg_Sequence m)"
    and "subslice 16 24 (layout m) = put_le 8 (msg_Token m)"
    and "layout m ! 24 = msg_Index m" and "layout m ! 25 = msg_Code m" and "layout m ! 26 = msg_Value m"
    and "layout m ! 27 = 0"
    and "subslice 28 30 (layout m) = put_le 2 (of_nat (length (msg_Payload m)) :: uint16)"
    and "subslice 30 32 (layout m) = [0, 0]"
    and "subslice 32 49 (layout m) = bytes_of (msg_Device m) @ replicate (17 - length (msg_Device m)) 0"
    and "layout m ! 49 = 0"
    and "drop 50 (layout m) = msg_Payload m @ replicate (78 - length (msg_Payload m)) 0"
  using assms by (simp_all add: layout_def wire_simps subslice_join)


lemma message_eta [simp]:
  "\<lparr>msg_Type = msg_Type m, msg_Flags = msg_Flags m, msg_Sequence = msg_Sequence m,
    msg_Token = msg_Token m, msg_Device = msg_Device m, msg_Index = msg_Index m,
    msg_Code = msg_Code m, msg_Value = msg_Value m, msg_Payload = msg_Payload m\<rparr> = m"
  by simp

lemma Decode_layout:
  assumes "validate m = None" and "length (msg_Device m) \<le> 17"
  shows "Decode (layout m) = Inr m"
proof -
  note pl = validate_payload [OF assms(1)]
  note fields = layout_fields [OF assms(2) pl]
  have dev: "subslice 32 (device_end (layout m) 32) (layout m) = bytes_of (msg_Device m)"
    using normalizedDevice_no_NUL [OF validate_device [OF assms(1)]]
    by (simp add: device_field fields takeWhile_device)
  have len: "unat (of_nat (length (msg_Payload m)) :: uint16) = length (msg_Payload m)"
    using pl by simp
  have "drop (50 + length (msg_Payload m)) (layout m) = replicate (78 - length (msg_Payload m)) 0"
    using fields(17) by (simp add: add.commute flip: drop_drop)
  moreover have "subslice 50 (50 + length (msg_Payload m)) (layout m) = msg_Payload m"
    by (simp add: subslice_def fields)
  ultimately show ?thesis
    using assms(1) pl by (simp add: Decode_def Let_def fields dev len)
qed

definition message_ok :: "message \<Rightarrow> bool" where
  "message_ok m \<longleftrightarrow> validate m = None \<and> length (msg_Device m) \<le> 17"

lemma Decode_ok:
  assumes "Decode p = Inr m"
  shows "message_ok m"
proof -
  from assms have v: "validate m = None" and len: "length p = 128"
    and dev: "msg_Device m = string_of (subslice 32 (device_end p 32) p)"
    by (auto simp: Decode_def Let_def split: if_splits option.splits)
  have "length (takeWhile (\<lambda>b. b \<noteq> 0) (subslice 32 49 p)) \<le> length (subslice 32 49 p)"
    by (rule length_takeWhile_le)
  with len have "length (msg_Device m) \<le> 17" by (simp add: dev device_field)
  with v show ?thesis by (simp add: message_ok_def)
qed

interpretation packet: wire_codec message_ok Encode Decode
proof
  show "\<exists>p. Encode x = Inr p" if "message_ok x" for x
    using that by (auto simp: message_ok_def Encode_layout)
  show "Decode p = Inr x" if "message_ok x" "Encode x = Inr p" for x p
    using that by (auto simp: message_ok_def Encode_layout Decode_layout)
  show "message_ok x" if "Decode p = Inr x" for p x
    using that by (rule Decode_ok)
qed

section \<open>Identity payloads\<close>

definition identity_ok :: "identity \<Rightarrow> bool" where
  "identity_ok i \<longleftrightarrow> length (id_URI i) \<le> 32 \<and> length (id_Name i) \<le> 44"

lemma DecodeIdentity_parts:
  assumes "length u \<le> 32" "length n \<le> 44"
  shows "DecodeIdentity ([of_nat (length u)] @ u @ [of_nat (length n)] @ n)
    = Inr \<lparr>id_URI = string_of u, id_Name = string_of n\<rparr>"
  using assms by (simp add: DecodeIdentity_def Let_def wire_simps nth_append subslice_def)

interpretation ident: wire_codec identity_ok EncodeIdentity DecodeIdentity
proof
  show "\<exists>p. EncodeIdentity x = Inr p" if "identity_ok x" for x
    using that by (auto simp: identity_ok_def EncodeIdentity_def Let_def)
  show "DecodeIdentity p = Inr x" if "identity_ok x" "EncodeIdentity x = Inr p" for x p
  proof (cases "identity_empty x")
    case True
    with that show ?thesis
      by (cases x) (auto simp: identity_empty_def EncodeIdentity_def DecodeIdentity_def no_identity_def)
  next
    case False
    with that show ?thesis
      using DecodeIdentity_parts [of "bytes_of (id_URI x)" "bytes_of (id_Name x)"]
      by (cases x) (auto simp: identity_ok_def EncodeIdentity_def Let_def)
  qed
  show "identity_ok x" if "DecodeIdentity p = Inr x" for p x
    using that by (auto simp: DecodeIdentity_def Let_def identity_ok_def no_identity_def split: if_splits)
qed

section \<open>Canonical packets\<close>

lemma packet_split:
  assumes "length p = 128"
  shows "p = subslice 0 4 p @ [p ! 4, p ! 5, p ! 6, p ! 7] @ subslice 8 16 p @ subslice 16 24 p
    @ [p ! 24, p ! 25, p ! 26, p ! 27] @ subslice 28 30 p @ subslice 30 32 p @ subslice 32 49 p
    @ [p ! 49] @ drop 50 p"
proof -
  have nth: "drop i p = p ! i # drop (Suc i) p" if "i < 128" for i
    using that assms by (simp add: Cons_nth_drop_Suc)
  have "p = subslice 0 4 p @ drop 4 p" using drop_subslice [of 0 4 p] by simp
  also have "drop 4 p = [p ! 4, p ! 5, p ! 6, p ! 7] @ drop 8 p"
    by (simp add: nth [of 4] nth [of 5] nth [of 6] nth [of 7])
  also have "drop 8 p = subslice 8 16 p @ subslice 16 24 p @ drop 24 p"
    by (simp add: drop_subslice [of 8 16] drop_subslice [of 16 24])
  also have "drop 24 p = [p ! 24, p ! 25, p ! 26, p ! 27] @ drop 28 p"
    by (simp add: nth [of 24] nth [of 25] nth [of 26] nth [of 27])
  also have "drop 28 p = subslice 28 30 p @ subslice 30 32 p @ subslice 32 49 p @ drop 49 p"
    by (simp add: drop_subslice [of 28 30] drop_subslice [of 30 32] drop_subslice [of 32 49])
  also have "drop 49 p = [p ! 49] @ drop 50 p" by (simp add: nth [of 49])
  finally show ?thesis by simp
qed

lemma Decode_canonical:
  assumes "Decode p = Inr m" and "length (msg_Device m) = 17"
  shows "layout m = p"
proof -
  let ?n = "unat (get_le (subslice 28 30 p) :: uint16)"
  from assms(1) have h: "length p = 128" "subslice 0 4 p = magic" "p ! 4 = 2" "p ! 7 = 0" "p ! 27 = 0"
      "get_le (subslice 30 32 p) = (0::uint16)" "p ! 49 = 0" "?n \<le> 78"
      "\<forall>v \<in> set (drop (50 + ?n) p). v = 0"
    and m: "m = \<lparr>msg_Type = p ! 5, msg_Flags = p ! 6,
                 msg_Sequence = get_le (subslice 8 16 p), msg_Token = get_le (subslice 16 24 p),
                 msg_Device = string_of (subslice 32 (device_end p 32) p),
                 msg_Index = p ! 24, msg_Code = p ! 25, msg_Value = p ! 26,
                 msg_Payload = subslice 50 (50 + ?n) p\<rparr>"
    by (auto simp: Decode_def Let_def split: if_splits option.splits)
  have pad: "subslice 30 32 p = [0, 0]"
    using put_get_le16 [of "subslice 30 32 p"] h(1,6) by (simp add: numeral_2_eq_2)
  have "length (takeWhile (\<lambda>b. b \<noteq> 0) (subslice 32 49 p)) = length (subslice 32 49 p)"
    using assms(2) m h(1) by (simp add: device_field)
  then have "takeWhile (\<lambda>b. b \<noteq> 0) (subslice 32 49 p) = subslice 32 49 p"
    by (metis takeWhile_eq_take take_all order_refl)
  then have dev: "bytes_of (msg_Device m) = subslice 32 49 p"
    using m h(1) by (simp add: device_field)
  have "drop 50 p = subslice 50 (50 + ?n) p @ drop (50 + ?n) p" by (rule drop_subslice) simp
  moreover have "drop (50 + ?n) p = replicate (78 - ?n) 0"
    using h by (intro replicate_eqI) auto
  moreover have "length (subslice 50 (50 + ?n) p) = ?n" using h by simp
  ultimately have tail: "drop 50 p = msg_Payload m @ replicate (78 - length (msg_Payload m)) 0"
    and len: "length (msg_Payload m) = ?n"
    using m by simp_all
  have "layout m = subslice 0 4 p @ [p ! 4, p ! 5, p ! 6, p ! 7] @ subslice 8 16 p @ subslice 16 24 p
    @ [p ! 24, p ! 25, p ! 26, p ! 27] @ subslice 28 30 p @ subslice 30 32 p @ subslice 32 49 p
    @ [p ! 49] @ drop 50 p"
    using m h(1-5,7) pad dev tail len assms(2) by (simp add: layout_def)
  also have "\<dots> = p" by (rule packet_split [OF h(1), symmetric])
  finally show ?thesis .
qed

section \<open>Normalised addresses\<close>

lemma hex_val_hex_digit: "n < 16 \<Longrightarrow> hex_val (upper_char (hex_digit n)) = Some n"
proof -
  assume "n < 16"
  then have "n \<in> set [0..<16]" by simp
  also have "[0..<16] = [0, 1, 2, 3, 4, 5, 6, 7, 8, 9, 10, 11, 12, 13, 14, 15]" by code_simp
  finally have "n \<in> {0, 1, 2, 3, 4, 5, 6, 7, 8, 9, 10, 11, 12, 13, 14, 15}" by simp
  then show ?thesis by (auto simp: hex_digit_def upper_char_def hex_val_def)
qed

lemma ToUpper_HardwareAddr:
  "ToUpper (HardwareAddr_String [a, b, c, d, e, f]) =
     (let h = \<lambda>x. [upper_char (hex_digit (unat x div 16)), upper_char (hex_digit (unat x mod 16))] in
      h a @ CHR '':'' # h b @ CHR '':'' # h c @ CHR '':'' # h d @ CHR '':'' # h e @ CHR '':'' # h f)"
  by (simp add: ToUpper_def hex_byte_def upper_char_def [of "CHR '':''"])

lemma unat_byte_lt: "unat (b :: byte) < 256"
  using unsigned_less [of b, where 'a = nat] by simp

lemma xtoi2_hex_byte:
  "r = [] \<or> hd r = e \<Longrightarrow>
   xtoi2 (upper_char (hex_digit (unat b div 16)) # upper_char (hex_digit (unat b mod 16)) # r) e = Some b"
  using unat_byte_lt [of b]
  by (cases r) (auto simp: xtoi2_def hex_val_hex_digit)


lemma upper_hex_not_space:
  "hex_val c \<noteq> None \<Longrightarrow> e \<in> set space_encodings \<Longrightarrow> e \<noteq> [] \<Longrightarrow> c \<noteq> hd e \<and> c \<noteq> last e"
  by (auto simp: space_encodings_def hex_val_def)

lemma ParseMAC_HardwareAddr:
  assumes "length hw = 6"
  defines "s \<equiv> ToUpper (HardwareAddr_String hw)"
  shows "ParseMAC s = Some hw" and "TrimSpace s = s" and "length s = 17"
proof -
  obtain a b c d e f where hw: "hw = [a, b, c, d, e, f]"
    using assms(1) by (auto simp: length_Suc_conv eval_nat_numeral)
  note s = s_def [unfolded hw ToUpper_HardwareAddr Let_def]
  have six: "mac_colon 6 = mac_colon (Suc (Suc (Suc (Suc (Suc (Suc 0))))))" by (simp add: eval_nat_numeral)
  show len: "length s = 17" by (simp add: s)
  have two: "s ! 2 = CHR '':''" by (simp add: s)
  show "ParseMAC s = Some hw"
    by (simp add: ParseMAC_def len two) (simp add: six s hw xtoi2_hex_byte)
  have "hex_val (hd s) \<noteq> None" "hex_val (last s) \<noteq> None"
    using unat_byte_lt [of a] unat_byte_lt [of f] by (simp_all add: s hex_val_hex_digit)
  then show "TrimSpace s = s"
    using upper_hex_not_space by (intro TrimSpace_id) blast+
qed

lemma normalizedDevice_shape:
  "normalizedDevice d \<noteq> [] \<Longrightarrow> \<exists>hw. length hw = 6 \<and> normalizedDevice d = ToUpper (HardwareAddr_String hw)"
  by (auto simp: normalizedDevice_def split: option.splits if_splits)

lemma normalizedDevice_idem:
  "normalizedDevice d \<noteq> [] \<Longrightarrow>
     normalizedDevice (normalizedDevice d) = normalizedDevice d \<and> length (normalizedDevice d) = 17"
  using normalizedDevice_shape [of d] ParseMAC_HardwareAddr
  by (auto simp: normalizedDevice_def [of "ToUpper x" for x])

section \<open>Properties\<close>

text \<open>
  C16. Round trip of the call-control packet. A message that \<open>validate\<close> accepts and whose device
  address fits the 17-byte field is encoded into a packet of exactly 128 bytes, and decoding that
  packet gives the same message back, field by field.
\<close>

theorem protocol_roundtrip:
  assumes "validate m = None" and "length (msg_Device m) \<le> 17"
  shows "\<exists>p. Encode m = Inr p \<and> length p = PacketSize \<and> Decode p = Inr m"
  using packet.roundtrip [of m] assms layout_fields(1) [OF assms(2) validate_payload [OF assms(1)]]
  by (auto simp: message_ok_def Encode_layout)

definition sample_device :: string where
  "sample_device = ToUpper (HardwareAddr_String [0, 17, 34, 51, 68, 85])"

definition sample_command :: message where
  "sample_command = \<lparr>msg_Type = TypeCommand, msg_Flags = 0, msg_Sequence = 7, msg_Token = 9,
     msg_Device = sample_device, msg_Index = 3, msg_Code = OpcodeAccept, msg_Value = 0,
     msg_Payload = []\<rparr>"

lemma sample_device_normal:
  "normalizedDevice sample_device = sample_device" "length sample_device = 17" "sample_device \<noteq> []"
  using ParseMAC_HardwareAddr [of "[0, 17, 34, 51, 68, 85]"]
  by (auto simp: sample_device_def normalizedDevice_def)

lemma sample_command_valid: "validate sample_command = None"
  by (simp add: validate_def sample_command_def sample_device_normal)

theorem protocol_roundtrip_witness:
  "validate sample_command = None \<and> length (msg_Device sample_command) \<le> 17
   \<and> (\<exists>p. Encode sample_command = Inr p \<and> length p = PacketSize \<and> Decode p = Inr sample_command)"
  using protocol_roundtrip [of sample_command] sample_command_valid
  by (simp add: sample_command_def sample_device_normal)

text \<open>
  What the decoder accepts. Every packet \<open>Decode\<close> accepts holds a message that \<open>validate\<close>
  accepts and that can be sent on unchanged: it encodes again, to a packet with the same meaning.
  If the device address fills its field (the form every component normalises to) that packet is
  the received one, bit for bit: there is no second spelling of such a message.
\<close>

theorem decoded_reencodes:
  assumes "Decode p = Inr m"
  shows "validate m = None
    \<and> (\<exists>q. Encode m = Inr q \<and> Decode q = Inr m \<and> (length (msg_Device m) = 17 \<longrightarrow> q = p))"
  using packet.reencode [OF assms] Decode_ok [OF assms] Decode_canonical [OF assms]
  by (auto simp: message_ok_def Encode_layout)

theorem decoded_reencodes_witness:
  "Decode (layout sample_command) = Inr sample_command \<and> validate sample_command = None
    \<and> (\<exists>q. Encode sample_command = Inr q \<and> Decode q = Inr sample_command \<and> q = layout sample_command)"
  using decoded_reencodes [of "layout sample_command" sample_command]
    Decode_layout [OF sample_command_valid]
  by (simp add: sample_command_def sample_device_normal)

text \<open>
  Caller identity payloads. An identity within the limits encodes, to at most as many bytes as
  the payload field has, and decodes to itself; whatever decodes is within the limits. So every
  identity the store accepts can be shown on every connected controller.
\<close>

theorem identity_roundtrip:
  "(\<exists>payload. EncodeIdentity i = Inr payload \<and> length payload \<le> PayloadSize \<and> DecodeIdentity payload = Inr i)
     \<longleftrightarrow> length (id_URI i) \<le> IdentityURIMax \<and> length (id_Name i) \<le> IdentityNameMax"
proof
  assume "\<exists>payload. EncodeIdentity i = Inr payload \<and> length payload \<le> PayloadSize \<and> DecodeIdentity payload = Inr i"
  then show "length (id_URI i) \<le> IdentityURIMax \<and> length (id_Name i) \<le> IdentityNameMax"
    using ident.dec_valid by (auto simp: identity_ok_def)
next
  assume ok: "length (id_URI i) \<le> IdentityURIMax \<and> length (id_Name i) \<le> IdentityNameMax"
  then obtain payload where "EncodeIdentity i = Inr payload" "DecodeIdentity payload = Inr i"
    using ident.roundtrip [of i] by (auto simp: identity_ok_def)
  moreover from this(1) ok have "length payload \<le> PayloadSize"
    by (auto simp: EncodeIdentity_def Let_def split: if_splits)
  ultimately show "\<exists>payload. EncodeIdentity i = Inr payload \<and> length payload \<le> PayloadSize
    \<and> DecodeIdentity payload = Inr i" by blast
qed

text \<open>
  Device addresses. Normalisation either rejects an address or yields 17 bytes that it maps to
  themselves, and a normalised address is exactly what the packet's device field can hold: a
  message that is valid for some spelling of its device is valid, and survives the wire, with the
  normalised one.
\<close>

theorem normalised_device_survives:
  assumes "validate m = None"
  shows "length (NormalizeDevice (msg_Device m)) = 17
    \<and> NormalizeDevice (NormalizeDevice (msg_Device m)) = NormalizeDevice (msg_Device m)
    \<and> (\<exists>p. Encode (m\<lparr>msg_Device := NormalizeDevice (msg_Device m)\<rparr>) = Inr p
        \<and> Decode p = Inr (m\<lparr>msg_Device := NormalizeDevice (msg_Device m)\<rparr>))"
proof -
  let ?n = "m\<lparr>msg_Device := normalizedDevice (msg_Device m)\<rparr>"
  note idem = normalizedDevice_idem [OF validate_device [OF assms]]
  have "validate ?n = validate m"
    using idem validate_device [OF assms] by (simp add: validate_def)
  with assms idem packet.roundtrip [of ?n] show ?thesis
    by (simp add: NormalizeDevice_def message_ok_def)
qed

theorem normalised_device_survives_witness:
  "validate sample_command = None \<and> length (NormalizeDevice (msg_Device sample_command)) = 17"
  using normalised_device_survives [of sample_command] sample_command_valid by simp

end
