(* ===== verification/Gtbs_State.thy ===== *)
theory Gtbs_State
  imports Call_Protocol
begin

text \<open>
  The call store of the telephone bearer client (\<open>internal/gtbs/state.go\<close>): the parser of the Call
  State and Incoming Call characteristics, and the store that gives every call a token, remembers
  which incoming calls this side accepted, and numbers the snapshots it emits.

  Every exported method of \<open>Store\<close> runs under its mutex, so each is one atomic step on the record
  \<open>store\<close>; the step relation \<open>store_step\<close> lets them happen in any order. \<open>NewStore\<close> reads the
  clock, which is its argument.
\<close>

section \<open>Calls and the store\<close>

definition StateIncoming :: byte where [simp]: "StateIncoming = 0"
definition StateDialing :: byte where [simp]: "StateDialing = 1"
definition StateAlerting :: byte where [simp]: "StateAlerting = 2"
definition StateActive :: byte where [simp]: "StateActive = 3"
definition StateLocallyHeld :: byte where [simp]: "StateLocallyHeld = 4"
definition StateRemotelyHeld :: byte where [simp]: "StateRemotelyHeld = 5"
definition StateLocallyRemotelyHeld :: byte where [simp]: "StateLocallyRemotelyHeld = 6"
definition CallFlagOutgoing :: byte where [simp]: "CallFlagOutgoing = 1"
definition CallFlagWithheldByServer :: byte where [simp]: "CallFlagWithheldByServer = 2"
definition CallFlagWithheldByNetwork :: byte where [simp]: "CallFlagWithheldByNetwork = 4"

record gtbs_call =
  call_Index :: byte
  call_State :: byte
  call_Flags :: byte
  call_Token :: uint64
  call_Identity :: identity

record snapshot =
  snap_Sequence :: uint64
  snap_Calls :: "gtbs_call list"

record store =
  st_calls :: "(byte, gtbs_call) gomap"
  st_claimed :: "(byte, uint64) gomap"
  st_identities :: "(byte, identity) gomap"
  st_sequence :: uint64
  st_seed :: uint64
  st_tokens :: uint64

datatype gtbs_error =
    Call_state_length | Call_state_entry
  | errNoCallIdentity | errIdentityUnchanged

text \<open>
  \<open>s.identities[index]\<close> and \<open>s.claimed[index]\<close> read the zero value for an absent key.
\<close>

definition identity_at :: "store \<Rightarrow> byte \<Rightarrow> identity" where
  "identity_at s index = (case go_get (st_identities s) index of None \<Rightarrow> no_identity | Some i \<Rightarrow> i)"

definition claimed_at :: "store \<Rightarrow> byte \<Rightarrow> uint64" where
  "claimed_at s index = (case go_get (st_claimed s) index of None \<Rightarrow> 0 | Some t \<Rightarrow> t)"

section \<open>Parsers\<close>

definition ParseCallIdentifier :: "bytes \<Rightarrow> gtbs_error + (byte \<times> string)" where
  "ParseCallIdentifier v =
     (if length v = 0 \<or> v ! 0 = 0 then Inl errNoCallIdentity
      else Inr (v ! 0, string_of (drop 1 v)))"

definition dialable :: "char \<Rightarrow> bool" where
  "dialable c \<longleftrightarrow> is_digit c \<or> c = CHR ''+'' \<or> c = CHR ''*'' \<or> c = CHR ''#'' \<or> c = CHR ''-''"

definition StripURIScheme :: "string \<Rightarrow> string" where
  "StripURIScheme uri =
     (let trimmed = TrimSpace uri;
          trimmed = (case IndexByte trimmed (CHR '':'') of
                       Some index \<Rightarrow> drop (index + 1) trimmed | None \<Rightarrow> trimmed);
          trimmed = (case IndexAny trimmed '';?'' of
                       Some index \<Rightarrow> take index trimmed | None \<Rightarrow> trimmed);
          trimmed = TrimSpace trimmed
      in if trimmed = [] \<or> length trimmed > IdentityURIMax then []
         else if list_all dialable trimmed then trimmed else [])"

fun parse_entries :: "byte list \<Rightarrow> gtbs_call list \<Rightarrow> bytes \<Rightarrow> gtbs_error + gtbs_call list" where
  "parse_entries seen calls (index # state # flags # rest) =
     (if index = 0 \<or> state > StateLocallyRemotelyHeld
         \<or> flags AND NOT (CallFlagOutgoing OR CallFlagWithheldByServer OR CallFlagWithheldByNetwork) \<noteq> 0
         \<or> index \<in> set seen
      then Inl Call_state_entry
      else parse_entries (index # seen)
             (calls @ [\<lparr>call_Index = index, call_State = state, call_Flags = flags,
                        call_Token = 0, call_Identity = no_identity\<rparr>]) rest)"
| "parse_entries seen calls _ = Inr calls"

text \<open>
  \<open>sort.Slice\<close> by index; the indexes of a parsed list and of a call map are distinct, so the
  order of equal elements, which Go leaves open, does not matter.
\<close>

definition ParseCallState :: "bytes \<Rightarrow> gtbs_error + gtbs_call list" where
  "ParseCallState v =
     (if length v mod 3 \<noteq> 0 \<or> length v > 3 * 255 then Inl Call_state_length
      else case parse_entries [] [] v of
        Inl e \<Rightarrow> Inl e
      | Inr calls \<Rightarrow> Inr (sort_key call_Index calls))"

section \<open>Operations of the store\<close>

definition NewStore :: "uint64 \<Rightarrow> store" where
  "NewStore now =
     (let seed = (if now = 0 then 1 else now) in
      \<lparr>st_calls = [], st_claimed = [], st_identities = [], st_sequence = seed, st_seed = seed,
       st_tokens = seed\<rparr>)"

text \<open>The loop of \<open>nextToken\<close>: at most two of the values it tries are refused.\<close>

function nextToken :: "uint64 \<Rightarrow> uint64 \<Rightarrow> uint64" where
  "nextToken seed tokens =
     (let token = tokens + 1 in
      if token \<noteq> 0 \<and> token \<noteq> seed then token else nextToken seed token)"
  by pat_completeness auto
termination
proof (relation "measure (\<lambda>(seed, t). if t + 1 \<notin> {0, seed} then 0 else if t + 2 \<notin> {0, seed} then 1 else 2)")
  fix seed tokens x :: uint64
  have two: "x + 1 + 1 = x + 2" and three: "x + 1 + 2 = x + 3" for x :: uint64
    by simp_all
  show "x = tokens + 1 \<Longrightarrow> \<not> (x \<noteq> 0 \<and> x \<noteq> seed) \<Longrightarrow>
      ((seed, x), seed, tokens)
        \<in> measure (\<lambda>(seed, t). if t + 1 \<notin> {0, seed} then 0 else if t + 2 \<notin> {0, seed} then 1 else 2)"
    by (auto simp: two three add_eq_0_iff2) (metis add.inverse_inverse)
qed simp

declare nextToken.simps [simp del]

definition bump_sequence :: "store \<Rightarrow> store" where
  "bump_sequence s =
     (let q = st_sequence s + 1 in s\<lparr>st_sequence := (if q = 0 then 1 else q)\<rparr>)"

definition snapshotLocked :: "store \<Rightarrow> snapshot" where
  "snapshotLocked s =
     \<lparr>snap_Sequence = st_sequence s,
      snap_Calls = sort_key call_Index
        (map (\<lambda>(_, call). call\<lparr>call_Identity := identity_at s (call_Index call)\<rparr>) (st_calls s))\<rparr>"

text \<open>The first loop of \<open>Apply\<close>: it keeps the token of a call that is still there.\<close>

primrec assign_tokens :: "store \<Rightarrow> gtbs_call list \<Rightarrow> (byte, gtbs_call) gomap \<Rightarrow> uint64
    \<Rightarrow> (byte, gtbs_call) gomap \<times> uint64" where
  "assign_tokens s [] next tokens = (next, tokens)"
| "assign_tokens s (call # rest) next tokens =
     (case go_get (st_calls s) (call_Index call) of
        Some prior \<Rightarrow>
          assign_tokens s rest (go_put (call_Index call) (call\<lparr>call_Token := call_Token prior\<rparr>) next) tokens
      | None \<Rightarrow>
          let token = nextToken (st_seed s) tokens in
          assign_tokens s rest (go_put (call_Index call) (call\<lparr>call_Token := token\<rparr>) next) token)"

definition Apply :: "bytes \<Rightarrow> store \<Rightarrow> (gtbs_error + snapshot) \<times> store" where
  "Apply v s =
     (case ParseCallState v of
        Inl e \<Rightarrow> (Inl e, s)
      | Inr parsed \<Rightarrow>
          let (next, tokens) = assign_tokens s parsed [] (st_tokens s);
              s1 = s\<lparr>st_calls := next, st_tokens := tokens,
                     st_claimed := filter (\<lambda>(index, token).
                        case go_get next index of None \<Rightarrow> False | Some call \<Rightarrow> call_Token call = token)
                        (st_claimed s),
                     st_identities := filter (\<lambda>(index, _). go_get next index \<noteq> None) (st_identities s)\<rparr>;
              s2 = bump_sequence s1
          in (Inr (snapshotLocked s2), s2))"

definition setIdentityLocked :: "byte \<Rightarrow> identity \<Rightarrow> store \<Rightarrow> bool \<times> store" where
  "setIdentityLocked index i s =
     (let previous = go_get (st_identities s) index in
      if id_URI i = [] \<and> id_Name i = [] then
        (if previous = None then (False, s)
         else (True, bump_sequence (s\<lparr>st_identities := go_delete index (st_identities s)\<rparr>)))
      else if previous = Some i then (False, s)
      else (True, bump_sequence (s\<lparr>st_identities := go_put index i (st_identities s)\<rparr>)))"

definition ApplyIncomingCall :: "bytes \<Rightarrow> store \<Rightarrow> gtbs_error option \<times> store" where
  "ApplyIncomingCall v s =
     (case ParseCallIdentifier v of
        Inl e \<Rightarrow> (Some e, s)
      | Inr (index, raw) \<Rightarrow>
          let uri = StripURIScheme raw;
              (changed, s') = setIdentityLocked index ((identity_at s index)\<lparr>id_URI := uri\<rparr>) s
          in (if changed then None else Some errIdentityUnchanged, s'))"

definition Identity :: "byte \<Rightarrow> store \<Rightarrow> identity" where
  "Identity index s = identity_at s index"

definition HandsetAnswered :: "store \<Rightarrow> uint64" where
  "HandsetAnswered s =
     (case find (\<lambda>(_, call). \<not> (call_Token call = 0 \<or> call_Flags call AND CallFlagOutgoing \<noteq> 0
                                \<or> call_State call = StateIncoming)
                            \<and> claimed_at s (call_Index call) \<noteq> call_Token call) (st_calls s) of
        Some (_, call) \<Rightarrow> call_Token call
      | None \<Rightarrow> 0)"

definition ClaimCall :: "byte \<Rightarrow> uint64 \<Rightarrow> store \<Rightarrow> store" where
  "ClaimCall index token s =
     (if token = 0 then s
      else case go_get (st_calls s) index of
        Some call \<Rightarrow>
          if call_Token call = token then s\<lparr>st_claimed := go_put index token (st_claimed s)\<rparr> else s
      | None \<Rightarrow> s)"

definition Snapshot :: "store \<Rightarrow> snapshot" where
  "Snapshot s = snapshotLocked s"

definition CurrentCallToken :: "store \<Rightarrow> uint64 option" where
  "CurrentCallToken s =
     (case st_calls s of
        [(_, call)] \<Rightarrow>
          if call_Token call = 0 then None
          else if call_Flags call AND CallFlagOutgoing = 0 \<and> call_State call \<noteq> StateIncoming
                  \<and> claimed_at s (call_Index call) \<noteq> call_Token call
          then None
          else Some (call_Token call)
      | _ \<Rightarrow> None)"

definition ValidateIndexedCommand :: "byte \<Rightarrow> uint64 \<Rightarrow> byte \<Rightarrow> store \<Rightarrow> bool" where
  "ValidateIndexedCommand index token opcode s =
     (case go_get (st_calls s) index of
        None \<Rightarrow> False
      | Some call \<Rightarrow>
          if token = 0 \<or> call_Token call \<noteq> token then False
          else if opcode = OpcodeAccept then call_State call = StateIncoming
          else if opcode = OpcodeTerminate then True
          else if opcode = OpcodeLocalHold then
            call_State call = StateIncoming \<or> call_State call = StateActive
            \<or> call_State call = StateRemotelyHeld
          else if opcode = OpcodeLocalRetrieve then
            call_State call = StateLocallyHeld \<or> call_State call = StateLocallyRemotelyHeld
          else False)"

definition TokenForIndex :: "byte \<Rightarrow> store \<Rightarrow> uint64 \<times> bool" where
  "TokenForIndex index s =
     (case go_get (st_calls s) index of
        None \<Rightarrow> (0, False)
      | Some call \<Rightarrow> (call_Token call, call_Token call \<noteq> 0))"

section \<open>Parsing\<close>

text \<open>\<open>entries v\<close> are the three-byte entries of a Call State value, in the order received.\<close>

fun entries :: "bytes \<Rightarrow> gtbs_call list" where
  "entries (index # state # flags # rest) =
     \<lparr>call_Index = index, call_State = state, call_Flags = flags, call_Token = 0,
      call_Identity = no_identity\<rparr> # entries rest"
| "entries _ = []"

definition entry_ok :: "gtbs_call \<Rightarrow> bool" where
  "entry_ok c \<longleftrightarrow> call_Index c \<noteq> 0 \<and> call_State c \<le> 6 \<and> call_Flags c AND NOT 7 = 0"

lemma parse_entries_eq:
  "parse_entries seen calls v =
     (if list_all entry_ok (entries v) \<and> distinct (map call_Index (entries v))
         \<and> set (map call_Index (entries v)) \<inter> set seen = {}
      then Inr (calls @ entries v) else Inl Call_state_entry)"
  by (induction seen calls v rule: parse_entries.induct) (auto simp: entry_ok_def not_less)

lemma ParseCallState_iff:
  "ParseCallState v = Inr cs \<longleftrightarrow>
     length v mod 3 = 0 \<and> length v \<le> 765 \<and> list_all entry_ok (entries v)
     \<and> distinct (map call_Index (entries v)) \<and> cs = sort_key call_Index (entries v)"
  by (auto simp: ParseCallState_def parse_entries_eq)

lemma length_entries: "length (entries v) = length v div 3"
  by (induction v rule: entries.induct) auto

lemma entries_new: "c \<in> set (entries v) \<Longrightarrow> call_Token c = 0 \<and> call_Identity c = no_identity"
  by (induction v rule: entries.induct) auto

lemma parsed_facts:
  assumes "ParseCallState v = Inr cs"
  shows "length cs \<le> 255" and "sorted (map call_Index cs)" and "distinct (map call_Index cs)"
    and "c \<in> set cs \<Longrightarrow> entry_ok c" and "c \<in> set cs \<Longrightarrow> call_Identity c = no_identity"
proof -
  from assms have h: "length v \<le> 765" "list_all entry_ok (entries v)"
      "distinct (map call_Index (entries v))" "cs = sort_key call_Index (entries v)"
    by (simp_all add: ParseCallState_iff)
  show "length cs \<le> 255" using h by (simp add: length_entries)
  show "sorted (map call_Index cs)" using h by simp
  show "distinct (map call_Index cs)" using h by (simp add: distinct_map inj_on_def)
  show "c \<in> set cs \<Longrightarrow> entry_ok c" using h by (simp add: list_all_iff)
  show "c \<in> set cs \<Longrightarrow> call_Identity c = no_identity" using h by (simp add: entries_new)
qed

section \<open>Tokens\<close>

text \<open>\<open>age s t\<close> counts how far the token counter had moved from its seed when it reached \<open>t\<close>.\<close>

definition age :: "store \<Rightarrow> uint64 \<Rightarrow> nat" where
  "age s t = unat (t - st_seed s)"

lemma age_bound: "age s t < 2 ^ 64"
  using unsigned_less [of "t - st_seed s", where 'a = nat] by (simp add: age_def)

lemma nextToken_cases:
  assumes "unat (tokens - seed) + 2 < 2 ^ 64"
  shows "nextToken seed tokens = (if tokens + 1 = 0 then tokens + 2 else tokens + 1)"
proof -
  have no_wrap: "unat (tokens - seed + k) = unat (tokens - seed) + unat k" if "unat k \<le> 2" for k :: uint64
    using that assms by (subst unat_add_lem [symmetric]) simp
  have "tokens + 1 \<noteq> seed"
  proof
    assume "tokens + 1 = seed"
    then have "tokens - seed + 1 = 0" by (metis add_diff_eq diff_add_eq diff_self)
    with no_wrap [of 1] show False by simp
  qed
  moreover have "tokens + 2 \<noteq> seed"
  proof
    assume "tokens + 2 = seed"
    then have "tokens - seed + 2 = 0" by (metis add_diff_eq diff_add_eq diff_self)
    with no_wrap [of 2] show False by simp
  qed
  moreover have "tokens + 2 = 1" if "tokens + 1 = 0"
  proof -
    have "tokens + 2 = (tokens + 1) + 1" by simp
    with that show ?thesis by simp
  qed
  ultimately show ?thesis
    by (auto simp: nextToken.simps [of seed tokens] nextToken.simps [of seed 0] Let_def)
qed

lemma nextToken_age:
  assumes "age s tokens + 2 < 2 ^ 64"
  shows "age s tokens < age s (nextToken (st_seed s) tokens)
    \<and> age s (nextToken (st_seed s) tokens) \<le> age s tokens + 2"
proof -
  have "unat (tokens - st_seed s + k) = unat (tokens - st_seed s) + unat k" if "unat k \<le> 2" for k :: uint64
    using that assms by (subst unat_add_lem [symmetric]) (simp add: age_def)
  from this [of 1] this [of 2] show ?thesis
    using assms by (simp add: age_def nextToken_cases add_diff_eq diff_add_eq)
qed

lemma nextToken_valid: "nextToken seed tokens \<noteq> 0 \<and> nextToken seed tokens \<noteq> seed"
proof (induction seed tokens rule: nextToken.induct)
  case (1 seed tokens)
  then show ?case by (simp add: nextToken.simps [of seed tokens] Let_def)
qed


section \<open>The first loop of Apply\<close>

text \<open>\<open>kept\<close>: the tokens of the calls that are still there, \<open>fresh\<close>: those the loop has drawn.\<close>

definition token_at :: "store \<Rightarrow> byte \<Rightarrow> uint64 option" where
  "token_at s i = map_option call_Token (go_get (st_calls s) i)"

primrec assigned :: "store \<Rightarrow> gtbs_call list \<Rightarrow> uint64 \<Rightarrow> gtbs_call list" where
  "assigned s [] tokens = []"
| "assigned s (c # cs) tokens =
     (case token_at s (call_Index c) of
        Some t \<Rightarrow> c\<lparr>call_Token := t\<rparr> # assigned s cs tokens
      | None \<Rightarrow> (let t = nextToken (st_seed s) tokens in c\<lparr>call_Token := t\<rparr> # assigned s cs t))"

primrec drawn :: "store \<Rightarrow> gtbs_call list \<Rightarrow> uint64 \<Rightarrow> uint64" where
  "drawn s [] tokens = tokens"
| "drawn s (c # cs) tokens =
     drawn s cs (if token_at s (call_Index c) = None then nextToken (st_seed s) tokens else tokens)"

lemma assign_tokens_eq:
  "distinct (map call_Index cs) \<Longrightarrow> set (map call_Index cs) \<inter> fst ` set next = {} \<Longrightarrow>
   assign_tokens s cs next tokens
     = (next @ map (\<lambda>c. (call_Index c, c)) (assigned s cs tokens), drawn s cs tokens)"
proof (induction cs arbitrary: "next" tokens)
  case Nil
  then show ?case by simp
next
  case (Cons c cs)
  then have new: "call_Index c \<notin> fst ` set next" by auto
  from Cons.prems have dis: "set (map call_Index cs) \<inter> fst ` set (next @ [(call_Index c, x)]) = {}" for x
    by auto
  show ?case
    using Cons.IH [OF _ dis] Cons.prems(1)
    by (auto simp: token_at_def go_put_new [OF new] Let_def split: option.splits)
qed

lemma map_Index_assigned [simp]: "map call_Index (assigned s cs tokens) = map call_Index cs"
  by (induction cs arbitrary: tokens) (auto simp: Let_def split: option.splits)

lemma assigned_entry:
  "c \<in> set (assigned s cs tokens) \<Longrightarrow> \<exists>c0 \<in> set cs. \<exists>t. c = c0\<lparr>call_Token := t\<rparr>"
  by (induction cs arbitrary: tokens) (fastforce simp: Let_def split: option.splits)+

lemma assigned_token_valid:
  "c \<in> set (assigned s cs tokens) \<Longrightarrow>
   token_at s (call_Index c) = Some (call_Token c)
   \<or> token_at s (call_Index c) = None \<and> call_Token c \<noteq> 0 \<and> call_Token c \<noteq> st_seed s"
  by (induction cs arbitrary: tokens) (auto simp: Let_def nextToken_valid split: option.splits)

text \<open>The tokens drawn in one loop are older than none of the later ones and newer than all before.\<close>

lemma drawn_age:
  "age s tokens + 2 * length cs < 2 ^ 64 \<Longrightarrow>
   age s tokens \<le> age s (drawn s cs tokens) \<and> age s (drawn s cs tokens) \<le> age s tokens + 2 * length cs"
proof (induction cs arbitrary: tokens)
  case Nil
  then show ?case by simp
next
  case (Cons c cs)
  then have "age s tokens + 2 < 2 ^ 64" by simp
  note step = nextToken_age [OF this]
  from Cons.prems Cons.IH [of tokens] Cons.IH [of "nextToken (st_seed s) tokens"] step show ?case
    by auto
qed

lemma assigned_age:
  "age s tokens + 2 * length cs < 2 ^ 64 \<Longrightarrow> c \<in> set (assigned s cs tokens) \<Longrightarrow>
   token_at s (call_Index c) = Some (call_Token c)
   \<or> age s tokens < age s (call_Token c) \<and> age s (call_Token c) \<le> age s (drawn s cs tokens)"
proof (induction cs arbitrary: tokens)
  case Nil
  then show ?case by simp
next
  case (Cons d cs)
  then have "age s tokens + 2 < 2 ^ 64" by simp
  note step = nextToken_age [OF this]
  let ?n = "nextToken (st_seed s) tokens"
  have room: "age s ?n + 2 * length cs < 2 ^ 64" using step Cons.prems(1) by simp
  show ?case
    using Cons.prems Cons.IH [of tokens] Cons.IH [OF room] step drawn_age [OF room]
    by (auto simp: Let_def split: option.splits)
qed

lemma assigned_distinct:
  assumes "age s tokens + 2 * length cs < 2 ^ 64" and "distinct (map call_Index cs)"
    and "\<And>i j t. token_at s i = Some t \<Longrightarrow> token_at s j = Some t \<Longrightarrow> i = j"
    and "\<And>i t. token_at s i = Some t \<Longrightarrow> age s t \<le> age s tokens"
  shows "distinct (map call_Token (assigned s cs tokens))"
  using assms(1,2,4)
proof (induction cs arbitrary: tokens)
  case Nil
  then show ?case by simp
next
  case (Cons d cs)
  then have "age s tokens + 2 < 2 ^ 64" by simp
  note step = nextToken_age [OF this]
  let ?n = "nextToken (st_seed s) tokens"
  have d: "call_Index d \<notin> set (map call_Index cs)" using Cons.prems by simp
  have idx: "call_Index c \<in> set (map call_Index cs)" if "c \<in> set (assigned s cs k)" for c k
    using that map_Index_assigned [of s cs k] by (metis image_eqI set_map)
  show ?case
  proof (cases "token_at s (call_Index d)")
    case None
    have room: "age s ?n + 2 * length cs < 2 ^ 64" using step Cons.prems(1) by simp
    have old: "age s t \<le> age s ?n" if "token_at s i = Some t" for i t
      using Cons.prems(3) [OF that] step by simp
    have "call_Token c \<noteq> ?n" if "c \<in> set (assigned s cs ?n)" for c
      using assigned_age [OF room that] Cons.prems(3) step by fastforce
    then have "?n \<notin> set (map call_Token (assigned s cs ?n))" by fastforce
    moreover have "distinct (map call_Token (assigned s cs ?n))"
      by (rule Cons.IH [OF room]) (use Cons.prems(2) old in auto)
    ultimately show ?thesis using None by (simp add: Let_def)
  next
    case (Some t)
    have room: "age s tokens + 2 * length cs < 2 ^ 64" using Cons.prems(1) by simp
    have "call_Token c \<noteq> t" if "c \<in> set (assigned s cs tokens)" for c
      using assigned_age [OF room that] Cons.prems(3) [OF Some] assms(3) [OF Some] idx [OF that] d
      by fastforce
    then have "t \<notin> set (map call_Token (assigned s cs tokens))" by fastforce
    moreover have "distinct (map call_Token (assigned s cs tokens))"
      by (rule Cons.IH [OF room]) (use Cons.prems(2,3) in auto)
    ultimately show ?thesis using Some by simp
  qed
qed


section \<open>The invariant\<close>

definition call_ok :: "uint64 \<Rightarrow> gtbs_call \<Rightarrow> bool" where
  "call_ok seed c \<longleftrightarrow> entry_ok c \<and> call_Token c \<noteq> 0 \<and> call_Token c \<noteq> seed"

definition stored_identity_ok :: "identity \<Rightarrow> bool" where
  "stored_identity_ok i \<longleftrightarrow> id_URI i \<noteq> [] \<and> length (id_URI i) \<le> 32 \<and> list_all dialable (id_URI i)
     \<and> id_Name i = []"

definition store_inv :: "store \<Rightarrow> bool" where
  "store_inv s \<longleftrightarrow> go_wf (st_calls s) \<and> go_wf (st_claimed s) \<and> go_wf (st_identities s)
     \<and> (\<forall>(i, c) \<in> set (st_calls s). call_Index c = i \<and> call_ok (st_seed s) c)
     \<and> (\<forall>(i, t) \<in> set (st_claimed s). token_at s i = Some t)
     \<and> (\<forall>(i, d) \<in> set (st_identities s). stored_identity_ok d)
     \<and> st_sequence s \<noteq> 0 \<and> st_seed s \<noteq> 0"

datatype store_op = Op_Apply bytes | Op_IncomingCall bytes | Op_ClaimCall byte uint64

primrec exec_op :: "store_op \<Rightarrow> store \<Rightarrow> store" where
  "exec_op (Op_Apply v) s = snd (Apply v s)"
| "exec_op (Op_IncomingCall v) s = snd (ApplyIncomingCall v s)"
| "exec_op (Op_ClaimCall i t) s = ClaimCall i t s"

definition store_step :: "store \<Rightarrow> store \<Rightarrow> bool" where
  "store_step s t \<longleftrightarrow> (\<exists>op. t = exec_op op s)"

definition store_init :: "store \<Rightarrow> bool" where
  "store_init s \<longleftrightarrow> (\<exists>now. s = NewStore now)"

lemma bump_sequence_simps [simp]:
  "st_calls (bump_sequence s) = st_calls s" "st_claimed (bump_sequence s) = st_claimed s"
  "st_identities (bump_sequence s) = st_identities s" "st_seed (bump_sequence s) = st_seed s"
  "st_tokens (bump_sequence s) = st_tokens s" "st_sequence (bump_sequence s) \<noteq> 0"
  by (simp_all add: bump_sequence_def Let_def)

lemma bump_sequence_new: "st_sequence s \<noteq> 0 \<Longrightarrow> st_sequence (bump_sequence s) \<noteq> st_sequence s"
  by (auto simp: bump_sequence_def Let_def)

lemma case_token:
  "(case x of None \<Rightarrow> False | Some c \<Rightarrow> call_Token c = t) \<longleftrightarrow> map_option call_Token x = Some t"
  by (cases x) auto

text \<open>What a successful \<open>Apply\<close> leaves behind.\<close>

lemma Apply_ok:
  assumes "ParseCallState v = Inr cs"
  shows "st_calls (snd (Apply v s)) = map (\<lambda>c. (call_Index c, c)) (assigned s cs (st_tokens s))"
    and "st_tokens (snd (Apply v s)) = drawn s cs (st_tokens s)"
    and "st_seed (snd (Apply v s)) = st_seed s"
    and "st_claimed (snd (Apply v s)) =
      filter (\<lambda>(i, t). token_at (snd (Apply v s)) i = Some t) (st_claimed s)"
    and "st_identities (snd (Apply v s)) =
      filter (\<lambda>(i, _). token_at (snd (Apply v s)) i \<noteq> None) (st_identities s)"
    and "st_sequence (snd (Apply v s)) = st_sequence (bump_sequence s)"
    and "fst (Apply v s) = Inr (Snapshot (snd (Apply v s)))"
proof -
  note asg = assign_tokens_eq [OF parsed_facts(3) [OF assms], of "[]", simplified]
  show "st_calls (snd (Apply v s)) = map (\<lambda>c. (call_Index c, c)) (assigned s cs (st_tokens s))"
    and "st_tokens (snd (Apply v s)) = drawn s cs (st_tokens s)"
    and "st_seed (snd (Apply v s)) = st_seed s"
    and "st_claimed (snd (Apply v s)) =
      filter (\<lambda>(i, t). token_at (snd (Apply v s)) i = Some t) (st_claimed s)"
    and "st_identities (snd (Apply v s)) =
      filter (\<lambda>(i, _). token_at (snd (Apply v s)) i \<noteq> None) (st_identities s)"
    and "st_sequence (snd (Apply v s)) = st_sequence (bump_sequence s)"
    and "fst (Apply v s) = Inr (Snapshot (snd (Apply v s)))"
    by (simp_all add: Apply_def assms asg Let_def Snapshot_def token_at_def bump_sequence_def case_token)
qed

lemma Apply_error: "ParseCallState v = Inl e \<Longrightarrow> Apply v s = (Inl e, s)"
  by (simp add: Apply_def)


lemma token_at_Apply:
  assumes "ParseCallState v = Inr cs"
  shows "token_at (snd (Apply v s)) i = Some t \<longleftrightarrow>
    (\<exists>c \<in> set (assigned s cs (st_tokens s)). call_Index c = i \<and> call_Token c = t)"
proof -
  have "distinct (map fst (st_calls (snd (Apply v s))))"
    using parsed_facts(3) [OF assms] by (simp add: Apply_ok [OF assms] comp_def)
  then show ?thesis
    by (auto simp: token_at_def Apply_ok [OF assms] map_of_eq_Some_iff) 
qed

lemma token_atD: "store_inv s \<Longrightarrow> token_at s i = Some t \<Longrightarrow> t \<noteq> 0 \<and> t \<noteq> st_seed s"
  by (auto simp: store_inv_def token_at_def call_ok_def dest!: map_of_SomeD)

lemma Apply_inv:
  assumes inv: "store_inv s"
  shows "store_inv (snd (Apply v s))"
proof (cases "ParseCallState v")
  case (Inl e)
  with inv show ?thesis by (simp add: Apply_error)
next
  case (Inr cs)
  let ?t = "snd (Apply v s)" and ?a = "assigned s cs (st_tokens s)"
  have ok: "call_ok (st_seed s) c" if "c \<in> set ?a" for c
    using assigned_entry [OF that] assigned_token_valid [OF that] parsed_facts(4) [OF Inr] token_atD [OF inv]
    by (auto simp: call_ok_def entry_ok_def)
  have wf: "distinct (map call_Index cs)" by (rule parsed_facts(3) [OF Inr])
  have "\<forall>(i, c) \<in> set (st_calls ?t). call_Index c = i \<and> call_ok (st_seed ?t) c" "go_wf (st_calls ?t)"
    using ok wf by (auto simp: Apply_ok [OF Inr] comp_def)
  moreover have "go_wf (st_claimed ?t)" "\<forall>(i, k) \<in> set (st_claimed ?t). token_at ?t i = Some k"
    using inv unfolding Apply_ok(4) [OF Inr] store_inv_def by auto
  moreover have "go_wf (st_identities ?t)" "\<forall>(i, d) \<in> set (st_identities ?t). stored_identity_ok d"
    using inv unfolding Apply_ok(5) [OF Inr] store_inv_def by auto
  moreover have "st_sequence ?t \<noteq> 0" "st_seed ?t \<noteq> 0"
    using inv by (simp_all add: Apply_ok [OF Inr] store_inv_def)
  ultimately show ?thesis unfolding store_inv_def by blast
qed

lemma StripURIScheme_ok:
  "length (StripURIScheme u) \<le> 32 \<and> list_all dialable (StripURIScheme u)"
  by (simp add: StripURIScheme_def Let_def)

lemma identity_at_name: "store_inv s \<Longrightarrow> id_Name (identity_at s i) = []"
  by (auto simp: identity_at_def store_inv_def stored_identity_ok_def no_identity_def
      split: option.splits dest!: map_of_SomeD)

lemma token_at_cong: "st_calls s = st_calls s' \<Longrightarrow> token_at s = token_at s'"
  by (auto simp: token_at_def)

lemma setIdentityLocked_inv:
  assumes inv: "store_inv s" and ok: "i = no_identity \<or> stored_identity_ok i"
  shows "store_inv (snd (setIdentityLocked index i s))"
proof -
  have cong: "store_inv s'" if "st_calls s' = st_calls s" "st_claimed s' = st_claimed s"
    "st_seed s' = st_seed s" "st_sequence s' \<noteq> 0" "go_wf (st_identities s')"
    "\<forall>(i, d) \<in> set (st_identities s'). stored_identity_ok d" for s'
    using inv that token_at_cong [of s' s] by (simp add: store_inv_def)
  have del: "\<forall>(i, d) \<in> set (go_delete index (st_identities s)). stored_identity_ok d"
    and put: "stored_identity_ok i \<Longrightarrow> \<forall>(i, d) \<in> set (go_put index i (st_identities s)). stored_identity_ok d"
    using inv set_go_delete [of index "st_identities s"] set_go_put [of index i "st_identities s"]
    by (auto simp: store_inv_def)
  have wf: "go_wf (st_identities s)" using inv by (simp add: store_inv_def)
  have "store_inv (bump_sequence (s\<lparr>st_identities := go_delete index (st_identities s)\<rparr>))"
    by (rule cong) (use wf del in simp_all)
  moreover have "store_inv (bump_sequence (s\<lparr>st_identities := go_put index i (st_identities s)\<rparr>))"
    if "stored_identity_ok i"
    by (rule cong) (use wf put [OF that] in simp_all)
  moreover have "stored_identity_ok i" if "\<not> (id_URI i = [] \<and> id_Name i = [])"
    using ok that by (auto simp: no_identity_def)
  ultimately show ?thesis using inv by (simp add: setIdentityLocked_def Let_def)
qed

lemma ApplyIncomingCall_inv:
  assumes "store_inv s"
  shows "store_inv (snd (ApplyIncomingCall v s))"
proof -
  have "store_inv (snd (setIdentityLocked index ((identity_at s index)\<lparr>id_URI := StripURIScheme raw\<rparr>) s))"
    for index raw
  proof (rule setIdentityLocked_inv [OF assms])
    let ?i = "(identity_at s index)\<lparr>id_URI := StripURIScheme raw\<rparr>"
    show "?i = no_identity \<or> stored_identity_ok ?i"
      using identity_at_name [OF assms, of index] StripURIScheme_ok [of raw]
      by (cases "StripURIScheme raw = []") (auto simp: no_identity_def stored_identity_ok_def)
  qed
  then show ?thesis
    using assms by (auto simp: ApplyIncomingCall_def case_prod_beta Let_def split: sum.splits)
qed

lemma ClaimCall_inv:
  assumes "store_inv s"
  shows "store_inv (ClaimCall i t s)"
proof -
  have "store_inv (s\<lparr>st_claimed := go_put i t (st_claimed s)\<rparr>)"
    if "go_get (st_calls s) i = Some c" "call_Token c = t" for c
  proof -
    let ?s = "s\<lparr>st_claimed := go_put i t (st_claimed s)\<rparr>"
    have tok: "token_at ?s = token_at s" by (rule token_at_cong) simp
    have "\<forall>(j, u) \<in> set (go_put i t (st_claimed s)). token_at s j = Some u"
    proof (rule ballI)
      fix x assume "x \<in> set (go_put i t (st_claimed s))"
      then have "x = (i, t) \<or> x \<in> set (st_claimed s)" using set_go_put by fast
      moreover have "token_at s i = Some t" using that by (simp add: token_at_def)
      ultimately show "case x of (j, u) \<Rightarrow> token_at s j = Some u" using assms by (auto simp: store_inv_def)
    qed
    then show ?thesis using assms by (simp add: store_inv_def tok)
  qed
  then show ?thesis using assms by (auto simp: ClaimCall_def split: option.splits)
qed

lemma NewStore_inv: "store_inv (NewStore now)"
  by (simp add: NewStore_def Let_def store_inv_def)

lemma exec_op_inv: "store_inv s \<Longrightarrow> store_inv (exec_op op s)"
  by (cases op) (auto intro: Apply_inv ApplyIncomingCall_inv ClaimCall_inv)

interpretation store_sys: invariant_system store_init store_step store_inv
  by unfold_locales (auto simp: store_init_def store_step_def NewStore_inv exec_op_inv)

section \<open>The life of a token\<close>

lemma frame [simp]:
  "st_calls (snd (ApplyIncomingCall v s)) = st_calls s"
  "st_tokens (snd (ApplyIncomingCall v s)) = st_tokens s"
  "st_seed (snd (ApplyIncomingCall v s)) = st_seed s"
  "st_claimed (snd (ApplyIncomingCall v s)) = st_claimed s"
  "st_calls (ClaimCall i t s) = st_calls s" "st_tokens (ClaimCall i t s) = st_tokens s"
  "st_seed (ClaimCall i t s) = st_seed s" "st_identities (ClaimCall i t s) = st_identities s"
  "st_sequence (ClaimCall i t s) = st_sequence s"
  by (auto simp: ApplyIncomingCall_def setIdentityLocked_def ClaimCall_def case_prod_beta Let_def
      split: sum.splits option.splits)

text \<open>
  \<open>token_inv n s\<close>: after at most \<open>n\<close> operations every stored token was drawn from the counter,
  which has not come round to its seed, and no two calls share one. \<open>later s s'\<close>: in \<open>s'\<close> a call
  has the token it had in \<open>s\<close>, or one drawn since.
\<close>

definition token_inv :: "nat \<Rightarrow> store \<Rightarrow> bool" where
  "token_inv n s \<longleftrightarrow> age s (st_tokens s) \<le> 510 * n
     \<and> (\<forall>i t. token_at s i = Some t \<longrightarrow> age s t \<le> age s (st_tokens s))
     \<and> (\<forall>i j t. token_at s i = Some t \<longrightarrow> token_at s j = Some t \<longrightarrow> i = j)"

definition later :: "store \<Rightarrow> store \<Rightarrow> bool" where
  "later s s' \<longleftrightarrow> st_seed s' = st_seed s \<and> age s (st_tokens s) \<le> age s (st_tokens s')
     \<and> (\<forall>i t. token_at s' i = Some t \<longrightarrow> token_at s i = Some t \<or> age s (st_tokens s) < age s t)"

lemma later_refl: "later s s"
  by (simp add: later_def)

lemma later_trans: "later s s' \<Longrightarrow> later s' s'' \<Longrightarrow> later s s''"
  by (fastforce simp: later_def age_def)

lemma Apply_tokens:
  assumes inv: "token_inv n s" and n: "n < 2 ^ 55"
  shows "token_inv (Suc n) (snd (Apply v s)) \<and> later s (snd (Apply v s))"
proof (cases "ParseCallState v")
  case (Inl e)
  with inv show ?thesis by (auto simp: Apply_error token_inv_def later_refl)
next
  case (Inr cs)
  let ?t = "snd (Apply v s)"
  have "510 * n + 510 < (2 ^ 64 :: nat)" using n by simp
  with inv parsed_facts(1) [OF Inr] have room: "age s (st_tokens s) + 2 * length cs < 2 ^ 64"
    by (simp add: token_inv_def)
  have age: "age ?t = age s" by (simp add: age_def fun_eq_iff Apply_ok [OF Inr])
  have "age s (st_tokens s) \<le> age s (st_tokens ?t)" "age s (st_tokens ?t) \<le> 510 * Suc n"
    using drawn_age [OF room] inv parsed_facts(1) [OF Inr] by (simp_all add: Apply_ok [OF Inr] token_inv_def)
  moreover have born: "token_at s i = Some t \<or> age s (st_tokens s) < age s t \<and> age s t \<le> age s (st_tokens ?t)"
    if "token_at ?t i = Some t" for i t
    using that assigned_age [OF room] unfolding token_at_Apply [OF Inr] by (auto simp: Apply_ok [OF Inr])
  moreover have "i = j" if "token_at ?t i = Some t" "token_at ?t j = Some t" for i j t
  proof -
    have "distinct (map call_Token (assigned s cs (st_tokens s)))"
      using inv by (intro assigned_distinct [OF room parsed_facts(3) [OF Inr]]) (auto simp: token_inv_def)
    with that show ?thesis unfolding token_at_Apply [OF Inr] by (auto simp: distinct_map inj_on_def)
  qed
  moreover have "age s t \<le> age s (st_tokens ?t)" if "token_at ?t i = Some t" for i t
    using born [OF that] inv calculation(1) by (auto simp: token_inv_def intro: order_trans)
  ultimately show ?thesis
    by (simp add: token_inv_def later_def age Apply_ok(3) [OF Inr])
qed

lemma exec_op_tokens:
  assumes "token_inv n s" and "n < 2 ^ 55"
  shows "token_inv (Suc n) (exec_op op s) \<and> later s (exec_op op s)"
proof (cases op)
  case (Op_Apply v)
  with Apply_tokens [OF assms] show ?thesis by simp
next
  case (Op_IncomingCall v)
  have "token_at (exec_op op s) = token_at s" by (rule token_at_cong) (simp add: Op_IncomingCall)
  then show ?thesis using assms(1) by (auto simp: Op_IncomingCall token_inv_def later_def age_def)
next
  case (Op_ClaimCall i t)
  have "token_at (exec_op op s) = token_at s" by (rule token_at_cong) (simp add: Op_ClaimCall)
  then show ?thesis using assms(1) by (auto simp: Op_ClaimCall token_inv_def later_def age_def)
qed

lemma run_tokens:
  "token_inv n s \<Longrightarrow> n + length ops \<le> 2 ^ 55 \<Longrightarrow>
   token_inv (n + length ops) (fold exec_op ops s) \<and> later s (fold exec_op ops s)"
proof (induction ops arbitrary: n s)
  case Nil
  then show ?case by (simp add: later_refl)
next
  case (Cons op ops)
  then have "n < 2 ^ 55" by simp
  note step = exec_op_tokens [OF Cons.prems(1) this, of op]
  with Cons.IH [of "Suc n" "exec_op op s"] Cons.prems(2) show ?case by (auto intro: later_trans)
qed

lemma token_inv_NewStore: "token_inv 0 (NewStore now)"
  by (simp add: token_inv_def NewStore_def Let_def token_at_def age_def)

section \<open>Claims and snapshots\<close>

lemma distinct_sort_key: "distinct (map f (sort_key f xs)) \<longleftrightarrow> distinct (map f xs)"
  by (simp add: distinct_map)

lemma claims_from_ops:
  "(i, t) \<in> set (st_claimed (fold exec_op ops s)) \<Longrightarrow>
   (i, t) \<in> set (st_claimed s) \<or> Op_ClaimCall i t \<in> set ops"
proof (induction ops arbitrary: s)
  case Nil
  then show ?case by simp
next
  case (Cons op ops)
  then have "(i, t) \<in> set (st_claimed (exec_op op s)) \<or> Op_ClaimCall i t \<in> set ops" by simp
  moreover have "(i, t) \<in> set (st_claimed s) \<or> op = Op_ClaimCall i t"
    if "(i, t) \<in> set (st_claimed (exec_op op s))"
  proof (cases op)
    case (Op_Apply v)
    with that show ?thesis
      by (cases "ParseCallState v") (auto simp: Apply_error Apply_ok(4))
  next
    case (Op_IncomingCall v)
    with that show ?thesis by simp
  next
    case (Op_ClaimCall j u)
    with that set_go_put [of j u "st_claimed s"] show ?thesis
      by (auto simp: ClaimCall_def split: option.splits if_splits)
  qed
  ultimately show ?case by auto
qed

lemma claimed_at_iff: "store_inv s \<Longrightarrow> t \<noteq> 0 \<Longrightarrow> claimed_at s i = t \<longleftrightarrow> (i, t) \<in> set (st_claimed s)"
  by (auto simp: claimed_at_def store_inv_def map_of_eq_Some_iff split: option.splits)
    (metis map_of_eq_None_iff fst_conv image_eqI option.distinct(1) map_of_is_SomeI option.inject)+

lemma exec_op_keeps_claim:
  assumes "(i, t) \<in> set (st_claimed s)" and "store_inv s" and "token_at (exec_op op s) i = Some t"
  shows "(i, t) \<in> set (st_claimed (exec_op op s))"
proof (cases op)
  case (Op_Apply v)
  with assms show ?thesis by (cases "ParseCallState v") (auto simp: Apply_error Apply_ok(4))
next
  case (Op_IncomingCall v)
  with assms show ?thesis by simp
next
  case (Op_ClaimCall j u)
  have "(i, t) \<in> set (go_put j u (st_claimed s))" if "token_at s j = Some u"
  proof (cases "i = j")
    case True
    have "token_at s i = Some t" using assms(1,2) by (auto simp: store_inv_def)
    with True that have "t = u" by simp
    then show ?thesis using True by (metis go_get_put map_of_SomeD)
  next
    case False
    have "go_get (st_claimed s) i = Some t" using assms(1,2) by (simp add: store_inv_def map_of_eq_Some_iff)
    with False have "go_get (go_put j u (st_claimed s)) i = Some t" by (simp add: go_get_put)
    then show ?thesis by (rule map_of_SomeD)
  qed
  with Op_ClaimCall assms show ?thesis by (auto simp: ClaimCall_def token_at_def split: option.splits)
qed

lemma token_continuous:
  assumes "token_inv n s" and "n + length (ops1 @ ops2) \<le> 2 ^ 55"
    and "token_at s i = Some t" and "token_at (fold exec_op (ops1 @ ops2) s) j = Some t"
  shows "j = i \<and> token_at (fold exec_op ops1 s) i = Some t"
proof -
  let ?m = "fold exec_op ops1 s"
  from run_tokens [OF assms(1), of ops1] assms(2) have m: "token_inv (n + length ops1) ?m" "later s ?m" by auto
  from run_tokens [OF m(1), of ops2] assms(2,4) have e: "later ?m (fold exec_op ops2 ?m)" by auto
  have old: "age s t \<le> age s (st_tokens s)" using assms(1,3) by (auto simp: token_inv_def)
  have age: "age ?m = age s" using m(2) by (simp add: later_def age_def fun_eq_iff)
  have "token_at ?m j = Some t"
    using e assms(4) old m(2) by (fastforce simp: later_def age)
  moreover from this m(2) old have "token_at s j = Some t" by (fastforce simp: later_def)
  moreover from this assms(1,3) have "j = i" by (auto simp: token_inv_def)
  ultimately show ?thesis by simp
qed

lemma run_keeps_claim:
  "token_inv n s \<Longrightarrow> store_inv s \<Longrightarrow> n + length ops \<le> 2 ^ 55 \<Longrightarrow> (i, t) \<in> set (st_claimed s) \<Longrightarrow>
   token_at (fold exec_op ops s) i = Some t \<Longrightarrow> (i, t) \<in> set (st_claimed (fold exec_op ops s))"
proof (induction ops arbitrary: n s)
  case Nil
  then show ?case by simp
next
  case (Cons op ops)
  have "token_at s i = Some t" using Cons.prems(2,4) by (auto simp: store_inv_def)
  with token_continuous [of n s "[op]" ops i t i] Cons.prems have tok: "token_at (exec_op op s) i = Some t"
    by simp
  have n: "n < 2 ^ 55" using Cons.prems(3) by simp
  show ?case
    using Cons.IH [of "Suc n" "exec_op op s"] exec_op_tokens [OF Cons.prems(1) n] Cons.prems
      exec_op_keeps_claim [OF Cons.prems(4,2) tok] exec_op_inv [OF Cons.prems(2)]
    by auto
qed

lemma snapshot_facts:
  assumes "store_inv s"
  shows "sorted (map call_Index (snap_Calls (Snapshot s)))"
    and "distinct (map call_Index (snap_Calls (Snapshot s)))"
    and "c \<in> set (snap_Calls (Snapshot s)) \<longleftrightarrow>
      (\<exists>d. go_get (st_calls s) (call_Index c) = Some d \<and> c = d\<lparr>call_Identity := identity_at s (call_Index d)\<rparr>)"
    and "snap_Sequence (Snapshot s) = st_sequence s"
proof -
  have ix: "map call_Index (map (\<lambda>(_, c). c\<lparr>call_Identity := identity_at s (call_Index c)\<rparr>) (st_calls s))
      = map fst (st_calls s)"
    using assms by (auto simp: store_inv_def)
  show "sorted (map call_Index (snap_Calls (Snapshot s)))" by (simp add: Snapshot_def snapshotLocked_def)
  show "distinct (map call_Index (snap_Calls (Snapshot s)))"
    unfolding Snapshot_def snapshotLocked_def snapshot.select_convs distinct_sort_key ix
    using assms by (simp add: store_inv_def)
  show "c \<in> set (snap_Calls (Snapshot s)) \<longleftrightarrow>
      (\<exists>d. go_get (st_calls s) (call_Index c) = Some d \<and> c = d\<lparr>call_Identity := identity_at s (call_Index d)\<rparr>)"
    using assms by (fastforce simp: Snapshot_def snapshotLocked_def store_inv_def map_of_eq_Some_iff)
  show "snap_Sequence (Snapshot s) = st_sequence s" by (simp add: Snapshot_def snapshotLocked_def)
qed


lemma assigned_report:
  "map (\<lambda>c. (call_Index c, call_State c, call_Flags c)) (assigned s cs tokens)
     = map (\<lambda>c. (call_Index c, call_State c, call_Flags c)) cs"
  by (induction cs arbitrary: tokens) (auto simp: Let_def split: option.splits)

lemma snapshot_report:
  assumes "sorted (map call_Index cs)" and "st_calls s = map (\<lambda>c. (call_Index c, c)) cs"
  shows "map (\<lambda>c. (call_Index c, call_State c, call_Flags c)) (snap_Calls (Snapshot s))
     = map (\<lambda>c. (call_Index c, call_State c, call_Flags c)) cs"
proof -
  let ?f = "\<lambda>c. c\<lparr>call_Identity := identity_at s (call_Index c)\<rparr>"
  have "snap_Calls (Snapshot s) = sort_key call_Index (map ?f cs)"
    by (simp add: Snapshot_def snapshotLocked_def assms(2) comp_def)
  also have "\<dots> = map ?f cs" using assms(1) by (intro sort_key_id_if_sorted) (simp add: comp_def)
  finally show ?thesis by simp
qed

lemma snapshot_call:
  assumes "store_inv s" and "c \<in> set (snap_Calls (Snapshot s))"
  shows "token_at s (call_Index c) = Some (call_Token c)" and "call_Identity c = identity_at s (call_Index c)"
  using assms(2) unfolding snapshot_facts(3) [OF assms(1)] by (auto simp: token_at_def)

lemma snapshot_index:
  assumes "store_inv s"
  shows "i \<in> call_Index ` set (snap_Calls (Snapshot s)) \<longleftrightarrow> token_at s i \<noteq> None"
proof
  assume "i \<in> call_Index ` set (snap_Calls (Snapshot s))"
  with snapshot_call(1) [OF assms] show "token_at s i \<noteq> None" by auto
next
  assume "token_at s i \<noteq> None"
  then obtain d where d: "go_get (st_calls s) i = Some d" by (auto simp: token_at_def)
  with assms have ix: "call_Index d = i" by (auto simp: store_inv_def dest!: map_of_SomeD)
  let ?c = "d\<lparr>call_Identity := identity_at s (call_Index d)\<rparr>"
  have "?c \<in> set (snap_Calls (Snapshot s))" using d ix unfolding snapshot_facts(3) [OF assms] by auto
  then show "i \<in> call_Index ` set (snap_Calls (Snapshot s))" using ix by (intro image_eqI [of _ _ ?c]) auto
qed

lemma Apply_claim:
  assumes "store_inv s" and "ParseCallState v = Inr cs" and "token_at (snd (Apply v s)) i = Some t"
  shows "claimed_at (snd (Apply v s)) i = (if token_at s i = Some t then claimed_at s i else 0)"
proof -
  have wf: "go_wf (st_claimed s)" and tok: "go_get (st_claimed s) i = Some u \<Longrightarrow> token_at s i = Some u" for u
    using assms(1) by (auto simp: store_inv_def map_of_eq_Some_iff)
  show ?thesis
    using tok assms(3)
    by (auto simp: claimed_at_def Apply_ok(4) [OF assms(2)] go_get_filter [OF wf] split: option.splits)
qed

section \<open>Caller numbers\<close>

lemma not_space_edge:
  "dialable c \<or> c = CHR ''t'' \<Longrightarrow> e \<in> set space_encodings \<Longrightarrow> e \<noteq> [] \<Longrightarrow> c \<noteq> hd e \<and> c \<noteq> last e"
  by (auto simp: space_encodings_def dialable_def is_digit_def)

lemma TrimSpace_dialable:
  assumes "n \<noteq> []" and "dialable (hd n) \<or> hd n = CHR ''t''" and "dialable (last n)"
  shows "TrimSpace n = n"
  using not_space_edge assms(2,3) by (intro TrimSpace_id) blast+

lemma IndexAny_none: "\<forall>c \<in> set s. c \<notin> set cs \<Longrightarrow> IndexAny s cs = None"
  by (auto simp: IndexAny_None_iff)

lemma StripURIScheme_tel_number:
  assumes "n \<noteq> []" and "length n \<le> 32" and "list_all dialable n"
  shows "StripURIScheme (''tel:'' @ n) = n"
proof -
  have d: "dialable c" if "c \<in> set n" for c using assms(3) that by (simp add: list_all_iff)
  have "TrimSpace (''tel:'' @ n) = ''tel:'' @ n" using assms(1) d by (intro TrimSpace_dialable) auto
  moreover have "IndexByte (''tel:'' @ n) (CHR '':'') = Some 3" by (simp add: IndexByte_def)
  moreover have "IndexAny n '';?'' = None"
    using d [of "CHR '';''"] d [of "CHR ''?''"]
    by (intro IndexAny_none) (auto simp: dialable_def is_digit_def)
  moreover have "TrimSpace n = n" using assms(1) d by (intro TrimSpace_dialable) auto
  ultimately show ?thesis using assms by (simp add: StripURIScheme_def Let_def)
qed

section \<open>A sample run\<close>

text \<open>One incoming call is ringing.\<close>

definition sample_ringing :: store where
  "sample_ringing = snd (Apply [1, 0, 0] (NewStore 100))"

lemma sample_ringing_eq:
  "sample_ringing = \<lparr>st_calls = [(1, \<lparr>call_Index = 1, call_State = 0, call_Flags = 0, call_Token = 101,
      call_Identity = no_identity\<rparr>)], st_claimed = [], st_identities = [], st_sequence = 101,
    st_seed = 100, st_tokens = 101\<rparr>"
  by (simp add: sample_ringing_def Apply_def ParseCallState_def NewStore_def Let_def nextToken.simps bump_sequence_def)

lemma TokenForIndex_iff: "store_inv s \<Longrightarrow> TokenForIndex i s = (t, True) \<longleftrightarrow> token_at s i = Some t"
  using token_atD by (auto simp: TokenForIndex_def token_at_def split: option.splits)

lemma run_inv: "store_inv s \<Longrightarrow> store_inv (fold exec_op ops s)"
  by (induction ops arbitrary: s) (auto intro: exec_op_inv)


lemma sample_ringing_reachable: "reachable store_init store_step sample_ringing"
  unfolding sample_ringing_def
  by (rule reachable.next_state [OF reachable.start])
    (auto simp: store_init_def store_step_def intro: exI [of _ "Op_Apply [1, 0, 0]"])

text \<open>A claim lasts as long as its call.\<close>

lemma claimed_run:
  assumes "s = fold exec_op ops0 (NewStore now)" and "TokenForIndex i s = (t, True)"
    and "s' = fold exec_op ops (ClaimCall i t s)" and "length ops0 + length ops < 2 ^ 55"
    and "st_calls s' = [(i, c)]" and "call_Token c = t"
  shows "CurrentCallToken s' = Some t \<and> HandsetAnswered s' = 0"
proof -
  let ?s1 = "ClaimCall i t s"
  have inv: "store_inv s" "store_inv ?s1"
    using run_inv [OF NewStore_inv] ClaimCall_inv by (auto simp: assms(1))
  have "token_inv (length ops0) s"
    using run_tokens [OF token_inv_NewStore, of ops0 now] assms(1,4) by simp
  then have tok: "token_inv (Suc (length ops0)) ?s1"
    using exec_op_tokens [of "length ops0" s "Op_ClaimCall i t"] assms(4) by simp
  have t: "token_at s i = Some t" "t \<noteq> 0"
    using assms(2) inv(1) TokenForIndex_iff token_atD by blast+
  then have "(i, t) \<in> set (st_claimed ?s1)"
    by (auto simp: ClaimCall_def token_at_def go_get_put intro!: map_of_SomeD)
  moreover have "token_at s' i = Some t" using assms(5,6) by (simp add: token_at_def)
  ultimately have "(i, t) \<in> set (st_claimed s')"
    using run_keeps_claim [OF tok inv(2)] assms(3,4) by simp
  moreover have inv': "store_inv s'" unfolding assms(3) by (rule run_inv [OF inv(2)])
  moreover from this assms(5) have "call_Index c = i" by (simp add: store_inv_def)
  ultimately show ?thesis
    using assms(5,6) t claimed_at_iff [OF inv' t(2)]
    by (simp add: CurrentCallToken_def HandsetAnswered_def)
qed

section \<open>Properties\<close>

text \<open>
  Call State values. A value is accepted exactly when it consists of at most 255 three-byte
  entries, all with a nonzero index, a defined state and defined flags, no index twice; the
  result is those entries in order of their index.
\<close>

theorem ParseCallState_spec:
  "ParseCallState v = Inr cs \<longleftrightarrow>
     length v mod 3 = 0 \<and> length v \<le> 765 \<and> distinct (map call_Index (entries v))
     \<and> list_all (\<lambda>c. call_Index c \<noteq> 0 \<and> call_State c \<le> 6 \<and> call_Flags c AND NOT 7 = 0) (entries v)
     \<and> set cs = set (entries v) \<and> sorted (map call_Index cs) \<and> distinct (map call_Index cs)"
proof -
  have "cs = sort_key call_Index (entries v)"
    if "set cs = set (entries v)" "sorted (map call_Index cs)" "distinct (map call_Index cs)"
      "distinct (map call_Index (entries v))"
    using that
    by (intro map_sorted_distinct_set_unique [of call_Index]) (auto simp: distinct_map)
  then show ?thesis
    by (auto simp: ParseCallState_iff entry_ok_def [abs_def] distinct_sort_key)
qed

text \<open>
  Applying a Call State value that parses, to any store a run of the program can reach. The
  snapshot shows exactly the reported calls, in order of their index, with the reported states
  and flags. A call that was already there keeps its token and its claim; a new call has a token
  that is not zero and no claim. Calls show the caller identity recorded for their index, and
  indexes without a call have none afterwards, so no call shows the caller of an earlier one.
\<close>

theorem Apply_spec:
  assumes "reachable store_init store_step s" and "Apply v s = (Inr snap, s')"
  shows "map (\<lambda>c. (call_Index c, call_State c, call_Flags c)) (snap_Calls snap)
      = map (\<lambda>c. (call_Index c, call_State c, call_Flags c)) (sort_key call_Index (entries v))
    \<and> (\<forall>c \<in> set (snap_Calls snap). call_Identity c = Identity (call_Index c) s
        \<and> (case go_get (st_calls s) (call_Index c) of
             Some d \<Rightarrow> call_Token c = call_Token d
               \<and> claimed_at s' (call_Index c) = claimed_at s (call_Index c)
           | None \<Rightarrow> call_Token c \<noteq> 0 \<and> claimed_at s' (call_Index c) = 0))
    \<and> (\<forall>i. i \<notin> call_Index ` set (snap_Calls snap) \<longrightarrow> Identity i s' = no_identity)"
proof -
  have inv: "store_inv s" by (rule store_sys.reachable_inv [OF assms(1)])
  obtain cs where cs: "ParseCallState v = Inr cs"
    using assms(2) by (cases "ParseCallState v") (auto simp: Apply_error)
  have s': "s' = snd (Apply v s)" and snap: "snap = Snapshot s'"
    using assms(2) Apply_ok(7) [OF cs, of s] by simp_all
  have inv': "store_inv s'" unfolding s' by (rule Apply_inv [OF inv])
  have ids: "identity_at s' i = (if token_at s' i = None then no_identity else identity_at s i)" for i
    by (simp add: identity_at_def s' Apply_ok(5) [OF cs] go_get_filter_key)
  have "map (\<lambda>c. (call_Index c, call_State c, call_Flags c)) (snap_Calls snap)
      = map (\<lambda>c. (call_Index c, call_State c, call_Flags c)) (sort_key call_Index (entries v))"
    using cs snapshot_report [of "assigned s cs (st_tokens s)" s'] parsed_facts(2) [OF cs]
    by (simp add: s' snap Apply_ok(1) [OF cs] assigned_report ParseCallState_iff)
  moreover have "call_Identity c = Identity (call_Index c) s
        \<and> (case go_get (st_calls s) (call_Index c) of
             Some d \<Rightarrow> call_Token c = call_Token d
               \<and> claimed_at s' (call_Index c) = claimed_at s (call_Index c)
           | None \<Rightarrow> call_Token c \<noteq> 0 \<and> claimed_at s' (call_Index c) = 0)" if "c \<in> set (snap_Calls snap)" for c
  proof -
    note c = snapshot_call [OF inv' that [unfolded snap]]
    from c(1) obtain a where "a \<in> set (assigned s cs (st_tokens s))" "call_Index a = call_Index c" "call_Token a = call_Token c"
      unfolding s' token_at_Apply [OF cs] by blast
    with assigned_token_valid [OF this(1)] have
      "token_at s (call_Index c) = Some (call_Token c) \<or> token_at s (call_Index c) = None \<and> call_Token c \<noteq> 0"
      by auto
    with c ids Apply_claim [OF inv cs, of "call_Index c" "call_Token c"] show ?thesis
      by (auto simp: Identity_def s' token_at_def split: option.splits)
  qed
  moreover have "Identity i s' = no_identity" if "i \<notin> call_Index ` set (snap_Calls snap)" for i
    using that ids snapshot_index [OF inv', of i] by (simp add: Identity_def snap)
  ultimately show ?thesis by blast
qed

theorem Apply_spec_witness:
  "reachable store_init store_step sample_ringing
   \<and> Apply [1, 3, 0, 2, 0, 0] sample_ringing = (Inr (Snapshot (snd (Apply [1, 3, 0, 2, 0, 0] sample_ringing))),
        snd (Apply [1, 3, 0, 2, 0, 0] sample_ringing))
   \<and> call_Token (snap_Calls (Snapshot (snd (Apply [1, 3, 0, 2, 0, 0] sample_ringing))) ! 0) = 101"
proof -
  let ?v = "[1, 3, 0, 2, 0, 0]" and ?s = "sample_ringing"
  note r = sample_ringing_reachable
  have p: "\<exists>cs. ParseCallState ?v = Inr cs" by (simp add: ParseCallState_def)
  then have a: "Apply ?v ?s = (Inr (Snapshot (snd (Apply ?v ?s))), snd (Apply ?v ?s))"
    using Apply_ok(7) [of ?v _ ?s] by (metis prod.collapse)
  note spec = Apply_spec [OF r a]
  from spec have i: "map call_Index (snap_Calls (Snapshot (snd (Apply ?v ?s)))) = [1, 2]"
    by (auto dest!: arg_cong [of _ _ "map fst"] simp: comp_def)
  then obtain c d where cd: "snap_Calls (Snapshot (snd (Apply ?v ?s))) = [c, d]" "call_Index c = 1" by auto
  with spec have "call_Token c = 101" by (simp add: sample_ringing_eq)
  with r a cd show ?thesis by simp
qed

text \<open>
  C7. Tokens identify calls for good. In every run of at most \<open>2\<^sup>5\<^sup>5\<close> operations: if a snapshot
  showed token \<open>t\<close> for the call with index \<open>i\<close> and a command with token \<open>t\<close> is found valid later,
  then it addresses index \<open>i\<close>, and the call has been there, with this token, at every moment in
  between. A command meant for a call that has ended is never applied to another one, even if
  the phone reuses the index. (The bound keeps the 64-bit counter from coming round.)
\<close>

theorem stale_command_rejected:
  assumes "s = fold exec_op ops0 (NewStore now)" and "length ops0 + length (ops1 @ ops2) \<le> 2 ^ 55"
    and "TokenForIndex i s = (t, True)"
    and "ValidateIndexedCommand j t opcode (fold exec_op (ops1 @ ops2) s)"
  shows "j = i \<and> TokenForIndex i (fold exec_op ops1 s) = (t, True)"
proof -
  have tok: "token_inv (length ops0) s"
    using run_tokens [OF token_inv_NewStore, of ops0 now] assms(1,2) by simp
  have inv: "store_inv s" unfolding assms(1) by (rule run_inv [OF NewStore_inv])
  have "token_at (fold exec_op (ops1 @ ops2) s) j = Some t"
    using assms(4) by (auto simp: ValidateIndexedCommand_def token_at_def split: option.splits if_splits)
  with token_continuous [OF tok assms(2)] assms(3) show ?thesis
    by (simp add: TokenForIndex_iff inv run_inv)
qed

theorem stale_command_rejected_witness:
  "TokenForIndex 1 sample_ringing = (101, True)
   \<and> ValidateIndexedCommand 1 101 OpcodeTerminate (fold exec_op ([] @ [Op_ClaimCall 1 101]) sample_ringing)
   \<and> TokenForIndex 1 (fold exec_op [] sample_ringing) = (101, True)"
proof -
  have s: "sample_ringing = fold exec_op [Op_Apply [1, 0, 0]] (NewStore 100)" by (simp add: sample_ringing_def)
  have a: "TokenForIndex 1 sample_ringing = (101, True)" by (simp add: sample_ringing_eq TokenForIndex_def)
  have b: "ValidateIndexedCommand 1 101 OpcodeTerminate (fold exec_op ([] @ [Op_ClaimCall 1 101]) sample_ringing)"
    by (simp add: sample_ringing_eq ValidateIndexedCommand_def ClaimCall_def)
  from stale_command_rejected [OF s _ a b] a b show ?thesis by simp
qed

text \<open>
  The token the media path may carry. \<open>CurrentCallToken\<close> answers exactly when there is one
  call only and the phone did not answer it by itself, and then with that call's token. So the
  media broker's gate and the hand-back of a handset-answered call never contradict each other.
\<close>

theorem current_token_iff:
  assumes "reachable store_init store_step s"
  shows "CurrentCallToken s = Some t \<longleftrightarrow>
    (\<exists>i c. st_calls s = [(i, c)] \<and> call_Token c = t) \<and> HandsetAnswered s = 0"
proof -
  have inv: "store_inv s" by (rule store_sys.reachable_inv [OF assms])
  then have "\<forall>(i, c) \<in> set (st_calls s). call_Token c \<noteq> 0" by (auto simp: store_inv_def call_ok_def)
  then show ?thesis
    by (auto simp: CurrentCallToken_def HandsetAnswered_def split: list.splits if_splits)
qed

theorem current_token_iff_witness:
  "reachable store_init store_step sample_ringing \<and> CurrentCallToken sample_ringing = Some 101"
  using current_token_iff [OF sample_ringing_reachable, of 101] sample_ringing_reachable
  by (simp add: sample_ringing_eq HandsetAnswered_def)

text \<open>
  C8. Who may carry media. If \<open>CurrentCallToken\<close> answers with \<open>t\<close> after a run of operations, the
  one call it names is outgoing, or still ringing, or this side claimed exactly this call
  during the run: a call the phone answered on its own is never handed to the media path.
\<close>

theorem media_only_for_claimed:
  assumes "CurrentCallToken (fold exec_op ops (NewStore now)) = Some t"
  shows "\<exists>i c. st_calls (fold exec_op ops (NewStore now)) = [(i, c)] \<and> call_Token c = t \<and> t \<noteq> 0
    \<and> (call_Flags c AND CallFlagOutgoing \<noteq> 0 \<or> call_State c = StateIncoming
        \<or> Op_ClaimCall i t \<in> set ops)"
proof -
  let ?s = "fold exec_op ops (NewStore now)"
  have inv: "store_inv ?s" by (rule run_inv [OF NewStore_inv])
  from assms obtain i c where c: "st_calls ?s = [(i, c)]" "call_Token c = t" "t \<noteq> 0"
    "call_Flags c AND CallFlagOutgoing = 0 \<and> call_State c \<noteq> StateIncoming \<longrightarrow> claimed_at ?s (call_Index c) = t"
    by (auto simp: CurrentCallToken_def split: list.splits if_splits)
  with inv have "call_Index c = i" by (simp add: store_inv_def)
  with c claimed_at_iff [OF inv c(3)] claims_from_ops [of i t ops "NewStore now"] show ?thesis
    by (auto simp: NewStore_def Let_def)
qed

theorem media_only_for_claimed_witness:
  "CurrentCallToken (fold exec_op [Op_Apply [1, 0, 0]] (NewStore 100)) = Some 101
   \<and> (\<exists>i c. st_calls (fold exec_op [Op_Apply [1, 0, 0]] (NewStore 100)) = [(i, c)] \<and> call_Token c = 101)"
proof -
  have s: "fold exec_op [Op_Apply [1, 0, 0]] (NewStore 100) = sample_ringing" by (simp add: sample_ringing_def)
  have c: "CurrentCallToken (fold exec_op [Op_Apply [1, 0, 0]] (NewStore 100)) = Some 101"
    unfolding s by (simp add: sample_ringing_eq CurrentCallToken_def)
  with media_only_for_claimed [OF c] show ?thesis by blast
qed

text \<open>
  An accepted call keeps its media. Once this side has claimed the call with index \<open>i\<close> and
  token \<open>t\<close>, then for as long as that call lasts and is the only one, whatever else happens in
  between, \<open>CurrentCallToken\<close> answers with \<open>t\<close> and the call is not taken for one the phone
  answered by itself.
\<close>

theorem claimed_call_keeps_media:
  assumes "s = fold exec_op ops0 (NewStore now)" and "TokenForIndex i s = (t, True)"
    and "s' = fold exec_op ops (ClaimCall i t s)" and "length ops0 + length ops < 2 ^ 55"
    and "st_calls s' = [(i, c)]" and "call_Token c = t"
  shows "CurrentCallToken s' = Some t \<and> HandsetAnswered s' = 0"
  using claimed_run [OF assms] .

theorem claimed_call_keeps_media_witness:
  "CurrentCallToken (fold exec_op [Op_Apply [1, 3, 0]] (ClaimCall 1 101 sample_ringing)) = Some 101"
proof -
  have s: "sample_ringing = fold exec_op [Op_Apply [1, 0, 0]] (NewStore 100)" by (simp add: sample_ringing_def)
  have a: "TokenForIndex 1 sample_ringing = (101, True)" by (simp add: sample_ringing_eq TokenForIndex_def)
  have c: "st_calls (fold exec_op [Op_Apply [1, 3, 0]] (ClaimCall 1 101 sample_ringing))
      = [(1, \<lparr>call_Index = 1, call_State = 3, call_Flags = 0, call_Token = 101, call_Identity = no_identity\<rparr>)]"
    by (simp add: sample_ringing_eq ClaimCall_def Apply_def ParseCallState_def Let_def)
  from claimed_call_keeps_media [OF s a refl _ c] show ?thesis by simp
qed

text \<open>
  Snapshot numbers. Whenever an operation of the store changes what its snapshot shows, the
  new snapshot has another sequence number than the old one, never zero, although the 64-bit
  counter may wrap; and an operation that reports an error changes nothing. So a peer that drops
  a repeated sequence number never drops a change.
\<close>

theorem snapshot_change_renumbers:
  assumes "reachable store_init store_step s"
  shows "(Snapshot (exec_op op s) \<noteq> Snapshot s \<longrightarrow>
      snap_Sequence (Snapshot (exec_op op s)) \<noteq> snap_Sequence (Snapshot s))
    \<and> snap_Sequence (Snapshot (exec_op op s)) \<noteq> 0
    \<and> (\<forall>v e. Apply v s = (Inl e, exec_op op s) \<or> ApplyIncomingCall v s = (Some e, exec_op op s)
         \<longrightarrow> exec_op op s = s)"
proof -
  have inv: "store_inv s" by (rule store_sys.reachable_inv [OF assms])
  then have q: "st_sequence s \<noteq> 0" by (simp add: store_inv_def)
  have snap: "snap_Sequence (Snapshot x) = st_sequence x" for x
    by (simp add: Snapshot_def snapshotLocked_def)
  have same: "Snapshot (ClaimCall i t s) = Snapshot s" for i t
    by (simp add: Snapshot_def snapshotLocked_def identity_at_def)
  have inc: "snd (ApplyIncomingCall v s) = s \<or> st_sequence (snd (ApplyIncomingCall v s)) = st_sequence (bump_sequence s)" for v
    by (auto simp: ApplyIncomingCall_def setIdentityLocked_def bump_sequence_def case_prod_beta Let_def split: sum.splits)
  have app: "snd (Apply v s) = s \<or> st_sequence (snd (Apply v s)) = st_sequence (bump_sequence s)" for v
    by (cases "ParseCallState v") (simp_all add: Apply_error Apply_ok)
  have "Snapshot (exec_op op s) = Snapshot s \<or> st_sequence (exec_op op s) \<noteq> st_sequence s"
    using inc app same bump_sequence_new [OF q] by (cases op) (metis exec_op.simps(1), metis exec_op.simps(2), simp)
  moreover have "st_sequence (exec_op op s) \<noteq> 0"
    using exec_op_inv [OF inv, of op] by (simp add: store_inv_def)
  moreover have "s' = s" if "Apply v s = (Inl e, s')" for v e s'
    using that Apply_ok(7) [of v _ s] by (cases "ParseCallState v") (auto simp: Apply_error)
  moreover have "s' = s" if "ApplyIncomingCall v s = (Some e, s')" for v e s'
    using that by (auto simp: ApplyIncomingCall_def setIdentityLocked_def case_prod_beta Let_def split: sum.splits if_splits)
  ultimately show ?thesis by (auto simp: snap)
qed

theorem snapshot_change_renumbers_witness:
  "reachable store_init store_step sample_ringing
   \<and> snap_Sequence (Snapshot (exec_op (Op_Apply []) sample_ringing)) \<noteq> 0"
  using snapshot_change_renumbers [OF sample_ringing_reachable] sample_ringing_reachable by blast

text \<open>
  Caller numbers. What is recorded of a reported caller URI consists of dialable characters
  only, at most 32 of them, so it always fits the identity payload; and the number of a plain
  \<open>tel:\<close> URI is recorded unchanged.
\<close>

theorem StripURIScheme_spec:
  "length (StripURIScheme u) \<le> IdentityURIMax \<and> list_all dialable (StripURIScheme u)
   \<and> (n \<noteq> [] \<and> length n \<le> IdentityURIMax \<and> list_all dialable n \<longrightarrow> StripURIScheme (''tel:'' @ n) = n)"
  using StripURIScheme_ok [of u] StripURIScheme_tel_number [of n] by simp

theorem StripURIScheme_spec_witness: "StripURIScheme ''tel:+1*#'' = ''+1*#''"
  using StripURIScheme_spec [of "[]" "''+1*#''"] by (simp add: dialable_def is_digit_def)

end
