(* ===== verification/Dbus_Values.thy ===== *)
theory Dbus_Values
  imports Callbridge_Prelude
begin

text \<open>
  The D-Bus values the BlueZ clients inspect. A \<open>dbus.Variant\<close> is seen only through
  \<open>Value()\<close> and a type assertion, so it is the tagged union of the dynamic types the code
  asserts; \<open>V_other\<close> stands for all the others. Reading an absent key of a property map gives
  the zero variant, whose value has none of the asserted types: \<open>V_nil\<close>.

  \<open>ObjectPath.IsValid\<close> is code of the godbus package; the definitions that call it take it as
  their argument \<open>isValid\<close>.
\<close>

type_synonym object_path = string

datatype variant =
    V_nil
  | V_string string
  | V_path object_path
  | V_bool bool
  | V_byte byte
  | V_uint16 uint16
  | V_uint32 uint32
  | V_bytes bytes
  | V_strings "string list"
  | V_paths "object_path list"
  | V_dict "(string \<times> variant) list"
  | V_other

type_synonym properties = "(string, variant) gomap"
type_synonym interfaces = "(string, properties) gomap"
type_synonym managed_objects = "(object_path, interfaces) gomap"

definition property :: "properties \<Rightarrow> string \<Rightarrow> variant" where
  "property ps name = (case go_get ps name of None \<Rightarrow> V_nil | Some v \<Rightarrow> v)"

definition as_string :: "variant \<Rightarrow> string option" where
  "as_string v = (case v of V_string x \<Rightarrow> Some x | _ \<Rightarrow> None)"

definition as_path :: "variant \<Rightarrow> object_path option" where
  "as_path v = (case v of V_path x \<Rightarrow> Some x | _ \<Rightarrow> None)"

definition as_bool :: "variant \<Rightarrow> bool option" where
  "as_bool v = (case v of V_bool x \<Rightarrow> Some x | _ \<Rightarrow> None)"

definition as_byte :: "variant \<Rightarrow> byte option" where
  "as_byte v = (case v of V_byte x \<Rightarrow> Some x | _ \<Rightarrow> None)"

definition as_uint16 :: "variant \<Rightarrow> uint16 option" where
  "as_uint16 v = (case v of V_uint16 x \<Rightarrow> Some x | _ \<Rightarrow> None)"

definition as_uint32 :: "variant \<Rightarrow> uint32 option" where
  "as_uint32 v = (case v of V_uint32 x \<Rightarrow> Some x | _ \<Rightarrow> None)"

definition as_bytes :: "variant \<Rightarrow> bytes option" where
  "as_bytes v = (case v of V_bytes x \<Rightarrow> Some x | _ \<Rightarrow> None)"

definition as_strings :: "variant \<Rightarrow> string list option" where
  "as_strings v = (case v of V_strings x \<Rightarrow> Some x | _ \<Rightarrow> None)"

definition as_paths :: "variant \<Rightarrow> object_path list option" where
  "as_paths v = (case v of V_paths x \<Rightarrow> Some x | _ \<Rightarrow> None)"

definition as_dict :: "variant \<Rightarrow> properties option" where
  "as_dict v = (case v of V_dict x \<Rightarrow> Some x | _ \<Rightarrow> None)"

text \<open>A signal with its member name, the object that sent it and its arguments.\<close>

record signal =
  sig_Name :: string
  sig_Path :: object_path
  sig_Body :: "variant list"

text \<open>A D-Bus method call fails, answers with values of the wrong type, or answers.\<close>

datatype 'a reply = Call_failed | Undecodable | Reply 'a

lemmas as_defs = as_string_def as_path_def as_bool_def as_byte_def as_uint16_def as_uint32_def
  as_bytes_def as_strings_def as_paths_def as_dict_def

lemma as_string_Some [simp]: "as_string v = Some x \<longleftrightarrow> v = V_string x"
  by (auto simp: as_string_def split: variant.splits)

lemma as_path_Some [simp]: "as_path v = Some x \<longleftrightarrow> v = V_path x"
  by (auto simp: as_path_def split: variant.splits)

lemma as_bool_Some [simp]: "as_bool v = Some x \<longleftrightarrow> v = V_bool x"
  by (auto simp: as_bool_def split: variant.splits)

lemma as_byte_Some [simp]: "as_byte v = Some x \<longleftrightarrow> v = V_byte x"
  by (auto simp: as_byte_def split: variant.splits)

lemma as_uint16_Some [simp]: "as_uint16 v = Some x \<longleftrightarrow> v = V_uint16 x"
  by (auto simp: as_uint16_def split: variant.splits)

lemma as_uint32_Some [simp]: "as_uint32 v = Some x \<longleftrightarrow> v = V_uint32 x"
  by (auto simp: as_uint32_def split: variant.splits)

lemma as_bytes_Some [simp]: "as_bytes v = Some x \<longleftrightarrow> v = V_bytes x"
  by (auto simp: as_bytes_def split: variant.splits)

lemma as_strings_Some [simp]: "as_strings v = Some x \<longleftrightarrow> v = V_strings x"
  by (auto simp: as_strings_def split: variant.splits)

lemma as_paths_Some [simp]: "as_paths v = Some x \<longleftrightarrow> v = V_paths x"
  by (auto simp: as_paths_def split: variant.splits)

lemma as_dict_Some [simp]: "as_dict v = Some x \<longleftrightarrow> v = V_dict x"
  by (auto simp: as_dict_def split: variant.splits)

end
