(* ===== verification/Gtbs_Inventory.thy ===== *)
theory Gtbs_Inventory
  imports Call_Protocol Dbus_Values "HOL-Library.List_Lexorder" "HOL-Library.Char_ord" "HOL-Library.Multiset"
begin

text \<open>
  Discovery of the phone's telephone bearer service (\<open>internal/gtbs/inventory.go\<close>): selecting the
  BlueZ device object, finding the one service and its characteristics among the managed objects,
  and checking that the characteristics the client needs are there and usable.

  \<open>ReadManagedObjects\<close> is a D-Bus call; its result is the argument \<open>objects\<close> of the definitions.
  A Go map is visited in an order the language leaves open: the order of the list \<open>objects\<close>, and
  the last theorem shows that it does not matter.
\<close>

definition DeviceIface :: string where "DeviceIface = ''org.bluez.Device1''"
definition GattServiceIface :: string where "GattServiceIface = ''org.bluez.GattService1''"
definition GattCharacteristicIF :: string where "GattCharacteristicIF = ''org.bluez.GattCharacteristic1''"
definition PropertiesIface :: string where "PropertiesIface = ''org.freedesktop.DBus.Properties''"
definition UUIDGTBS :: string where "UUIDGTBS = ''0000184c-0000-1000-8000-00805f9b34fb''"
definition UUIDCallState :: string where "UUIDCallState = ''00002bbd-0000-1000-8000-00805f9b34fb''"
definition UUIDControlPoint :: string where "UUIDControlPoint = ''00002bbe-0000-1000-8000-00805f9b34fb''"
definition UUIDOptionalOpcodes :: string where "UUIDOptionalOpcodes = ''00002bbf-0000-1000-8000-00805f9b34fb''"
definition UUIDIncomingCall :: string where "UUIDIncomingCall = ''00002bc1-0000-1000-8000-00805f9b34fb''"

record characteristic =
  ch_Path :: object_path
  ch_UUID :: string
  ch_Flags :: "string list"

record inventory =
  inv_DevicePath :: object_path
  inv_ServicePath :: object_path
  inv_Characteristics :: "(string, characteristic) gomap"

datatype inventory_error =
    Device_selector_invalid | Device_path_invalid | Device_count nat
  | Device_absent | Device_interface_absent | Service_count nat
  | Characteristic_duplicate string | Characteristic_absent string
  | Characteristic_lacks string string | Control_point_not_writable

definition contains :: "string list \<Rightarrow> string \<Rightarrow> bool" where
  "contains values wanted \<longleftrightarrow> wanted \<in> set values"

definition DevicePath :: "(object_path \<Rightarrow> bool) \<Rightarrow> string \<Rightarrow> string \<Rightarrow> inventory_error + object_path" where
  "DevicePath isValid adapter address =
     (if \<not> HasPrefix adapter ''hci'' \<or> address = [] then Inl Device_selector_invalid
      else let path = ''/org/bluez/'' @ adapter @ ''/dev_''
                 @ ReplaceChar (CHR '':'') (CHR ''_'') (ToUpper address)
        in if \<not> isValid path then Inl Device_path_invalid else Inr path)"

text \<open>The test of the loop in \<open>ResolveDevicePath\<close>.\<close>

definition device_matches :: "string \<Rightarrow> string \<Rightarrow> interfaces \<Rightarrow> bool" where
  "device_matches adapter address ifaces =
     (case go_get ifaces DeviceIface of
        None \<Rightarrow> False
      | Some properties \<Rightarrow>
          (case (as_string (property properties ''Address''), as_path (property properties ''Adapter'')) of
             (Some actualAddress, Some actualAdapter) \<Rightarrow>
               EqualFold actualAddress address \<and> actualAdapter = ''/org/bluez/'' @ adapter
           | _ \<Rightarrow> False))"

definition ResolveDevicePath :: "(object_path \<Rightarrow> bool) \<Rightarrow> managed_objects \<Rightarrow> string \<Rightarrow> string
    \<Rightarrow> inventory_error + object_path" where
  "ResolveDevicePath isValid objects adapter address =
     (case DevicePath isValid adapter address of
        Inl e \<Rightarrow> Inl e
      | Inr _ \<Rightarrow>
          let matches = sort (map fst (filter (\<lambda>(_, ifaces). device_matches adapter address ifaces) objects)) in
          if length matches \<noteq> 1 then Inl (Device_count (length matches)) else Inr (matches ! 0))"

definition validateInventory :: "inventory \<Rightarrow> inventory_error option" where
  "validateInventory i =
     (let check = (\<lambda>(uuid, flags).
            case go_get (inv_Characteristics i) uuid of
              None \<Rightarrow> Some (Characteristic_absent uuid)
            | Some characteristic \<Rightarrow>
                map_option (Characteristic_lacks uuid)
                  (find (\<lambda>flag. \<not> contains (ch_Flags characteristic) flag) flags)) in
      case check (UUIDCallState, [''read'', ''notify'']) of
        Some e \<Rightarrow> Some e
      | None \<Rightarrow>
          (case check (UUIDControlPoint, [''notify'']) of
             Some e \<Rightarrow> Some e
           | None \<Rightarrow>
               (let flags = (case go_get (inv_Characteristics i) UUIDControlPoint of
                               None \<Rightarrow> [] | Some control \<Rightarrow> ch_Flags control) in
                if \<not> contains flags ''write'' \<and> \<not> contains flags ''write-without-response''
                then Some Control_point_not_writable else None)))"

definition is_gtbs_service :: "object_path \<Rightarrow> interfaces \<Rightarrow> bool" where
  "is_gtbs_service devicePath ifaces =
     (case go_get ifaces GattServiceIface of
        None \<Rightarrow> False
      | Some properties \<Rightarrow>
          (case (as_string (property properties ''UUID''), as_path (property properties ''Device'')) of
             (Some uuid, Some device) \<Rightarrow> EqualFold uuid UUIDGTBS \<and> device = devicePath
           | _ \<Rightarrow> False))"

text \<open>What one round of the second loop of \<open>Discover\<close> finds at an object.\<close>

definition characteristic_of :: "object_path \<Rightarrow> object_path \<times> interfaces \<Rightarrow> characteristic option" where
  "characteristic_of servicePath = (\<lambda>(path, ifaces).
     case go_get ifaces GattCharacteristicIF of
       None \<Rightarrow> None
     | Some properties \<Rightarrow>
         (case (as_path (property properties ''Service''), as_string (property properties ''UUID''),
                as_strings (property properties ''Flags'')) of
            (Some service, Some uuid, Some flags) \<Rightarrow>
              if service \<noteq> servicePath then None
              else Some \<lparr>ch_Path = path, ch_UUID = ToLower uuid, ch_Flags = sort flags\<rparr>
          | _ \<Rightarrow> None))"

primrec collect_characteristics :: "object_path \<Rightarrow> managed_objects \<Rightarrow> (string, characteristic) gomap
    \<Rightarrow> inventory_error + (string, characteristic) gomap" where
  "collect_characteristics servicePath [] found = Inr found"
| "collect_characteristics servicePath (object # objects) found =
     (case characteristic_of servicePath object of
        None \<Rightarrow> collect_characteristics servicePath objects found
      | Some characteristic \<Rightarrow>
          if go_get found (ch_UUID characteristic) \<noteq> None
          then Inl (Characteristic_duplicate (ch_UUID characteristic))
          else collect_characteristics servicePath objects
                 (go_put (ch_UUID characteristic) characteristic found))"

definition Discover :: "managed_objects \<Rightarrow> object_path \<Rightarrow> inventory_error + inventory" where
  "Discover objects devicePath =
     (case go_get objects devicePath of
        None \<Rightarrow> Inl Device_absent
      | Some deviceInterfaces \<Rightarrow>
          if go_get deviceInterfaces DeviceIface = None then Inl Device_interface_absent
          else let servicePaths = map fst (filter (\<lambda>(_, ifaces). is_gtbs_service devicePath ifaces) objects) in
            if length servicePaths \<noteq> 1 then Inl (Service_count (length servicePaths))
            else let servicePath = servicePaths ! 0 in
              case collect_characteristics servicePath objects [] of
                Inl e \<Rightarrow> Inl e
              | Inr found \<Rightarrow>
                  let result = \<lparr>inv_DevicePath = devicePath, inv_ServicePath = servicePath,
                                inv_Characteristics = found\<rparr> in
                  (case validateInventory result of Some e \<Rightarrow> Inl e | None \<Rightarrow> Inr result))"

section \<open>What discovery finds\<close>

definition service_characteristics :: "object_path \<Rightarrow> managed_objects \<Rightarrow> characteristic list" where
  "service_characteristics servicePath objects = List.map_filter (characteristic_of servicePath) objects"

lemma service_characteristics_simps [simp]:
  "service_characteristics p [] = []"
  "service_characteristics p (x # xs) =
     (case characteristic_of p x of None \<Rightarrow> service_characteristics p xs
      | Some c \<Rightarrow> c # service_characteristics p xs)"
  by (simp_all add: service_characteristics_def map_filter_simps split: option.splits)

lemma collect_Inr_iff:
  "(\<exists>m. collect_characteristics p objects found = Inr m) \<longleftrightarrow>
     distinct (map ch_UUID (service_characteristics p objects))
     \<and> set (map ch_UUID (service_characteristics p objects)) \<inter> fst ` set found = {}"
proof (induction objects arbitrary: found)
  case Nil
  then show ?case by simp
next
  case (Cons x objects)
  have dom: "fst ` set (go_put k v found) = insert k (fst ` set found)" for k and v :: characteristic
    using dom_update [of k v found] by (simp add: dom_map_of_conv_image_fst)
  show ?case
    by (cases "characteristic_of p x")
      (auto simp: Cons.IH dom map_of_eq_None_iff simp del: dom_map_of_conv_image_fst)
qed

lemma collect_result:
  "collect_characteristics p objects found = Inr m \<Longrightarrow>
   go_get m u = (case go_get found u of Some c \<Rightarrow> Some c
     | None \<Rightarrow> find (\<lambda>c. ch_UUID c = u) (service_characteristics p objects))"
proof (induction objects arbitrary: found)
  case Nil
  then show ?case by (simp split: option.splits)
next
  case (Cons x objects)
  then show ?case
    by (auto simp: go_get_put split: option.splits if_splits)
qed

lemma find_by_key:
  "distinct (map f xs) \<Longrightarrow> find (\<lambda>c. f c = u) xs = Some c \<longleftrightarrow> c \<in> set xs \<and> f c = u"
proof (induction xs)
  case Nil
  then show ?case by simp
next
  case (Cons x xs)
  then show ?case by (cases "f x = u") (auto simp: image_iff)
qed

lemma collect_lookup:
  assumes "collect_characteristics p objects [] = Inr m"
  shows "go_get m u = Some c \<longleftrightarrow> c \<in> set (service_characteristics p objects) \<and> ch_UUID c = u"
  using collect_Inr_iff [of p objects "[]"] assms
  by (auto simp: collect_result [OF assms] find_by_key)

text \<open>The paths of the telephone bearer services of a device.\<close>

definition gtbs_services :: "managed_objects \<Rightarrow> object_path \<Rightarrow> object_path list" where
  "gtbs_services objects devicePath = map fst (filter (\<lambda>(_, ifaces). is_gtbs_service devicePath ifaces) objects)"

lemma Discover_InrD:
  assumes "Discover objects d = Inr i"
  shows "\<exists>ifs. go_get objects d = Some ifs \<and> go_get ifs DeviceIface \<noteq> None"
    and "gtbs_services objects d = [inv_ServicePath i]" and "inv_DevicePath i = d"
    and "collect_characteristics (inv_ServicePath i) objects [] = Inr (inv_Characteristics i)"
    and "validateInventory i = None"
  using assms
  by (auto simp: Discover_def gtbs_services_def Let_def length_Suc_conv split: option.splits if_splits sum.splits)

lemma validateInventory_iff:
  "validateInventory i = None \<longleftrightarrow>
     (\<exists>c. go_get (inv_Characteristics i) UUIDCallState = Some c \<and> {''read'', ''notify''} \<subseteq> set (ch_Flags c))
     \<and> (\<exists>c. go_get (inv_Characteristics i) UUIDControlPoint = Some c \<and> ''notify'' \<in> set (ch_Flags c)
          \<and> (''write'' \<in> set (ch_Flags c) \<or> ''write-without-response'' \<in> set (ch_Flags c)))"
  by (auto simp: validateInventory_def contains_def Let_def split: option.splits)

lemma validateInventory_cong:
  "(\<And>u. go_get (inv_Characteristics i) u = go_get (inv_Characteristics j) u) \<Longrightarrow>
   validateInventory i = None \<longleftrightarrow> validateInventory j = None"
  by (simp add: validateInventory_iff)

lemma map_of_mset: "mset xs = mset ys \<Longrightarrow> distinct (map fst xs) \<Longrightarrow> map_of xs = map_of ys"
proof (rule ext)
  fix k assume h: "mset xs = mset ys" "distinct (map fst xs)"
  then have "distinct (map fst ys)" by (metis mset_map distinct_count_atmost_1 mset_eq_imp_distinct_iff)
  with h mset_eq_setD [OF h(1)] show "map_of xs k = map_of ys k"
    by (intro option_eqI) (simp add: map_of_eq_Some_iff)
qed

lemma mset_service_characteristics:
  "mset objects = mset objects' \<Longrightarrow>
   mset (service_characteristics p objects) = mset (service_characteristics p objects')"
  by (simp add: service_characteristics_def List.map_filter_def)

lemma Discover_perm:
  assumes "mset xs = mset ys" and "go_wf xs" and "Discover xs d = Inr i"
  shows "\<exists>j. Discover ys d = Inr j \<and> inv_DevicePath j = inv_DevicePath i
    \<and> inv_ServicePath j = inv_ServicePath i
    \<and> go_get (inv_Characteristics j) = go_get (inv_Characteristics i)"
proof -
  note D = Discover_InrD [OF assms(3)]
  have "mset (gtbs_services ys d) = mset [inv_ServicePath i]"
    using assms(1) by (simp add: gtbs_services_def flip: D(2))
  then have svc: "gtbs_services ys d = [inv_ServicePath i]" by simp
  note ms = mset_service_characteristics [OF assms(1), of "inv_ServicePath i"]
  have "distinct (map ch_UUID (service_characteristics (inv_ServicePath i) xs))"
    using collect_Inr_iff [of _ xs "[]"] D(4) by auto
  then have "distinct (map ch_UUID (service_characteristics (inv_ServicePath i) ys))"
    using ms by (metis mset_map mset_eq_imp_distinct_iff)
  then obtain m where m: "collect_characteristics (inv_ServicePath i) ys [] = Inr m"
    using collect_Inr_iff [of _ ys "[]"] by fastforce
  have same: "go_get m = go_get (inv_Characteristics i)"
    using collect_lookup [OF m] collect_lookup [OF D(4)] mset_eq_setD [OF ms]
    by (intro ext option_eqI) simp
  let ?j = "\<lparr>inv_DevicePath = d, inv_ServicePath = inv_ServicePath i, inv_Characteristics = m\<rparr>"
  have "validateInventory ?j = None" using D(5) validateInventory_cong [of ?j i] same by simp
  then have "Discover ys d = Inr ?j"
    using D(1) svc m map_of_mset [OF assms(1,2)]
    by (auto simp: Discover_def gtbs_services_def Let_def)
  with same D(3) show ?thesis by auto
qed

text \<open>A device with the one service and its two mandatory characteristics.\<close>

definition sample_objects :: managed_objects where
  "sample_objects =
     [(''/d'', [(DeviceIface, [(''Address'', V_string ''00:11:22:33:44:55''),
         (''Adapter'', V_path ''/org/bluez/hci0'')])]),
      (''/d/s'', [(GattServiceIface, [(''UUID'', V_string UUIDGTBS), (''Device'', V_path ''/d'')])]),
      (''/d/s/1'', [(GattCharacteristicIF, [(''Service'', V_path ''/d/s''), (''UUID'', V_string UUIDCallState),
         (''Flags'', V_strings [''read'', ''notify''])])]),
      (''/d/s/2'', [(GattCharacteristicIF, [(''Service'', V_path ''/d/s''), (''UUID'', V_string UUIDControlPoint),
         (''Flags'', V_strings [''write'', ''notify''])])])]"

lemma sample_objects_found: "\<exists>i. Discover sample_objects ''/d'' = Inr i"
proof -
  have "\<not> isl (Discover sample_objects ''/d'')" by code_simp
  then show ?thesis by (cases "Discover sample_objects ''/d''") auto
qed

section \<open>Properties\<close>

text \<open>
  Discovery. An inventory is returned only if the device object is there, has exactly one
  telephone bearer service, and that service has a Call State characteristic that can be read and
  notifies and a writable, notifying Control Point. It holds exactly the service's well-typed
  characteristics, keyed by lower-case UUID: none of another service or device.
\<close>

theorem Discover_sound:
  assumes "Discover objects d = Inr i"
  shows "inv_DevicePath i = d \<and> gtbs_services objects d = [inv_ServicePath i]
    \<and> (\<forall>u c. go_get (inv_Characteristics i) u = Some c \<longleftrightarrow>
         (\<exists>ob \<in> set objects. characteristic_of (inv_ServicePath i) ob = Some c) \<and> ch_UUID c = u)
    \<and> (\<exists>c. go_get (inv_Characteristics i) UUIDCallState = Some c \<and> {''read'', ''notify''} \<subseteq> set (ch_Flags c))
    \<and> (\<exists>c. go_get (inv_Characteristics i) UUIDControlPoint = Some c \<and> ''notify'' \<in> set (ch_Flags c)
          \<and> (''write'' \<in> set (ch_Flags c) \<or> ''write-without-response'' \<in> set (ch_Flags c)))"
proof -
  note D = Discover_InrD [OF assms]
  have "c \<in> set (service_characteristics p objects) \<longleftrightarrow> (\<exists>ob \<in> set objects. characteristic_of p ob = Some c)" for p c
    by (force simp: service_characteristics_def List.map_filter_def)
  with D collect_lookup [OF D(4)] D(5) [unfolded validateInventory_iff] show ?thesis by simp
qed

theorem Discover_sound_witness:
  "\<exists>i. Discover sample_objects ''/d'' = Inr i \<and> gtbs_services sample_objects ''/d'' = [inv_ServicePath i]
     \<and> (\<exists>c. go_get (inv_Characteristics i) UUIDCallState = Some c)"
  using sample_objects_found Discover_sound by blast

text \<open>
  Go visits a map in an order it does not define. Whatever the order in which the managed
  objects are visited, discovery succeeds or fails alike, and finds the same service and the same
  characteristics.
\<close>

theorem Discover_order_irrelevant:
  assumes "mset objects = mset objects'" and "go_wf objects"
  shows "case Discover objects d of
      Inl _ \<Rightarrow> \<exists>e. Discover objects' d = Inl e
    | Inr i \<Rightarrow> \<exists>j. Discover objects' d = Inr j \<and> inv_DevicePath j = inv_DevicePath i
        \<and> inv_ServicePath j = inv_ServicePath i
        \<and> go_get (inv_Characteristics j) = go_get (inv_Characteristics i)"
proof -
  have wf': "go_wf objects'" using assms by (metis mset_map mset_eq_imp_distinct_iff)
  show ?thesis
    using Discover_perm [OF assms, of d] Discover_perm [OF assms(1) [symmetric] wf', of d]
    by (cases "Discover objects d"; cases "Discover objects' d") auto
qed

theorem Discover_order_irrelevant_witness:
  "mset sample_objects = mset (rev sample_objects) \<and> go_wf sample_objects
   \<and> (\<exists>j. Discover (rev sample_objects) ''/d'' = Inr j)"
proof -
  have wf: "go_wf sample_objects" by (simp add: sample_objects_def)
  obtain i where "Discover sample_objects ''/d'' = Inr i" using sample_objects_found by blast
  with Discover_order_irrelevant [of sample_objects "rev sample_objects" "''/d''"] wf show ?thesis by auto
qed

end
