(* ===== verification/Gtbs_Client.thy ===== *)
theory Gtbs_Client
  imports Gtbs_State Gtbs_Inventory
begin

text \<open>
  The telephone bearer client (\<open>internal/gtbs/client.go\<close>): one session with the phone
  (\<open>runOnce\<close>), the handling of its notifications, the commands written to the Call Control Point
  and the results it reports, and the one-shot probe.

  The state of a \<open>Client\<close> is the record \<open>client\<close>; the store it shares with the rest of the program
  is passed beside it. What BlueZ answers during a session is the record \<open>bluez_session\<close>, and the
  callbacks a step makes are returned as a list, in order. \<open>Command\<close> runs in the control server's
  goroutine while the session runs in another; it holds the client's mutex twice, so it is
  three steps: the checks, reserving the pending entry, and, after the write, clearing the entry if
  the write failed. The checks and the write see the state of their own moment.
\<close>

section \<open>State\<close>

datatype client_error =
    ErrUnavailable | ErrStale | ErrInvalid | errLEDisconnected
  | Dbus_error string
  | Store_error gtbs_error
  | Inventory_error inventory_error
  | Bad_signal_interface | Bad_bearer_body | Bad_bearer_Connected | Bad_gatt_body | Bad_gatt_value
  | Bad_control_result | Unexpected_originate_result | Unexpected_indexed_result
  | Bearer_not_boolean | Bus_disconnected | Signal_channel_closed
  | Write_error string

datatype callback =
    Cb_Snapshot snapshot
  | Cb_Ready bool
  | Cb_Result byte byte byte uint64

record client =
  cl_adapter :: string
  cl_device :: string
  cl_path :: object_path
  cl_conn :: "nat option"
  cl_inventory :: inventory
  cl_ready :: bool
  cl_pending :: "(byte \<times> byte, uint64) gomap"
  cl_pendingOriginate :: bool

definition leBearerIface :: string where "leBearerIface = ''org.bluez.Bearer.LE1''"

definition empty_inventory :: inventory where
  "empty_inventory = \<lparr>inv_DevicePath = [], inv_ServicePath = [], inv_Characteristics = []\<rparr>"

definition char_path :: "inventory \<Rightarrow> string \<Rightarrow> object_path" where
  "char_path i uuid = (case go_get (inv_Characteristics i) uuid of None \<Rightarrow> [] | Some c \<Rightarrow> ch_Path c)"

definition NewClient :: "(object_path \<Rightarrow> bool) \<Rightarrow> string \<Rightarrow> string \<Rightarrow> client option" where
  "NewClient isValid adapter device =
     (case DevicePath isValid adapter device of
        Inl _ \<Rightarrow> None
      | Inr path \<Rightarrow>
          if NormalizeDevice device = [] then None
          else Some \<lparr>cl_adapter = adapter, cl_device = NormalizeDevice device, cl_path = path,
                     cl_conn = None, cl_inventory = empty_inventory, cl_ready = False,
                     cl_pending = [], cl_pendingOriginate = False\<rparr>)"

section \<open>Notifications\<close>

definition setReady :: "bool \<Rightarrow> client \<Rightarrow> callback list \<times> client" where
  "setReady ready c =
     (let changed = (cl_ready c \<noteq> ready) in
      (if changed then [Cb_Ready ready] else [], c\<lparr>cl_ready := ready\<rparr>))"

definition pending_at :: "client \<Rightarrow> byte \<times> byte \<Rightarrow> uint64" where
  "pending_at c key = (case go_get (cl_pending c) key of None \<Rightarrow> 0 | Some t \<Rightarrow> t)"

definition handleControlResult :: "bytes \<Rightarrow> store \<Rightarrow> client \<Rightarrow> client_error option \<times> callback list \<times> client" where
  "handleControlResult value s c =
     (if length value \<noteq> 3 \<or> value ! 0 > OpcodeJoin \<or> (value ! 0 \<noteq> OpcodeOriginate \<and> value ! 1 = 0)
         \<or> \<not> ValidResult (value ! 2)
      then (Some Bad_control_result, [], c)
      else if value ! 0 = OpcodeOriginate then
        (let pending = cl_pendingOriginate c;
             c' = c\<lparr>cl_pendingOriginate := False\<rparr> in
         if \<not> pending then (Some Unexpected_originate_result, [], c')
         else let (token, _) = TokenForIndex (value ! 1) s in
           (None, [Cb_Result (value ! 0) (value ! 1) (value ! 2) token], c'))
      else
        (let key = (value ! 0, value ! 1);
             token = pending_at c key;
             c' = c\<lparr>cl_pending := go_delete key (cl_pending c)\<rparr> in
         if token = 0 then (Some Unexpected_indexed_result, [], c')
         else (None, [Cb_Result (value ! 0) (value ! 1) (value ! 2) token], c')))"

definition handleSignal :: "signal \<Rightarrow> inventory \<Rightarrow> store \<Rightarrow> client
    \<Rightarrow> client_error option \<times> callback list \<times> store \<times> client" where
  "handleSignal sig inventory s c =
     (if sig_Name sig \<noteq> PropertiesIface @ ''.PropertiesChanged'' \<or> length (sig_Body sig) < 2
      then (None, [], s, c)
      else case as_string (sig_Body sig ! 0) of
        None \<Rightarrow> (Some Bad_signal_interface, [], s, c)
      | Some iface \<Rightarrow>
          if iface = leBearerIface \<and> sig_Path sig = inv_DevicePath inventory then
            (case as_dict (sig_Body sig ! 1) of
               None \<Rightarrow> (Some Bad_bearer_body, [], s, c)
             | Some changed \<Rightarrow>
                 (case go_get changed ''Connected'' of
                    None \<Rightarrow> (None, [], s, c)
                  | Some variant \<Rightarrow>
                      (case as_bool variant of
                         None \<Rightarrow> (Some Bad_bearer_Connected, [], s, c)
                       | Some connected \<Rightarrow>
                           (if \<not> connected then Some errLEDisconnected else None, [], s, c))))
          else if iface \<noteq> GattCharacteristicIF then (None, [], s, c)
          else case as_dict (sig_Body sig ! 1) of
            None \<Rightarrow> (Some Bad_gatt_body, [], s, c)
          | Some changed \<Rightarrow>
              (case go_get changed ''Value'' of
                 None \<Rightarrow> (None, [], s, c)
               | Some variant \<Rightarrow>
                   (case as_bytes variant of
                      None \<Rightarrow> (Some Bad_gatt_value, [], s, c)
                    | Some value \<Rightarrow>
                        if sig_Path sig = char_path inventory UUIDCallState then
                          (case Apply value s of
                             (Inl e, s') \<Rightarrow> (Some (Store_error e), [], s', c)
                           | (Inr snapshot, s') \<Rightarrow> (None, [Cb_Snapshot snapshot], s', c))
                        else if sig_Path sig = char_path inventory UUIDControlPoint then
                          (let (err, cbs, c') = handleControlResult value s c in (err, cbs, s, c'))
                        else if sig_Path sig = char_path inventory UUIDIncomingCall then
                          (case ApplyIncomingCall value s of
                             (Some _, s') \<Rightarrow> (None, [], s', c)
                           | (None, s') \<Rightarrow> (None, [Cb_Snapshot (Snapshot s')], s', c))
                        else (None, [], s, c))))"

section \<open>Commands\<close>

datatype command_check = Refused client_error | Write object_path bytes

definition Command_check :: "message \<Rightarrow> store \<Rightarrow> client \<Rightarrow> command_check" where
  "Command_check m s c =
     (if msg_Type m \<noteq> TypeCommand \<or> NormalizeDevice (msg_Device m) \<noteq> cl_device c then Refused ErrInvalid
      else if msg_Code m = OpcodeOriginate \<and> \<not> ValidURI (string_of (msg_Payload m)) then Refused ErrInvalid
      else if msg_Code m \<noteq> OpcodeOriginate
           \<and> \<not> ValidateIndexedCommand (msg_Index m) (msg_Token m) (msg_Code m) s then Refused ErrStale
      else if cl_conn c = None \<or> \<not> cl_ready c then Refused ErrUnavailable
      else case go_get (inv_Characteristics (cl_inventory c)) UUIDControlPoint of
        None \<Rightarrow> Refused ErrUnavailable
      | Some control \<Rightarrow>
          Write (ch_Path control)
            (msg_Code m # (if msg_Code m = OpcodeOriginate then msg_Payload m else [msg_Index m])))"

definition Command_reserve :: "message \<Rightarrow> client \<Rightarrow> client_error option \<times> client" where
  "Command_reserve m c =
     (if msg_Code m = OpcodeOriginate then
        (if cl_pendingOriginate c then (Some ErrStale, c)
         else (None, c\<lparr>cl_pendingOriginate := True\<rparr>))
      else (None, c\<lparr>cl_pending := go_put (msg_Code m, msg_Index m) (msg_Token m) (cl_pending c)\<rparr>))"

definition Command_finish :: "message \<Rightarrow> string option \<Rightarrow> client \<Rightarrow> client_error option \<times> client" where
  "Command_finish m writeErr c =
     (case writeErr of
        None \<Rightarrow> (None, c)
      | Some err \<Rightarrow>
          (Some (Write_error err),
           if msg_Code m = OpcodeOriginate then c\<lparr>cl_pendingOriginate := False\<rparr>
           else if pending_at c (msg_Code m, msg_Index m) = msg_Token m
           then c\<lparr>cl_pending := go_delete (msg_Code m, msg_Index m) (cl_pending c)\<rparr>
           else c))"

text \<open>
  \<open>Command\<close> with no other step of the client in between; \<open>write\<close> is what the write to the
  Control Point answers. The second component lists the writes made.
\<close>

definition Command :: "(object_path \<Rightarrow> bytes \<Rightarrow> string option) \<Rightarrow> message \<Rightarrow> store \<Rightarrow> client
    \<Rightarrow> client_error option \<times> (object_path \<times> bytes) list \<times> client" where
  "Command write m s c =
     (case Command_check m s c of
        Refused e \<Rightarrow> (Some e, [], c)
      | Write path value \<Rightarrow>
          (case Command_reserve m c of
             (Some e, c') \<Rightarrow> (Some e, [], c')
           | (None, c') \<Rightarrow>
               (let (err, c'') = Command_finish m (write path value) c' in (err, [(path, value)], c''))))"

definition classifyCommandError :: "client_error option \<Rightarrow> byte" where
  "classifyCommandError err =
     (case err of
        None \<Rightarrow> AckAccepted
      | Some ErrStale \<Rightarrow> AckStale
      | Some ErrUnavailable \<Rightarrow> AckUnavailable
      | Some ErrInvalid \<Rightarrow> AckInvalid
      | _ \<Rightarrow> AckWriteFailed)"

definition RedactedError :: "string option \<Rightarrow> string" where
  "RedactedError err =
     (case err of
        None \<Rightarrow> []
      | Some text \<Rightarrow> if Contains text ''tel:'' then ''GTBS command failed with redacted URI'' else text)"

section \<open>A session\<close>

text \<open>What BlueZ answers to the calls of one session; \<open>Inl\<close> and \<open>False\<close> are failed calls.\<close>

record bluez_session =
  bz_conn :: "nat option"
  bz_objects :: "string + managed_objects"
  bz_match :: "string option"
  bz_connected :: "string + variant"
  bz_objects_again :: "string + managed_objects"
  bz_startNotify :: "object_path \<Rightarrow> string option"
  bz_readValue :: "object_path \<Rightarrow> string + bytes"

definition notificationPaths :: "inventory \<Rightarrow> object_path list" where
  "notificationPaths i =
     List.map_filter (\<lambda>uuid.
        case go_get (inv_Characteristics i) uuid of
          None \<Rightarrow> None
        | Some characteristic \<Rightarrow>
            if contains (ch_Flags characteristic) ''notify'' then Some (ch_Path characteristic) else None)
       [UUIDCallState, UUIDControlPoint, UUIDIncomingCall]"

definition readLEBearerConnected :: "bluez_session \<Rightarrow> client_error + bool" where
  "readLEBearerConnected bz =
     (case bz_connected bz of
        Inl e \<Rightarrow> Inl (Dbus_error e)
      | Inr v \<Rightarrow> (case as_bool v of None \<Rightarrow> Inl Bearer_not_boolean | Some connected \<Rightarrow> Inr connected))"

text \<open>
  The calls of \<open>runOnce\<close> up to and including the subscriptions: the connection, the resolved device
  path, the inventory, or the error that ends the attempt.
\<close>

definition open_session :: "(object_path \<Rightarrow> bool) \<Rightarrow> bluez_session \<Rightarrow> client
    \<Rightarrow> (client_error + nat \<times> inventory) \<times> client" where
  "open_session isValid bz c =
     (case bz_conn bz of
        None \<Rightarrow> (Inl (Dbus_error ''connect system bus''), c)
      | Some conn \<Rightarrow>
          (case bz_objects bz of
             Inl e \<Rightarrow> (Inl (Dbus_error e), c)
           | Inr objects \<Rightarrow>
               (case ResolveDevicePath isValid objects (cl_adapter c) (cl_device c) of
                  Inl e \<Rightarrow> (Inl (Inventory_error e), c)
                | Inr path \<Rightarrow>
                    let c = c\<lparr>cl_path := path\<rparr> in
                    case bz_match bz of
                      Some e \<Rightarrow> (Inl (Dbus_error e), c)
                    | None \<Rightarrow>
                        (case readLEBearerConnected bz of
                           Inl e \<Rightarrow> (Inl e, c)
                         | Inr connected \<Rightarrow>
                             if \<not> connected then (Inl errLEDisconnected, c)
                             else case bz_objects_again bz of
                               Inl e \<Rightarrow> (Inl (Dbus_error e), c)
                             | Inr objects' \<Rightarrow>
                                 (case Discover objects' path of
                                    Inl e \<Rightarrow> (Inl (Inventory_error e), c)
                                  | Inr i \<Rightarrow>
                                      (case find (\<lambda>p. bz_startNotify bz p \<noteq> None) (notificationPaths i) of
                                         Some p \<Rightarrow> (Inl (Dbus_error (the (bz_startNotify bz p))), c)
                                       | None \<Rightarrow> (Inr (conn, i), c)))))))"

text \<open>
  Reading the current calls, then once the caller of a call that is already ringing.
\<close>

definition read_calls :: "bluez_session \<Rightarrow> inventory \<Rightarrow> store \<Rightarrow> client_error option \<times> store" where
  "read_calls bz i s =
     (case bz_readValue bz (char_path i UUIDCallState) of
        Inl e \<Rightarrow> (Some (Dbus_error e), s)
      | Inr value \<Rightarrow>
          (case Apply value s of
             (Inl e, s') \<Rightarrow> (Some (Store_error e), s')
           | (Inr _, s') \<Rightarrow> (None, s')))"

definition read_identity :: "bluez_session \<Rightarrow> inventory \<Rightarrow> store \<Rightarrow> store" where
  "read_identity bz i s =
     (case go_get (inv_Characteristics i) UUIDIncomingCall of
        None \<Rightarrow> s
      | Some characteristic \<Rightarrow>
          if \<not> contains (ch_Flags characteristic) ''read'' then s
          else case bz_readValue bz (ch_Path characteristic) of
            Inl _ \<Rightarrow> s
          | Inr identityValue \<Rightarrow>
              if length identityValue = 0 then s else snd (ApplyIncomingCall identityValue s))"

text \<open>The session becomes the client's: emit the snapshot, then report ready.\<close>

definition publish_session :: "nat \<Rightarrow> inventory \<Rightarrow> store \<Rightarrow> client \<Rightarrow> callback list \<times> client" where
  "publish_session conn i s c =
     (let c = c\<lparr>cl_conn := Some conn, cl_inventory := i, cl_pending := [], cl_pendingOriginate := False\<rparr>;
          (cbs, c) = setReady True c
      in (Cb_Snapshot (Snapshot s) # cbs, c))"

text \<open>The deferred function that gives the session up again.\<close>

definition close_session :: "nat \<Rightarrow> client \<Rightarrow> client" where
  "close_session conn c =
     (if cl_conn c = Some conn
      then c\<lparr>cl_conn := None, cl_inventory := empty_inventory, cl_pending := [], cl_pendingOriginate := False\<rparr>
      else c)"

datatype session_event = Context_done | Bus_closed | Signal_received "signal option"

text \<open>
  The loop of \<open>runOnce\<close>. The list is what the select receives; it ends when the loop returns, and
  an exhausted list is a loop that still waits (\<open>None\<close>).
\<close>

primrec session_loop :: "inventory \<Rightarrow> session_event list \<Rightarrow> store \<Rightarrow> client
    \<Rightarrow> client_error option option \<times> callback list \<times> store \<times> client" where
  "session_loop i [] s c = (None, [], s, c)"
| "session_loop i (ev # evs) s c =
     (case ev of
        Context_done \<Rightarrow> (Some None, [], s, c)
      | Bus_closed \<Rightarrow> (Some (Some Bus_disconnected), [], s, c)
      | Signal_received None \<Rightarrow> (Some (Some Signal_channel_closed), [], s, c)
      | Signal_received (Some sig) \<Rightarrow>
          (case handleSignal sig i s c of
             (err, cbs, s', c') \<Rightarrow>
               if err = Some errLEDisconnected then (Some err, cbs, s', c')
               else (case session_loop i evs s' c' of (r, cbs', s'', c'') \<Rightarrow> (r, cbs @ cbs', s'', c''))))"

definition runOnce :: "(object_path \<Rightarrow> bool) \<Rightarrow> bluez_session \<Rightarrow> session_event list \<Rightarrow> store \<Rightarrow> client
    \<Rightarrow> (bool \<times> client_error option) option \<times> callback list \<times> store \<times> client" where
  "runOnce isValid bz evs s c =
     (case open_session isValid bz c of
        (Inl e, c) \<Rightarrow> (Some (False, Some e), [], s, c)
      | (Inr (conn, i), c) \<Rightarrow>
          (case read_calls bz i s of
             (Some e, s) \<Rightarrow> (Some (False, Some e), [], s, c)
           | (None, s) \<Rightarrow>
               (let s = read_identity bz i s;
                    (cbs, c) = publish_session conn i s c;
                    (r, cbs', s, c) = session_loop i evs s c
                in case r of
                     None \<Rightarrow> (None, cbs @ cbs', s, c)
                   | Some err \<Rightarrow> (Some (True, err), cbs @ cbs', s, close_session conn c))))"

text \<open>
  The waits of \<open>Run\<close> between sessions: \<open>established\<close> tells for each ended session whether it had
  come up. The loop doubles the wait below thirty seconds and starts over after a session.
\<close>

primrec Run_waits :: "duration \<Rightarrow> bool list \<Rightarrow> duration list" where
  "Run_waits backoff [] = []"
| "Run_waits backoff (established # rest) =
     (let wait = (if established then Second else backoff) in
      wait # Run_waits (if wait < 30 * Second then wait * 2 else wait) rest)"

section \<open>The probe\<close>

record probe_report =
  pr_DevicePath :: object_path
  pr_ServicePath :: object_path
  pr_Characteristics :: "characteristic list"
  pr_Calls :: "(byte \<times> byte \<times> byte) list"
  pr_OptionalOpcodes :: bytes

definition Probe :: "(object_path \<Rightarrow> bool) \<Rightarrow> bluez_session \<Rightarrow> string \<Rightarrow> string \<Rightarrow> client_error + probe_report" where
  "Probe isValid bz adapter device =
     (case bz_conn bz of
        None \<Rightarrow> Inl (Dbus_error ''connect system bus'')
      | Some _ \<Rightarrow>
          (case bz_objects bz of
             Inl e \<Rightarrow> Inl (Dbus_error e)
           | Inr objects \<Rightarrow>
               (case ResolveDevicePath isValid objects adapter device of
                  Inl e \<Rightarrow> Inl (Inventory_error e)
                | Inr path \<Rightarrow>
                    (case Discover objects path of
                       Inl e \<Rightarrow> Inl (Inventory_error e)
                     | Inr i \<Rightarrow>
                         (case bz_readValue bz (char_path i UUIDCallState) of
                            Inl e \<Rightarrow> Inl (Dbus_error e)
                          | Inr callValue \<Rightarrow>
                              (case ParseCallState callValue of
                                 Inl e \<Rightarrow> Inl (Store_error e)
                               | Inr calls \<Rightarrow>
                                   Inr \<lparr>pr_DevicePath = path, pr_ServicePath = inv_ServicePath i,
                                        pr_Characteristics = sort_key ch_UUID (map snd (inv_Characteristics i)),
                                        pr_Calls = map (\<lambda>c. (call_Index c, call_State c, call_Flags c)) calls,
                                        pr_OptionalOpcodes =
                                          (case go_get (inv_Characteristics i) UUIDOptionalOpcodes of
                                             None \<Rightarrow> []
                                           | Some characteristic \<Rightarrow>
                                               (case bz_readValue bz (ch_Path characteristic) of
                                                  Inl _ \<Rightarrow> [] | Inr value \<Rightarrow> value))\<rparr>))))))"

section \<open>The session keeps the store reachable and reports it\<close>

definition snapshots :: "callback list \<Rightarrow> snapshot list" where
  "snapshots cbs = List.map_filter (\<lambda>cb. case cb of Cb_Snapshot x \<Rightarrow> Some x | _ \<Rightarrow> None) cbs"

lemma snapshots_simps [simp]:
  "snapshots [] = []" "snapshots (Cb_Snapshot x # cbs) = x # snapshots cbs"
  "snapshots (Cb_Ready r # cbs) = snapshots cbs" "snapshots (Cb_Result a b d t # cbs) = snapshots cbs"
  "snapshots (cbs @ cbs') = snapshots cbs @ snapshots cbs'"
  by (simp_all add: snapshots_def map_filter_simps) (simp add: List.map_filter_def)

lemma handleControlResult_no_snapshot:
  "handleControlResult v s c = (err, cbs, c') \<Longrightarrow> snapshots cbs = []"
  by (auto simp: handleControlResult_def Let_def case_prod_beta split: if_splits)

lemma Apply_InlD: "Apply v s = (Inl e, t) \<Longrightarrow> t = s"
  using Apply_ok(7) [of v _ s] by (cases "ParseCallState v") (auto simp: Apply_error)

lemma Apply_InrD: "Apply v s = (Inr snap, t) \<Longrightarrow> snap = Snapshot t \<and> t = exec_op (Op_Apply v) s"
  using Apply_ok(7) [of v _ s] by (cases "ParseCallState v") (auto simp: Apply_error)

lemma ApplyIncomingCall_SomeD: "ApplyIncomingCall v s = (Some e, t) \<Longrightarrow> t = s"
  by (auto simp: ApplyIncomingCall_def setIdentityLocked_def case_prod_beta Let_def
        split: sum.splits if_splits)

lemma ApplyIncomingCall_NoneD: "ApplyIncomingCall v s = (None, t) \<Longrightarrow> t = exec_op (Op_IncomingCall v) s"
  by simp

text \<open>
  A signal is one operation of the store or none; a changed snapshot is emitted, and nothing
  that is not the store's current snapshot.
\<close>

lemma handleSignal_store:
  assumes "handleSignal sig i s c = (err, cbs, s', c')"
  shows "s' = s \<and> snapshots cbs = [] \<or> (\<exists>op. s' = exec_op op s) \<and> snapshots cbs = [Snapshot s']"
  using assms
  by (auto simp: handleSignal_def split: if_splits option.splits prod.splits sum.splits
      dest!: handleControlResult_no_snapshot Apply_InrD ApplyIncomingCall_NoneD
      dest: Apply_InlD ApplyIncomingCall_SomeD)

lemma last_snapshot_append:
  "snapshots (xs @ ys) \<noteq> [] \<Longrightarrow> last (snapshots (xs @ ys)) =
    (if snapshots ys = [] then last (snapshots xs) else last (snapshots ys))"
  by auto

lemma session_loop_store:
  "session_loop i evs s c = (r, cbs, s', c') \<Longrightarrow>
    (\<exists>ops. s' = fold exec_op ops s) \<and> (if snapshots cbs = [] then s' = s else last (snapshots cbs) = Snapshot s')"
proof (induction evs arbitrary: s c r cbs s' c')
  case Nil
  then show ?case by (auto intro: exI [of _ "[]"])
next
  case (Cons ev evs)
  show ?case
  proof (cases "\<exists>sig. ev = Signal_received (Some sig)")
    case False
    with Cons.prems show ?thesis
      by (auto split: session_event.splits option.splits intro: exI [of _ "[]"])
  next
    case True
    then obtain sig where ev: "ev = Signal_received (Some sig)" by blast
    obtain err cbs1 s1 c1 where h: "handleSignal sig i s c = (err, cbs1, s1, c1)"
      by (metis prod_cases4)
    note st = handleSignal_store [OF h]
    have one: "\<exists>ops. s1 = fold exec_op ops s"
      using st by (metis fold_simps(1) fold_simps(2))
    show ?thesis
    proof (cases "err = Some errLEDisconnected")
      case True
      with Cons.prems h ev have "cbs = cbs1" "s' = s1" by auto
      with st one show ?thesis by auto
    next
      case False
      obtain r2 cbs2 s2 c2 where l: "session_loop i evs s1 c1 = (r2, cbs2, s2, c2)" by (metis prod_cases4)
      with Cons.prems h ev False have "cbs = cbs1 @ cbs2" "s' = s2" by auto
      moreover from one Cons.IH [OF l] have "\<exists>ops. s2 = fold exec_op ops s"
        by (metis fold_append comp_apply)
      ultimately show ?thesis using Cons.IH [OF l] st by (auto split: if_splits)
    qed
  qed
qed


lemma read_calls_store:
  "read_calls bz i s = (err, s') \<Longrightarrow> if err = None then \<exists>op. s' = exec_op op s else s' = s"
  by (auto simp: read_calls_def split: sum.splits prod.splits dest: Apply_InlD dest!: Apply_InrD)

lemma read_identity_store: "\<exists>ops. read_identity bz i s = fold exec_op ops s"
proof -
  have "read_identity bz i s = s \<or> (\<exists>v. read_identity bz i s = exec_op (Op_IncomingCall v) s)"
    by (auto simp: read_identity_def split: option.splits sum.splits)
  then show ?thesis by (metis fold_simps(1) fold_simps(2))
qed

lemma snapshots_publish: "snapshots (fst (publish_session conn i s c)) = [Snapshot s]"
  by (simp add: publish_session_def setReady_def Let_def)

section \<open>Results answer commands\<close>

text \<open>
  The steps that touch the pending entries, in any interleaving: reserving and finishing of
  commands, results notified by the phone, sessions that begin and end.
\<close>

datatype pending_op =
    P_Reserve message
  | P_Finish message "string option"
  | P_Result bytes store
  | P_Publish nat inventory store
  | P_Close nat

primrec exec_pending :: "pending_op \<Rightarrow> client \<Rightarrow> callback list \<times> client" where
  "exec_pending (P_Reserve m) c = ([], snd (Command_reserve m c))"
| "exec_pending (P_Finish m err) c = ([], snd (Command_finish m err c))"
| "exec_pending (P_Result v s) c = snd (handleControlResult v s c)"
| "exec_pending (P_Publish conn i s) c = publish_session conn i s c"
| "exec_pending (P_Close conn) c = ([], close_session conn c)"

primrec run_pending :: "pending_op list \<Rightarrow> client \<Rightarrow> callback list \<times> client" where
  "run_pending [] c = ([], c)"
| "run_pending (op # ops) c =
     (let (cbs, c') = exec_pending op c; (cbs', c'') = run_pending ops c' in (cbs @ cbs', c''))"

definition is_result :: "byte \<Rightarrow> byte \<Rightarrow> uint64 \<Rightarrow> callback \<Rightarrow> bool" where
  "is_result opcode index token cb \<longleftrightarrow> (\<exists>r. cb = Cb_Result opcode index r token)"

definition is_reserve :: "byte \<Rightarrow> byte \<Rightarrow> uint64 \<Rightarrow> pending_op \<Rightarrow> bool" where
  "is_reserve opcode index token op \<longleftrightarrow>
     (\<exists>m. op = P_Reserve m \<and> msg_Code m = opcode \<and> msg_Index m = index \<and> msg_Token m = token)"

abbreviation (input) count_if :: "('a \<Rightarrow> bool) \<Rightarrow> 'a list \<Rightarrow> nat" where
  "count_if P xs \<equiv> length (filter P xs)"

lemma exec_pending_indexed:
  assumes "opcode \<noteq> OpcodeOriginate" and "exec_pending op c = (cbs, c')" and "token \<noteq> 0"
  shows "count_if (is_result opcode index token) cbs + of_bool (pending_at c' (opcode, index) = token)
    \<le> of_bool (is_reserve opcode index token op) + of_bool (pending_at c (opcode, index) = token)"
proof (cases op)
  case (P_Reserve m)
  with assms show ?thesis
    by (auto simp: Command_reserve_def is_reserve_def pending_at_def go_get_put split: if_splits)
next
  case (P_Finish m err)
  with assms show ?thesis
    by (auto simp: Command_finish_def pending_at_def go_get_delete split: option.splits if_splits)
next
  case (P_Result v s)
  with assms show ?thesis
    by (auto simp: handleControlResult_def is_result_def pending_at_def go_get_delete Let_def case_prod_beta
        split: option.splits if_splits)
next
  case (P_Publish conn i s)
  with assms show ?thesis
    by (auto simp: publish_session_def setReady_def pending_at_def is_result_def Let_def split: if_splits)
next
  case (P_Close conn)
  with assms show ?thesis by (auto simp: close_session_def pending_at_def split: if_splits)
qed

lemma exec_pending_originate:
  assumes "exec_pending op c = (cbs, c')"
  shows "count_if (\<lambda>cb. \<exists>i r t. cb = Cb_Result OpcodeOriginate i r t) cbs + of_bool (cl_pendingOriginate c')
    \<le> of_bool (\<exists>m. op = P_Reserve m \<and> msg_Code m = OpcodeOriginate) + of_bool (cl_pendingOriginate c)"
proof (cases op)
  case (P_Reserve m)
  with assms show ?thesis by (auto simp: Command_reserve_def split: if_splits)
next
  case (P_Finish m err)
  with assms show ?thesis by (auto simp: Command_finish_def split: option.splits if_splits)
next
  case (P_Result v s)
  with assms show ?thesis
    by (auto simp: handleControlResult_def Let_def case_prod_beta split: if_splits)
next
  case (P_Publish conn i s)
  with assms show ?thesis by (auto simp: publish_session_def setReady_def Let_def split: if_splits)
next
  case (P_Close conn)
  with assms show ?thesis by (auto simp: close_session_def split: if_splits)
qed

text \<open>Both counts are bounded by the same argument: an entry is spent by the result it allows.\<close>

lemma run_pending_bound:
  fixes \<phi> :: "client \<Rightarrow> nat"
  assumes "\<And>op c cbs c'. exec_pending op c = (cbs, c') \<Longrightarrow> count_if R cbs + \<phi> c' \<le> of_bool (S op) + \<phi> c"
    and "run_pending ops c = (cbs, c')"
  shows "count_if R cbs \<le> count_if S ops + \<phi> c"
  using assms(2)
proof (induction ops arbitrary: c cbs c')
  case Nil
  then show ?case by simp
next
  case (Cons op ops)
  obtain cbs1 c1 where e: "exec_pending op c = (cbs1, c1)" by fastforce
  obtain cbs2 c2 where r: "run_pending ops c1 = (cbs2, c2)" by fastforce
  have "count_if S (op # ops) = of_bool (S op) + count_if S ops" by simp
  moreover have "count_if R cbs = count_if R cbs1 + count_if R cbs2" using Cons.prems e r by auto
  ultimately show ?case using Cons.IH [OF r] assms(1) [OF e] by linarith
qed

section \<open>A sample session\<close>

text \<open>The phone of the sample inventory, reached over \<open>hci0\<close>, with one ringing call.\<close>

definition sample_bluez :: bluez_session where
  "sample_bluez = \<lparr>bz_conn = Some 1, bz_objects = Inr sample_objects, bz_match = None,
     bz_connected = Inr (V_bool True), bz_objects_again = Inr sample_objects,
     bz_startNotify = (\<lambda>_. None), bz_readValue = (\<lambda>_. Inr [1, 0, 0])\<rparr>"

definition sample_client :: client where
  "sample_client = \<lparr>cl_adapter = ''hci0'', cl_device = ''00:11:22:33:44:55'',
     cl_path = ''/org/bluez/hci0/dev_00_11_22_33_44_55'', cl_conn = None,
     cl_inventory = empty_inventory, cl_ready = False, cl_pending = [], cl_pendingOriginate = False\<rparr>"

definition sample_run :: "(bool \<times> client_error option) option \<times> callback list \<times> store \<times> client" where
  "sample_run = runOnce (\<lambda>p. HasPrefix p ''/'') sample_bluez [] (NewStore 100) sample_client"

lemma sample_session_up:
  "fst sample_run = None" "cl_ready (snd (snd (snd sample_run)))"
  "fst (snd (snd sample_run)) = sample_ringing"
  by code_simp+

section \<open>Properties\<close>

text \<open>
  C24. A session reports the store. Whatever BlueZ answers and whatever signals arrive, the session
  changes the store only by its operations; if it comes up, the last snapshot handed to the
  listeners is the store's snapshot at that moment, so no change goes unreported; and a session
  that does not come up changes and reports nothing.
\<close>

theorem session_reports_store:
  assumes "runOnce isValid bz evs s c = (r, cbs, s', c')"
  shows "(\<exists>ops. s' = fold exec_op ops s)
    \<and> (if \<exists>e. r = Some (False, e) then s' = s \<and> cbs = []
       else snapshots cbs \<noteq> [] \<and> last (snapshots cbs) = Snapshot s')"
proof (cases "open_session isValid bz c")
  case (Pair res c1)
  show ?thesis
  proof (cases res)
    case (Inl e)
    with assms Pair show ?thesis by (auto simp: runOnce_def intro: exI [of _ "[]"])
  next
    case (Inr x)
    obtain conn i where x: "x = (conn, i)" by (cases x)
    obtain e s1 where rc: "read_calls bz i s = (e, s1)" by (cases "read_calls bz i s")
    show ?thesis
    proof (cases e)
      case (Some e')
      with assms Pair Inr x rc read_calls_store [OF rc] show ?thesis
        by (auto simp: runOnce_def intro: exI [of _ "[]"])
    next
      case None
      define s2 where "s2 = read_identity bz i s1"
      obtain cbs1 c2 where pub: "publish_session conn i s2 c1 = (cbs1, c2)" by fastforce
      obtain r3 cbs3 s3 c3 where loop: "session_loop i evs s2 c2 = (r3, cbs3, s3, c3)" by (metis prod_cases4)
      have res: "r = map_option (Pair True) r3" "cbs = cbs1 @ cbs3" "s' = s3"
        using assms Pair Inr x rc None pub loop
        by (auto simp: runOnce_def s2_def Let_def split: option.splits)
      have s1: "\<exists>ops. s1 = fold exec_op ops s"
        using read_calls_store [OF rc] None by (metis fold_simps(1) fold_simps(2))
      have ops: "\<exists>ops. s3 = fold exec_op ops s"
        using s1 read_identity_store [of bz i s1, folded s2_def] session_loop_store [OF loop]
        by (metis fold_append comp_apply)
      have "snapshots cbs1 = [Snapshot s2]" using snapshots_publish [of conn i s2 c1] pub by simp
      with res ops session_loop_store [OF loop] show ?thesis by (auto split: if_splits)
    qed
  qed
qed

theorem session_reports_store_witness:
  "snapshots (fst (snd sample_run)) \<noteq> [] \<and> last (snapshots (fst (snd sample_run))) = Snapshot sample_ringing"
proof -
  have "runOnce (\<lambda>p. HasPrefix p ''/'') sample_bluez [] (NewStore 100) sample_client
      = (fst sample_run, fst (snd sample_run), fst (snd (snd sample_run)), snd (snd (snd sample_run)))"
    by (simp add: sample_run_def)
  from session_reports_store [OF this] show ?thesis by (simp add: sample_session_up)
qed



text \<open>
  C25. What a command does. Something is written to the Control Point only for a command message
  of this device while the session is ready, and an indexed command only if the store finds it
  valid at that moment; then the value is the opcode followed by the URI or by the index, exactly
  one write is made, and unless it fails the result that may follow is expected. In every other
  case nothing is written, the client is unchanged and the caller gets an error.
\<close>

theorem Command_spec:
  assumes "Command write m s c = (err, writes, c')"
  shows "(writes = [] \<and> err \<noteq> None \<and> c' = c)
    \<or> (\<exists>path value. writes = [(path, value)]
        \<and> msg_Type m = TypeCommand \<and> NormalizeDevice (msg_Device m) = cl_device c
        \<and> cl_ready c \<and> cl_conn c \<noteq> None \<and> path = char_path (cl_inventory c) UUIDControlPoint
        \<and> (if msg_Code m = OpcodeOriginate
           then ValidURI (string_of (msg_Payload m)) \<and> value = msg_Code m # msg_Payload m
             \<and> \<not> cl_pendingOriginate c \<and> cl_pendingOriginate c' = (err = None)
           else ValidateIndexedCommand (msg_Index m) (msg_Token m) (msg_Code m) s
             \<and> value = [msg_Code m, msg_Index m]
             \<and> pending_at c' (msg_Code m, msg_Index m) = (if err = None then msg_Token m else 0))
        \<and> (err = None \<longleftrightarrow> write path value = None))"
proof (cases "Command_check m s c")
  case (Refused e)
  with assms show ?thesis by (auto simp: Command_def)
next
  case (Write path v)
  then have w: "msg_Type m = TypeCommand" "NormalizeDevice (msg_Device m) = cl_device c" "cl_ready c"
      "cl_conn c \<noteq> None" "path = char_path (cl_inventory c) UUIDControlPoint"
      "v = msg_Code m # (if msg_Code m = OpcodeOriginate then msg_Payload m else [msg_Index m])"
      "msg_Code m = OpcodeOriginate \<Longrightarrow> ValidURI (string_of (msg_Payload m))"
      "msg_Code m \<noteq> OpcodeOriginate \<Longrightarrow> ValidateIndexedCommand (msg_Index m) (msg_Token m) (msg_Code m) s"
    by (auto simp: Command_check_def char_path_def split: if_splits option.splits)
  show ?thesis
  proof (cases "msg_Code m = OpcodeOriginate")
    case True
    with assms Write w show ?thesis
      by (cases "write path v")
        (auto simp: Command_def Command_reserve_def Command_finish_def Let_def split: if_splits)
  next
    case False
    with assms Write w show ?thesis
      by (cases "write path v")
        (auto simp: Command_def Command_reserve_def Command_finish_def pending_at_def go_get_put go_get_delete Let_def)
  qed
qed

theorem Command_spec_witness:
  "\<exists>c'. Command (\<lambda>_ _. None) (sample_command\<lparr>msg_Index := 1, msg_Token := 101\<rparr>) sample_ringing
     (snd (snd (snd sample_run))) = (None, [(''/d/s/2'', [0, 1])], c') \<and> pending_at c' (0, 1) = 101"
proof -
  let ?m = "sample_command\<lparr>msg_Index := 1, msg_Token := 101\<rparr>"
  let ?r = "Command (\<lambda>_ _. None) ?m sample_ringing (snd (snd (snd sample_run)))"
  have "fst ?r = None" "fst (snd ?r) = [(''/d/s/2'', [0, 1])]" by code_simp+
  then have r: "?r = (None, [(''/d/s/2'', [0, 1])], snd (snd ?r))" by (metis prod.collapse)
  from Command_spec [OF r] r show ?thesis by (auto simp: sample_command_def)
qed

text \<open>
  Error texts that are logged never contain a telephone URI.
\<close>

theorem RedactedError_hides_numbers: "\<not> Contains (RedactedError err) ''tel:''"
  by (auto simp: RedactedError_def HasPrefix_def split: option.splits)

text \<open>
  Retrying. However sessions end, the client waits at least one and at most 32 seconds before
  the next attempt, and one second after a session that had come up.
\<close>

theorem Run_waits_bounds:
  "length (Run_waits Second outcomes) = length outcomes
   \<and> (\<forall>k < length outcomes. Second \<le> Run_waits Second outcomes ! k \<and> Run_waits Second outcomes ! k \<le> 32 * Second
        \<and> (outcomes ! k \<longrightarrow> Run_waits Second outcomes ! k = Second))"
proof -
  have "length (Run_waits b outcomes) = length outcomes
     \<and> (\<forall>k < length outcomes. Second \<le> Run_waits b outcomes ! k \<and> Run_waits b outcomes ! k \<le> 32 * Second
          \<and> (outcomes ! k \<longrightarrow> Run_waits b outcomes ! k = Second))"
    if "b \<in> {Second, 2 * Second, 4 * Second, 8 * Second, 16 * Second, 32 * Second}" for b
    using that
  proof (induction outcomes arbitrary: b)
    case (Cons e outcomes)
    then show ?case by (fastforce simp: less_Suc_eq_0_disj)
  qed simp
  then show ?thesis by simp
qed

theorem Run_waits_bounds_witness: "Run_waits Second [False, True] ! 1 = Second"
  using Run_waits_bounds [of "[False, True]"] by simp

end
