(* ===== verification/Control_Server.thy ===== *)
theory Control_Server
  imports Gtbs_Client
begin

text \<open>
  The call-control socket server (\<open>internal/control/server.go\<close>): one local peer at a time, which
  receives snapshots, readiness and results as packets and sends commands.

  A file descriptor is a number, the absent one (\<open>-1\<close>) is \<open>None\<close>. Every operation that sends takes
  \<open>send\<close>, telling which packets the socket takes completely, and returns what it did to
  descriptors as a list of \<open>server_out\<close>. The command handler is an argument of \<open>receive\<close>; it acts
  on the rest of the program, whose state is the type variable.
\<close>

section \<open>State\<close>

datatype server_out = Sent fd bytes | Send_failed fd bytes | Closed fd

record server =
  sv_path :: string
  sv_peerUID :: uint32
  sv_device :: string
  sv_listenerFD :: "fd option"
  sv_clientFD :: "fd option"
  sv_ready :: bool
  sv_sequence :: uint64

definition maximumSocketPath :: nat where [simp]: "maximumSocketPath = 100"

definition NewServer :: "string \<Rightarrow> int \<Rightarrow> string \<Rightarrow> uint64 \<Rightarrow> server option" where
  "NewServer path peerUID device now =
     (let device = NormalizeDevice device in
      if \<not> HasPrefix path ''/'' \<or> length path > maximumSocketPath \<or> peerUID < 0 \<or> device = [] then None
      else Some \<lparr>sv_path = path, sv_peerUID = of_int peerUID, sv_device = device, sv_listenerFD = None,
                 sv_clientFD = None, sv_ready = False, sv_sequence = now\<rparr>)"

section \<open>Sending\<close>

function nextSequence :: "uint64 \<Rightarrow> uint64" where
  "nextSequence q = (let sequence = q + 1 in if sequence \<noteq> 0 then sequence else nextSequence sequence)"
  by pat_completeness auto
termination
  by (relation "measure (\<lambda>q. if q + 1 = 0 then 1 else 0)") auto

declare nextSequence.simps [simp del]

definition take_sequence :: "server \<Rightarrow> uint64 \<times> server" where
  "take_sequence sv = (let q = nextSequence (sv_sequence sv) in (q, sv\<lparr>sv_sequence := q\<rparr>))"

definition closeClientLocked :: "server \<Rightarrow> server_out list \<times> server" where
  "closeClientLocked sv =
     (case sv_clientFD sv of
        None \<Rightarrow> ([], sv)
      | Some client \<Rightarrow> ([Closed client], sv\<lparr>sv_clientFD := None\<rparr>))"

definition dropClient :: "fd \<Rightarrow> server \<Rightarrow> server_out list \<times> server" where
  "dropClient client sv = (if sv_clientFD sv = Some client then closeClientLocked sv else ([], sv))"

definition sendMessageLocked :: "(bytes \<Rightarrow> bool) \<Rightarrow> message \<Rightarrow> server \<Rightarrow> server_out list \<times> server" where
  "sendMessageLocked send m sv =
     (case sv_clientFD sv of
        None \<Rightarrow> ([], sv)
      | Some client \<Rightarrow>
          (case Encode m of
             Inl _ \<Rightarrow> ([], sv)
           | Inr packet \<Rightarrow>
               if send packet then ([Sent client packet], sv)
               else (let (outs, sv') = closeClientLocked sv in (Send_failed client packet # outs, sv'))))"

primrec sendMessagesLocked :: "(bytes \<Rightarrow> bool) \<Rightarrow> message list \<Rightarrow> server \<Rightarrow> server_out list \<times> server" where
  "sendMessagesLocked send [] sv = ([], sv)"
| "sendMessagesLocked send (m # ms) sv =
     (let (outs, sv') = sendMessageLocked send m sv in
      if sv_clientFD sv' = None then (outs, sv')
      else let (outs', sv'') = sendMessagesLocked send ms sv' in (outs @ outs', sv''))"

definition snapshot_flags :: "nat \<Rightarrow> nat \<Rightarrow> byte" where
  "snapshot_flags n index = (if index = n - 1 then FlagSnapshot OR FlagLast else FlagSnapshot)"

definition state_message :: "string \<Rightarrow> uint64 \<Rightarrow> byte \<Rightarrow> gtbs_call \<Rightarrow> message" where
  "state_message device sequence flags call =
     \<lparr>msg_Type = TypeState, msg_Flags = flags, msg_Sequence = sequence, msg_Token = call_Token call,
      msg_Device = device, msg_Index = call_Index call, msg_Code = call_State call,
      msg_Value = call_Flags call,
      msg_Payload = (case EncodeIdentity (call_Identity call) of Inl _ \<Rightarrow> [] | Inr payload \<Rightarrow> payload)\<rparr>"

definition snapshotMessages :: "string \<Rightarrow> snapshot \<Rightarrow> message list" where
  "snapshotMessages device snap =
     (if length (snap_Calls snap) = 0 then
        [\<lparr>msg_Type = TypeState, msg_Flags = FlagSnapshot OR FlagLast, msg_Sequence = snap_Sequence snap,
          msg_Token = 0, msg_Device = device, msg_Index = 0, msg_Code = NoCallState, msg_Value = 0,
          msg_Payload = []\<rparr>]
      else map (\<lambda>(index, call).
             state_message device (snap_Sequence snap) (snapshot_flags (length (snap_Calls snap)) index) call)
           (enumerate 0 (snap_Calls snap)))"

definition ready_message :: "string \<Rightarrow> uint64 \<Rightarrow> bool \<Rightarrow> message" where
  "ready_message device sequence ready =
     \<lparr>msg_Type = TypeReady, msg_Flags = 0, msg_Sequence = sequence, msg_Token = 0, msg_Device = device,
      msg_Index = 0, msg_Code = (if ready then 1 else 0), msg_Value = 0, msg_Payload = []\<rparr>"

definition SetReady :: "(bytes \<Rightarrow> bool) \<Rightarrow> bool \<Rightarrow> server \<Rightarrow> server_out list \<times> server" where
  "SetReady send ready sv =
     (let changed = (sv_ready sv \<noteq> ready); sv = sv\<lparr>sv_ready := ready\<rparr> in
      if changed then
        let (q, sv) = take_sequence sv in sendMessageLocked send (ready_message (sv_device sv) q ready) sv
      else ([], sv))"

definition BroadcastReady :: "(bytes \<Rightarrow> bool) \<Rightarrow> bool \<Rightarrow> server \<Rightarrow> server_out list \<times> server" where
  "BroadcastReady send ready sv =
     (let (q, sv) = take_sequence sv in sendMessagesLocked send [ready_message (sv_device sv) q ready] sv)"

definition BroadcastSnapshot :: "(bytes \<Rightarrow> bool) \<Rightarrow> snapshot \<Rightarrow> server \<Rightarrow> server_out list \<times> server" where
  "BroadcastSnapshot send snap sv = sendMessagesLocked send (snapshotMessages (sv_device sv) snap) sv"

definition result_message :: "string \<Rightarrow> uint64 \<Rightarrow> byte \<Rightarrow> byte \<Rightarrow> byte \<Rightarrow> uint64 \<Rightarrow> message" where
  "result_message device sequence opcode index result token =
     \<lparr>msg_Type = TypeResult, msg_Flags = 0, msg_Sequence = sequence, msg_Token = token,
      msg_Device = device, msg_Index = index, msg_Code = opcode, msg_Value = result, msg_Payload = []\<rparr>"

definition BroadcastResult :: "(bytes \<Rightarrow> bool) \<Rightarrow> byte \<Rightarrow> byte \<Rightarrow> byte \<Rightarrow> uint64 \<Rightarrow> server
    \<Rightarrow> server_out list \<times> server" where
  "BroadcastResult send opcode index result token sv =
     (let (q, sv) = take_sequence sv in
      sendMessagesLocked send [result_message (sv_device sv) q opcode index result token] sv)"

section \<open>Accepting and receiving\<close>

text \<open>
  \<open>accepted\<close> is what \<open>Accept4\<close> returned and \<open>uid\<close> the peer's credential, \<open>None\<close> for an error.
\<close>

definition accept :: "fd option \<Rightarrow> uint32 option \<Rightarrow> snapshot \<Rightarrow> (bytes \<Rightarrow> bool) \<Rightarrow> server
    \<Rightarrow> server_out list \<times> server" where
  "accept accepted uid snap send sv =
     (case accepted of
        None \<Rightarrow> ([], sv)
      | Some client \<Rightarrow>
          if uid \<noteq> Some (sv_peerUID sv) then ([Closed client], sv)
          else if sv_clientFD sv \<noteq> None then ([Closed client], sv)
          else
            (let sv = sv\<lparr>sv_clientFD := Some client\<rparr>;
                 messages = snapshotMessages (sv_device sv) snap;
                 (q, sv) = take_sequence sv
             in sendMessagesLocked send (messages @ [ready_message (sv_device sv) q (sv_ready sv)]) sv))"

datatype received = Recv_again | Recv_error | Recv bytes bool

definition ack_message :: "string \<Rightarrow> message \<Rightarrow> client_error option \<Rightarrow> message" where
  "ack_message device m err =
     \<lparr>msg_Type = TypeAck, msg_Flags = 0, msg_Sequence = msg_Sequence m, msg_Token = msg_Token m,
      msg_Device = device, msg_Index = msg_Index m, msg_Code = msg_Code m,
      msg_Value = classifyCommandError err, msg_Payload = []\<rparr>"

definition receive :: "(message \<Rightarrow> 'w \<Rightarrow> client_error option \<times> 'w) \<Rightarrow> received \<Rightarrow> (bytes \<Rightarrow> bool) \<Rightarrow> fd
    \<Rightarrow> 'w \<Rightarrow> server \<Rightarrow> server_out list \<times> 'w \<times> server" where
  "receive handler r send client w sv =
     (case r of
        Recv_again \<Rightarrow> ([], w, sv)
      | Recv_error \<Rightarrow> (let (outs, sv) = dropClient client sv in (outs, w, sv))
      | Recv packet truncated \<Rightarrow>
          if truncated \<or> length packet \<noteq> PacketSize
          then (let (outs, sv) = dropClient client sv in (outs, w, sv))
          else
            (case Decode packet of
               Inl _ \<Rightarrow> (let (outs, sv) = dropClient client sv in (outs, w, sv))
             | Inr m \<Rightarrow>
                 if msg_Type m \<noteq> TypeCommand \<or> msg_Device m \<noteq> sv_device sv
                 then (let (outs, sv) = dropClient client sv in (outs, w, sv))
                 else
                   (let (err, w) = handler m w;
                        (outs, sv) = sendMessagesLocked send [ack_message (sv_device sv) m err] sv
                    in (outs, w, sv))))"

section \<open>Running\<close>

text \<open>
  The start of \<open>Run\<close>: the answers of the system calls decide how far it gets; the actions are the
  clean-up it does before it gives up.
\<close>

definition Run_start :: "bool \<Rightarrow> lstat \<Rightarrow> fd option \<Rightarrow> bool \<Rightarrow> bool \<Rightarrow> bool \<Rightarrow> server
    \<Rightarrow> server_error option \<times> start_action list \<times> server" where
  "Run_start mkdir lst sock bind chmod listen sv =
     (if \<not> mkdir then (Some Mkdir_failed, [], sv)
      else if lst = Lstat_other then (Some Path_not_socket, [], sv)
      else if lst = Lstat_socket then (Some Path_exists, [], sv)
      else if lst = Lstat_error then (Some Inspect_failed, [], sv)
      else case sock of
        None \<Rightarrow> (Some Socket_failed, [], sv)
      | Some listener \<Rightarrow>
          if \<not> bind then (Some Bind_failed, [Close_listener], sv)
          else if \<not> chmod then (Some Chmod_failed, [Close_listener, Remove_path], sv)
          else if \<not> listen then (Some Listen_failed, [Close_listener, Remove_path], sv)
          else if sv_listenerFD sv \<noteq> None then (Some Already_running, [Close_listener, Remove_path], sv)
          else (None, [], sv\<lparr>sv_listenerFD := Some listener\<rparr>))"

text \<open>One round of the loop of \<open>Run\<close> after a poll that returned events.\<close>

record poll_result =
  pl_listener_in :: bool
  pl_client_in :: bool
  pl_client_err :: bool
  pl_accepted :: "fd option"
  pl_uid :: "uint32 option"
  pl_received :: received

definition Run_round :: "(message \<Rightarrow> 'w \<Rightarrow> client_error option \<times> 'w) \<Rightarrow> ('w \<Rightarrow> snapshot) \<Rightarrow> (bytes \<Rightarrow> bool)
    \<Rightarrow> poll_result \<Rightarrow> 'w \<Rightarrow> server \<Rightarrow> server_out list \<times> 'w \<times> server" where
  "Run_round handler snap send p w sv =
     (let client = sv_clientFD sv;
          (outs1, sv) = (if pl_listener_in p then accept (pl_accepted p) (pl_uid p) (snap w) send sv else ([], sv));
          (outs2, w, sv) = (case client of
             Some c \<Rightarrow> if pl_client_in p then receive handler (pl_received p) send c w sv else ([], w, sv)
           | None \<Rightarrow> ([], w, sv));
          (outs3, sv) = (case client of
             Some c \<Rightarrow> if pl_client_err p then dropClient c sv else ([], sv)
           | None \<Rightarrow> ([], sv))
      in (outs1 @ outs2 @ outs3, w, sv))"

definition close_server :: "server \<Rightarrow> server_out list \<times> server" where
  "close_server sv =
     (let (outs, sv) = closeClientLocked sv in
      case sv_listenerFD sv of
        None \<Rightarrow> (outs, sv)
      | Some listener \<Rightarrow> (outs @ [Closed listener], sv\<lparr>sv_listenerFD := None\<rparr>))"

section \<open>Every message of the server can be sent\<close>

definition device_ok :: "string \<Rightarrow> bool" where
  "device_ok d \<longleftrightarrow> d \<noteq> [] \<and> normalizedDevice d = d"

lemma device_ok_length: "device_ok d \<Longrightarrow> length d = 17"
  using normalizedDevice_idem [of d] by (auto simp: device_ok_def)

lemma NewServer_device: "NewServer path uid d now = Some sv \<Longrightarrow> device_ok (sv_device sv)"
  using normalizedDevice_idem [of d]
  by (auto simp: NewServer_def Let_def device_ok_def NormalizeDevice_def split: if_splits)

lemma nextSequence_nonzero: "nextSequence q \<noteq> 0"
proof (induction q rule: nextSequence.induct)
  case (1 q)
  then show ?case by (simp add: nextSequence.simps [of q] Let_def)
qed

lemma message_sent:
  "validate m = None \<Longrightarrow> device_ok (msg_Device m) \<Longrightarrow> Encode m = Inr (layout m) \<and> Decode (layout m) = Inr m"
  by (simp add: Encode_layout Decode_layout device_ok_length)

lemma ready_message_valid: "device_ok d \<Longrightarrow> q \<noteq> 0 \<Longrightarrow> validate (ready_message d q r) = None"
  by (simp add: validate_def ready_message_def device_ok_def)

lemma ack_message_valid:
  assumes "Decode p = Inr m" and "msg_Type m = TypeCommand" and "device_ok d"
  shows "validate (ack_message d m err) = None"
proof -
  have "validate m = None" using Decode_ok [OF assms(1)] by (simp add: message_ok_def)
  moreover have "classifyCommandError err \<le> AckWriteFailed"
    by (simp add: classifyCommandError_def split: option.split client_error.split)
  ultimately show ?thesis
    using assms(2,3)
    by (auto simp: validate_def ack_message_def device_ok_def validCallReference_def not_less split: if_splits)
qed

lemma state_message_valid:
  assumes "device_ok d" and "q \<noteq> 0" and "entry_ok c" and "call_Token c \<noteq> 0" and "identity_ok (call_Identity c)"
    and "flags \<in> {FlagSnapshot, FlagSnapshot OR FlagLast}"
  shows "validate (state_message d q flags c) = None"
    and "DecodeIdentity (msg_Payload (state_message d q flags c)) = Inr (call_Identity c)"
proof -
  obtain payload where p: "EncodeIdentity (call_Identity c) = Inr payload" "DecodeIdentity payload = Inr (call_Identity c)"
    using ident.roundtrip [OF assms(5)] by blast
  have len: "length payload \<le> 78"
    using p(1) assms(5) by (auto simp: EncodeIdentity_def identity_ok_def Let_def split: if_splits)
  have st: "call_State c \<noteq> 0xff" "\<not> 6 < call_State c"
    using assms(3) by (auto simp: entry_ok_def not_less)
  show "DecodeIdentity (msg_Payload (state_message d q flags c)) = Inr (call_Identity c)"
    by (simp add: state_message_def p)
  show "validate (state_message d q flags c) = None"
    using assms(1,2,3,4,6) p len st
    by (auto simp: validate_def state_message_def device_ok_def entry_ok_def)
qed

lemma snapshot_calls_ok:
  assumes "store_inv s" and "c \<in> set (snap_Calls (Snapshot s))"
  shows "entry_ok c \<and> call_Token c \<noteq> 0 \<and> identity_ok (call_Identity c)"
proof -
  from assms(2) obtain d where d: "go_get (st_calls s) (call_Index c) = Some d"
      "c = d\<lparr>call_Identity := identity_at s (call_Index d)\<rparr>"
    unfolding snapshot_facts(3) [OF assms(1)] by blast
  then have "call_ok (st_seed s) d" using assms(1) by (auto simp: store_inv_def dest!: map_of_SomeD)
  moreover have "identity_ok (identity_at s i)" for i
    using assms(1) by (auto simp: identity_at_def identity_ok_def store_inv_def stored_identity_ok_def
        no_identity_def split: option.splits dest!: map_of_SomeD)
  ultimately show ?thesis by (auto simp: d(2) call_ok_def entry_ok_def)
qed

lemma snapshotMessages_valid:
  assumes "store_inv s" and "device_ok d" and "m \<in> set (snapshotMessages d (Snapshot s))"
  shows "validate m = None \<and> msg_Device m = d"
proof (cases "snap_Calls (Snapshot s) = []")
  case True
  with assms show ?thesis
    by (auto simp: snapshotMessages_def validate_def device_ok_def store_inv_def snapshot_facts(4))
next
  case False
  have q: "snap_Sequence (Snapshot s) \<noteq> 0" using assms(1) by (simp add: snapshot_facts(4) store_inv_def)
  from False assms(3) obtain k c where kc: "c \<in> set (snap_Calls (Snapshot s))"
      "m = state_message d (snap_Sequence (Snapshot s)) (snapshot_flags (length (snap_Calls (Snapshot s))) k) c"
    by (auto simp: snapshotMessages_def in_set_enumerate_eq) (metis nth_mem)
  have "snapshot_flags n k \<in> {FlagSnapshot, FlagSnapshot OR FlagLast}" for n by (simp add: snapshot_flags_def)
  with kc snapshot_calls_ok [OF assms(1) kc(1)] state_message_valid(1) [OF assms(2) q] show ?thesis
    by (simp add: state_message_def)
qed

section \<open>What the peer can rebuild\<close>

definition call_of_message :: "message \<Rightarrow> gtbs_call option" where
  "call_of_message m =
     (if msg_Code m = NoCallState then None
      else Some \<lparr>call_Index = msg_Index m, call_State = msg_Code m, call_Flags = msg_Value m,
        call_Token = msg_Token m,
        call_Identity = (case DecodeIdentity (msg_Payload m) of Inl _ \<Rightarrow> no_identity | Inr i \<Rightarrow> i)\<rparr>)"

lemma call_of_state_message:
  assumes "entry_ok c" and "call_Token c \<noteq> 0" and "identity_ok (call_Identity c)"
  shows "call_of_message (state_message d q flags c) = Some c"
proof -
  obtain payload where "EncodeIdentity (call_Identity c) = Inr payload" "DecodeIdentity payload = Inr (call_Identity c)"
    using ident.roundtrip [OF assms(3)] by blast
  moreover have "call_State c \<noteq> 0xff" using assms(1) by (auto simp: entry_ok_def)
  ultimately show ?thesis by (simp add: call_of_message_def state_message_def)
qed

lemma snapshot_rebuilt:
  assumes "store_inv s"
  shows "List.map_filter call_of_message (snapshotMessages d (Snapshot s)) = snap_Calls (Snapshot s)"
proof (cases "snap_Calls (Snapshot s) = []")
  case True
  then show ?thesis by (simp add: snapshotMessages_def map_filter_simps call_of_message_def)
next
  case False
  have "List.map_filter call_of_message (map (\<lambda>(k, c). state_message d q (f k) c) (enumerate n cs)) = cs"
    if "set cs \<subseteq> set (snap_Calls (Snapshot s))" for q f n cs
    using that
  proof (induction cs arbitrary: n)
    case (Cons c cs)
    then show ?case
      using snapshot_calls_ok [OF assms, of c] by (simp add: map_filter_simps call_of_state_message)
  qed (simp add: map_filter_simps)
  with False show ?thesis by (simp add: snapshotMessages_def)
qed

lemma snapshot_last_flag:
  "map (\<lambda>m. msg_Flags m AND FlagLast \<noteq> 0) (snapshotMessages d snap)
     = replicate (length (snap_Calls snap) - 1) False @ [True]"
proof (cases "snap_Calls snap = []")
  case True
  then show ?thesis by (simp add: snapshotMessages_def)
next
  case False
  let ?n = "length (snap_Calls snap)"
  have len: "length (snapshotMessages d snap) = ?n" using False by (simp add: snapshotMessages_def)
  show ?thesis
  proof (rule nth_equalityI)
    show "length (map (\<lambda>m. msg_Flags m AND FlagLast \<noteq> 0) (snapshotMessages d snap))
        = length (replicate (?n - 1) False @ [True])"
      using False len by (cases "snap_Calls snap") auto
  next
    fix k
    assume "k < length (map (\<lambda>m. msg_Flags m AND FlagLast \<noteq> 0) (snapshotMessages d snap))"
    with len have k: "k < ?n" by simp
    with False have "snapshotMessages d snap ! k
        = state_message d (snap_Sequence snap) (snapshot_flags ?n k) (snap_Calls snap ! k)"
      by (simp add: snapshotMessages_def nth_enumerate_eq)
    with k len show "map (\<lambda>m. msg_Flags m AND FlagLast \<noteq> 0) (snapshotMessages d snap) ! k
        = (replicate (?n - 1) False @ [True]) ! k"
      by (auto simp: state_message_def snapshot_flags_def nth_append)
  qed
qed

section \<open>Sending and descriptors\<close>

lemma sendMessagesLocked_all:
  assumes "sv_clientFD sv = Some client" and "\<And>p. send p"
    and "\<And>m. m \<in> set ms \<Longrightarrow> validate m = None \<and> device_ok (msg_Device m)"
  shows "sendMessagesLocked send ms sv = (map (Sent client \<circ> layout) ms, sv)"
  using assms
  by (induction ms) (auto simp: sendMessageLocked_def message_sent)

definition client_fds :: "server \<Rightarrow> fd multiset" where
  "client_fds sv = (case sv_clientFD sv of None \<Rightarrow> {#} | Some c \<Rightarrow> {#c#})"

definition closed_fds :: "server_out list \<Rightarrow> fd multiset" where
  "closed_fds outs = mset (List.map_filter (\<lambda>out. case out of Closed c \<Rightarrow> Some c | _ \<Rightarrow> None) outs)"

lemma closed_fds_simps [simp]:
  "closed_fds [] = {#}" "closed_fds (Closed c # outs) = add_mset c (closed_fds outs)"
  "closed_fds (Sent c p # outs) = closed_fds outs" "closed_fds (Send_failed c p # outs) = closed_fds outs"
  "closed_fds (outs @ outs') = closed_fds outs + closed_fds outs'"
  by (simp_all add: closed_fds_def map_filter_simps) (simp add: List.map_filter_def)

lemma closeClientLocked_fds:
  "closeClientLocked sv = (outs, sv') \<Longrightarrow> closed_fds outs + client_fds sv' = client_fds sv"
  by (auto simp: closeClientLocked_def client_fds_def split: option.splits)

lemma dropClient_fds:
  "dropClient c sv = (outs, sv') \<Longrightarrow> closed_fds outs + client_fds sv' = client_fds sv"
  by (auto simp: dropClient_def dest: closeClientLocked_fds split: if_splits)

lemma sendMessageLocked_fds:
  "sendMessageLocked send m sv = (outs, sv') \<Longrightarrow> closed_fds outs + client_fds sv' = client_fds sv"
  by (auto simp: sendMessageLocked_def Let_def split: option.splits sum.splits if_splits prod.splits
      dest: closeClientLocked_fds)

lemma sendMessagesLocked_fds:
  "sendMessagesLocked send ms sv = (outs, sv') \<Longrightarrow> closed_fds outs + client_fds sv' = client_fds sv"
proof (induction ms arbitrary: sv outs sv')
  case Nil
  then show ?case by simp
next
  case (Cons m ms)
  obtain outs1 sv1 where one: "sendMessageLocked send m sv = (outs1, sv1)" by fastforce
  obtain outs2 sv2 where rest: "sendMessagesLocked send ms sv1 = (outs2, sv2)" by fastforce
  from Cons.prems one rest sendMessageLocked_fds [OF one] Cons.IH [OF rest] show ?case
    by (auto simp: add.assoc split: if_splits)
qed

lemma take_sequence_simps [simp]:
  "take_sequence sv = (nextSequence (sv_sequence sv), sv\<lparr>sv_sequence := nextSequence (sv_sequence sv)\<rparr>)"
  by (simp add: take_sequence_def Let_def)

lemma client_fds_update [simp]:
  "client_fds (sv\<lparr>sv_sequence := q\<rparr>) = client_fds sv" "client_fds (sv\<lparr>sv_clientFD := Some c\<rparr>) = {#c#}"
  by (simp_all add: client_fds_def)

lemma accept_fds:
  assumes "accept (Some c) uid snap send sv = (outs, sv')"
  shows "closed_fds outs + client_fds sv' = add_mset c (client_fds sv)"
proof (cases "uid \<noteq> Some (sv_peerUID sv) \<or> sv_clientFD sv \<noteq> None")
  case True
  with assms show ?thesis by (auto simp: accept_def split: if_splits)
next
  case False
  then have "client_fds sv = {#}" by (simp add: client_fds_def)
  with False assms show ?thesis
    by (auto simp: accept_def Let_def dest!: sendMessagesLocked_fds)
qed

lemma receive_fds:
  assumes "receive handler r send c w sv = (outs, w', sv')"
  shows "closed_fds outs + client_fds sv' = client_fds sv"
  using assms
  by (auto simp: receive_def Let_def split: received.splits if_splits prod.splits sum.splits
      dest: dropClient_fds sendMessageLocked_fds sendMessagesLocked_fds)


lemma sendMessagesLocked_one: "sendMessagesLocked send [m] sv = sendMessageLocked send m sv"
  by (auto simp: case_prod_beta Let_def intro: prod_eqI)

definition accepted_fds :: "poll_result \<Rightarrow> fd multiset" where
  "accepted_fds p = (case pl_accepted p of Some c \<Rightarrow> if pl_listener_in p then {#c#} else {#} | None \<Rightarrow> {#})"

section \<open>A sample server\<close>

definition sample_server :: server where
  "sample_server = \<lparr>sv_path = ''/run/s'', sv_peerUID = 0, sv_device = sample_device, sv_listenerFD = None,
     sv_clientFD = None, sv_ready = False, sv_sequence = 7\<rparr>"

lemma sample_server_new: "NewServer ''/run/s'' 0 sample_device 7 = Some sample_server"
  using sample_device_normal by (simp add: NewServer_def sample_server_def NormalizeDevice_def HasPrefix_def)

section \<open>Properties\<close>

text \<open>
  C26. Snapshots reach the peer whole. For every store a run can reach, each message of its
  snapshot encodes and decodes to itself, all carry the same nonzero sequence number, exactly the
  last one is marked as last, and from the decoded messages the peer rebuilds precisely the calls
  of the snapshot, tokens and caller identities included.
\<close>

theorem snapshot_transfer:
  assumes "reachable store_init store_step s" and "NewServer path uid device now = Some sv0"
    and "sv_device sv = sv_device sv0" and "sv_clientFD sv = Some client" and "\<And>p. send p"
  shows "\<exists>packets. BroadcastSnapshot send (Snapshot s) sv = (map (Sent client) packets, sv)
    \<and> (\<exists>ms. map Decode packets = map Inr ms
        \<and> (\<forall>m \<in> set ms. msg_Sequence m = st_sequence s \<and> msg_Sequence m \<noteq> 0 \<and> msg_Device m = sv_device sv)
        \<and> map (\<lambda>m. msg_Flags m AND FlagLast \<noteq> 0) ms = replicate (length (st_calls s) - 1) False @ [True]
        \<and> List.map_filter call_of_message ms = snap_Calls (Snapshot s))"
proof -
  have inv: "store_inv s" by (rule store_sys.reachable_inv [OF assms(1)])
  have dev: "device_ok (sv_device sv)" using NewServer_device [OF assms(2)] assms(3) by simp
  let ?ms = "snapshotMessages (sv_device sv) (Snapshot s)"
  have valid: "validate m = None \<and> device_ok (msg_Device m)" if "m \<in> set ?ms" for m
    using snapshotMessages_valid [OF inv dev that] dev by simp
  have "BroadcastSnapshot send (Snapshot s) sv = (map (Sent client) (map layout ?ms), sv)"
    using sendMessagesLocked_all [OF assms(4,5) valid, of ?ms] by (simp add: BroadcastSnapshot_def)
  moreover have "map Decode (map layout ?ms) = map Inr ?ms"
    using valid by (simp add: message_sent)
  moreover have "msg_Sequence m = st_sequence s" if "m \<in> set ?ms" for m
    using that by (auto simp: snapshotMessages_def state_message_def snapshot_facts(4) [OF inv] split: if_splits)
  moreover have "length (snap_Calls (Snapshot s)) = length (st_calls s)"
    by (simp add: Snapshot_def snapshotLocked_def)
  ultimately show ?thesis
    using snapshot_rebuilt [OF inv] snapshot_last_flag [of "sv_device sv" "Snapshot s"] inv
      snapshotMessages_valid [OF inv dev]
    by (intro exI [of _ "map layout ?ms"] conjI exI [of _ ?ms]) (auto simp: store_inv_def)
qed

theorem snapshot_transfer_witness:
  "\<exists>packets. BroadcastSnapshot (\<lambda>_. True) (Snapshot sample_ringing) (sample_server\<lparr>sv_clientFD := Some 5\<rparr>)
     = (map (Sent 5) packets, sample_server\<lparr>sv_clientFD := Some 5\<rparr>)"
  using snapshot_transfer [OF sample_ringing_reachable sample_server_new,
    of "sample_server\<lparr>sv_clientFD := Some 5\<rparr>" 5 "\<lambda>_. True"]
  by auto

text \<open>
  A new peer. A connection is taken only if the peer has the configured user id and no
  other is connected; every other one is closed at once without a packet. A peer that is taken
  receives, before anything else, the complete snapshot and then the readiness.
\<close>

theorem accept_spec:
  assumes "reachable store_init store_step s" and "NewServer path uid device now = Some sv0"
    and "sv_device sv = sv_device sv0" and "\<And>p. send p"
    and "accept (Some client) peer (Snapshot s) send sv = (outs, sv')"
  shows "if peer = Some (sv_peerUID sv) \<and> sv_clientFD sv = None
    then sv_clientFD sv' = Some client
      \<and> (\<exists>q. q \<noteq> 0 \<and> outs = map (Sent client \<circ> layout)
            (snapshotMessages (sv_device sv) (Snapshot s) @ [ready_message (sv_device sv) q (sv_ready sv)])
          \<and> (\<forall>m \<in> set (snapshotMessages (sv_device sv) (Snapshot s) @ [ready_message (sv_device sv) q (sv_ready sv)]).
               Decode (layout m) = Inr m))
    else sv' = sv \<and> outs = [Closed client]"
proof (cases "peer = Some (sv_peerUID sv) \<and> sv_clientFD sv = None")
  case False
  with assms(5) show ?thesis by (auto simp: accept_def split: if_splits)
next
  case True
  have inv: "store_inv s" by (rule store_sys.reachable_inv [OF assms(1)])
  have dev: "device_ok (sv_device sv)" using NewServer_device [OF assms(2)] assms(3) by simp
  define q where "q = nextSequence (sv_sequence sv)"
  let ?ms = "snapshotMessages (sv_device sv) (Snapshot s) @ [ready_message (sv_device sv) q (sv_ready sv)]"
  let ?sv = "sv\<lparr>sv_clientFD := Some client, sv_sequence := q\<rparr>"
  have valid: "validate m = None \<and> device_ok (msg_Device m)" if "m \<in> set ?ms" for m
    using that snapshotMessages_valid [OF inv dev] ready_message_valid [OF dev nextSequence_nonzero] dev
    by (auto simp: q_def ready_message_def)
  have "sendMessagesLocked send ?ms ?sv = (map (Sent client \<circ> layout) ?ms, ?sv)"
    by (rule sendMessagesLocked_all [OF _ assms(4) valid]) simp_all
  with True assms(5) have "outs = map (Sent client \<circ> layout) ?ms" "sv' = ?sv"
    by (simp_all add: accept_def Let_def q_def)
  with True valid nextSequence_nonzero show ?thesis
    by (auto simp: q_def intro!: exI [of _ "nextSequence (sv_sequence sv)"] dest: message_sent)
qed

theorem accept_spec_witness:
  "sv_clientFD (snd (accept (Some 5) (Some 0) (Snapshot sample_ringing) (\<lambda>_. True) sample_server)) = Some 5"
  using accept_spec [OF sample_ringing_reachable sample_server_new, of sample_server "\<lambda>_. True" 5 "Some 0"
      "fst (accept (Some 5) (Some 0) (Snapshot sample_ringing) (\<lambda>_. True) sample_server)"
      "snd (accept (Some 5) (Some 0) (Snapshot sample_ringing) (\<lambda>_. True) sample_server)"]
  by (simp add: sample_server_def)

text \<open>
  Commands and acknowledgements. The handler runs only for a packet of the exact size that
  decodes to a command for the server's device, and then exactly one acknowledgement goes back,
  carrying the command's sequence number, token, index and opcode: it is always encodable.
  Anything else the peer sends costs it the connection and reaches no handler.
\<close>

theorem receive_spec:
  assumes "NewServer path uid device now = Some sv0" and "sv_device sv = sv_device sv0"
    and "sv_clientFD sv = Some client" and "receive handler r send client w sv = (outs, w', sv')"
  shows "(\<exists>packet m err. r = Recv packet False \<and> Decode packet = Inr m \<and> msg_Type m = TypeCommand
        \<and> msg_Device m = sv_device sv \<and> handler m w = (err, w')
        \<and> (\<exists>ap. Encode (ack_message (sv_device sv) m err) = Inr ap
            \<and> Decode ap = Inr (ack_message (sv_device sv) m err)
            \<and> outs = (if send ap then [Sent client ap] else [Send_failed client ap, Closed client])))
    \<or> (w' = w \<and> (r = Recv_again \<and> outs = [] \<and> sv' = sv \<or> outs = [Closed client] \<and> sv_clientFD sv' = None))"
proof -
  have dev: "device_ok (sv_device sv)" using NewServer_device [OF assms(1)] assms(2) by simp
  have drop: "dropClient client sv = ([Closed client], sv\<lparr>sv_clientFD := None\<rparr>)"
    by (simp add: dropClient_def closeClientLocked_def assms(3))
  show ?thesis
  proof (cases "\<exists>packet m. r = Recv packet False \<and> length packet = PacketSize \<and> Decode packet = Inr m
      \<and> msg_Type m = TypeCommand \<and> msg_Device m = sv_device sv")
    case False
    with assms(4) drop show ?thesis
      by (auto simp: receive_def split: received.splits if_splits sum.splits)
  next
    case True
    then obtain packet m where p: "r = Recv packet False" "length packet = PacketSize" "Decode packet = Inr m"
      "msg_Type m = TypeCommand" "msg_Device m = sv_device sv" by blast
    obtain err w1 where h: "handler m w = (err, w1)" by fastforce
    let ?a = "ack_message (sv_device sv) m err"
    have "msg_Device ?a = sv_device sv" by (simp add: ack_message_def)
    with message_sent [OF ack_message_valid [OF p(3,4) dev, of err]] dev
    have a: "Encode ?a = Inr (layout ?a)" "Decode (layout ?a) = Inr ?a" by auto
    have "outs = (if send (layout ?a) then [Sent client (layout ?a)] else [Send_failed client (layout ?a), Closed client])"
      "w' = w1"
      using assms(3,4) p h a
      by (auto simp: receive_def sendMessagesLocked_one sendMessageLocked_def closeClientLocked_def Let_def
          simp del: sendMessagesLocked.simps split: if_splits)
    with p h a show ?thesis by blast
  qed
qed

theorem receive_spec_witness:
  "\<exists>ap. fst (receive (\<lambda>m w. (None, Suc w)) (Recv (layout sample_command) False) (\<lambda>_. True) 5 (0::nat)
        (sample_server\<lparr>sv_clientFD := Some 5\<rparr>)) = [Sent 5 ap]
    \<and> Decode ap = Inr (ack_message sample_device sample_command None)"
proof -
  let ?sv = "sample_server\<lparr>sv_clientFD := Some 5\<rparr>"
  let ?r = "receive (\<lambda>m w. (None, Suc w)) (Recv (layout sample_command) False) (\<lambda>_. True) 5 (0::nat) ?sv"
  have dec: "Decode (layout sample_command) = Inr sample_command"
    using Decode_layout [OF sample_command_valid] by (simp add: sample_command_def sample_device_normal)
  have len: "length (layout sample_command) = 128"
    by (rule layout_fields(1)) (simp_all add: sample_command_def sample_device_normal)
  have w: "fst (snd ?r) = 1"
    using dec len by (simp add: receive_def sample_server_def case_prod_beta sample_command_def)
  have eq: "?r = (fst ?r, fst (snd ?r), snd (snd ?r))" by simp
  have d: "sv_device ?sv = sample_device" by (simp add: sample_server_def)
  have s: "sv_device ?sv = sv_device sample_server" "sv_clientFD ?sv = Some 5" by simp_all
  from receive_spec [OF sample_server_new s eq] w dec show ?thesis
    unfolding d by auto
qed

text \<open>
  Descriptors. In one round of the server's loop, whatever arrives and whichever sends fail,
  every client descriptor the server held or accepted is either closed, once, or is the one it
  holds afterwards: none leaks and none is closed twice.
\<close>

theorem Run_round_fds:
  assumes "Run_round handler snap send p w sv = (outs, w', sv')"
  shows "client_fds sv + accepted_fds p
    = closed_fds outs + client_fds sv'"
proof -
  obtain outs1 sv1 where a: "(if pl_listener_in p then accept (pl_accepted p) (pl_uid p) (snap w) send sv else ([], sv)) = (outs1, sv1)"
    by fastforce
  obtain outs2 w2 sv2 where b: "(case sv_clientFD sv of
        Some c \<Rightarrow> if pl_client_in p then receive handler (pl_received p) send c w sv1 else ([], w, sv1)
      | None \<Rightarrow> ([], w, sv1)) = (outs2, w2, sv2)"
    by (metis prod_cases3)
  obtain outs3 sv3 where c: "(case sv_clientFD sv of
        Some c \<Rightarrow> if pl_client_err p then dropClient c sv2 else ([], sv2)
      | None \<Rightarrow> ([], sv2)) = (outs3, sv3)"
    by fastforce
  have outs: "outs = outs1 @ outs2 @ outs3" "sv' = sv3"
    using assms a b c by (auto simp: Run_round_def Let_def)
  have one: "closed_fds outs1 + client_fds sv1 = client_fds sv
      + accepted_fds p"
    using a accept_fds [of _ "pl_uid p" "snap w" send sv outs1 sv1]
    by (cases "pl_accepted p") (auto simp: accept_def accepted_fds_def split: if_splits)
  have two: "closed_fds outs2 + client_fds sv2 = client_fds sv1"
    using b by (auto split: option.splits if_splits dest: receive_fds)
  have "closed_fds outs3 + client_fds sv3 = client_fds sv2"
    using c by (auto split: option.splits if_splits dest: dropClient_fds)
  with two have "closed_fds (outs2 @ outs3) + client_fds sv3 = client_fds sv1" by (simp add: add.assoc)
  with one show ?thesis by (simp add: outs add.assoc)
qed

theorem Run_round_fds_witness:
  "\<exists>outs w' sv'. Run_round (\<lambda>m w. (None, w)) (\<lambda>_. Snapshot sample_ringing) (\<lambda>_. False)
      \<lparr>pl_listener_in = True, pl_client_in = False, pl_client_err = False, pl_accepted = Some 5,
       pl_uid = Some 0, pl_received = Recv_again\<rparr> (0::nat) sample_server = (outs, w', sv')
    \<and> closed_fds outs + client_fds sv' = {#5#}"
proof -
  let ?r = "Run_round (\<lambda>m w. (None, w)) (\<lambda>_. Snapshot sample_ringing) (\<lambda>_. False)
      \<lparr>pl_listener_in = True, pl_client_in = False, pl_client_err = False, pl_accepted = Some 5,
       pl_uid = Some 0, pl_received = Recv_again\<rparr> (0::nat) sample_server"
  have "?r = (fst ?r, fst (snd ?r), snd (snd ?r))" by simp
  from Run_round_fds [OF this] this show ?thesis
    by (intro exI [of _ "fst ?r"] exI [of _ "fst (snd ?r)"] exI [of _ "snd (snd ?r)"])
      (simp add: accepted_fds_def client_fds_def sample_server_def)
qed

end
