(* ===== verification/Lc3.thy ===== *)
theory Lc3
  imports Callbridge_Prelude
begin

text \<open>
  The LC3 codec negotiation (\<open>internal/bluez/lc3.go\<close>): the table of conversational presets, the
  length-type-value parser, the choice of a configuration for a peer's capabilities and the
  parser of a chosen configuration.

  Sample rates and frame sizes are Go \<open>int\<close>s and durations \<open>time.Duration\<close>s; both are \<open>int\<close> here,
  their values are those of the table. A map from type to value is an association list.
\<close>

section \<open>Constants and presets\<close>

definition UnspecifiedContext :: uint16 where "UnspecifiedContext = 1"
definition ConversationalContext :: uint16 where "ConversationalContext = 2"
definition MediaContext :: uint16 where "MediaContext = 4"
definition SupportedContexts :: uint16 where
  "SupportedContexts = UnspecifiedContext OR ConversationalContext"
definition FrontLeftLocation :: uint32 where [simp]: "FrontLeftLocation = 1"
definition LC3Codec :: byte where "LC3Codec = 6"
definition ltvFrequency :: byte where [simp]: "ltvFrequency = 1"
definition ltvDuration :: byte where [simp]: "ltvDuration = 2"
definition ltvChannelAllocation :: byte where [simp]: "ltvChannelAllocation = 3"
definition ltvFrameLength :: byte where [simp]: "ltvFrameLength = 4"
definition ltvFrameBlocksPerSDU :: byte where [simp]: "ltvFrameBlocksPerSDU = 5"

definition LC3Capabilities :: bytes where
  "LC3Capabilities =
     [3, ltvFrequency, 0x34, 0, 2, ltvDuration, 0x23, 2, ltvChannelAllocation, 1,
      5, ltvFrameLength, 30, 0, 80, 0]"

record codec_config =
  cc_SampleRate :: int
  cc_FrameDuration :: duration
  cc_OctetsPerFrame :: int
  cc_ChannelAllocation :: uint32

record preset =
  ps_name :: string
  ps_frequencyCode :: byte
  ps_frequencyBit :: uint16
  ps_durationCode :: byte
  ps_durationBit :: byte
  ps_sampleRate :: int
  ps_frameDuration :: duration
  ps_octets :: int

definition mk_preset :: "string \<Rightarrow> byte \<Rightarrow> nat \<Rightarrow> byte \<Rightarrow> nat \<Rightarrow> int \<Rightarrow> duration \<Rightarrow> int \<Rightarrow> preset" where
  "mk_preset name fc fb dc db rate dur octets =
     \<lparr>ps_name = name, ps_frequencyCode = fc, ps_frequencyBit = push_bit fb 1, ps_durationCode = dc,
      ps_durationBit = push_bit db 1, ps_sampleRate = rate, ps_frameDuration = dur, ps_octets = octets\<rparr>"

definition conversationalPresets :: "preset list" where
  "conversationalPresets =
     [mk_preset ''32_2'' 6 5 1 1 32000 (10 * Millisecond) 80,
      mk_preset ''32_1'' 6 5 0 0 32000 (7500 * Microsecond) 60,
      mk_preset ''16_1'' 3 2 0 0 16000 (7500 * Microsecond) 30,
      mk_preset ''24_2'' 5 4 1 1 24000 (10 * Millisecond) 60,
      mk_preset ''24_1'' 5 4 0 0 24000 (7500 * Microsecond) 45,
      mk_preset ''16_2'' 3 2 1 1 16000 (10 * Millisecond) 40]"

datatype lc3_error =
    Allocation_not_one | LTV_bound | LTV_malformed | LTV_duplicate
  | Frequency_missing | Duration_missing | Mono_missing | Frame_length_missing | Frame_length_range
  | No_preset | Duration_unsupported | Frame_blocks | Allocation_invalid | Not_mono
  | Preset_octets string | Preset_unsupported

definition OnesCount32 :: "uint32 \<Rightarrow> nat" where
  "OnesCount32 w = length (filter (bit w) [0..<32])"

section \<open>Length-type-value lists\<close>

type_synonym ltv_map = "(byte, bytes) gomap"

text \<open>The loop of \<open>parseLTV\<close> on what is left of the input.\<close>

function parse_ltv :: "bytes \<Rightarrow> ltv_map \<Rightarrow> lc3_error + ltv_map" where
  "parse_ltv [] values = Inr values"
| "parse_ltv (len # rest) values =
     (let n = unat len in
      if n < 2 \<or> 1 + n > length (len # rest) then Inl LTV_malformed
      else let typeID = rest ! 0 in
        if go_get values typeID \<noteq> None then Inl LTV_duplicate
        else parse_ltv (drop n rest) (go_put typeID (subslice 1 n rest) values))"
  by pat_completeness auto
termination
  by (relation "measure (\<lambda>(raw, values). length raw)") auto

definition parseLTV :: "bytes \<Rightarrow> lc3_error + ltv_map" where
  "parseLTV raw = (if length raw = 0 \<or> length raw > 64 then Inl LTV_bound else parse_ltv raw [])"

section \<open>Choosing and reading a configuration\<close>

definition buildConfiguration :: "preset \<Rightarrow> uint32 \<Rightarrow> bytes" where
  "buildConfiguration candidate allocation =
     [2, ltvFrequency, ps_frequencyCode candidate, 2, ltvDuration, ps_durationCode candidate,
      5, ltvChannelAllocation, ucast allocation, ucast (drop_bit 8 allocation),
      ucast (drop_bit 16 allocation), ucast (drop_bit 24 allocation),
      3, ltvFrameLength, of_int (ps_octets candidate), of_int (ps_octets candidate div 256)]"

definition preset_fits :: "uint16 \<Rightarrow> byte \<Rightarrow> int \<Rightarrow> int \<Rightarrow> preset \<Rightarrow> bool" where
  "preset_fits frequencyMask duration minimum maximum candidate \<longleftrightarrow>
     frequencyMask AND ps_frequencyBit candidate \<noteq> 0 \<and> duration AND ps_durationBit candidate \<noteq> 0
     \<and> minimum \<le> ps_octets candidate \<and> ps_octets candidate \<le> maximum"

text \<open>
  The capability checks of \<open>SelectConfigurationForAllocation\<close>: the frequency mask, the duration
  mask and the range of frame lengths.
\<close>

definition read_capabilities :: "ltv_map \<Rightarrow> lc3_error + uint16 \<times> byte \<times> int \<times> int" where
  "read_capabilities values =
     (case go_get values ltvFrequency of
        None \<Rightarrow> Inl Frequency_missing
      | Some frequency \<Rightarrow>
          if length frequency \<noteq> 2 then Inl Frequency_missing
          else case go_get values ltvDuration of
            None \<Rightarrow> Inl Duration_missing
          | Some duration \<Rightarrow>
              if length duration \<noteq> 1 \<or> duration ! 0 AND 3 = 0 then Inl Duration_missing
              else case go_get values ltvChannelAllocation of
                None \<Rightarrow> Inl Mono_missing
              | Some channels \<Rightarrow>
                  if length channels \<noteq> 1 \<or> channels ! 0 AND 1 = 0 then Inl Mono_missing
                  else case go_get values ltvFrameLength of
                    None \<Rightarrow> Inl Frame_length_missing
                  | Some frameLength \<Rightarrow>
                      if length frameLength \<noteq> 4 then Inl Frame_length_missing
                      else
                        let minimum = uint (get_le (subslice 0 2 frameLength) :: uint16);
                            maximum = uint (get_le (subslice 2 4 frameLength) :: uint16) in
                        if minimum = 0 \<or> minimum > maximum then Inl Frame_length_range
                        else Inr (get_le frequency, duration ! 0, minimum, maximum))"

definition SelectConfigurationForAllocation :: "bytes \<Rightarrow> uint32 \<Rightarrow> lc3_error + bytes" where
  "SelectConfigurationForAllocation capabilities allocation =
     (if allocation = 0 \<or> OnesCount32 allocation \<noteq> 1 then Inl Allocation_not_one
      else case parseLTV capabilities of
        Inl e \<Rightarrow> Inl e
      | Inr values \<Rightarrow>
          (case read_capabilities values of
             Inl e \<Rightarrow> Inl e
           | Inr (frequencyMask, duration, minimum, maximum) \<Rightarrow>
               (case find (preset_fits frequencyMask duration minimum maximum) conversationalPresets of
                  None \<Rightarrow> Inl No_preset
                | Some candidate \<Rightarrow> Inr (buildConfiguration candidate allocation))))"

definition SelectConfiguration :: "bytes \<Rightarrow> lc3_error + bytes" where
  "SelectConfiguration capabilities = SelectConfigurationForAllocation capabilities FrontLeftLocation"

definition configured_allocation :: "ltv_map \<Rightarrow> lc3_error + uint32" where
  "configured_allocation values =
     (case go_get values ltvChannelAllocation of
        None \<Rightarrow> Inr FrontLeftLocation
      | Some raw \<Rightarrow>
          if length raw \<noteq> 4 then Inl Allocation_invalid
          else let allocation = get_le raw :: uint32 in
            if allocation = 0 \<or> OnesCount32 allocation \<noteq> 1 then Inl Not_mono else Inr allocation)"

definition ParseConfiguration :: "bytes \<Rightarrow> lc3_error + codec_config" where
  "ParseConfiguration configuration =
     (case parseLTV configuration of
        Inl e \<Rightarrow> Inl e
      | Inr values \<Rightarrow>
          (case go_get values ltvFrequency of
             None \<Rightarrow> Inl Frequency_missing
           | Some frequency \<Rightarrow>
               if length frequency \<noteq> 1 then Inl Frequency_missing
               else case go_get values ltvDuration of
                 None \<Rightarrow> Inl Duration_unsupported
               | Some duration \<Rightarrow>
                   if length duration \<noteq> 1 \<or> duration ! 0 > 1 then Inl Duration_unsupported
                   else case go_get values ltvFrameLength of
                     None \<Rightarrow> Inl Frame_length_missing
                   | Some frameLength \<Rightarrow>
                       if length frameLength \<noteq> 2 then Inl Frame_length_missing
                       else if (case go_get values ltvFrameBlocksPerSDU of
                                  None \<Rightarrow> False
                                | Some frameBlocks \<Rightarrow> length frameBlocks \<noteq> 1 \<or> frameBlocks ! 0 \<noteq> 1)
                       then Inl Frame_blocks
                       else case configured_allocation values of
                         Inl e \<Rightarrow> Inl e
                       | Inr allocation \<Rightarrow>
                           let octets = uint (get_le frameLength :: uint16) in
                           (case find (\<lambda>p. frequency ! 0 = ps_frequencyCode p \<and> duration ! 0 = ps_durationCode p)
                                   conversationalPresets of
                              None \<Rightarrow> Inl Preset_unsupported
                            | Some candidate \<Rightarrow>
                                if octets \<noteq> ps_octets candidate then Inl (Preset_octets (ps_name candidate))
                                else Inr \<lparr>cc_SampleRate = ps_sampleRate candidate,
                                          cc_FrameDuration = ps_frameDuration candidate,
                                          cc_OctetsPerFrame = octets,
                                          cc_ChannelAllocation = allocation\<rparr>)))"

section \<open>Length-type-value lists as a format\<close>

text \<open>The reference encoding: what \<open>parseLTV\<close> reads back.\<close>

definition ltv_entry :: "byte \<times> bytes \<Rightarrow> bytes" where
  "ltv_entry = (\<lambda>(typeID, v). of_nat (length v + 1) # typeID # v)"

definition ltv_bytes :: "ltv_map \<Rightarrow> bytes" where
  "ltv_bytes values = concat (map ltv_entry values)"

definition ltv_ok :: "ltv_map \<Rightarrow> bool" where
  "ltv_ok values \<longleftrightarrow> distinct (map fst values) \<and> (\<forall>(_, v) \<in> set values. v \<noteq> [] \<and> length v < 255)"

lemma ltv_bytes_simps [simp]:
  "ltv_bytes [] = []" "ltv_bytes ((t, v) # vs) = of_nat (length v + 1) # t # v @ ltv_bytes vs"
  by (simp_all add: ltv_bytes_def ltv_entry_def)

lemma parse_ltv_bytes:
  "ltv_ok vs \<Longrightarrow> fst ` set vs \<inter> fst ` set found = {} \<Longrightarrow> parse_ltv (ltv_bytes vs) found = Inr (found @ vs)"
proof (induction vs arbitrary: found)
  case Nil
  then show ?case by simp
next
  case (Cons x vs)
  obtain t v where x: "x = (t, v)" by (cases x)
  from Cons.prems(1) x have v: "v \<noteq> []" "length v < 255" "ltv_ok vs" "t \<notin> fst ` set vs"
    by (auto simp: ltv_ok_def)
  have n: "unat (of_nat (length v + 1) :: byte) = length v + 1" using v by (intro unat_of_nat8) simp
  have new: "t \<notin> fst ` set found" using Cons.prems(2) x by auto
  have "fst ` set vs \<inter> fst ` set (found @ [(t, v)]) = {}" using Cons.prems(2) x v(4) by auto
  from Cons.IH [OF v(3) this] n new v(1) show ?case
    by (simp add: x Let_def go_put_new map_of_eq_None_iff subslice_def)
qed

lemma parse_ltv_Inr:
  "parse_ltv raw found = Inr m \<Longrightarrow>
   \<exists>vs. m = found @ vs \<and> raw = ltv_bytes vs \<and> ltv_ok vs \<and> fst ` set vs \<inter> fst ` set found = {}"
proof (induction raw found rule: parse_ltv.induct)
  case (1 found)
  then show ?case by (simp add: ltv_ok_def)
next
  case (2 len rest found)
  let ?n = "unat len"
  from "2.prems" have h: "\<not> (?n < 2 \<or> 1 + ?n > length (len # rest))" "go_get found (rest ! 0) = None"
      "parse_ltv (drop ?n rest) (go_put (rest ! 0) (subslice 1 ?n rest) found) = Inr m"
    by (auto simp: Let_def split: if_splits)
  from "2.IH" [OF refl h(1) refl _ h(3)] h(2) obtain vs where
    vs: "m = go_put (rest ! 0) (subslice 1 ?n rest) found @ vs" "drop ?n rest = ltv_bytes vs" "ltv_ok vs"
      "fst ` set vs \<inter> fst ` set (go_put (rest ! 0) (subslice 1 ?n rest) found) = {}"
    by auto
  have new: "rest ! 0 \<notin> fst ` set found" using h(2) by (simp add: map_of_eq_None_iff)
  let ?v = "subslice 1 ?n rest"
  have len: "length ?v = ?n - 1" using h(1) by (auto simp: min_def)
  have split: "rest = rest ! 0 # ?v @ ltv_bytes vs"
  proof -
    have "rest = take ?n rest @ ltv_bytes vs" using vs(2) by (metis append_take_drop_id)
    moreover have "take ?n rest = rest ! 0 # ?v"
      using h(1) by (cases rest) (auto simp: subslice_def take_Cons' split: nat.splits)
    ultimately show ?thesis by simp
  qed
  have "of_nat (length ?v + 1) = len" using len h(1) by simp
  then have "len # rest = ltv_bytes ((rest ! 0, ?v) # vs)" using split by simp
  moreover have "0 < length ?v" unfolding len using h(1) by simp
  then have ne: "?v \<noteq> []" by blast
  moreover have "ltv_ok ((rest ! 0, ?v) # vs)"
    using vs(3,4) len ne h(1) unsigned_less [of len, where 'a = nat] by (auto simp: ltv_ok_def go_put_new [OF new])
  moreover have "m = found @ (rest ! 0, ?v) # vs" using vs(1) by (simp add: go_put_new [OF new])
  moreover have "fst ` set ((rest ! 0, ?v) # vs) \<inter> fst ` set found = {}"
    using vs(4) new by (auto simp: go_put_new [OF new])
  ultimately show ?case by blast
qed


definition ltv_valid :: "ltv_map \<Rightarrow> bool" where
  "ltv_valid vs \<longleftrightarrow> ltv_ok vs \<and> vs \<noteq> [] \<and> length (ltv_bytes vs) \<le> 64"

definition ltv_encode :: "ltv_map \<Rightarrow> lc3_error + bytes" where
  "ltv_encode vs = (if ltv_valid vs then Inr (ltv_bytes vs) else Inl LTV_malformed)"

lemma ltv_bytes_Nil_iff [simp]: "ltv_bytes vs = [] \<longleftrightarrow> vs = []"
  by (cases vs) (auto simp: ltv_bytes_def ltv_entry_def)

lemma parseLTV_iff: "parseLTV raw = Inr vs \<longleftrightarrow> ltv_valid vs \<and> raw = ltv_bytes vs"
proof
  assume "parseLTV raw = Inr vs"
  then have raw: "raw \<noteq> []" "length raw \<le> 64" "parse_ltv raw [] = Inr vs"
    by (auto simp: parseLTV_def split: if_splits)
  from parse_ltv_Inr [OF raw(3)] have "raw = ltv_bytes vs" "ltv_ok vs" by auto
  with raw show "ltv_valid vs \<and> raw = ltv_bytes vs" by (auto simp: ltv_valid_def)
next
  assume "ltv_valid vs \<and> raw = ltv_bytes vs"
  then show "parseLTV raw = Inr vs"
    using parse_ltv_bytes [of vs "[]"] by (auto simp: parseLTV_def ltv_valid_def)
qed

interpretation ltv: canonical_codec ltv_valid ltv_encode parseLTV
  by unfold_locales (auto simp: ltv_encode_def parseLTV_iff)

section \<open>Selection\<close>

text \<open>\<open>supports caps p\<close>: the capabilities are well formed and cover the preset \<open>p\<close>.\<close>

definition supports :: "bytes \<Rightarrow> preset \<Rightarrow> bool" where
  "supports caps p \<longleftrightarrow>
     (case parseLTV caps of
        Inl _ \<Rightarrow> False
      | Inr values \<Rightarrow>
          (case read_capabilities values of
             Inl _ \<Rightarrow> False
           | Inr (frequencies, durations, lo, hi) \<Rightarrow> preset_fits frequencies durations lo hi p))"

lemma SelectConfigurationForAllocation_iff:
  "SelectConfigurationForAllocation caps a = Inr cfg \<longleftrightarrow>
     a \<noteq> 0 \<and> OnesCount32 a = 1
     \<and> (\<exists>p. find (supports caps) conversationalPresets = Some p \<and> cfg = buildConfiguration p a)"
proof (cases "parseLTV caps")
  case (Inl e)
  have "find (\<lambda>_. False) xs = None" for xs :: "preset list" by (simp add: find_None_iff)
  with Inl show ?thesis by (auto simp: SelectConfigurationForAllocation_def supports_def [abs_def])
next
  case (Inr vs)
  show ?thesis
  proof (cases "read_capabilities vs")
    case (Inl e)
    have "find (\<lambda>_. False) xs = None" for xs :: "preset list" by (simp add: find_None_iff)
    with Inl Inr show ?thesis by (auto simp: SelectConfigurationForAllocation_def supports_def [abs_def])
  next
    case (Inr x)
    with \<open>parseLTV caps = Inr vs\<close> show ?thesis
      by (cases x) (auto simp: SelectConfigurationForAllocation_def supports_def [abs_def] split: option.splits)
  qed
qed

definition codec_of :: "preset \<Rightarrow> uint32 \<Rightarrow> codec_config" where
  "codec_of p a = \<lparr>cc_SampleRate = ps_sampleRate p, cc_FrameDuration = ps_frameDuration p,
     cc_OctetsPerFrame = ps_octets p, cc_ChannelAllocation = a\<rparr>"

definition config_ltv :: "preset \<Rightarrow> uint32 \<Rightarrow> ltv_map" where
  "config_ltv p a = [(1, [ps_frequencyCode p]), (2, [ps_durationCode p]), (3, put_le 4 a),
     (4, put_le 2 (of_int (ps_octets p) :: uint16))]"

lemma buildConfiguration_ltv:
  assumes "p \<in> set conversationalPresets"
  shows "buildConfiguration p a = ltv_bytes (config_ltv p a)" and "ltv_valid (config_ltv p a)"
  using assms
  by (auto simp: conversationalPresets_def mk_preset_def buildConfiguration_def config_ltv_def ltv_valid_def ltv_ok_def
      put_le_numeral)


lemma presets_distinct:
  "list_all (\<lambda>p. find (\<lambda>q. ps_frequencyCode p = ps_frequencyCode q \<and> ps_durationCode p = ps_durationCode q)
      conversationalPresets = Some p
     \<and> uint (of_int (ps_octets p) :: uint16) = ps_octets p \<and> ps_durationCode p \<le> 1) conversationalPresets"
  by code_simp

lemma preset_find:
  assumes "p \<in> set conversationalPresets"
  shows "find (\<lambda>q. ps_frequencyCode p = ps_frequencyCode q \<and> ps_durationCode p = ps_durationCode q)
      conversationalPresets = Some p"
    and "uint (of_int (ps_octets p) :: uint16) = ps_octets p" and "ps_durationCode p \<le> 1"
  using presets_distinct assms by (auto simp: list_all_iff)

lemma ParseConfiguration_build:
  assumes p: "p \<in> set conversationalPresets" and a: "a \<noteq> 0" "OnesCount32 a = 1"
  shows "ParseConfiguration (buildConfiguration p a) = Inr (codec_of p a)"
proof -
  have "parseLTV (buildConfiguration p a) = Inr (config_ltv p a)"
    using buildConfiguration_ltv [OF p] by (simp add: parseLTV_iff)
  with a preset_find [OF p] show ?thesis
    by (simp add: ParseConfiguration_def config_ltv_def configured_allocation_def codec_of_def)
qed

text \<open>The bridge would choose its own preferred preset for itself.\<close>

lemma select_configuration_own_capabilities:
  "SelectConfiguration LC3Capabilities = Inr (buildConfiguration (conversationalPresets ! 0) FrontLeftLocation)"
  by code_simp

section \<open>Properties\<close>

text \<open>
  Codec selection. A configuration is chosen exactly when the channel allocation is one
  location and the peer's capabilities are well formed and cover some preset; it is then the
  first such preset in the order of preference, and reading the configuration back yields
  precisely that preset's rate, frame duration and frame size with the requested channel.
\<close>

theorem select_configuration_spec:
  "SelectConfigurationForAllocation caps a = Inr cfg \<longleftrightarrow>
     a \<noteq> 0 \<and> OnesCount32 a = 1
     \<and> (\<exists>p. find (supports caps) conversationalPresets = Some p \<and> cfg = buildConfiguration p a
          \<and> ParseConfiguration cfg = Inr (codec_of p a))"
proof -
  have "p \<in> set conversationalPresets" if "find (supports caps) conversationalPresets = Some p" for p
    using that by (auto simp: find_Some_iff)
  then show ?thesis
    using ParseConfiguration_build [of _ a] by (auto simp: SelectConfigurationForAllocation_iff)
qed

text \<open>
  Length-type-value lists. The parser accepts a byte string exactly if it is a sequence of at
  most 64 bytes of entries with pairwise different types and nonempty values, and returns these
  entries: nothing is skipped, reordered or merged, and no other bytes stand for the same list.
\<close>

theorem parseLTV_exact:
  "parseLTV raw = Inr vs \<longleftrightarrow> raw \<noteq> [] \<and> length raw \<le> 64 \<and> raw = concat (map ltv_entry vs)
     \<and> distinct (map fst vs) \<and> list_all (\<lambda>(t, v). v \<noteq> [] \<and> length v < 255) vs"
  unfolding ltv_bytes_def [symmetric]
  by (auto simp: parseLTV_iff ltv_valid_def ltv_ok_def list_all_iff)

end
