(* ===== verification/Qos.thy ===== *)
theory Qos
  imports Lc3 Dbus_Values
begin

text \<open>
  Quality of service of the LE Audio transports (the QoS part of \<open>internal/bluez/broker.go\<close>): what
  the endpoints select for a peer's bounds, what they accept provisionally while BlueZ configures
  the codec, and the strict check of the allocated transport before anything is handed over.

  An error of these functions is seen by the code only through its fixed reason
  (\<open>transportDetailReason\<close>), which is what the model keeps of it.
\<close>

record transport_qos =
  tq_CIG :: byte
  tq_CIS :: byte
  tq_IntervalUS :: uint32
  tq_Framing :: byte
  tq_PHY :: byte
  tq_SDU :: uint16
  tq_Retransmissions :: byte
  tq_LatencyMS :: uint16
  tq_PresentationDelayUS :: uint32
  tq_TargetLatency :: byte

datatype detail_error = Qos_error string | Detail_error string | Other_error string

definition transportDetailReason :: "detail_error \<Rightarrow> string" where
  "transportDetailReason err =
     (case err of Qos_error reason \<Rightarrow> reason | Detail_error reason \<Rightarrow> reason
      | Other_error _ \<Rightarrow> ''transport_detail_unknown'')"

definition interval_us :: "codec_config \<Rightarrow> uint32" where
  "interval_us codec = of_int (cc_FrameDuration codec div Microsecond)"

definition variantDelay :: "variant \<Rightarrow> uint32 option" where
  "variantDelay v =
     (case as_uint32 v of
        Some raw \<Rightarrow> Some raw
      | None \<Rightarrow> (case as_uint16 v of Some raw \<Rightarrow> Some (ucast raw) | None \<Rightarrow> None))"

section \<open>Selection\<close>

fun select_location :: "string list \<Rightarrow> properties \<Rightarrow> detail_error + uint32" where
  "select_location [] ps = Inr FrontLeftLocation"
| "select_location (key # keys) ps =
     (case go_get ps key of
        None \<Rightarrow> select_location keys ps
      | Some v \<Rightarrow>
          (case as_uint32 v of
             None \<Rightarrow> Inl (Other_error key)
           | Some locations \<Rightarrow>
               if locations = 0 then Inl (Other_error key)
               else if locations AND FrontLeftLocation \<noteq> 0 then Inr FrontLeftLocation
               else Inr (locations AND (NOT locations + 1))))"

definition selectChannelAllocation :: "properties \<Rightarrow> detail_error + uint32" where
  "selectChannelAllocation ps = select_location [''ChannelAllocation'', ''Locations''] ps"

text \<open>One optional bound: absent, or a delay that passes the test.\<close>

definition delay_bound :: "properties \<Rightarrow> string \<Rightarrow> uint32 \<Rightarrow> (uint32 \<Rightarrow> bool) \<Rightarrow> detail_error + uint32" where
  "delay_bound bounds key absent ok =
     (case go_get bounds key of
        None \<Rightarrow> Inr absent
      | Some v \<Rightarrow>
          bindE (the_or (variantDelay v) (Other_error key)) (\<lambda>d.
          bindE (check (ok d) (Other_error key)) (\<lambda>_. Inr d)))"

definition selectPresentationDelay :: "properties \<Rightarrow> uint32 \<Rightarrow> detail_error + uint32" where
  "selectPresentationDelay bounds preferred =
     bindE (delay_bound bounds ''MinimumDelay'' 1 (\<lambda>d. d \<noteq> 0 \<and> d \<le> 0xffffff)) (\<lambda>minimum.
     bindE (delay_bound bounds ''MaximumDelay'' 0xffffff (\<lambda>d. d \<noteq> 0 \<and> d \<le> 0xffffff)) (\<lambda>maximum.
     bindE (check (minimum \<le> maximum) (Other_error ''inverted'')) (\<lambda>_.
     bindE (delay_bound bounds ''PreferredMinimumDelay'' 0 (\<lambda>d. d \<le> 0xffffff)) (\<lambda>preferredMinimum.
     bindE (delay_bound bounds ''PreferredMaximumDelay'' 0 (\<lambda>d. d \<le> 0xffffff)) (\<lambda>preferredMaximum.
     let minimum = (if preferredMinimum \<noteq> 0 \<and> preferredMinimum > minimum then preferredMinimum else minimum);
         maximum = (if preferredMaximum \<noteq> 0 \<and> preferredMaximum < maximum then preferredMaximum else maximum) in
     bindE (check (minimum \<le> maximum) (Other_error ''no overlap'')) (\<lambda>_.
       if preferred < minimum then Inr minimum
       else if preferred > maximum then Inr maximum
       else Inr preferred))))))"

definition default_qos :: "codec_config \<Rightarrow> transport_qos" where
  "default_qos codec =
     \<lparr>tq_CIG = 0xff, tq_CIS = 0xff, tq_IntervalUS = interval_us codec, tq_Framing = 0, tq_PHY = 2,
      tq_SDU = of_int (cc_OctetsPerFrame codec), tq_Retransmissions = 2,
      tq_LatencyMS = (if interval_us codec = 7500 then 8 else 10),
      tq_PresentationDelayUS = 40000, tq_TargetLatency = 2\<rparr>"

text \<open>The four optional bounds \<open>selectQoS\<close> looks at before the delay.\<close>

definition select_framing :: "properties \<Rightarrow> transport_qos \<Rightarrow> detail_error + transport_qos" where
  "select_framing bounds selected =
     (case go_get bounds ''Framing'' of
        None \<Rightarrow> Inr selected
      | Some v \<Rightarrow>
          bindE (the_or (as_byte v) (Other_error ''Framing'')) (\<lambda>framing.
          bindE (check (framing \<le> 1) (Other_error ''Framing'')) (\<lambda>_. Inr (selected\<lparr>tq_Framing := framing\<rparr>))))"

definition check_phy :: "properties \<Rightarrow> detail_error + unit" where
  "check_phy bounds =
     (case go_get bounds ''PHY'' of
        None \<Rightarrow> Inr ()
      | Some v \<Rightarrow>
          bindE (the_or (as_byte v) (Other_error ''PHY'')) (\<lambda>phy. check (phy AND 2 \<noteq> 0) (Other_error ''PHY'')))"

definition check_latency :: "properties \<Rightarrow> transport_qos \<Rightarrow> detail_error + unit" where
  "check_latency bounds selected =
     (case go_get bounds ''MaximumLatency'' of
        None \<Rightarrow> Inr ()
      | Some v \<Rightarrow>
          bindE (the_or (as_uint16 v) (Other_error ''MaximumLatency'')) (\<lambda>maximum.
            check (\<not> maximum < tq_LatencyMS selected) (Other_error ''MaximumLatency'')))"

definition select_retransmissions :: "properties \<Rightarrow> transport_qos \<Rightarrow> detail_error + transport_qos" where
  "select_retransmissions bounds selected =
     (case go_get bounds ''Retransmissions'' of
        None \<Rightarrow> Inr selected
      | Some v \<Rightarrow>
          bindE (the_or (as_byte v) (Other_error ''Retransmissions'')) (\<lambda>n.
          bindE (check (n \<noteq> 0 \<and> n \<le> 13) (Other_error ''Retransmissions'')) (\<lambda>_.
            Inr (selected\<lparr>tq_Retransmissions := n\<rparr>))))"

definition selectQoS :: "properties \<Rightarrow> codec_config \<Rightarrow> detail_error + transport_qos" where
  "selectQoS ps codec =
     (case go_get ps ''QoS'' of
        None \<Rightarrow> Inr (default_qos codec)
      | Some v \<Rightarrow>
          bindE (the_or (as_dict v) (Other_error ''QoS'')) (\<lambda>bounds.
          bindE (select_framing bounds (default_qos codec)) (\<lambda>selected.
          bindE (check_phy bounds) (\<lambda>_.
          bindE (check_latency bounds selected) (\<lambda>_.
          bindE (select_retransmissions bounds selected) (\<lambda>selected.
          bindE (selectPresentationDelay bounds (tq_PresentationDelayUS selected)) (\<lambda>delay.
            Inr (selected\<lparr>tq_PresentationDelayUS := delay\<rparr>))))))))"

definition qosVariants :: "transport_qos \<Rightarrow> properties" where
  "qosVariants q =
     [(''CIG'', V_byte (tq_CIG q)), (''CIS'', V_byte (tq_CIS q)), (''Interval'', V_uint32 (tq_IntervalUS q)),
      (''Framing'', V_byte (tq_Framing q)), (''PHY'', V_byte (tq_PHY q)), (''SDU'', V_uint16 (tq_SDU q)),
      (''Retransmissions'', V_byte (tq_Retransmissions q)), (''Latency'', V_uint16 (tq_LatencyMS q)),
      (''PresentationDelay'', V_uint32 (tq_PresentationDelayUS q)),
      (''TargetLatency'', V_byte (tq_TargetLatency q))]"

section \<open>Checking a configured transport\<close>

text \<open>The optional identifiers: absent is \<open>0xff\<close>, and in a final check an error.\<close>

definition qos_id :: "properties \<Rightarrow> string \<Rightarrow> bool \<Rightarrow> string \<Rightarrow> string \<Rightarrow> detail_error + byte" where
  "qos_id qos key final invalid missing =
     (case go_get qos key of
        None \<Rightarrow> if final then Inl (Qos_error missing) else Inr 0xff
      | Some v \<Rightarrow> (case as_byte v of None \<Rightarrow> Inl (Qos_error invalid) | Some i \<Rightarrow> Inr i))"

text \<open>A mandatory field that has the right type and passes the test.\<close>

definition qos_field :: "'a option \<Rightarrow> ('a \<Rightarrow> bool) \<Rightarrow> string \<Rightarrow> detail_error + 'a" where
  "qos_field v ok reason =
     (case v of None \<Rightarrow> Inl (Qos_error reason) | Some x \<Rightarrow> if ok x then Inr x else Inl (Qos_error reason))"

definition parseConfiguredQoS :: "properties \<Rightarrow> codec_config \<Rightarrow> bool \<Rightarrow> detail_error + transport_qos" where
  "parseConfiguredQoS qos codec final =
     bindE (qos_id qos ''CIG'' final ''qos_cig_invalid'' ''qos_cig_missing'') (\<lambda>cig.
     bindE (qos_id qos ''CIS'' final ''qos_cis_invalid'' ''qos_cis_missing'') (\<lambda>cis.
     bindE (check (\<not> (final \<and> (cig > 0xef \<or> cis > 0xef))) (Qos_error ''qos_ids_unallocated'')) (\<lambda>_.
     bindE (qos_field (as_uint32 (property qos ''Interval'')) (\<lambda>x. x = interval_us codec)
              ''qos_interval_mismatch'') (\<lambda>interval.
     bindE (qos_field (as_uint16 (property qos ''SDU'')) (\<lambda>x. uint x = cc_OctetsPerFrame codec)
              ''qos_sdu_mismatch'') (\<lambda>sdu.
     bindE (qos_field (as_byte (property qos ''Framing'')) (\<lambda>x. x \<le> 1) ''qos_framing_invalid'') (\<lambda>framing.
     bindE (qos_field (as_byte (property qos ''PHY'')) (\<lambda>x. x AND 2 \<noteq> 0) ''qos_phy_not_le_2m'') (\<lambda>phy.
     bindE (qos_field (as_byte (property qos ''Retransmissions'')) (\<lambda>x. x \<noteq> 0 \<and> x \<le> 13)
              ''qos_retransmissions_invalid'') (\<lambda>retransmissions.
     bindE (qos_field (as_uint16 (property qos ''Latency'')) (\<lambda>x. x \<noteq> 0 \<and> x \<le> 100)
              ''qos_latency_invalid'') (\<lambda>latency.
     bindE (qos_field (as_uint32 (property qos ''PresentationDelay'')) (\<lambda>x. x \<noteq> 0 \<and> x \<le> 0xffffff)
              ''qos_presentation_delay_invalid'') (\<lambda>delay.
     bindE (qos_field (as_byte (property qos ''TargetLatency'')) (\<lambda>x. 1 \<le> x \<and> x \<le> 3)
              ''qos_target_latency_invalid'') (\<lambda>target.
       Inr \<lparr>tq_CIG = cig, tq_CIS = cis, tq_IntervalUS = interval, tq_Framing = framing, tq_PHY = phy,
            tq_SDU = sdu, tq_Retransmissions = retransmissions, tq_LatencyMS = latency,
            tq_PresentationDelayUS = delay, tq_TargetLatency = target\<rparr>)))))))))))"

definition validateQoS :: "properties \<Rightarrow> codec_config \<Rightarrow> detail_error option" where
  "validateQoS qos codec =
     (case parseConfiguredQoS qos codec False of Inl e \<Rightarrow> Some e | Inr _ \<Rightarrow> None)"

definition parseFinalTransportQoS :: "properties \<Rightarrow> codec_config \<Rightarrow> transport_qos \<Rightarrow> detail_error + transport_qos" where
  "parseFinalTransportQoS qos codec selected =
     (if go_get qos ''TargetLatency'' \<noteq> None then parseConfiguredQoS qos codec True
      else if tq_TargetLatency selected < 1 \<or> tq_TargetLatency selected > 3
      then Inl (Qos_error ''qos_target_latency_fallback_invalid'')
      else parseConfiguredQoS (go_put ''TargetLatency'' (V_byte (tq_TargetLatency selected)) qos) codec True)"

definition parsePreliminaryConfiguredQoS :: "properties \<Rightarrow> codec_config \<Rightarrow> detail_error + transport_qos" where
  "parsePreliminaryConfiguredQoS qos codec =
     (if go_get qos ''TargetLatency'' \<noteq> None then parseConfiguredQoS qos codec False
      else case selectQoS [] codec of
        Inl e \<Rightarrow> Inl e
      | Inr selected \<Rightarrow>
          parseConfiguredQoS (go_put ''TargetLatency'' (V_byte (tq_TargetLatency selected)) qos) codec False)"

definition boundedStaleConfiguredSDU :: "properties \<Rightarrow> codec_config \<Rightarrow> detail_error \<Rightarrow> uint16 option" where
  "boundedStaleConfiguredSDU qos codec parseErr =
     (if transportDetailReason parseErr \<noteq> ''qos_sdu_mismatch'' then None
      else case as_uint16 (property qos ''SDU'') of
        None \<Rightarrow> None
      | Some staleSDU \<Rightarrow>
          if staleSDU = 0 \<or> uint staleSDU = cc_OctetsPerFrame codec then None
          else if \<not> list_ex (\<lambda>p. ps_frameDuration p = cc_FrameDuration codec \<and> ps_octets p = uint staleSDU)
                      conversationalPresets then None
          else (case parsePreliminaryConfiguredQoS qos (codec\<lparr>cc_OctetsPerFrame := uint staleSDU\<rparr>) of
                  Inl _ \<Rightarrow> None | Inr _ \<Rightarrow> Some staleSDU))"

definition boundedUnallocatedConfiguredQoS :: "properties \<Rightarrow> codec_config \<Rightarrow> detail_error \<Rightarrow> (byte \<times> byte) option" where
  "boundedUnallocatedConfiguredQoS qos codec parseErr =
     (if transportDetailReason parseErr \<noteq> ''qos_sdu_mismatch'' then None
      else if as_uint16 (property qos ''SDU'') \<noteq> Some 0 then None
      else if as_byte (property qos ''CIG'') \<noteq> Some 0xff then None
      else if as_byte (property qos ''CIS'') \<noteq> Some 0xff then None
      else case selectQoS [] codec of
        Inl _ \<Rightarrow> None
      | Inr selected \<Rightarrow>
          (case parsePreliminaryConfiguredQoS (go_put ''SDU'' (V_uint16 (tq_SDU selected)) qos) codec of
             Inl _ \<Rightarrow> None | Inr _ \<Rightarrow> Some (0xff, 0xff)))"

section \<open>The endpoint methods\<close>

text \<open>\<open>endpoint.reject\<close>: a rejection names its stage.\<close>

definition at_stage :: "string \<Rightarrow> 'e + 'a \<Rightarrow> string + 'a" where
  "at_stage stage m = (case m of Inl _ \<Rightarrow> Inl stage | Inr x \<Rightarrow> Inr x)"

definition SelectProperties :: "properties \<Rightarrow> string + properties" where
  "SelectProperties ps =
     bindE (the_or (as_bytes (property ps ''Capabilities'')) ''capabilities'') (\<lambda>capabilities.
     bindE (at_stage ''channel_allocation'' (selectChannelAllocation ps)) (\<lambda>allocation.
     bindE (at_stage ''configuration'' (SelectConfigurationForAllocation capabilities allocation)) (\<lambda>configuration.
     bindE (at_stage ''codec'' (ParseConfiguration configuration)) (\<lambda>codec.
     bindE (at_stage ''qos'' (selectQoS ps codec)) (\<lambda>selectedQoS.
       Inr [(''Capabilities'', V_bytes configuration), (''Metadata'', V_bytes [3, 2, 2, 0]),
            (''QoS'', V_dict (qosVariants selectedQoS))])))))"

text \<open>
  The checks of \<open>endpoint.SetConfiguration\<close> before it calls \<open>configure\<close>: the codec and the
  provisional QoS it passes on, or the stage at which it rejects.
\<close>

definition provisional_qos :: "properties \<Rightarrow> codec_config \<Rightarrow> string + transport_qos" where
  "provisional_qos ps codec =
     (case go_get ps ''QoS'' of
        None \<Rightarrow> at_stage ''qos_default'' (selectQoS [] codec)
      | Some qosValue \<Rightarrow>
          bindE (the_or (as_dict qosValue) ''qos'') (\<lambda>qos.
            case parsePreliminaryConfiguredQoS qos codec of
              Inr q \<Rightarrow> Inr q
            | Inl err \<Rightarrow>
                (let stale = boundedStaleConfiguredSDU qos codec err;
                     unallocated = (if stale = None then boundedUnallocatedConfiguredQoS qos codec err else None) in
                 if stale = None \<and> unallocated = None then Inl ''qos''
                 else at_stage ''qos_default'' (selectQoS [] codec))))"

definition check_configuration :: "properties \<Rightarrow> string + codec_config \<times> transport_qos" where
  "check_configuration ps =
     bindE (the_or (case as_bytes (property ps ''Configuration'') of
                      Some configuration \<Rightarrow> Some configuration
                    | None \<Rightarrow> as_bytes (property ps ''Capabilities'')) ''configuration'') (\<lambda>configuration.
     bindE (at_stage ''codec'' (ParseConfiguration configuration)) (\<lambda>codec.
     bindE (provisional_qos ps codec) (\<lambda>q. Inr (codec, q))))"

text \<open>
  \<open>readTransportDetails\<close> and \<open>readTransportLinks\<close>; the argument is BlueZ's answer.
\<close>

definition readTransportDetails :: "properties reply \<Rightarrow> codec_config \<Rightarrow> transport_qos
    \<Rightarrow> detail_error + transport_qos \<times> object_path list" where
  "readTransportDetails answer codec selectedQoS =
     bindE (case answer of
              Call_failed \<Rightarrow> Inl (Detail_error ''transport_properties_read'')
            | Undecodable \<Rightarrow> Inl (Detail_error ''transport_properties_decode'')
            | Reply ps \<Rightarrow> Inr ps) (\<lambda>ps.
     bindE (the_or (as_dict (property ps ''QoS'')) (Detail_error ''transport_qos_missing'')) (\<lambda>qosMap.
     bindE (parseFinalTransportQoS qosMap codec selectedQoS) (\<lambda>qos.
       case go_get ps ''Links'' of
         None \<Rightarrow> Inr (qos, [])
       | Some v \<Rightarrow>
           bindE (the_or (as_paths v) (Detail_error ''transport_links_invalid'')) (\<lambda>links. Inr (qos, links)))))"

definition readTransportLinks :: "variant reply \<Rightarrow> object_path list option" where
  "readTransportLinks answer = (case answer of Reply v \<Rightarrow> as_paths v | _ \<Rightarrow> None)"

section \<open>One channel location\<close>

lemma lowest_bit:
  fixes w :: uint32
  assumes "w \<noteq> 0"
  shows "\<exists>k<32. w AND (NOT w + 1) = push_bit k 1 \<and> bit w k"
proof -
  from assms obtain n where "bit w n" by (auto simp: bit_eq_iff)
  define k where "k = (LEAST n. bit w n)"
  have k: "bit w k" unfolding k_def by (rule LeastI) fact
  have below: "k \<le> j" if "bit w j" for j unfolding k_def using that by (rule Least_le)
  define u where "u = drop_bit k w"
  have w: "w = push_bit k u"
    by (rule bit_word_eqI) (use below in \<open>auto simp: u_def bit_simps not_le\<close>)
  have "bit u 0" using k by (simp add: u_def bit_simps)
  then have odd: "odd u" by (simp add: bit_0)
  have "u AND - u = 1"
  proof -
    have "even (NOT u)" using odd by simp
    then have "- u = NOT u OR 1" by (simp add: minus_eq_not_plus_1 or_one_eq)
    then have "u AND - u = u AND 1" by (simp add: and.assoc bit.conj_disj_distrib)
    with odd show ?thesis by (simp add: and_one_eq odd_iff_mod_2_eq_one)
  qed
  then have "push_bit k u AND - push_bit k u = push_bit k 1"
    by (metis push_bit_and push_bit_minus)
  with w have "w AND (NOT w + 1) = push_bit k 1" by (simp add: minus_eq_not_plus_1)
  moreover have "k < 32" using bit_imp_le_length [OF k] by simp
  ultimately show ?thesis using k by blast
qed

lemma OnesCount32_single: "k < 32 \<Longrightarrow> OnesCount32 (push_bit k 1) = 1"
proof -
  assume k: "k < 32"
  have "{n. n < 32 \<and> bit (push_bit k 1 :: uint32) n} = {k}" using k by (auto simp: bit_simps)
  then show ?thesis by (simp add: OnesCount32_def length_filter_conv_card cong: conj_cong)
qed

section \<open>Presentation delay\<close>

text \<open>The delays a peer's bounds allow: all stated bounds are well formed and hold.\<close>

definition within :: "properties \<Rightarrow> string \<Rightarrow> (uint32 \<Rightarrow> bool) \<Rightarrow> bool" where
  "within bounds key ok \<longleftrightarrow>
     (case go_get bounds key of
        None \<Rightarrow> True
      | Some v \<Rightarrow> (case variantDelay v of None \<Rightarrow> False | Some m \<Rightarrow> m \<le> 0xffffff \<and> ok m))"

definition delay_allowed :: "properties \<Rightarrow> uint32 \<Rightarrow> bool" where
  "delay_allowed bounds d \<longleftrightarrow>
     1 \<le> d \<and> d \<le> 0xffffff
     \<and> within bounds ''MinimumDelay'' (\<lambda>m. m \<noteq> 0 \<and> m \<le> d) \<and> within bounds ''MaximumDelay'' (\<lambda>m. m \<noteq> 0 \<and> d \<le> m)
     \<and> within bounds ''PreferredMinimumDelay'' (\<lambda>m. m \<le> d)
     \<and> within bounds ''PreferredMaximumDelay'' (\<lambda>m. m = 0 \<or> d \<le> m)"

lemma word_ge_1_iff: "(1 :: uint32) \<le> x \<longleftrightarrow> x \<noteq> 0"
  by (simp add: word_le_nat_alt unat_gt_0 Suc_le_eq)

lemma within_bound:
  "within bounds key P \<Longrightarrow> (\<And>m. m \<le> 0xffffff \<Longrightarrow> P m \<Longrightarrow> ok m) \<Longrightarrow> \<exists>m. delay_bound bounds key absent ok = Inr m"
  by (auto simp: delay_bound_def within_def the_or_def check_def split: option.splits)

lemma delay_bound_Inr:
  "delay_bound bounds key absent ok = Inr m \<Longrightarrow> (\<And>m. ok m \<Longrightarrow> m \<le> 0xffffff) \<Longrightarrow> P absent \<Longrightarrow>
    (ok m \<or> m = absent) \<and> (within bounds key P \<longleftrightarrow> P m)"
  by (auto simp: delay_bound_def within_def bindE_Inr_iff split: option.splits)

abbreviation limit :: "properties \<Rightarrow> string \<Rightarrow> uint32 \<Rightarrow> detail_error + uint32" where
  "limit bounds key absent \<equiv> delay_bound bounds key absent (\<lambda>d. d \<noteq> 0 \<and> d \<le> 0xffffff)"

abbreviation preference :: "properties \<Rightarrow> string \<Rightarrow> detail_error + uint32" where
  "preference bounds key \<equiv> delay_bound bounds key 0 (\<lambda>d. d \<le> 0xffffff)"

lemma delay_allowed_limits:
  "delay_allowed bounds x \<Longrightarrow>
    \<exists>m0 m1 m2 m3. limit bounds ''MinimumDelay'' 1 = Inr m0 \<and> limit bounds ''MaximumDelay'' 0xffffff = Inr m1
      \<and> preference bounds ''PreferredMinimumDelay'' = Inr m2 \<and> preference bounds ''PreferredMaximumDelay'' = Inr m3"
proof -
  assume "delay_allowed bounds x"
  note d = this [unfolded delay_allowed_def]
  have "\<exists>m. limit bounds ''MinimumDelay'' 1 = Inr m" by (rule within_bound) (use d in blast)+
  moreover have "\<exists>m. limit bounds ''MaximumDelay'' 0xffffff = Inr m" by (rule within_bound) (use d in blast)+
  moreover have "\<exists>m. preference bounds ''PreferredMinimumDelay'' = Inr m" by (rule within_bound) (use d in blast)+
  moreover have "\<exists>m. preference bounds ''PreferredMaximumDelay'' = Inr m" by (rule within_bound) (use d in blast)+
  ultimately show ?thesis by blast
qed

lemma delay_allowed_iff:
  assumes "limit bounds ''MinimumDelay'' 1 = Inr m0" "limit bounds ''MaximumDelay'' 0xffffff = Inr m1"
    "preference bounds ''PreferredMinimumDelay'' = Inr m2" "preference bounds ''PreferredMaximumDelay'' = Inr m3"
  shows "delay_allowed bounds x \<longleftrightarrow>
    (if m2 \<noteq> 0 \<and> m2 > m0 then m2 else m0) \<le> x \<and> x \<le> (if m3 \<noteq> 0 \<and> m3 < m1 then m3 else m1)"
proof -
  have min: "m0 \<noteq> 0" "x \<noteq> 0 \<Longrightarrow> within bounds ''MinimumDelay'' (\<lambda>m. m \<noteq> 0 \<and> m \<le> x) \<longleftrightarrow> m0 \<le> x"
    using delay_bound_Inr [OF assms(1), of "\<lambda>m. m \<noteq> 0 \<and> m \<le> x"]
          delay_bound_Inr [OF assms(1), of "\<lambda>_. True"] by (auto simp: word_ge_1_iff)
  have max: "m1 \<le> 0xffffff" "x \<le> 0xffffff \<Longrightarrow> within bounds ''MaximumDelay'' (\<lambda>m. m \<noteq> 0 \<and> x \<le> m) \<longleftrightarrow> m1 \<noteq> 0 \<and> x \<le> m1"
    using delay_bound_Inr [OF assms(2), of "\<lambda>m. m \<noteq> 0 \<and> x \<le> m"]
          delay_bound_Inr [OF assms(2), of "\<lambda>_. True"] by auto
  have pref: "within bounds ''PreferredMinimumDelay'' (\<lambda>m. m \<le> x) \<longleftrightarrow> m2 \<le> x"
    "within bounds ''PreferredMaximumDelay'' (\<lambda>m. m = 0 \<or> x \<le> m) \<longleftrightarrow> m3 = 0 \<or> x \<le> m3"
    using delay_bound_Inr [OF assms(3), of "\<lambda>m. m \<le> x"] delay_bound_Inr [OF assms(4), of "\<lambda>m. m = 0 \<or> x \<le> m"]
    by auto
  have "m0 \<le> x \<Longrightarrow> x \<noteq> 0" "m2 \<noteq> 0 \<Longrightarrow> m2 \<le> x \<Longrightarrow> x \<noteq> 0" "x \<noteq> 0 \<Longrightarrow> x \<le> m1 \<Longrightarrow> m1 \<noteq> 0"
    using min(1) by auto
  with min max pref show ?thesis
    unfolding delay_allowed_def word_ge_1_iff by (cases "x = 0"; cases "x \<le> 0xffffff"; auto)
qed

lemma selectPresentationDelay_eq:
  assumes "limit bounds ''MinimumDelay'' 1 = Inr m0" "limit bounds ''MaximumDelay'' 0xffffff = Inr m1"
    "preference bounds ''PreferredMinimumDelay'' = Inr m2" "preference bounds ''PreferredMaximumDelay'' = Inr m3"
    and lo: "lo = (if m2 \<noteq> 0 \<and> m2 > m0 then m2 else m0)" and hi: "hi = (if m3 \<noteq> 0 \<and> m3 < m1 then m3 else m1)"
  shows "selectPresentationDelay bounds p = Inr d \<longleftrightarrow>
    lo \<le> hi \<and> d = (if p < lo then lo else if hi < p then hi else p)"
proof -
  have "lo \<le> hi \<Longrightarrow> m0 \<le> m1" unfolding lo hi by (auto split: if_splits)
  with assms(1-4) show ?thesis
    unfolding selectPresentationDelay_def Let_def by (auto simp: bindE_Inr_iff lo [symmetric] hi [symmetric])
qed

lemma nearest_in_range:
  fixes p :: "'a :: linorder"
  shows "(lo \<le> d \<and> d \<le> hi)
     \<and> (\<forall>x. lo \<le> x \<and> x \<le> hi \<longrightarrow> (x \<le> p \<longrightarrow> x \<le> d \<and> d \<le> p) \<and> (p \<le> x \<longrightarrow> p \<le> d \<and> d \<le> x))
   \<longleftrightarrow> lo \<le> hi \<and> d = (if p < lo then lo else if hi < p then hi else p)" (is "?L \<longleftrightarrow> ?R")
proof
  assume L: ?L
  then have "lo \<le> hi" by (meson order.trans)
  with L have "(p < lo \<longrightarrow> d = lo) \<and> (hi < p \<longrightarrow> d = hi) \<and> (lo \<le> p \<and> p \<le> hi \<longrightarrow> d = p)"
    by (meson order.refl order.antisym order.strict_implies_order)
  with \<open>lo \<le> hi\<close> show ?R by auto
next
  assume ?R
  then show ?L by (auto split: if_splits)
qed

lemma selectPresentationDelay_iff:
  "selectPresentationDelay bounds p = Inr d \<longleftrightarrow>
     delay_allowed bounds d \<and> (\<forall>x. delay_allowed bounds x \<longrightarrow> (x \<le> p \<longrightarrow> x \<le> d \<and> d \<le> p) \<and> (p \<le> x \<longrightarrow> p \<le> d \<and> d \<le> x))"
  (is "_ \<longleftrightarrow> ?R")
proof (cases "\<exists>m0 m1 m2 m3. limit bounds ''MinimumDelay'' 1 = Inr m0 \<and> limit bounds ''MaximumDelay'' 0xffffff = Inr m1
      \<and> preference bounds ''PreferredMinimumDelay'' = Inr m2 \<and> preference bounds ''PreferredMaximumDelay'' = Inr m3")
  case True
  then obtain m0 m1 m2 m3 where m: "limit bounds ''MinimumDelay'' 1 = Inr m0" "limit bounds ''MaximumDelay'' 0xffffff = Inr m1"
    "preference bounds ''PreferredMinimumDelay'' = Inr m2" "preference bounds ''PreferredMaximumDelay'' = Inr m3" by blast
  define lo hi where lh: "lo = (if m2 \<noteq> 0 \<and> m2 > m0 then m2 else m0)" "hi = (if m3 \<noteq> 0 \<and> m3 < m1 then m3 else m1)"
  have "?R \<longleftrightarrow> lo \<le> hi \<and> d = (if p < lo then lo else if hi < p then hi else p)"
    unfolding delay_allowed_iff [OF m] lh [symmetric] by (rule nearest_in_range)
  then show ?thesis by (simp only: selectPresentationDelay_eq [OF m lh])
next
  case False
  then have "\<not> delay_allowed bounds d" using delay_allowed_limits by blast
  moreover have "selectPresentationDelay bounds p \<noteq> Inr d"
    using False unfolding selectPresentationDelay_def bindE_Inr_iff Let_def by blast
  ultimately show ?thesis by blast
qed


section \<open>The selected quality of service\<close>

text \<open>\<open>qos_within\<close>: what the peer's capabilities ask for. \<open>qos_of_codec\<close>: what a transport of a codec must have.\<close>

definition qos_within :: "properties \<Rightarrow> transport_qos \<Rightarrow> bool" where
  "qos_within bounds q \<longleftrightarrow>
     (case go_get bounds ''Framing'' of None \<Rightarrow> tq_Framing q = 0 | Some v \<Rightarrow> v = V_byte (tq_Framing q))
     \<and> (case go_get bounds ''PHY'' of None \<Rightarrow> True | Some v \<Rightarrow> (\<exists>p. v = V_byte p \<and> p AND tq_PHY q \<noteq> 0))
     \<and> (case go_get bounds ''MaximumLatency'' of None \<Rightarrow> True | Some v \<Rightarrow> (\<exists>m. v = V_uint16 m \<and> tq_LatencyMS q \<le> m))
     \<and> (case go_get bounds ''Retransmissions'' of None \<Rightarrow> tq_Retransmissions q = 2
          | Some v \<Rightarrow> v = V_byte (tq_Retransmissions q))
     \<and> delay_allowed bounds (tq_PresentationDelayUS q)"

definition qos_of_codec :: "codec_config \<Rightarrow> transport_qos \<Rightarrow> bool" where
  "qos_of_codec codec q \<longleftrightarrow>
     tq_IntervalUS q = interval_us codec \<and> uint (tq_SDU q) = cc_OctetsPerFrame codec \<and> tq_Framing q \<le> 1
     \<and> tq_PHY q AND 2 \<noteq> 0 \<and> tq_Retransmissions q \<noteq> 0 \<and> tq_Retransmissions q \<le> 13
     \<and> tq_LatencyMS q \<noteq> 0 \<and> tq_LatencyMS q \<le> 100
     \<and> tq_PresentationDelayUS q \<noteq> 0 \<and> tq_PresentationDelayUS q \<le> 0xffffff
     \<and> 1 \<le> tq_TargetLatency q \<and> tq_TargetLatency q \<le> 3"

lemma select_framing_iff:
  "select_framing bounds s = Inr q \<longleftrightarrow>
     (\<exists>f. q = s\<lparr>tq_Framing := f\<rparr> \<and> (case go_get bounds ''Framing'' of None \<Rightarrow> f = tq_Framing s
        | Some v \<Rightarrow> v = V_byte f \<and> f \<le> 1))"
  by (auto simp: select_framing_def bindE_Inr_iff split: option.splits)

lemma select_retransmissions_iff:
  "select_retransmissions bounds s = Inr q \<longleftrightarrow>
     (\<exists>n. q = s\<lparr>tq_Retransmissions := n\<rparr> \<and> (case go_get bounds ''Retransmissions'' of None \<Rightarrow> n = tq_Retransmissions s
        | Some v \<Rightarrow> v = V_byte n \<and> n \<noteq> 0 \<and> n \<le> 13))"
  by (auto simp: select_retransmissions_def bindE_Inr_iff split: option.splits)

lemma check_phy_iff:
  "check_phy bounds = Inr u \<longleftrightarrow> (case go_get bounds ''PHY'' of None \<Rightarrow> True | Some v \<Rightarrow> (\<exists>p. v = V_byte p \<and> p AND 2 \<noteq> 0))"
  by (auto simp: check_phy_def bindE_Inr_iff split: option.splits)

lemma check_latency_iff:
  "check_latency bounds s = Inr u \<longleftrightarrow>
     (case go_get bounds ''MaximumLatency'' of None \<Rightarrow> True | Some v \<Rightarrow> (\<exists>m. v = V_uint16 m \<and> tq_LatencyMS s \<le> m))"
  by (auto simp: check_latency_def bindE_Inr_iff not_less split: option.splits)

lemma selectQoS_cases:
  assumes "selectQoS ps codec = Inr q"
  shows "go_get ps ''QoS'' = None \<and> q = default_qos codec
   \<or> (\<exists>bounds f n d. go_get ps ''QoS'' = Some (V_dict bounds)
        \<and> q = (default_qos codec)\<lparr>tq_Framing := f, tq_Retransmissions := n, tq_PresentationDelayUS := d\<rparr>
        \<and> f \<le> 1 \<and> n \<noteq> 0 \<and> n \<le> 13 \<and> qos_within bounds q)"
proof (cases "go_get ps ''QoS''")
  case None
  with assms show ?thesis by (simp add: selectQoS_def)
next
  case (Some v)
  with assms obtain bounds s r d where v: "v = V_dict bounds"
    and s: "select_framing bounds (default_qos codec) = Inr s"
    and c: "check_phy bounds = Inr ()" "check_latency bounds s = Inr ()"
    and r: "select_retransmissions bounds s = Inr r"
    and d: "delay_allowed bounds d" and q: "q = r\<lparr>tq_PresentationDelayUS := d\<rparr>"
    by (auto simp: selectQoS_def bindE_Inr_iff selectPresentationDelay_iff)
  from s r obtain f n where "s = (default_qos codec)\<lparr>tq_Framing := f\<rparr>" "r = s\<lparr>tq_Retransmissions := n\<rparr>"
    by (auto simp: select_framing_iff select_retransmissions_iff)
  moreover from this s r have "f \<le> 1" "n \<noteq> 0" "n \<le> 13"
    by (auto simp: select_framing_iff select_retransmissions_iff default_qos_def split: option.splits)
  moreover from calculation s r c d q have "qos_within bounds q"
    by (auto simp: qos_within_def select_framing_iff select_retransmissions_iff check_phy_iff check_latency_iff
        default_qos_def split: option.splits)
  ultimately show ?thesis using Some v q by auto
qed

lemma selectQoS_fields:
  assumes "selectQoS ps codec = Inr q" "uint (of_int (cc_OctetsPerFrame codec) :: uint16) = cc_OctetsPerFrame codec"
  shows "qos_of_codec codec q \<and> tq_CIG q = 0xff \<and> tq_CIS q = 0xff"
  using selectQoS_cases [OF assms(1)] assms(2)
  by (auto simp: qos_of_codec_def qos_within_def default_qos_def delay_allowed_def word_ge_1_iff split: if_splits)

section \<open>The checks, as specifications\<close>

definition published_as :: "transport_qos \<Rightarrow> properties \<Rightarrow> bool" where
  "published_as q qos \<longleftrightarrow>
     property qos ''Interval'' = V_uint32 (tq_IntervalUS q) \<and> property qos ''SDU'' = V_uint16 (tq_SDU q)
     \<and> property qos ''Framing'' = V_byte (tq_Framing q) \<and> property qos ''PHY'' = V_byte (tq_PHY q)
     \<and> property qos ''Retransmissions'' = V_byte (tq_Retransmissions q)
     \<and> property qos ''Latency'' = V_uint16 (tq_LatencyMS q)
     \<and> property qos ''PresentationDelay'' = V_uint32 (tq_PresentationDelayUS q)"

definition id_ok :: "properties \<Rightarrow> string \<Rightarrow> bool \<Rightarrow> byte \<Rightarrow> bool" where
  "id_ok qos key final i \<longleftrightarrow> (case go_get qos key of None \<Rightarrow> \<not> final \<and> i = 0xff | Some v \<Rightarrow> v = V_byte i)"

lemma qos_id_iff: "qos_id qos key final e1 e2 = Inr i \<longleftrightarrow> id_ok qos key final i"
  by (auto simp: qos_id_def id_ok_def as_byte_def split: option.splits variant.splits)

lemma qos_field_iff: "qos_field v ok reason = Inr x \<longleftrightarrow> v = Some x \<and> ok x"
  by (auto simp: qos_field_def split: option.splits)

lemma parseConfiguredQoS_iff:
  "parseConfiguredQoS qos codec final = Inr q \<longleftrightarrow>
     id_ok qos ''CIG'' final (tq_CIG q) \<and> id_ok qos ''CIS'' final (tq_CIS q)
     \<and> (final \<longrightarrow> tq_CIG q \<le> 0xef \<and> tq_CIS q \<le> 0xef)
     \<and> published_as q qos \<and> property qos ''TargetLatency'' = V_byte (tq_TargetLatency q) \<and> qos_of_codec codec q"
  (is "_ \<longleftrightarrow> ?R")
proof
  assume "parseConfiguredQoS qos codec final = Inr q"
  then show ?R
    unfolding parseConfiguredQoS_def bindE_Inr_iff qos_id_iff qos_field_iff check_Inr_iff
    by (elim exE conjE) (auto simp: published_as_def qos_of_codec_def)
next
  assume R: ?R
  then have "qos_id qos ''CIG'' final e1 e2 = Inr (tq_CIG q)" "qos_id qos ''CIS'' final e1 e2 = Inr (tq_CIS q)" for e1 e2
    by (simp_all add: qos_id_iff)
  with R show "parseConfiguredQoS qos codec final = Inr q"
    by (auto simp: parseConfiguredQoS_def check_def qos_field_def published_as_def qos_of_codec_def as_defs not_less)
qed

lemma select_configure_qos:
  assumes "selectQoS ps codec = Inr q" "uint (of_int (cc_OctetsPerFrame codec) :: uint16) = cc_OctetsPerFrame codec"
  shows "parsePreliminaryConfiguredQoS (qosVariants q) codec = Inr q"
proof -
  have "parseConfiguredQoS (qosVariants q) codec False = Inr q"
    using selectQoS_fields [OF assms]
    by (simp add: parseConfiguredQoS_iff id_ok_def published_as_def qosVariants_def property_def)
  then show ?thesis by (simp add: parsePreliminaryConfiguredQoS_def qosVariants_def)
qed

lemma merged_qos [simp]:
  "key \<noteq> ''TargetLatency'' \<Longrightarrow> property (go_put ''TargetLatency'' v qos) key = property qos key"
  "property (go_put ''TargetLatency'' v qos) ''TargetLatency'' = v"
  "key \<noteq> ''TargetLatency'' \<Longrightarrow> id_ok (go_put ''TargetLatency'' v qos) key f = id_ok qos key f"
  by (simp_all add: property_def id_ok_def fun_eq_iff go_get_put)

lemma published_as_merged [simp]: "published_as q (go_put ''TargetLatency'' v qos) \<longleftrightarrow> published_as q qos"
  by (simp add: published_as_def)

lemma parseFinalTransportQoS_iff:
  "parseFinalTransportQoS qos codec selected = Inr q \<longleftrightarrow>
     id_ok qos ''CIG'' True (tq_CIG q) \<and> id_ok qos ''CIS'' True (tq_CIS q) \<and> tq_CIG q \<le> 0xef \<and> tq_CIS q \<le> 0xef
     \<and> published_as q qos \<and> qos_of_codec codec q
     \<and> (case go_get qos ''TargetLatency'' of None \<Rightarrow> tq_TargetLatency q = tq_TargetLatency selected
         | Some v \<Rightarrow> v = V_byte (tq_TargetLatency q))"
proof (cases "go_get qos ''TargetLatency''")
  case None
  have "qos_of_codec codec q \<Longrightarrow> 1 \<le> tq_TargetLatency q \<and> tq_TargetLatency q \<le> 3" by (simp add: qos_of_codec_def)
  with None show ?thesis
    by (auto simp: parseFinalTransportQoS_def parseConfiguredQoS_iff simp flip: not_less)
next
  case (Some v)
  then show ?thesis by (auto simp: parseFinalTransportQoS_def parseConfiguredQoS_iff property_def [of qos "''TargetLatency''"])
qed

lemma select_location_single:
  "select_location keys ps = Inr a \<Longrightarrow> \<exists>k<32. a = push_bit k 1
     \<and> (case find (\<lambda>key. go_get ps key \<noteq> None) keys of None \<Rightarrow> k = 0 | Some key \<Rightarrow> \<exists>w. go_get ps key = Some (V_uint32 w) \<and> bit w k)"
proof (induction keys ps rule: select_location.induct)
  case (1 ps)
  then show ?case by (intro exI [of _ 0]) simp
next
  case (2 key keys ps)
  show ?case
  proof (cases "go_get ps key")
    case None
    with 2 show ?thesis by simp
  next
    case (Some v)
    with "2.prems" obtain w where w: "v = V_uint32 w" "w \<noteq> 0"
        "w AND 1 \<noteq> 0 \<and> a = 1 \<or> w AND 1 = 0 \<and> a = w AND (NOT w + 1)"
      by (auto split: option.splits if_splits)
    have "w AND 1 \<noteq> 0 \<Longrightarrow> bit w 0" by (auto simp: bit_0 and_one_eq odd_iff_mod_2_eq_one)
    then have "w AND 1 \<noteq> 0 \<and> a = 1 \<Longrightarrow> a = push_bit 0 1 \<and> bit w 0" by simp
    with w(3) lowest_bit [OF w(2)] have "\<exists>k<32. a = push_bit k 1 \<and> bit w k"
      by (metis zero_less_numeral)
    with Some w(1) show ?thesis by auto
  qed
qed

lemma at_stage_Inr_iff [simp]: "at_stage s m = Inr x \<longleftrightarrow> m = Inr x"
  by (auto simp: at_stage_def split: sum.splits)

lemma selectPresentationDelay_total:
  assumes "delay_allowed bounds x"
  shows "\<exists>d. selectPresentationDelay bounds p = Inr d"
proof -
  obtain m0 m1 m2 m3 where m: "limit bounds ''MinimumDelay'' 1 = Inr m0" "limit bounds ''MaximumDelay'' 0xffffff = Inr m1"
      "preference bounds ''PreferredMinimumDelay'' = Inr m2" "preference bounds ''PreferredMaximumDelay'' = Inr m3"
    using delay_allowed_limits [OF assms] by blast
  from assms have "(if m2 \<noteq> 0 \<and> m2 > m0 then m2 else m0) \<le> (if m3 \<noteq> 0 \<and> m3 < m1 then m3 else m1)"
    unfolding delay_allowed_iff [OF m] by (rule conjE) (rule order.trans)
  then show ?thesis using selectPresentationDelay_eq [OF m refl refl] by blast
qed

section \<open>Properties\<close>


definition sample_selection :: properties where
  "sample_selection =
     [(''Capabilities'', V_bytes LC3Capabilities), (''Locations'', V_uint32 0xc),
      (''QoS'', V_dict [(''Framing'', V_byte 0), (''PHY'', V_byte 3), (''MaximumLatency'', V_uint16 95),
         (''Retransmissions'', V_byte 5), (''MinimumDelay'', V_uint32 20000), (''PreferredMaximumDelay'', V_uint32 30000)])]"


text \<open>
  Presentation delay. The selected delay is the one nearest to the preferred value among the
  delays that meet the peer's minimum and maximum and, where it states nonzero ones, its preferred
  minimum and maximum; the selection fails exactly when no delay does (a bound that is malformed,
  zero or beyond 24 bits admits none).
\<close>

theorem presentation_delay_spec:
  "(selectPresentationDelay bounds p = Inr d \<longleftrightarrow>
      delay_allowed bounds d
      \<and> (\<forall>x. delay_allowed bounds x \<longrightarrow> (x \<le> p \<longrightarrow> x \<le> d \<and> d \<le> p) \<and> (p \<le> x \<longrightarrow> p \<le> d \<and> d \<le> x)))
   \<and> ((\<exists>y. selectPresentationDelay bounds p = Inr y) \<longleftrightarrow> (\<exists>x. delay_allowed bounds x))"
  using selectPresentationDelay_iff selectPresentationDelay_total by blast

theorem presentation_delay_spec_witness:
  "delay_allowed [(''MinimumDelay'', V_uint16 20000), (''PreferredMaximumDelay'', V_uint32 30000)] 30000
   \<and> \<not> delay_allowed [(''MinimumDelay'', V_uint16 20000), (''PreferredMaximumDelay'', V_uint32 30000)] 30001"
proof -
  let ?b = "[(''MinimumDelay'', V_uint16 20000), (''PreferredMaximumDelay'', V_uint32 30000)]"
  have "selectPresentationDelay ?b 40000 = Inr 30000" by code_simp
  with presentation_delay_spec [of ?b 40000 30000]
  have "delay_allowed ?b 30000 \<and> (\<forall>x. delay_allowed ?b x \<longrightarrow> (x \<le> 40000 \<longrightarrow> x \<le> 30000))" by blast
  moreover have "\<not> (30001 :: uint32) \<le> 30000" "(30001 :: uint32) \<le> 40000" by simp_all
  ultimately show ?thesis by blast
qed

text \<open>
  The final check. The QoS BlueZ reports for the allocated transport is accepted exactly when
  both the group and the stream identifier are present and allocated (at most \<open>0xef\<close>), every other
  parameter is present with its proper type, and all of them fit the codec: the interval and the
  SDU are those of the codec's frame and everything else is in its permitted range. Only the
  target latency may be missing; then the one selected earlier is kept.
\<close>

theorem final_qos_strict:
  "parseFinalTransportQoS qos codec selected = Inr q \<longleftrightarrow>
     go_get qos ''CIG'' = Some (V_byte (tq_CIG q)) \<and> go_get qos ''CIS'' = Some (V_byte (tq_CIS q))
     \<and> tq_CIG q \<le> 0xef \<and> tq_CIS q \<le> 0xef \<and> published_as q qos \<and> qos_of_codec codec q
     \<and> (case go_get qos ''TargetLatency'' of
          None \<Rightarrow> tq_TargetLatency q = tq_TargetLatency selected | Some v \<Rightarrow> v = V_byte (tq_TargetLatency q))"
  unfolding parseFinalTransportQoS_iff id_ok_def by (auto split: option.splits)

end
