(* ===== verification/Handoff.thy ===== *)
theory Handoff
  imports Qos
begin

text \<open>
  The media handoff (\<open>internal/bluez/handoff.go\<close>): the descriptor of one LE Audio transport with its
  validation and packet format, the server that passes pairs of transports with their file
  descriptors to the media process, and the lifecycle messages that process sends back.

  A file descriptor is a number, the absent one (\<open>-1\<close>) is \<open>None\<close>; a descriptor argument that the
  code checks to be nonnegative is an \<open>int\<close>. \<open>send packet fds\<close> is what \<open>SendmsgN\<close> answers: the number
  of bytes written, or \<open>None\<close> for an error.
\<close>

section \<open>Descriptors\<close>

definition handoffVersion :: byte where [simp]: "handoffVersion = 3"
definition handoffHeaderSize :: nat where [simp]: "handoffHeaderSize = 72"
definition descriptorCount :: byte where [simp]: "descriptorCount = 1"
definition handoffMaximumSocketPath :: nat where [simp]: "handoffMaximumSocketPath = 100"
definition maximumTransport :: nat where [simp]: "maximumTransport = 512"
definition handoffFlagOwnership :: byte where [simp]: "handoffFlagOwnership = 1"
definition handoffFlagLinked :: byte where [simp]: "handoffFlagLinked = 2"
definition handoffFlagCallToken :: byte where [simp]: "handoffFlagCallToken = 4"
definition handoffFlagLifecycle :: byte where [simp]: "handoffFlagLifecycle = 8"
definition handoffKnownFlags :: byte where [simp]:
  "handoffKnownFlags = handoffFlagOwnership OR handoffFlagLinked OR handoffFlagCallToken OR handoffFlagLifecycle"
definition lifecycleVersion :: byte where [simp]: "lifecycleVersion = 1"
definition lifecycleTypeProgress :: byte where [simp]: "lifecycleTypeProgress = 1"
definition lifecycleTypeNormalEnd :: byte where [simp]: "lifecycleTypeNormalEnd = 2"
definition lifecycleMessageSize :: nat where [simp]: "lifecycleMessageSize = 32"
definition handoffMagic :: bytes where "handoffMagic = [0x47, 0x47, 0x4c, 0x45]"
definition lifecycleMagic :: bytes where "lifecycleMagic = [0x47, 0x47, 0x4c, 0x43]"

type_synonym direction = byte

definition DirectionSink :: direction where [simp]: "DirectionSink = 1"
definition DirectionSource :: direction where [simp]: "DirectionSource = 2"

record descriptor =
  d_Direction :: direction
  d_Generation :: uint64
  d_BundleID :: uint64
  d_CallControlToken :: uint64
  d_CallControlCorrelated :: bool
  d_OwnershipTransferred :: bool
  d_Linked :: bool
  d_LifecycleOwned :: bool
  d_SampleRate :: uint32
  d_FrameDurationUS :: uint32
  d_OctetsPerFrame :: uint16
  d_ChannelAllocation :: uint32
  d_IntervalUS :: uint32
  d_PresentationDelayUS :: uint32
  d_ReadMTU :: uint16
  d_WriteMTU :: uint16
  d_LatencyMS :: uint16
  d_Framing :: byte
  d_PHY :: byte
  d_Retransmissions :: byte
  d_TargetLatency :: byte
  d_CIG :: byte
  d_CIS :: byte
  d_Transport :: string

datatype handoff_error =
    Bad_direction | Bad_generation | Not_owned_linked | Bad_lifecycle_owner | Bad_token | Bad_preset
  | Bad_allocation | Bad_parameters | Bad_latency | Bad_MTU | Bad_path
  | Pair_directions | Pair_bundle
  | Header_invalid | Length_invalid
  | Descriptor_fds | Socketpair_failed | Stale_generation | Peer_not_connected
  | Send_error | Short_send
  | Lifecycle_message | Lifecycle_identity | Lifecycle_not_progress

definition preset_matches :: "descriptor \<Rightarrow> preset \<Rightarrow> bool" where
  "preset_matches d p \<longleftrightarrow>
     d_SampleRate d = of_int (ps_sampleRate p)
     \<and> d_FrameDurationUS d = of_int (ps_frameDuration p div Microsecond)
     \<and> d_OctetsPerFrame d = of_int (ps_octets p)"

definition validateDescriptor :: "descriptor \<Rightarrow> handoff_error option" where
  "validateDescriptor d =
     (if d_Direction d \<noteq> DirectionSink \<and> d_Direction d \<noteq> DirectionSource then Some Bad_direction
      else if d_Generation d = 0 \<or> d_BundleID d = 0 then Some Bad_generation
      else if \<not> d_OwnershipTransferred d \<or> \<not> d_Linked d then Some Not_owned_linked
      else if d_LifecycleOwned d \<noteq> (d_Direction d = DirectionSink) then Some Bad_lifecycle_owner
      else if d_CallControlCorrelated d \<noteq> (d_CallControlToken d \<noteq> 0) then Some Bad_token
      else if \<not> list_ex (preset_matches d) conversationalPresets \<or> d_IntervalUS d \<noteq> d_FrameDurationUS d
      then Some Bad_preset
      else if d_ChannelAllocation d = 0 \<or> OnesCount32 (d_ChannelAllocation d) \<noteq> 1 then Some Bad_allocation
      else if d_Framing d > 1 \<or> d_PHY d AND 2 = 0 \<or> d_Retransmissions d = 0 \<or> d_Retransmissions d > 13
         \<or> d_TargetLatency d < 1 \<or> d_TargetLatency d > 3 \<or> d_CIG d > 0xef \<or> d_CIS d > 0xef
      then Some Bad_parameters
      else if d_LatencyMS d = 0 \<or> d_LatencyMS d > 100 \<or> d_PresentationDelayUS d = 0
         \<or> d_PresentationDelayUS d > 0xffffff
      then Some Bad_latency
      else if d_ReadMTU d > 4096 \<or> d_WriteMTU d > 4096
         \<or> (d_Direction d = DirectionSink \<and> d_ReadMTU d < d_OctetsPerFrame d)
         \<or> (d_Direction d = DirectionSource \<and> d_WriteMTU d < d_OctetsPerFrame d)
      then Some Bad_MTU
      else if length (d_Transport d) = 0 \<or> length (d_Transport d) > maximumTransport
         \<or> d_Transport d ! 0 \<noteq> CHR ''/'' \<or> CHR 0x00 \<in> set (d_Transport d)
      then Some Bad_path
      else None)"

definition validateDescriptorPair :: "descriptor \<Rightarrow> descriptor \<Rightarrow> handoff_error option" where
  "validateDescriptorPair sink source =
     (if d_Direction sink \<noteq> DirectionSink \<or> d_Direction source \<noteq> DirectionSource then Some Pair_directions
      else if d_BundleID sink \<noteq> d_BundleID source \<or> d_SampleRate sink \<noteq> d_SampleRate source
         \<or> d_FrameDurationUS sink \<noteq> d_FrameDurationUS source \<or> d_OctetsPerFrame sink \<noteq> d_OctetsPerFrame source
         \<or> d_IntervalUS sink \<noteq> d_IntervalUS source \<or> d_Framing sink \<noteq> d_Framing source
         \<or> d_PHY sink \<noteq> d_PHY source \<or> d_CIG sink \<noteq> d_CIG source \<or> d_CIS sink \<noteq> d_CIS source
         \<or> d_CallControlCorrelated sink \<noteq> d_CallControlCorrelated source
         \<or> d_CallControlToken sink \<noteq> d_CallControlToken source
      then Some Pair_bundle
      else None)"

definition descriptor_flags :: "descriptor \<Rightarrow> byte" where
  "descriptor_flags d =
     (let flags = handoffFlagOwnership OR handoffFlagLinked;
          flags = (if d_CallControlCorrelated d then flags OR handoffFlagCallToken else flags)
      in if d_LifecycleOwned d then flags OR handoffFlagLifecycle else flags)"

definition encodeDescriptor :: "descriptor \<Rightarrow> handoff_error + bytes" where
  "encodeDescriptor d =
     (case validateDescriptor d of
        Some e \<Rightarrow> Inl e
      | None \<Rightarrow>
          let packet = replicate (handoffHeaderSize + length (d_Transport d)) 0;
              packet = blit 0 handoffMagic packet;
              packet = packet[4 := handoffVersion];
              packet = packet[5 := d_Direction d];
              packet = packet[6 := descriptorCount];
              packet = packet[7 := descriptor_flags d];
              packet = blit 8 (put_le 8 (d_Generation d)) packet;
              packet = blit 16 (put_le 8 (d_BundleID d)) packet;
              packet = blit 24 (put_le 8 (d_CallControlToken d)) packet;
              packet = blit 32 (put_le 4 (d_SampleRate d)) packet;
              packet = blit 36 (put_le 4 (d_FrameDurationUS d)) packet;
              packet = blit 40 (put_le 4 (d_ChannelAllocation d)) packet;
              packet = blit 44 (put_le 4 (d_IntervalUS d)) packet;
              packet = blit 48 (put_le 4 (d_PresentationDelayUS d)) packet;
              packet = blit 52 (put_le 2 (d_OctetsPerFrame d)) packet;
              packet = blit 54 (put_le 2 (d_ReadMTU d)) packet;
              packet = blit 56 (put_le 2 (d_WriteMTU d)) packet;
              packet = blit 58 (put_le 2 (d_LatencyMS d)) packet;
              packet = packet[60 := d_Framing d];
              packet = packet[61 := d_PHY d];
              packet = packet[62 := d_Retransmissions d];
              packet = packet[63 := d_TargetLatency d];
              packet = packet[64 := d_CIG d];
              packet = packet[65 := d_CIS d];
              packet = blit 66 (put_le 2 (of_nat (length (d_Transport d)) :: uint16)) packet;
              packet = blit handoffHeaderSize (bytes_of (d_Transport d)) packet
          in Inr packet)"

definition descriptor_of :: "bytes \<Rightarrow> descriptor" where
  "descriptor_of packet =
     \<lparr>d_Direction = packet ! 5, d_Generation = get_le (subslice 8 16 packet),
      d_BundleID = get_le (subslice 16 24 packet), d_CallControlToken = get_le (subslice 24 32 packet),
      d_CallControlCorrelated = (packet ! 7 AND handoffFlagCallToken \<noteq> 0),
      d_OwnershipTransferred = True, d_Linked = True,
      d_LifecycleOwned = (packet ! 7 AND handoffFlagLifecycle \<noteq> 0),
      d_SampleRate = get_le (subslice 32 36 packet), d_FrameDurationUS = get_le (subslice 36 40 packet),
      d_OctetsPerFrame = get_le (subslice 52 54 packet),
      d_ChannelAllocation = get_le (subslice 40 44 packet), d_IntervalUS = get_le (subslice 44 48 packet),
      d_PresentationDelayUS = get_le (subslice 48 52 packet),
      d_ReadMTU = get_le (subslice 54 56 packet), d_WriteMTU = get_le (subslice 56 58 packet),
      d_LatencyMS = get_le (subslice 58 60 packet), d_Framing = packet ! 60, d_PHY = packet ! 61,
      d_Retransmissions = packet ! 62, d_TargetLatency = packet ! 63, d_CIG = packet ! 64,
      d_CIS = packet ! 65, d_Transport = string_of (drop handoffHeaderSize packet)\<rparr>"

definition decodeDescriptor :: "bytes \<Rightarrow> handoff_error + descriptor" where
  "decodeDescriptor packet =
     (if length packet < handoffHeaderSize \<or> subslice 0 4 packet \<noteq> handoffMagic
         \<or> packet ! 4 \<noteq> handoffVersion \<or> packet ! 6 \<noteq> descriptorCount
         \<or> packet ! 7 AND NOT handoffKnownFlags \<noteq> 0 \<or> packet ! 7 AND handoffFlagOwnership = 0
         \<or> packet ! 7 AND handoffFlagLinked = 0 \<or> (get_le (subslice 68 72 packet) :: uint32) \<noteq> 0
      then Inl Header_invalid
      else
        let pathLength = unat (get_le (subslice 66 68 packet) :: uint16) in
        if pathLength < 1 \<or> pathLength > maximumTransport \<or> length packet \<noteq> handoffHeaderSize + pathLength
        then Inl Length_invalid
        else (case encodeDescriptor (descriptor_of packet) of Inl e \<Rightarrow> Inl e | Inr _ \<Rightarrow> Inr (descriptor_of packet)))"

section \<open>Lifecycle messages\<close>

record lifecycleProgress =
  lp_BundleID :: uint64
  lp_SinkGeneration :: uint64
  lp_SourceGeneration :: uint64

definition decodeLifecycleMessage :: "bytes \<Rightarrow> handoff_error + byte \<times> lifecycleProgress" where
  "decodeLifecycleMessage packet =
     (if length packet \<noteq> lifecycleMessageSize \<or> subslice 0 4 packet \<noteq> lifecycleMagic
         \<or> packet ! 4 \<noteq> lifecycleVersion
         \<or> (packet ! 5 \<noteq> lifecycleTypeProgress \<and> packet ! 5 \<noteq> lifecycleTypeNormalEnd)
         \<or> packet ! 6 \<noteq> 0 \<or> packet ! 7 \<noteq> 0
      then Inl Lifecycle_message
      else
        let progress = \<lparr>lp_BundleID = get_le (subslice 8 16 packet),
                        lp_SinkGeneration = get_le (subslice 16 24 packet),
                        lp_SourceGeneration = get_le (subslice 24 32 packet)\<rparr>
        in if lp_BundleID progress = 0 \<or> lp_SinkGeneration progress = 0 \<or> lp_SourceGeneration progress = 0
           then Inl Lifecycle_identity
           else Inr (packet ! 5, progress))"

definition decodeLifecycleProgress :: "bytes \<Rightarrow> handoff_error + lifecycleProgress" where
  "decodeLifecycleProgress packet =
     (case decodeLifecycleMessage packet of
        Inl e \<Rightarrow> Inl e
      | Inr (typeID, progress) \<Rightarrow>
          if typeID \<noteq> lifecycleTypeProgress then Inl Lifecycle_not_progress else Inr progress)"

section \<open>The server\<close>

record handoff_server =
  hs_path :: string
  hs_peerUID :: uint32
  hs_listenerFD :: "fd option"
  hs_clientFD :: "fd option"
  hs_lastGen :: "uint64 list"
  hs_lastBundle :: uint64
  hs_disconnectHandler :: bool

datatype handoff_out = Packet fd bytes "int list" | Close_fd fd | Disconnected | Remove_socket

definition NewHandoffServer :: "string \<Rightarrow> int \<Rightarrow> handoff_server option" where
  "NewHandoffServer path peerUID =
     (if \<not> HasPrefix path ''/'' \<or> length path > handoffMaximumSocketPath \<or> peerUID < 0 then None
      else Some \<lparr>hs_path = path, hs_peerUID = of_int peerUID, hs_listenerFD = None, hs_clientFD = None,
                 hs_lastGen = [0, 0, 0], hs_lastBundle = 0, hs_disconnectHandler = False\<rparr>)"

definition SetDisconnectHandler :: "bool \<Rightarrow> handoff_server \<Rightarrow> handoff_server option" where
  "SetDisconnectHandler handler s =
     (if hs_listenerFD s \<noteq> None then None else Some (s\<lparr>hs_disconnectHandler := handler\<rparr>))"

definition sendDescriptorLocked :: "(bytes \<Rightarrow> int list \<Rightarrow> nat option) \<Rightarrow> bytes \<Rightarrow> int list \<Rightarrow> handoff_server
    \<Rightarrow> handoff_error option \<times> handoff_out list \<times> handoff_server" where
  "sendDescriptorLocked send packet fds s =
     (if length fds = 0 then (Some Descriptor_fds, [], s)
      else
        case hs_clientFD s of
          None \<Rightarrow> (Some Send_error, [], s)
        | Some client \<Rightarrow>
            (case send packet fds of
               Some written \<Rightarrow>
                 if written = length packet then (None, [Packet client packet fds], s)
                 else (Some Short_send, [Close_fd client], s\<lparr>hs_clientFD := None\<rparr>)
             | None \<Rightarrow> (Some Send_error, [Close_fd client], s\<lparr>hs_clientFD := None\<rparr>)))"

text \<open>
  The part of \<open>PublishPair\<close> under the mutex, with the sink packet, the source packet and the
  remote end of the lifecycle socket pair.
\<close>

definition publish_locked :: "(bytes \<Rightarrow> int list \<Rightarrow> nat option) \<Rightarrow> int \<Rightarrow> descriptor \<Rightarrow> bytes \<Rightarrow> int \<Rightarrow> descriptor
    \<Rightarrow> bytes \<Rightarrow> fd \<Rightarrow> handoff_server \<Rightarrow> handoff_error option \<times> handoff_out list \<times> handoff_server" where
  "publish_locked send sinkFD sink sinkPacket sourceFD source sourcePacket remote s =
     (if d_Generation sink \<le> hs_lastGen s ! unat DirectionSink
         \<or> d_Generation source \<le> hs_lastGen s ! unat DirectionSource
         \<or> d_BundleID sink \<le> hs_lastBundle s
      then (Some Stale_generation, [], s)
      else if hs_clientFD s = None then (Some Peer_not_connected, [], s)
      else
        case sendDescriptorLocked send sinkPacket [sinkFD, int remote] s of
          (Some e, outs, s) \<Rightarrow> (Some e, outs, s)
        | (None, outs, s) \<Rightarrow>
            (case sendDescriptorLocked send sourcePacket [sourceFD] s of
               (Some e, outs', s) \<Rightarrow> (Some e, outs @ outs', s)
             | (None, outs', s) \<Rightarrow>
                 (None, outs @ outs',
                  s\<lparr>hs_lastGen := (hs_lastGen s)[unat DirectionSink := d_Generation sink,
                                                 unat DirectionSource := d_Generation source],
                    hs_lastBundle := d_BundleID sink\<rparr>)))"

definition PublishPair :: "(bytes \<Rightarrow> int list \<Rightarrow> nat option) \<Rightarrow> (fd \<times> fd) option \<Rightarrow> int \<Rightarrow> descriptor \<Rightarrow> int
    \<Rightarrow> descriptor \<Rightarrow> handoff_server \<Rightarrow> (handoff_error + fd) \<times> handoff_out list \<times> handoff_server" where
  "PublishPair send socketpair sinkFD sink sourceFD source s =
     (let sink = sink\<lparr>d_LifecycleOwned := True\<rparr>; source = source\<lparr>d_LifecycleOwned := False\<rparr> in
      case validateDescriptorPair sink source of
        Some e \<Rightarrow> (Inl e, [], s)
      | None \<Rightarrow>
          (case encodeDescriptor sink of
             Inl e \<Rightarrow> (Inl e, [], s)
           | Inr sinkPacket \<Rightarrow>
               (case encodeDescriptor source of
                  Inl e \<Rightarrow> (Inl e, [], s)
                | Inr sourcePacket \<Rightarrow>
                    if sinkFD < 0 \<or> sourceFD < 0 \<or> sinkFD = sourceFD then (Inl Descriptor_fds, [], s)
                    else
                      (case socketpair of
                         None \<Rightarrow> (Inl Socketpair_failed, [], s)
                       | Some (local, remote) \<Rightarrow>
                           (case publish_locked send sinkFD sink sinkPacket sourceFD source sourcePacket remote s of
                              (Some e, outs, s) \<Rightarrow> (Inl e, outs @ [Close_fd local, Close_fd remote], s)
                            | (None, outs, s) \<Rightarrow> (Inr local, outs @ [Close_fd remote], s))))))"

text \<open>
  \<open>Run\<close>: its start, one round of its loop after a poll that returned events (\<open>client\<close> is the client
  the poll watched), and its deferred \<open>close\<close>.
\<close>

definition handoff_start :: "bool \<Rightarrow> lstat \<Rightarrow> fd option \<Rightarrow> bool \<Rightarrow> bool \<Rightarrow> bool \<Rightarrow> bool \<Rightarrow> handoff_server
    \<Rightarrow> server_error option \<times> start_action list \<times> handoff_server" where
  "handoff_start mkdir lst sock bind chmod listen nonblock s =
     (if \<not> mkdir then (Some Mkdir_failed, [], s)
      else if lst = Lstat_other then (Some Path_not_socket, [], s)
      else if lst = Lstat_socket then (Some Path_exists, [], s)
      else if lst = Lstat_error then (Some Inspect_failed, [], s)
      else
        case sock of
          None \<Rightarrow> (Some Socket_failed, [], s)
        | Some listener \<Rightarrow>
            if \<not> bind then (Some Bind_failed, [Close_listener], s)
            else if \<not> chmod then (Some Chmod_failed, [Close_listener, Remove_path], s)
            else if \<not> listen then (Some Listen_failed, [Close_listener, Remove_path], s)
            else if \<not> nonblock then (Some Nonblock_failed, [Close_listener, Remove_path], s)
            else if hs_listenerFD s \<noteq> None then (Some Already_running, [Close_listener, Remove_path], s)
            else (None, [], s\<lparr>hs_listenerFD := Some listener\<rparr>))"

datatype accepted = Accept_again | Accept_failed | Accepted fd "uint32 option"

datatype round_end = Round_continue | Listener_failed | Accept_error

record handoff_poll =
  hp_client_event :: bool
  hp_listener_in :: bool
  hp_listener_err :: bool
  hp_accepted :: accepted

definition handoff_round :: "handoff_poll \<Rightarrow> fd option \<Rightarrow> handoff_server \<Rightarrow> round_end \<times> handoff_out list \<times> handoff_server" where
  "handoff_round p client s =
     (let (outs, s) =
        (if client \<noteq> None \<and> hp_client_event p \<and> hs_clientFD s = client then
           ([Close_fd (the client)] @ (if hs_disconnectHandler s then [Disconnected] else []),
            s\<lparr>hs_clientFD := None\<rparr>)
         else ([], s))
      in
      if \<not> hp_listener_in p then
        (if hp_listener_err p then Listener_failed else Round_continue, outs, s)
      else
        case hp_accepted p of
          Accept_again \<Rightarrow> (Round_continue, outs, s)
        | Accept_failed \<Rightarrow> (Accept_error, outs, s)
        | Accepted fd uid \<Rightarrow>
            if uid \<noteq> Some (hs_peerUID s) then (Round_continue, outs @ [Close_fd fd], s)
            else if hs_clientFD s \<noteq> None then (Round_continue, outs @ [Close_fd fd], s)
            else (Round_continue, outs, s\<lparr>hs_clientFD := Some fd\<rparr>))"

definition handoff_close :: "bool \<Rightarrow> handoff_server \<Rightarrow> handoff_out list \<times> handoff_server" where
  "handoff_close is_socket s =
     ((case hs_clientFD s of None \<Rightarrow> [] | Some fd \<Rightarrow> [Close_fd fd])
      @ (case hs_listenerFD s of None \<Rightarrow> [] | Some fd \<Rightarrow> [Close_fd fd])
      @ (if is_socket then [Remove_socket] else []),
      s\<lparr>hs_clientFD := None, hs_listenerFD := None\<rparr>)"

section \<open>The packet format\<close>

definition descriptor_layout :: "descriptor \<Rightarrow> bytes" where
  "descriptor_layout d = handoffMagic @ [handoffVersion, d_Direction d, descriptorCount, descriptor_flags d]
     @ put_le 8 (d_Generation d) @ put_le 8 (d_BundleID d) @ put_le 8 (d_CallControlToken d)
     @ put_le 4 (d_SampleRate d) @ put_le 4 (d_FrameDurationUS d) @ put_le 4 (d_ChannelAllocation d)
     @ put_le 4 (d_IntervalUS d) @ put_le 4 (d_PresentationDelayUS d)
     @ put_le 2 (d_OctetsPerFrame d) @ put_le 2 (d_ReadMTU d) @ put_le 2 (d_WriteMTU d) @ put_le 2 (d_LatencyMS d)
     @ [d_Framing d, d_PHY d, d_Retransmissions d, d_TargetLatency d, d_CIG d, d_CIS d]
     @ put_le 2 (of_nat (length (d_Transport d)) :: uint16) @ [0, 0, 0, 0] @ bytes_of (d_Transport d)"

lemma length_handoffMagic [simp]: "length handoffMagic = 4"
  by (simp add: handoffMagic_def)

lemma zero_descriptor:
  "replicate (72 + n) (0 :: byte) = replicate 4 0 @ [0, 0, 0, 0] @ replicate 8 0 @ replicate 8 0 @ replicate 8 0
     @ replicate 4 0 @ replicate 4 0 @ replicate 4 0 @ replicate 4 0 @ replicate 4 0
     @ replicate 2 0 @ replicate 2 0 @ replicate 2 0 @ replicate 2 0 @ [0, 0, 0, 0, 0, 0] @ replicate 2 0
     @ [0, 0, 0, 0] @ replicate n 0"
  unfolding replicate_add by (simp add: numeral_eq_Suc)

lemma encodeDescriptor_layout: "validateDescriptor d = None \<Longrightarrow> encodeDescriptor d = Inr (descriptor_layout d)"
  by (simp add: encodeDescriptor_def Let_def zero_descriptor descriptor_layout_def wire_simps)

lemma validateDescriptor_None:
  "validateDescriptor d = None \<Longrightarrow>
     d_OwnershipTransferred d \<and> d_Linked d \<and> d_Transport d \<noteq> [] \<and> length (d_Transport d) \<le> 512"
  by (auto simp: validateDescriptor_def split: if_splits)

lemma layout_nths:
  shows "length (descriptor_layout d) = 72 + length (d_Transport d)"
    and "subslice 0 4 (descriptor_layout d) = handoffMagic"
    and "descriptor_layout d ! 4 = 3" and "descriptor_layout d ! 5 = d_Direction d" and "descriptor_layout d ! 6 = 1"
    and "descriptor_layout d ! 7 = descriptor_flags d"
    and "subslice 8 16 (descriptor_layout d) = put_le 8 (d_Generation d)"
    and "subslice 16 24 (descriptor_layout d) = put_le 8 (d_BundleID d)"
    and "subslice 24 32 (descriptor_layout d) = put_le 8 (d_CallControlToken d)"
    and "subslice 32 36 (descriptor_layout d) = put_le 4 (d_SampleRate d)"
    and "subslice 36 40 (descriptor_layout d) = put_le 4 (d_FrameDurationUS d)"
    and "subslice 40 44 (descriptor_layout d) = put_le 4 (d_ChannelAllocation d)"
    and "subslice 44 48 (descriptor_layout d) = put_le 4 (d_IntervalUS d)"
    and "subslice 48 52 (descriptor_layout d) = put_le 4 (d_PresentationDelayUS d)"
    and "subslice 52 54 (descriptor_layout d) = put_le 2 (d_OctetsPerFrame d)"
    and "subslice 54 56 (descriptor_layout d) = put_le 2 (d_ReadMTU d)"
    and "subslice 56 58 (descriptor_layout d) = put_le 2 (d_WriteMTU d)"
    and "subslice 58 60 (descriptor_layout d) = put_le 2 (d_LatencyMS d)"
    and "descriptor_layout d ! 60 = d_Framing d" and "descriptor_layout d ! 61 = d_PHY d"
    and "descriptor_layout d ! 62 = d_Retransmissions d" and "descriptor_layout d ! 63 = d_TargetLatency d"
    and "descriptor_layout d ! 64 = d_CIG d" and "descriptor_layout d ! 65 = d_CIS d"
    and "subslice 66 68 (descriptor_layout d) = put_le 2 (of_nat (length (d_Transport d)) :: uint16)"
    and "subslice 68 72 (descriptor_layout d) = [0, 0, 0, 0]"
    and "drop 72 (descriptor_layout d) = bytes_of (d_Transport d)"
  by (simp_all add: descriptor_layout_def wire_simps)

lemma descriptor_flags_bits:
  "descriptor_flags d AND NOT handoffKnownFlags = 0" "descriptor_flags d AND handoffFlagOwnership \<noteq> 0"
  "descriptor_flags d AND handoffFlagLinked \<noteq> 0"
  "descriptor_flags d AND handoffFlagCallToken \<noteq> 0 \<longleftrightarrow> d_CallControlCorrelated d"
  "descriptor_flags d AND handoffFlagLifecycle \<noteq> 0 \<longleftrightarrow> d_LifecycleOwned d"
  by (auto simp: descriptor_flags_def Let_def)

lemma descriptor_of_layout:
  assumes "validateDescriptor d = None"
  shows "descriptor_of (descriptor_layout d) = d"
  using validateDescriptor_None [OF assms] descriptor_flags_bits(4,5) [of d]
  by (intro descriptor.equality) (simp_all add: descriptor_of_def layout_nths)

lemma decodeDescriptor_layout:
  assumes "validateDescriptor d = None"
  shows "decodeDescriptor (descriptor_layout d) = Inr d"
proof -
  note v = validateDescriptor_None [OF assms]
  then have "unat (of_nat (length (d_Transport d)) :: uint16) = length (d_Transport d)" by simp
  with v show ?thesis
    using descriptor_flags_bits [of d] encodeDescriptor_layout [OF assms]
    by (simp add: decodeDescriptor_def Let_def layout_nths descriptor_of_layout [OF assms])
qed

lemma descriptor_split:
  assumes "72 \<le> length p"
  shows "p = subslice 0 4 p @ [p ! 4, p ! 5, p ! 6, p ! 7] @ subslice 8 16 p @ subslice 16 24 p @ subslice 24 32 p
    @ subslice 32 36 p @ subslice 36 40 p @ subslice 40 44 p @ subslice 44 48 p @ subslice 48 52 p
    @ subslice 52 54 p @ subslice 54 56 p @ subslice 56 58 p @ subslice 58 60 p
    @ [p ! 60, p ! 61, p ! 62, p ! 63, p ! 64, p ! 65] @ subslice 66 68 p @ subslice 68 72 p @ drop 72 p"
proof -
  have nth: "drop i p = p ! i # drop (Suc i) p" if "i < 72" for i
    using that assms by (simp add: Cons_nth_drop_Suc)
  have "p = subslice 0 4 p @ drop 4 p" using drop_subslice [of 0 4 p] by simp
  also have "drop 4 p = [p ! 4, p ! 5, p ! 6, p ! 7] @ drop 8 p"
    by (simp add: nth [of 4] nth [of 5] nth [of 6] nth [of 7])
  also have "drop 8 p = subslice 8 16 p @ subslice 16 24 p @ subslice 24 32 p @ drop 32 p"
    by (simp add: drop_subslice [of 8 16] drop_subslice [of 16 24] drop_subslice [of 24 32])
  also have "drop 32 p = subslice 32 36 p @ subslice 36 40 p @ subslice 40 44 p @ subslice 44 48 p @ subslice 48 52 p @ drop 52 p"
    by (simp add: drop_subslice [of 32 36] drop_subslice [of 36 40] drop_subslice [of 40 44] drop_subslice [of 44 48]
        drop_subslice [of 48 52])
  also have "drop 52 p = subslice 52 54 p @ subslice 54 56 p @ subslice 56 58 p @ subslice 58 60 p @ drop 60 p"
    by (simp add: drop_subslice [of 52 54] drop_subslice [of 54 56] drop_subslice [of 56 58] drop_subslice [of 58 60])
  also have "drop 60 p = [p ! 60, p ! 61, p ! 62, p ! 63, p ! 64, p ! 65] @ drop 66 p"
    by (simp add: nth [of 60] nth [of 61] nth [of 62] nth [of 63] nth [of 64] nth [of 65])
  also have "drop 66 p = subslice 66 68 p @ subslice 68 72 p @ drop 72 p"
    by (simp add: drop_subslice [of 66 68] drop_subslice [of 68 72])
  finally show ?thesis by simp
qed

lemma flags_canonical:
  fixes f :: byte
  assumes "f AND NOT 15 = 0" "f AND 1 \<noteq> 0" "f AND 2 \<noteq> 0"
  shows "f = (let flags = 3; flags = (if f AND 4 \<noteq> 0 then flags OR 4 else flags)
              in if f AND 8 \<noteq> 0 then flags OR 8 else flags)"
proof -
  have all: "list_all (\<lambda>n. let f = of_nat n :: byte in f AND NOT 15 = 0 \<longrightarrow> f AND 1 \<noteq> 0 \<longrightarrow> f AND 2 \<noteq> 0 \<longrightarrow>
     f = (let flags = 3; flags = (if f AND 4 \<noteq> 0 then flags OR 4 else flags)
              in if f AND 8 \<noteq> 0 then flags OR 8 else flags)) [0..<16]"
    by code_simp
  have "f = f AND (15 OR NOT 15)" by simp
  also have "\<dots> = f AND 15" unfolding bit.conj_disj_distrib assms(1) by simp
  finally have "f \<le> 15" by (metis word_and_le1)
  then have "unat f \<in> set [0..<16]" by (simp add: word_le_nat_alt)
  from all [unfolded list_all_iff, rule_format, OF this] assms show ?thesis by (simp add: Let_def)
qed

lemma decodeDescriptor_canonical:
  assumes "decodeDescriptor p = Inr d"
  shows "validateDescriptor d = None \<and> descriptor_layout d = p"
proof -
  let ?n = "unat (get_le (subslice 66 68 p) :: uint16)"
  from assms have h: "72 \<le> length p" "subslice 0 4 p = handoffMagic" "p ! 4 = 3" "p ! 6 = 1"
      "p ! 7 AND NOT 15 = 0" "p ! 7 AND 1 \<noteq> 0" "p ! 7 AND 2 \<noteq> 0" "(get_le (subslice 68 72 p) :: uint32) = 0"
      "length p = 72 + ?n" and d: "d = descriptor_of p" and e: "encodeDescriptor d \<noteq> Inl e" for e
    by (auto simp: decodeDescriptor_def Let_def not_less split: if_splits sum.splits)
  have v: "validateDescriptor d = None" using e [of "the (validateDescriptor d)"]
    by (cases "validateDescriptor d") (simp_all add: encodeDescriptor_def)
  have pad: "subslice 68 72 p = [0, 0, 0, 0]"
    using put_get_le32 [of "subslice 68 72 p"] h(1,8) by (simp add: put_le_numeral)
  have "descriptor_flags d = (let flags = 3; flags = (if p ! 7 AND 4 \<noteq> 0 then flags OR 4 else flags)
              in if p ! 7 AND 8 \<noteq> 0 then flags OR 8 else flags)"
    by (simp add: descriptor_flags_def d descriptor_of_def)
  also have "\<dots> = p ! 7" by (rule flags_canonical [OF h(5-7), symmetric])
  finally have flags: "descriptor_flags d = p ! 7" .
  have len: "of_nat (length (d_Transport d)) = (get_le (subslice 66 68 p) :: uint16)"
    using h(9) by (simp add: d descriptor_of_def)
  have "descriptor_layout d = subslice 0 4 p @ [p ! 4, p ! 5, p ! 6, p ! 7] @ subslice 8 16 p @ subslice 16 24 p
    @ subslice 24 32 p @ subslice 32 36 p @ subslice 36 40 p @ subslice 40 44 p @ subslice 44 48 p @ subslice 48 52 p
    @ subslice 52 54 p @ subslice 54 56 p @ subslice 56 58 p @ subslice 58 60 p
    @ [p ! 60, p ! 61, p ! 62, p ! 63, p ! 64, p ! 65] @ subslice 66 68 p @ subslice 68 72 p @ drop 72 p"
    unfolding descriptor_layout_def len flags using h(1-4) pad by (simp add: d descriptor_of_def)
  also have "\<dots> = p" by (rule descriptor_split [OF h(1), symmetric])
  finally show ?thesis using v by blast
qed

interpretation media: canonical_codec "\<lambda>d. validateDescriptor d = None" encodeDescriptor decodeDescriptor
proof
  show "\<exists>p. encodeDescriptor x = Inr p" if "validateDescriptor x = None" for x
    using that by (simp add: encodeDescriptor_layout)
  show "decodeDescriptor p = Inr x" if "validateDescriptor x = None" "encodeDescriptor x = Inr p" for x p
    using that by (simp add: encodeDescriptor_layout flip: decodeDescriptor_layout)
  show "validateDescriptor x = None" if "decodeDescriptor p = Inr x" for p x
    using decodeDescriptor_canonical [OF that] by blast
  show "encodeDescriptor x = Inr p" if "decodeDescriptor p = Inr x" for p x
    using decodeDescriptor_canonical [OF that] encodeDescriptor_layout by blast
qed

section \<open>Lifecycle messages as a format\<close>

definition lifecycle_ok :: "byte \<times> lifecycleProgress \<Rightarrow> bool" where
  "lifecycle_ok = (\<lambda>(t, p). (t = lifecycleTypeProgress \<or> t = lifecycleTypeNormalEnd)
     \<and> lp_BundleID p \<noteq> 0 \<and> lp_SinkGeneration p \<noteq> 0 \<and> lp_SourceGeneration p \<noteq> 0)"

definition lifecycle_bytes :: "byte \<times> lifecycleProgress \<Rightarrow> bytes" where
  "lifecycle_bytes = (\<lambda>(t, p). lifecycleMagic @ [lifecycleVersion, t, 0, 0] @ put_le 8 (lp_BundleID p)
     @ put_le 8 (lp_SinkGeneration p) @ put_le 8 (lp_SourceGeneration p))"

lemma length_lifecycleMagic [simp]: "length lifecycleMagic = 4"
  by (simp add: lifecycleMagic_def)

lemma decodeLifecycleMessage_iff:
  "decodeLifecycleMessage packet = Inr x \<longleftrightarrow> lifecycle_ok x \<and> packet = lifecycle_bytes x"
proof
  assume "decodeLifecycleMessage packet = Inr x"
  then have h: "length packet = 32" "subslice 0 4 packet = lifecycleMagic" "packet ! 4 = 1" "packet ! 6 = 0" "packet ! 7 = 0"
      "x = (packet ! 5, \<lparr>lp_BundleID = get_le (subslice 8 16 packet), lp_SinkGeneration = get_le (subslice 16 24 packet),
                        lp_SourceGeneration = get_le (subslice 24 32 packet)\<rparr>)"
    and ok: "lifecycle_ok x"
    by (auto simp: decodeLifecycleMessage_def Let_def lifecycle_ok_def split: if_splits)
  have nth: "drop i packet = packet ! i # drop (Suc i) packet" if "i < 32" for i
    using that h(1) by (simp add: Cons_nth_drop_Suc)
  have "packet = subslice 0 4 packet @ drop 4 packet" using drop_subslice [of 0 4 packet] by simp
  also have "drop 4 packet = [packet ! 4, packet ! 5, packet ! 6, packet ! 7] @ drop 8 packet"
    by (simp add: nth [of 4] nth [of 5] nth [of 6] nth [of 7])
  also have "drop 8 packet = subslice 8 16 packet @ subslice 16 24 packet @ subslice 24 32 packet"
    using h(1) by (simp add: drop_subslice [of 8 16] drop_subslice [of 16 24] drop_subslice [of 24 32])
  also have "subslice 0 4 packet @ [packet ! 4, packet ! 5, packet ! 6, packet ! 7] @ \<dots> = lifecycle_bytes x"
    using h by (simp add: lifecycle_bytes_def)
  finally show "lifecycle_ok x \<and> packet = lifecycle_bytes x" using ok by blast
next
  assume "lifecycle_ok x \<and> packet = lifecycle_bytes x"
  then show "decodeLifecycleMessage packet = Inr x"
    by (cases x) (auto simp: decodeLifecycleMessage_def lifecycle_ok_def lifecycle_bytes_def Let_def wire_simps)
qed

definition lifecycle_encode :: "byte \<times> lifecycleProgress \<Rightarrow> handoff_error + bytes" where
  "lifecycle_encode x = (if lifecycle_ok x then Inr (lifecycle_bytes x) else Inl Lifecycle_message)"

interpretation lifecycle: canonical_codec lifecycle_ok lifecycle_encode decodeLifecycleMessage
  by unfold_locales (auto simp: lifecycle_encode_def decodeLifecycleMessage_iff)

section \<open>Publishing\<close>

definition owned_sink :: "descriptor \<Rightarrow> descriptor" where "owned_sink d = d\<lparr>d_LifecycleOwned := True\<rparr>"
definition owned_source :: "descriptor \<Rightarrow> descriptor" where "owned_source d = d\<lparr>d_LifecycleOwned := False\<rparr>"

lemma encodeDescriptor_Inr:
  assumes "encodeDescriptor d = Inr p"
  shows "validateDescriptor d = None \<and> decodeDescriptor p = Inr d"
proof (cases "validateDescriptor d")
  case None
  with assms show ?thesis using media.dec_enc by blast
next
  case (Some e)
  with assms show ?thesis by (simp add: encodeDescriptor_def)
qed

lemma sendDescriptorLocked_cases:
  assumes "sendDescriptorLocked send p (fd # fds) s = (e, outs, s')" and "hs_clientFD s = Some client"
  shows "e = None \<and> outs = [Packet client p (fd # fds)] \<and> s' = s
    \<or> e \<noteq> None \<and> outs = [Close_fd client] \<and> s' = s\<lparr>hs_clientFD := None\<rparr>"
  using assms by (auto simp: sendDescriptorLocked_def split: option.splits if_splits)

definition fresh_pair :: "descriptor \<Rightarrow> descriptor \<Rightarrow> handoff_server \<Rightarrow> bool" where
  "fresh_pair a b s \<longleftrightarrow> hs_lastGen s ! 1 < d_Generation a \<and> hs_lastGen s ! 2 < d_Generation b
     \<and> hs_lastBundle s < d_BundleID a"

definition record_pair :: "descriptor \<Rightarrow> descriptor \<Rightarrow> handoff_server \<Rightarrow> handoff_server" where
  "record_pair a b s = s\<lparr>hs_lastGen := (hs_lastGen s)[1 := d_Generation a, 2 := d_Generation b],
     hs_lastBundle := d_BundleID a\<rparr>"

lemma publish_locked_cases:
  assumes "publish_locked send fd1 a p fd2 b q r s = (e, outs, s')"
  shows "e \<noteq> None \<and> outs = [] \<and> s' = s
   \<or> (\<exists>client. hs_clientFD s = Some client \<and>
        (e \<noteq> None \<and> s' = s\<lparr>hs_clientFD := None\<rparr>
           \<and> (outs = [Close_fd client] \<or> outs = [Packet client p [fd1, int r], Close_fd client])
         \<or> e = None \<and> outs = [Packet client p [fd1, int r], Packet client q [fd2]] \<and> fresh_pair a b s
           \<and> s' = record_pair a b s))"
proof (cases "fresh_pair a b s \<and> hs_clientFD s \<noteq> None")
  case False
  with assms show ?thesis by (auto simp: publish_locked_def fresh_pair_def not_less split: if_splits)
next
  case True
  then obtain client where c: "hs_clientFD s = Some client" by blast
  obtain e1 o1 s1 where s1: "sendDescriptorLocked send p [fd1, int r] s = (e1, o1, s1)" by (metis surj_pair)
  obtain e2 o2 s2 where s2: "sendDescriptorLocked send q [fd2] s = (e2, o2, s2)" by (metis surj_pair)
  have "\<not> (d_Generation a \<le> hs_lastGen s ! 1 \<or> d_Generation b \<le> hs_lastGen s ! 2 \<or> d_BundleID a \<le> hs_lastBundle s)"
    using True by (auto simp: fresh_pair_def)
  with assms c s1 s2 sendDescriptorLocked_cases [OF s1 c] sendDescriptorLocked_cases [OF s2 c] True show ?thesis
    unfolding publish_locked_def record_pair_def
    by (cases e1; cases e2) auto
qed

lemma PublishPair_publish:
  assumes "PublishPair send sp fd1 a fd2 b s = (res, outs, s')"
  obtains
    (rejected) e where "res = Inl e" "outs = []" "s' = s"
  | (attempted) p q l r e outs1 where
      "validateDescriptorPair (owned_sink a) (owned_source b) = None"
      "encodeDescriptor (owned_sink a) = Inr p" "encodeDescriptor (owned_source b) = Inr q"
      "sp = Some (l, r)" "0 \<le> fd1" "0 \<le> fd2" "fd1 \<noteq> fd2"
      "publish_locked send fd1 (owned_sink a) p fd2 (owned_source b) q r s = (e, outs1, s')"
      "case e of None \<Rightarrow> res = Inr l \<and> outs = outs1 @ [Close_fd r]
       | Some x \<Rightarrow> res = Inl x \<and> outs = outs1 @ [Close_fd l, Close_fd r]"
  using assms that
  unfolding PublishPair_def Let_def owned_sink_def [symmetric] owned_source_def [symmetric]
  by (auto split: option.splits sum.splits if_splits prod.splits)

definition packets_sent :: "handoff_out list \<Rightarrow> nat" where
  "packets_sent outs = length (filter (\<lambda>x. case x of Packet _ _ _ \<Rightarrow> True | _ \<Rightarrow> False) outs)"

text \<open>
  Any interleaving of publications with the server loop. \<open>published\<close> collects the pairs that were
  handed over, in order.
\<close>

datatype handoff_op =
    is_Publish: Publish "bytes \<Rightarrow> int list \<Rightarrow> nat option" "(fd \<times> fd) option" int descriptor int descriptor
  | Start bool lstat "fd option" bool bool bool bool
  | Round handoff_poll "fd option"
  | Stop bool

definition exec_handoff_op :: "handoff_op \<Rightarrow> handoff_server \<Rightarrow> handoff_server" where
  "exec_handoff_op x s =
     (case x of
        Publish send sp fd1 a fd2 b \<Rightarrow> snd (snd (PublishPair send sp fd1 a fd2 b s))
      | Start mkdir lst sock bind chmod listen nonblock \<Rightarrow>
          snd (snd (handoff_start mkdir lst sock bind chmod listen nonblock s))
      | Round p client \<Rightarrow> snd (snd (handoff_round p client s))
      | Stop is_socket \<Rightarrow> snd (handoff_close is_socket s))"

primrec published :: "handoff_op list \<Rightarrow> handoff_server \<Rightarrow> (descriptor \<times> descriptor) list" where
  "published [] s = []"
| "published (x # xs) s =
     (case x of
        Publish send sp fd1 a fd2 b \<Rightarrow>
          (if isl (fst (PublishPair send sp fd1 a fd2 b s)) then [] else [(a, b)])
      | _ \<Rightarrow> []) @ published xs (exec_handoff_op x s)"

definition newer :: "descriptor \<times> descriptor \<Rightarrow> descriptor \<times> descriptor \<Rightarrow> bool" where
  "newer = (\<lambda>(a, b) (c, d). d_Generation a < d_Generation c \<and> d_Generation b < d_Generation d
     \<and> d_BundleID a < d_BundleID c)"

lemma PublishPair_state:
  assumes "PublishPair send sp fd1 a fd2 b s = (res, outs, s')"
  shows "if isl res then hs_lastGen s' = hs_lastGen s \<and> hs_lastBundle s' = hs_lastBundle s
    else fresh_pair a b s \<and> s' = record_pair a b s"
  using assms
proof (cases rule: PublishPair_publish)
  case (rejected e)
  then show ?thesis by simp
next
  case (attempted p q l r e outs1)
  with publish_locked_cases [OF attempted(8)] show ?thesis
    by (auto simp: owned_sink_def owned_source_def fresh_pair_def record_pair_def split: option.splits)
qed

text \<open>Only a successful publication changes the recorded generations.\<close>

lemma exec_other:
  assumes "\<not> is_Publish x"
  shows "hs_lastGen (exec_handoff_op x s) = hs_lastGen s \<and> hs_lastBundle (exec_handoff_op x s) = hs_lastBundle s"
  using assms
  by (cases x) (auto simp: exec_handoff_op_def handoff_start_def handoff_round_def handoff_close_def Let_def
      split: option.splits accepted.splits)

lemma published_newer:
  "length (hs_lastGen s) = 3 \<Longrightarrow> sorted_wrt newer (published xs s)
     \<and> (\<forall>(a, b) \<in> set (published xs s). fresh_pair a b s)"
proof (induction xs arbitrary: s)
  case Nil
  then show ?case by simp
next
  case (Cons x xs)
  let ?t = "exec_handoff_op x s"
  show ?case
  proof (cases "is_Publish x")
    case False
    then have same: "hs_lastGen ?t = hs_lastGen s" "hs_lastBundle ?t = hs_lastBundle s"
      using exec_other [of x s] by auto
    have "published (x # xs) s = published xs ?t" using False by (cases x) auto
    with Cons.IH [of ?t] Cons.prems same show ?thesis by (simp add: fresh_pair_def)
  next
    case True
    then obtain send sp fd1 a fd2 b where x: "x = Publish send sp fd1 a fd2 b" by (cases x) auto
    obtain res outs s' where r: "PublishPair send sp fd1 a fd2 b s = (res, outs, s')" by (metis surj_pair)
    then have t: "?t = s'" by (simp add: x exec_handoff_op_def)
    show ?thesis
    proof (cases "isl res")
      case True
      with PublishPair_state [OF r] Cons.IH [of s'] Cons.prems t show ?thesis
        by (simp add: x r fresh_pair_def)
    next
      case False
      with PublishPair_state [OF r] have f: "fresh_pair a b s" "s' = record_pair a b s" by simp_all
      with Cons.prems have "length (hs_lastGen s') = 3" by (simp add: record_pair_def)
      from Cons.IH [OF this] have ih: "sorted_wrt newer (published xs s')"
          "\<forall>(c, d) \<in> set (published xs s'). fresh_pair c d s'" by blast+
      have "newer (a, b) (c, d) \<and> fresh_pair c d s" if "fresh_pair c d s'" for c d
        using that f Cons.prems by (auto simp: fresh_pair_def record_pair_def newer_def)
      with ih f(1) False r t show ?thesis by (force simp: x)
    qed
  qed
qed

section \<open>Properties\<close>


definition sample_descriptor :: "direction \<Rightarrow> descriptor" where
  "sample_descriptor dir =
     \<lparr>d_Direction = dir, d_Generation = 5, d_BundleID = 4, d_CallControlToken = 9, d_CallControlCorrelated = True,
      d_OwnershipTransferred = True, d_Linked = True, d_LifecycleOwned = (dir = DirectionSink),
      d_SampleRate = 32000, d_FrameDurationUS = 10000, d_OctetsPerFrame = 80, d_ChannelAllocation = 1,
      d_IntervalUS = 10000, d_PresentationDelayUS = 40000, d_ReadMTU = 80, d_WriteMTU = 80, d_LatencyMS = 10,
      d_Framing = 0, d_PHY = 2, d_Retransmissions = 2, d_TargetLatency = 2, d_CIG = 0, d_CIS = 1,
      d_Transport = ''/org/bluez/hci0/fd0''\<rparr>"

definition sample_handoff :: handoff_server where
  "sample_handoff = \<lparr>hs_path = ''/run/h'', hs_peerUID = 0, hs_listenerFD = Some 3, hs_clientFD = Some 4,
     hs_lastGen = [0, 3, 2], hs_lastBundle = 1, hs_disconnectHandler = False\<rparr>"


text \<open>
  C15. No stale pair. In every interleaving of publications with peers that connect and leave and
  with the start and the end of the server, the pairs handed over have strictly increasing sink
  generations, source generations and bundle numbers: none is ever repeated or reordered.
\<close>

theorem published_pairs_increase:
  assumes "NewHandoffServer path uid = Some s"
  shows "sorted_wrt newer (published ops s)"
proof -
  have "length (hs_lastGen s) = 3" using assms by (auto simp: NewHandoffServer_def split: if_splits)
  then show ?thesis using published_newer by blast
qed

definition sample_handoff_ops :: "handoff_op list" where
  "sample_handoff_ops =
     (let send = (\<lambda>packet fds. Some (length packet));
          publish = (\<lambda>g. Publish send (Some (10, 11)) 7 ((sample_descriptor DirectionSink)\<lparr>d_Generation := g, d_BundleID := g\<rparr>)
             8 ((sample_descriptor DirectionSource)\<lparr>d_Generation := g, d_BundleID := g\<rparr>))
      in [Start True Lstat_absent (Some 3) True True True True,
          Round \<lparr>hp_client_event = False, hp_listener_in = True, hp_listener_err = False, hp_accepted = Accepted 4 (Some 0)\<rparr> None,
          publish 5, publish 7])"

theorem published_pairs_increase_witness:
  "\<exists>s. NewHandoffServer ''/run/h'' 0 = Some s \<and> sorted_wrt newer (published sample_handoff_ops s)
     \<and> map (d_Generation \<circ> fst) (published sample_handoff_ops s) = [5, 7]"
proof -
  define s where "s = \<lparr>hs_path = ''/run/h'', hs_peerUID = 0, hs_listenerFD = None, hs_clientFD = None,
                 hs_lastGen = [0, 0, 0], hs_lastBundle = 0, hs_disconnectHandler = False\<rparr>"
  have n: "NewHandoffServer ''/run/h'' 0 = Some s" by (simp add: NewHandoffServer_def HasPrefix_def s_def)
  have "map (d_Generation \<circ> fst) (published sample_handoff_ops s) = [5, 7]" unfolding s_def by code_simp
  with n published_pairs_increase [OF n, of sample_handoff_ops] show ?thesis by (intro exI [of _ s] conjI)
qed

text \<open>
  Descriptor packets. Encoding succeeds exactly on valid descriptors, decoding an encoded
  descriptor yields it again, and a byte string decodes to a descriptor only if it is the very
  encoding of it: the format has no second reading and no slack.
\<close>

theorem descriptor_format_canonical:
  "(encodeDescriptor d = Inr p \<longleftrightarrow> decodeDescriptor p = Inr d)
   \<and> ((\<exists>p. encodeDescriptor d = Inr p) \<longleftrightarrow> validateDescriptor d = None)"
  using encodeDescriptor_Inr media.enc_dec media.enc_total by blast

text \<open>
  Lifecycle messages. A packet is accepted as a lifecycle message exactly if it is the 32-byte
  layout of a progress or normal-end report whose bundle and generations are all nonzero; nothing
  else, and no other bytes for the same report, is accepted.
\<close>

theorem lifecycle_message_exact:
  "decodeLifecycleMessage packet = Inr (t, p) \<longleftrightarrow>
     (t = lifecycleTypeProgress \<or> t = lifecycleTypeNormalEnd)
     \<and> lp_BundleID p \<noteq> 0 \<and> lp_SinkGeneration p \<noteq> 0 \<and> lp_SourceGeneration p \<noteq> 0
     \<and> packet = lifecycleMagic @ [lifecycleVersion, t, 0, 0] @ put_le 8 (lp_BundleID p)
          @ put_le 8 (lp_SinkGeneration p) @ put_le 8 (lp_SourceGeneration p)"
  unfolding decodeLifecycleMessage_iff lifecycle_ok_def lifecycle_bytes_def by auto

end
