(* ===== verification/Broker_State.thy ===== *)
theory Broker_State
  imports Handoff "HOL-Library.List_Lexorder" "HOL-Library.Char_ord"
begin

text \<open>
  The state of the LE Audio broker (\<open>internal/bluez/broker.go\<close>) and the operations on it that need
  no BlueZ call: construction and configuration, the configuration of transports by the endpoints,
  the helpers that pair two acquired transports, the numbering of descriptors and the report.

  A D-Bus connection is a number. The sessions are Go pointers, compared by identity and updated
  in place: they live in the list \<open>bk_heap\<close>, a session is its index there, and \<open>bk_activeSession\<close>
  is the pointer field. A closed \<open>lifecycleDone\<close> channel is the flag \<open>as_lifecycleDone\<close>; a time that
  may be the zero time is an option. The buffered channel \<open>rearmRequest\<close> of capacity one is a flag.
  The call-token provider is an argument of the operations that call it; the state only records
  whether one is installed. Every operation is one critical section of the broker's mutex.
\<close>

section \<open>State\<close>

type_synonym conn = nat
type_synonym session = nat

definition mediaInterface :: string where "mediaInterface = ''org.bluez.Media1''"
definition transportInterface :: string where "transportInterface = ''org.bluez.MediaTransport1''"
definition leBearerInterface :: string where "leBearerInterface = ''org.bluez.Bearer.LE1''"
definition deviceInterface :: string where "deviceInterface = ''org.bluez.Device1''"
definition propertiesInterface :: string where "propertiesInterface = ''org.freedesktop.DBus.Properties''"
definition bluezBusName :: string where "bluezBusName = ''org.bluez''"
definition pairAcquireTimeout :: duration where "pairAcquireTimeout = 5 * Second"
definition callCorrelationTimeout :: duration where "callCorrelationTimeout = 3 * Second"
definition callCorrelationPoll :: duration where "callCorrelationPoll = 20 * Millisecond"
definition transportReleaseRetries :: nat where "transportReleaseRetries = 3"
definition transportReleaseRetryDelay :: duration where "transportReleaseRetryDelay = 100 * Millisecond"
definition mediaProgressStartTimeout :: duration where "mediaProgressStartTimeout = 60 * Second"
definition mediaProgressLeaseTimeout :: duration where "mediaProgressLeaseTimeout = 5 * Second"
definition remoteASEReleasingWatchdog :: duration where "remoteASEReleasingWatchdog = 3 * Second"

record transportConfig =
  tc_direction :: direction
  tc_generation :: uint64
  tc_codec :: codec_config
  tc_qos :: transport_qos

record pendingTransport =
  pt_path :: object_path
  pt_release :: object_path
  pt_config :: transportConfig
  pt_qos :: transport_qos
  pt_links :: "object_path list"
  pt_fd :: int
  pt_readMTU :: uint16
  pt_writeMTU :: uint16

record activeTransportSession =
  as_connection :: conn
  as_releasePaths :: "object_path list"
  as_sinkPath :: object_path
  as_sourcePath :: object_path
  as_sinkGeneration :: uint64
  as_sourceGeneration :: uint64
  as_bundleID :: uint64
  as_callToken :: uint64
  as_lifecycleFD :: fd
  as_lifecycleDone :: bool
  as_startedAt :: "instant option"
  as_progressArmed :: bool
  as_lastProgress :: "instant option"
  as_normalEndSeen :: bool
  as_normalWaitStarted :: bool
  as_idlePaths :: "(object_path, bool) gomap"
  as_remoteIdleSeen :: bool
  as_releasing :: bool
  as_releaseExhausted :: bool

record broker =
  bk_adapter :: string
  bk_expectedAddress :: string
  bk_expectedDevice :: string
  bk_advertisementHold :: bool
  bk_rearmRequest :: bool
  bk_handoff :: handoff_server
  bk_connection :: "conn option"
  bk_configured :: "(object_path, transportConfig) gomap"
  bk_acquiring :: "(object_path, bool) gomap"
  bk_acquired :: "(object_path, bool) gomap"
  bk_pairing :: "(object_path, bool) gomap"
  bk_pending :: "(object_path, pendingTransport) gomap"
  bk_registered :: bool
  bk_advertising :: bool
  bk_discoverable :: bool
  bk_nextConfig :: uint64
  bk_lastGen :: uint64
  bk_hasProvider :: bool
  bk_requireToken :: bool
  bk_heap :: "activeTransportSession list"
  bk_activeSession :: "session option"
  bk_releaseRetryDelay :: duration
  bk_progressStartLease :: duration
  bk_progressLease :: duration
  bk_normalReleaseWait :: duration
  bk_releaseAttempts :: uint64
  bk_releaseSuccesses :: uint64
  bk_releaseErrors :: uint64
  bk_releaseFallbacks :: uint64
  bk_lifecycleProgress :: uint64
  bk_lifecycleStale :: uint64
  bk_lifecycleHUPs :: uint64
  bk_lifecycleTimeouts :: uint64
  bk_lifecycleStartTimeouts :: uint64
  bk_lifecycleNormalEnds :: uint64
  bk_normalReleaseWaits :: uint64
  bk_normalReleaseIdle :: uint64
  bk_normalReleaseTimeouts :: uint64
  bk_transportIdleComplete :: uint64

abbreviation the_session :: "broker \<Rightarrow> session \<Rightarrow> activeTransportSession" where
  "the_session b i \<equiv> bk_heap b ! i"

definition update_session :: "session \<Rightarrow> (activeTransportSession \<Rightarrow> activeTransportSession) \<Rightarrow> broker \<Rightarrow> broker" where
  "update_session i f b = b\<lparr>bk_heap := (bk_heap b)[i := f (bk_heap b ! i)]\<rparr>"

text \<open>What an operation makes happen outside the broker's state.\<close>

datatype broker_out =
    Close_descriptor int
  | Handoff_out handoff_out
  | Release_transport "conn option" object_path
  | Close_connection "conn option"
  | Start_expiry object_path uint64
  | Start_watch session
  | Start_acquire object_path
  | Start_release session
  | Start_normal_wait session duration

section \<open>Construction and configuration\<close>

definition NewBroker :: "string \<Rightarrow> string \<Rightarrow> string \<Rightarrow> int \<Rightarrow> broker option" where
  "NewBroker adapter device socket peerUID =
     (if \<not> HasPrefix adapter ''hci'' \<or> device = [] then None
      else
        case NewHandoffServer socket peerUID of
          None \<Rightarrow> None
        | Some handoff \<Rightarrow>
            (case SetDisconnectHandler True handoff of
               None \<Rightarrow> None
             | Some handoff \<Rightarrow>
                 Some \<lparr>bk_adapter = adapter, bk_expectedAddress = ToUpper device,
                       bk_expectedDevice = ''/org/bluez/'' @ adapter @ ''/dev_''
                         @ ReplaceChar (CHR '':'') (CHR ''_'') (ToUpper device),
                       bk_advertisementHold = False, bk_rearmRequest = False, bk_handoff = handoff,
                       bk_connection = None, bk_configured = [], bk_acquiring = [], bk_acquired = [],
                       bk_pairing = [], bk_pending = [], bk_registered = False, bk_advertising = False,
                       bk_discoverable = False, bk_nextConfig = 0, bk_lastGen = 0, bk_hasProvider = False,
                       bk_requireToken = False, bk_heap = [], bk_activeSession = None,
                       bk_releaseRetryDelay = transportReleaseRetryDelay,
                       bk_progressStartLease = mediaProgressStartTimeout,
                       bk_progressLease = mediaProgressLeaseTimeout, bk_normalReleaseWait = 0,
                       bk_releaseAttempts = 0, bk_releaseSuccesses = 0, bk_releaseErrors = 0,
                       bk_releaseFallbacks = 0, bk_lifecycleProgress = 0, bk_lifecycleStale = 0,
                       bk_lifecycleHUPs = 0, bk_lifecycleTimeouts = 0, bk_lifecycleStartTimeouts = 0,
                       bk_lifecycleNormalEnds = 0, bk_normalReleaseWaits = 0, bk_normalReleaseIdle = 0,
                       bk_normalReleaseTimeouts = 0, bk_transportIdleComplete = 0\<rparr>))"

definition ConfigureMediaLeases :: "duration \<Rightarrow> duration \<Rightarrow> broker \<Rightarrow> broker option" where
  "ConfigureMediaLeases startup active b =
     (if startup \<le> 0 \<or> active \<le> 0 then None
      else if bk_connection b \<noteq> None \<or> bk_activeSession b \<noteq> None then None
      else Some (b\<lparr>bk_progressStartLease := startup, bk_progressLease := active\<rparr>))"

definition ConfigureNormalReleaseWait :: "duration \<Rightarrow> broker \<Rightarrow> broker option" where
  "ConfigureNormalReleaseWait wait b =
     (if wait \<le> 0 \<or> wait \<ge> remoteASEReleasingWatchdog then None
      else if bk_connection b \<noteq> None \<or> bk_activeSession b \<noteq> None then None
      else Some (b\<lparr>bk_normalReleaseWait := wait\<rparr>))"

definition ConfigureCallControl :: "bool \<Rightarrow> bool \<Rightarrow> broker \<Rightarrow> broker option" where
  "ConfigureCallControl provider required b =
     (if \<not> provider \<and> required then None
      else if bk_connection b \<noteq> None \<or> bk_registered b then None
      else Some (b\<lparr>bk_hasProvider := provider, bk_requireToken := required\<rparr>))"

definition selectDevicePath :: "managed_objects \<Rightarrow> string \<Rightarrow> string \<Rightarrow> object_path option" where
  "selectDevicePath objects adapter address =
     (let matches = map fst (filter (\<lambda>(_, ifaces).
          case go_get ifaces deviceInterface of
            None \<Rightarrow> False
          | Some properties \<Rightarrow>
              (case (as_string (property properties ''Address''), as_path (property properties ''Adapter'')) of
                 (Some addressValue, Some adapterValue) \<Rightarrow>
                   EqualFold addressValue address \<and> adapterValue = ''/org/bluez/'' @ adapter
               | _ \<Rightarrow> False)) objects)
      in if length matches \<noteq> 1 then None else Some (matches ! 0))"

definition resolveDevicePath :: "managed_objects reply \<Rightarrow> string \<Rightarrow> string \<Rightarrow> object_path option" where
  "resolveDevicePath answer adapter address =
     (case answer of Reply objects \<Rightarrow> selectDevicePath objects adapter address | _ \<Rightarrow> None)"

section \<open>Sessions\<close>

definition containsObjectPath :: "object_path list \<Rightarrow> object_path \<Rightarrow> bool" where
  "containsObjectPath paths want \<longleftrightarrow> want \<in> set paths"

definition pendingReleasePath :: "pendingTransport option \<Rightarrow> object_path" where
  "pendingReleasePath held =
     (case held of
        None \<Rightarrow> []
      | Some h \<Rightarrow> if pt_release h \<noteq> [] then pt_release h else pt_path h)"

primrec release_paths :: "pendingTransport option list \<Rightarrow> object_path list \<Rightarrow> object_path list" where
  "release_paths [] paths = paths"
| "release_paths (held # rest) paths =
     (let path = pendingReleasePath held in
      release_paths rest (if path \<noteq> [] \<and> path \<notin> set paths then paths @ [path] else paths))"

definition pendingReleasePaths :: "pendingTransport option list \<Rightarrow> object_path list" where
  "pendingReleasePaths transports = release_paths transports []"

definition activeSessionForHandoff :: "conn \<Rightarrow> pendingTransport \<Rightarrow> pendingTransport \<Rightarrow> descriptor \<Rightarrow> descriptor
    \<Rightarrow> fd \<Rightarrow> instant \<Rightarrow> activeTransportSession" where
  "activeSessionForHandoff conn sink source sinkDescriptor sourceDescriptor lifecycleFD startedAt =
     \<lparr>as_connection = conn, as_releasePaths = pendingReleasePaths [Some sink, Some source],
      as_sinkPath = pt_path sink, as_sourcePath = pt_path source,
      as_sinkGeneration = d_Generation sinkDescriptor, as_sourceGeneration = d_Generation sourceDescriptor,
      as_bundleID = d_BundleID sinkDescriptor, as_callToken = d_CallControlToken sinkDescriptor,
      as_lifecycleFD = lifecycleFD, as_lifecycleDone = False, as_startedAt = Some startedAt,
      as_progressArmed = False, as_lastProgress = None, as_normalEndSeen = False,
      as_normalWaitStarted = False, as_idlePaths = [], as_remoteIdleSeen = False, as_releasing = False,
      as_releaseExhausted = False\<rparr>"

definition signalActiveSessionDone :: "session option \<Rightarrow> broker \<Rightarrow> broker" where
  "signalActiveSessionDone session b =
     (case session of
        None \<Rightarrow> b
      | Some i \<Rightarrow> update_session i (\<lambda>s. s\<lparr>as_lifecycleDone := True\<rparr>) b)"

definition clearActiveSessionLocked :: "session \<Rightarrow> broker \<Rightarrow> broker" where
  "clearActiveSessionLocked i b =
     (if bk_activeSession b \<noteq> Some i then b
      else
        let b = b\<lparr>bk_acquired := go_delete (as_sinkPath (the_session b i)) (bk_acquired b)\<rparr>;
            b = b\<lparr>bk_acquired := go_delete (as_sourcePath (the_session b i)) (bk_acquired b)\<rparr>;
            b = b\<lparr>bk_activeSession := None\<rparr>
        in signalActiveSessionDone (Some i) b)"

definition session_uses :: "activeTransportSession \<Rightarrow> object_path \<Rightarrow> bool" where
  "session_uses s path \<longleftrightarrow>
     path = as_sinkPath s \<or> path = as_sourcePath s \<or> containsObjectPath (as_releasePaths s) path"

section \<open>Transports\<close>

definition close_held :: "object_path \<Rightarrow> broker \<Rightarrow> broker_out list \<times> broker" where
  "close_held path b =
     (case go_get (bk_pending b) path of
        None \<Rightarrow> ([], b)
      | Some held \<Rightarrow> ([Close_descriptor (pt_fd held)], b\<lparr>bk_pending := go_delete path (bk_pending b)\<rparr>))"

definition configure :: "(object_path \<Rightarrow> bool) \<Rightarrow> object_path \<Rightarrow> direction \<Rightarrow> codec_config \<Rightarrow> transport_qos \<Rightarrow> broker
    \<Rightarrow> bool \<times> broker_out list \<times> broker" where
  "configure isValid path direction codec qos b =
     (if \<not> isValid path \<or> \<not> HasPrefix path (bk_expectedDevice b @ ''/'') then (False, [], b)
      else if bk_nextConfig b = - 1 then (False, [], b)
      else
        let b = b\<lparr>bk_nextConfig := bk_nextConfig b + 1\<rparr>;
            (outs, b) = close_held path b
        in (True, outs,
            b\<lparr>bk_configured := go_put path \<lparr>tc_direction = direction, tc_generation = bk_nextConfig b,
                                            tc_codec = codec, tc_qos = qos\<rparr> (bk_configured b),
              bk_acquiring := go_delete path (bk_acquiring b),
              bk_acquired := go_delete path (bk_acquired b),
              bk_pairing := go_delete path (bk_pairing b)\<rparr>))"

text \<open>\<open>endpoint.SetConfiguration\<close>: the checks of the property dictionary, then \<open>configure\<close>.\<close>

definition SetConfiguration :: "(object_path \<Rightarrow> bool) \<Rightarrow> direction \<Rightarrow> object_path \<Rightarrow> properties \<Rightarrow> broker
    \<Rightarrow> (string + unit) \<times> broker_out list \<times> broker" where
  "SetConfiguration isValid direction transport ps b =
     (case check_configuration ps of
        Inl stage \<Rightarrow> (Inl stage, [], b)
      | Inr (codec, qos) \<Rightarrow>
          (case configure isValid transport direction codec qos b of
             (False, outs, b) \<Rightarrow> (Inl ''transport'', outs, b)
           | (True, outs, b) \<Rightarrow> (Inr (), outs, b)))"

definition clear :: "object_path \<Rightarrow> broker \<Rightarrow> broker_out list \<times> broker" where
  "clear path b =
     (let (outs, b) = close_held path b;
          b = b\<lparr>bk_configured := go_delete path (bk_configured b),
                bk_acquiring := go_delete path (bk_acquiring b),
                bk_acquired := go_delete path (bk_acquired b),
                bk_pairing := go_delete path (bk_pairing b)\<rparr>
      in (outs,
          case bk_activeSession b of
            None \<Rightarrow> b
          | Some i \<Rightarrow> if session_uses (the_session b i) path then clearActiveSessionLocked i b else b))"

definition closePendingLocked :: "broker \<Rightarrow> broker_out list \<times> broker" where
  "closePendingLocked b = (map (\<lambda>(_, held). Close_descriptor (pt_fd held)) (bk_pending b), b\<lparr>bk_pending := []\<rparr>)"

section \<open>Pairing\<close>

definition linkedAcquirePlan :: "object_path \<Rightarrow> object_path list \<Rightarrow> (object_path \<times> bool \<times> bool) option" where
  "linkedAcquirePlan path links =
     (if length links = 0 then Some ([], False, True)
      else if length links \<noteq> 1 \<or> links ! 0 = [] \<or> links ! 0 = path then None
      else let peer = links ! 0 in Some (peer, True, path < peer))"

datatype pair_error = Pair_directions_incomplete | Pair_codec | Pair_not_one_CIS | First_unlinked | Second_unlinked

definition validateTransportPair :: "pendingTransport \<Rightarrow> pendingTransport \<Rightarrow> pair_error option" where
  "validateTransportPair first second =
     (if tc_direction (pt_config first) = tc_direction (pt_config second) then Some Pair_directions_incomplete
      else
        let a = tc_codec (pt_config first); b = tc_codec (pt_config second); qa = pt_qos first; qb = pt_qos second in
        if cc_SampleRate a \<noteq> cc_SampleRate b \<or> cc_FrameDuration a \<noteq> cc_FrameDuration b
           \<or> cc_OctetsPerFrame a \<noteq> cc_OctetsPerFrame b
        then Some Pair_codec
        else if tq_CIG qa \<noteq> tq_CIG qb \<or> tq_CIS qa \<noteq> tq_CIS qb \<or> tq_IntervalUS qa \<noteq> tq_IntervalUS qb
           \<or> tq_Framing qa \<noteq> tq_Framing qb \<or> tq_PHY qa \<noteq> tq_PHY qb
        then Some Pair_not_one_CIS
        else if length (pt_links first) > 0 \<and> \<not> containsObjectPath (pt_links first) (pt_path second)
        then Some First_unlinked
        else if length (pt_links second) > 0 \<and> \<not> containsObjectPath (pt_links second) (pt_path first)
        then Some Second_unlinked
        else None)"

definition findPendingPeerLocked :: "pendingTransport \<Rightarrow> broker \<Rightarrow> pendingTransport option \<times> pair_error option" where
  "findPendingPeerLocked current b =
     (case find (\<lambda>(_, candidate). \<not> (pt_path candidate = pt_path current
                  \<or> tc_direction (pt_config candidate) = tc_direction (pt_config current))) (bk_pending b) of
        None \<Rightarrow> (None, None)
      | Some (_, candidate) \<Rightarrow> (Some candidate, validateTransportPair current candidate))"

definition pairCurrentLocked :: "conn \<Rightarrow> pendingTransport \<Rightarrow> pendingTransport \<Rightarrow> broker \<Rightarrow> bool" where
  "pairCurrentLocked conn first second b \<longleftrightarrow>
     bk_connection b = Some conn \<and> go_flag (bk_pairing b) (pt_path first) \<and> go_flag (bk_pairing b) (pt_path second)
     \<and> (case (go_get (bk_configured b) (pt_path first), go_get (bk_configured b) (pt_path second)) of
          (Some firstConfig, Some secondConfig) \<Rightarrow>
            tc_generation firstConfig = tc_generation (pt_config first)
            \<and> tc_generation secondConfig = tc_generation (pt_config second)
        | _ \<Rightarrow> False)"

definition clear_pairing_of :: "pendingTransport \<Rightarrow> broker \<Rightarrow> broker" where
  "clear_pairing_of held b =
     (case go_get (bk_configured b) (pt_path held) of
        None \<Rightarrow> b
      | Some configuration \<Rightarrow>
          if tc_generation configuration = tc_generation (pt_config held)
          then b\<lparr>bk_pairing := go_delete (pt_path held) (bk_pairing b)\<rparr>
          else b)"

definition clearPairingLocked :: "pendingTransport \<Rightarrow> pendingTransport \<Rightarrow> broker \<Rightarrow> broker" where
  "clearPairingLocked first second b = clear_pairing_of second (clear_pairing_of first b)"

definition descriptorForPending :: "pendingTransport \<Rightarrow> uint64 \<Rightarrow> uint64 \<Rightarrow> uint64 \<Rightarrow> bool \<Rightarrow> descriptor" where
  "descriptorForPending transport generation bundleID callToken callCorrelated =
     (let codec = tc_codec (pt_config transport); qos = pt_qos transport in
      \<lparr>d_Direction = tc_direction (pt_config transport), d_Generation = generation, d_BundleID = bundleID,
       d_CallControlToken = callToken, d_CallControlCorrelated = callCorrelated, d_OwnershipTransferred = True,
       d_Linked = True, d_LifecycleOwned = (tc_direction (pt_config transport) = DirectionSink),
       d_SampleRate = of_int (cc_SampleRate codec),
       d_FrameDurationUS = of_int (cc_FrameDuration codec div Microsecond),
       d_OctetsPerFrame = of_int (cc_OctetsPerFrame codec), d_ChannelAllocation = cc_ChannelAllocation codec,
       d_IntervalUS = tq_IntervalUS qos, d_PresentationDelayUS = tq_PresentationDelayUS qos,
       d_ReadMTU = pt_readMTU transport, d_WriteMTU = pt_writeMTU transport, d_LatencyMS = tq_LatencyMS qos,
       d_Framing = tq_Framing qos, d_PHY = tq_PHY qos, d_Retransmissions = tq_Retransmissions qos,
       d_TargetLatency = tq_TargetLatency qos, d_CIG = tq_CIG qos, d_CIS = tq_CIS qos,
       d_Transport = pt_path transport\<rparr>)"

text \<open>\<open>clock\<close> is what \<open>ClockGettime\<close> answers: seconds and nanoseconds, \<open>None\<close> for an error.\<close>

definition nextDescriptorGenerationLocked :: "(int \<times> int) option \<Rightarrow> broker \<Rightarrow> (uint64 \<times> broker) option" where
  "nextDescriptorGenerationLocked clock b =
     (case clock of
        None \<Rightarrow> None
      | Some (sec, nsec) \<Rightarrow>
          if sec < 0 \<or> nsec < 0 then None
          else
            let generation = of_int sec * of_int Second + of_int nsec in
            if generation \<le> bk_lastGen b then
              (if bk_lastGen b = - 1 then None
               else Some (bk_lastGen b + 1, b\<lparr>bk_lastGen := bk_lastGen b + 1\<rparr>))
            else Some (generation, b\<lparr>bk_lastGen := generation\<rparr>))"

section \<open>The report\<close>

record broker_snapshot =
  bs_EndpointsRegistered :: bool
  bs_Advertising :: bool
  bs_Discoverable :: bool
  bs_ExtendedAdvertising :: bool
  bs_BAPAnnouncement :: bool
  bs_CAPAnnouncement :: bool
  bs_TMAPAnnouncement :: bool
  bs_HeadsetAppearance :: bool
  bs_SinkConfigured :: bool
  bs_SourceConfigured :: bool
  bs_SinkAcquired :: bool
  bs_SourceAcquired :: bool
  bs_BidirectionalCIS :: bool
  bs_counters :: "uint64 list"

text \<open>
  \<open>Broker.Snapshot\<close>; \<open>bs_counters\<close> are the counter fields in the order of the type. The loop over the
  configured transports sets flags only, so its order does not matter.
\<close>

definition broker_counters :: "broker \<Rightarrow> uint64 list" where
  "broker_counters b =
     [bk_releaseAttempts b, bk_releaseSuccesses b, bk_releaseErrors b, bk_releaseFallbacks b,
      bk_lifecycleProgress b, bk_lifecycleStale b, bk_lifecycleHUPs b, bk_lifecycleTimeouts b,
      bk_lifecycleStartTimeouts b, bk_lifecycleNormalEnds b, bk_normalReleaseWaits b,
      bk_normalReleaseIdle b, bk_normalReleaseTimeouts b, bk_transportIdleComplete b]"

definition snapshot_configured :: "broker \<Rightarrow> object_path \<times> transportConfig \<Rightarrow> broker_snapshot \<Rightarrow> broker_snapshot" where
  "snapshot_configured b = (\<lambda>(path, configuration) r.
     if tc_direction configuration = DirectionSink then
       r\<lparr>bs_SinkConfigured := True, bs_SinkAcquired := bs_SinkAcquired r \<or> go_flag (bk_acquired b) path\<rparr>
     else if tc_direction configuration = DirectionSource then
       r\<lparr>bs_SourceConfigured := True, bs_SourceAcquired := bs_SourceAcquired r \<or> go_flag (bk_acquired b) path\<rparr>
     else r)"

definition broker_Snapshot :: "broker \<Rightarrow> broker_snapshot" where
  "broker_Snapshot b =
     (let r = \<lparr>bs_EndpointsRegistered = bk_registered b, bs_Advertising = bk_advertising b,
               bs_Discoverable = bk_discoverable b, bs_ExtendedAdvertising = bk_advertising b,
               bs_BAPAnnouncement = bk_advertising b, bs_CAPAnnouncement = bk_advertising b,
               bs_TMAPAnnouncement = bk_advertising b, bs_HeadsetAppearance = bk_advertising b,
               bs_SinkConfigured = False, bs_SourceConfigured = False, bs_SinkAcquired = False,
               bs_SourceAcquired = False, bs_BidirectionalCIS = False, bs_counters = broker_counters b\<rparr>;
          r = fold (snapshot_configured b) (bk_configured b) r
      in r\<lparr>bs_BidirectionalCIS := bs_SinkAcquired r \<and> bs_SourceAcquired r\<rparr>)"

text \<open>A broker as the program starts it.\<close>

definition sample_broker :: broker where
  "sample_broker = the (NewBroker ''hci0'' ''00:11:22:33:44:55'' ''/run/h'' 0)"

end
