(* ===== verification/Broker_Release.thy ===== *)
theory Broker_Release
  imports Broker_State
begin

text \<open>
  Returning transports to BlueZ (the release part of \<open>internal/bluez/broker.go\<close>): single release
  calls with their counters, the bounded retries, the fallback that closes the owning connection,
  and the expiry of a transport that found no partner.

  BlueZ's answers are arguments: \<open>answer k path\<close> tells whether the \<open>Release\<close> call for \<open>path\<close> in attempt
  \<open>k\<close> succeeds, \<open>closes\<close> whether closing the connection does.
\<close>

section \<open>Operations\<close>

definition releaseMediaTransport :: "bool \<Rightarrow> conn option \<Rightarrow> object_path \<Rightarrow> broker \<Rightarrow> bool \<times> broker_out list \<times> broker" where
  "releaseMediaTransport ok conn path b =
     (let b = b\<lparr>bk_releaseAttempts := bk_releaseAttempts b + 1\<rparr>;
          b = (if ok then b\<lparr>bk_releaseSuccesses := bk_releaseSuccesses b + 1\<rparr>
               else b\<lparr>bk_releaseErrors := bk_releaseErrors b + 1\<rparr>)
      in (ok, [Release_transport conn path], b))"

definition fallbackTransportOwner :: "bool \<Rightarrow> conn option \<Rightarrow> broker \<Rightarrow> bool \<times> broker_out list \<times> broker" where
  "fallbackTransportOwner closes conn b =
     (closes, [Close_connection conn], b\<lparr>bk_releaseFallbacks := bk_releaseFallbacks b + 1\<rparr>)"

text \<open>The inner loop over the paths: whether all are released, and the map \<open>succeeded\<close>.\<close>

primrec release_round :: "(object_path \<Rightarrow> bool) \<Rightarrow> conn option \<Rightarrow> object_path list \<Rightarrow> (object_path, bool) gomap \<Rightarrow> broker
    \<Rightarrow> bool \<times> (object_path, bool) gomap \<times> broker_out list \<times> broker" where
  "release_round answer conn [] succeeded b = (True, succeeded, [], b)"
| "release_round answer conn (path # paths) succeeded b =
     (if go_flag succeeded path then release_round answer conn paths succeeded b
      else
        let (ok, outs, b) = releaseMediaTransport (answer path) conn path b;
            succeeded = (if ok then go_put path True succeeded else succeeded);
            (all, succeeded, outs', b) = release_round answer conn paths succeeded b
        in (ok \<and> all, succeeded, outs @ outs', b))"

text \<open>The outer loop with \<open>n\<close> attempts left, the next one being number \<open>k\<close>.\<close>

primrec release_attempts :: "nat \<Rightarrow> (nat \<Rightarrow> object_path \<Rightarrow> bool) \<Rightarrow> bool \<Rightarrow> nat \<Rightarrow> conn option \<Rightarrow> object_path list
    \<Rightarrow> (object_path, bool) gomap \<Rightarrow> broker \<Rightarrow> bool \<times> broker_out list \<times> broker" where
  "release_attempts 0 answer closes k conn paths succeeded b = fallbackTransportOwner closes conn b"
| "release_attempts (Suc n) answer closes k conn paths succeeded b =
     (let (all, succeeded, outs, b) = release_round (answer k) conn paths succeeded b in
      if all then (True, outs, b)
      else
        let (ok, outs', b) = release_attempts n answer closes (Suc k) conn paths succeeded b
        in (ok, outs @ outs', b))"

definition releaseTransportPaths :: "(nat \<Rightarrow> object_path \<Rightarrow> bool) \<Rightarrow> bool \<Rightarrow> conn option \<Rightarrow> object_path list \<Rightarrow> broker
    \<Rightarrow> bool \<times> broker_out list \<times> broker" where
  "releaseTransportPaths answer closes conn paths b =
     release_attempts transportReleaseRetries answer closes 0 conn paths [] b"

definition releaseAcquiredTransport :: "(nat \<Rightarrow> object_path \<Rightarrow> bool) \<Rightarrow> bool \<Rightarrow> conn option \<Rightarrow> object_path \<Rightarrow> int \<Rightarrow> broker
    \<Rightarrow> broker_out list \<times> broker" where
  "releaseAcquiredTransport answer closes conn path fd b =
     (let (_, outs, b) = releaseTransportPaths answer closes conn [path] b in (Close_descriptor fd # outs, b))"

definition releasePendingTransports :: "(nat \<Rightarrow> object_path \<Rightarrow> bool) \<Rightarrow> bool \<Rightarrow> conn option \<Rightarrow> bool
    \<Rightarrow> pendingTransport option list \<Rightarrow> broker \<Rightarrow> broker_out list \<times> broker" where
  "releasePendingTransports answer closes conn closeDescriptors transports b =
     (let closed = concat (map (\<lambda>held. case held of
                     Some h \<Rightarrow> if closeDescriptors then [Close_descriptor (pt_fd h)] else []
                   | None \<Rightarrow> []) transports);
          (_, outs, b) = releaseTransportPaths answer closes conn (pendingReleasePaths transports) b
      in (closed @ outs, b))"

text \<open>\<open>expirePending\<close> after its timer: the critical section, then the release.\<close>

definition expirePending :: "(nat \<Rightarrow> object_path \<Rightarrow> bool) \<Rightarrow> bool \<Rightarrow> object_path \<Rightarrow> uint64 \<Rightarrow> broker
    \<Rightarrow> broker_out list \<times> broker" where
  "expirePending answer closes path generation b =
     (case go_get (bk_pending b) path of
        None \<Rightarrow> ([], b)
      | Some held \<Rightarrow>
          if tc_generation (pt_config held) \<noteq> generation then ([], b)
          else
            let conn = bk_connection b; b = b\<lparr>bk_pending := go_delete path (bk_pending b)\<rparr>
            in releasePendingTransports answer closes conn True [Some held] b)"

section \<open>What the release loop does\<close>

text \<open>The paths no call before attempt \<open>k\<close> has released.\<close>

definition unreleased :: "(nat \<Rightarrow> object_path \<Rightarrow> bool) \<Rightarrow> nat \<Rightarrow> object_path list \<Rightarrow> object_path list" where
  "unreleased answer k paths = filter (\<lambda>p. \<forall>j<k. \<not> answer j p) paths"

definition count_releases :: "nat \<Rightarrow> nat \<Rightarrow> nat \<Rightarrow> broker \<Rightarrow> broker" where
  "count_releases successes errors fallbacks b =
     b\<lparr>bk_releaseAttempts := bk_releaseAttempts b + of_nat (successes + errors),
       bk_releaseSuccesses := bk_releaseSuccesses b + of_nat successes,
       bk_releaseErrors := bk_releaseErrors b + of_nat errors,
       bk_releaseFallbacks := bk_releaseFallbacks b + of_nat fallbacks\<rparr>"

lemma count_releases_zero [simp]: "count_releases 0 0 0 b = b"
  by (simp add: count_releases_def)

lemma count_releases_add [simp]:
  "count_releases s e f (count_releases s' e' f' b) = count_releases (s + s') (e + e') (f + f') b"
  by (simp add: count_releases_def algebra_simps)

lemma releaseMediaTransport_eq:
  "releaseMediaTransport ok conn path b =
     (ok, [Release_transport conn path], count_releases (if ok then 1 else 0) (if ok then 0 else 1) 0 b)"
  by (simp add: releaseMediaTransport_def count_releases_def)

lemma release_round_eq:
  assumes "distinct paths"
  shows "\<exists>succeeded'. release_round answer conn paths succeeded b =
      (list_all answer (filter (\<lambda>p. \<not> go_flag succeeded p) paths), succeeded',
       map (Release_transport conn) (filter (\<lambda>p. \<not> go_flag succeeded p) paths),
       count_releases (length (filter answer (filter (\<lambda>p. \<not> go_flag succeeded p) paths)))
         (length (filter (\<lambda>p. \<not> answer p) (filter (\<lambda>p. \<not> go_flag succeeded p) paths))) 0 b)
    \<and> (\<forall>p. go_flag succeeded' p \<longleftrightarrow> go_flag succeeded p \<or> p \<in> set paths \<and> answer p)"
  using assms
proof (induction paths arbitrary: succeeded b)
  case Nil
  then show ?case by simp
next
  case (Cons path paths)
  show ?case
  proof (cases "go_flag succeeded path")
    case True
    with Cons.IH [of succeeded b] Cons.prems show ?thesis by auto
  next
    case False
    define s1 where "s1 = (if answer path then go_put path True succeeded else succeeded)"
    define b1 where "b1 = count_releases (if answer path then 1 else 0) (if answer path then 0 else 1) 0 b"
    have s1: "go_flag s1 p \<longleftrightarrow> go_flag succeeded p \<or> p = path \<and> answer path" for p
      by (simp add: s1_def gomap_simps)
    define todo where "todo = filter (\<lambda>p. \<not> go_flag succeeded p) paths"
    have same: "filter (\<lambda>p. \<not> go_flag s1 p) paths = todo"
      using Cons.prems by (auto simp: todo_def s1 intro: filter_cong)
    have "distinct paths" using Cons.prems by simp
    from Cons.IH [OF this, of s1 b1, unfolded same] obtain s2 where
      r: "release_round answer conn paths s1 b1 = (list_all answer todo, s2, map (Release_transport conn) todo,
            count_releases (length (filter answer todo)) (length (filter (\<lambda>p. \<not> answer p) todo)) 0 b1)"
      and s2: "\<forall>p. go_flag s2 p \<longleftrightarrow> go_flag s1 p \<or> p \<in> set paths \<and> answer p" by blast
    have "filter (\<lambda>p. \<not> go_flag succeeded p) (path # paths) = path # todo" using False by (simp add: todo_def)
    with False r s2 s1 show ?thesis
      by (simp add: releaseMediaTransport_eq Let_def flip: s1_def b1_def) (auto simp: b1_def)
  qed
qed

lemma unreleased_0 [simp]: "unreleased answer 0 paths = paths"
  by (simp add: unreleased_def)

lemma unreleased_Suc: "unreleased answer (Suc k) paths = filter (\<lambda>p. \<not> answer k p) (unreleased answer k paths)"
  by (auto simp: unreleased_def less_Suc_eq intro: filter_cong)

lemma unreleased_Nil: "unreleased answer k paths = [] \<Longrightarrow> k \<le> j \<Longrightarrow> unreleased answer j paths = []"
  by (induction j) (auto simp: unreleased_Suc le_Suc_eq)

lemma length_unreleased:
  "length (filter (answer k) (unreleased answer k paths)) + length (unreleased answer (Suc k) paths)
   = length (unreleased answer k paths)"
  unfolding unreleased_Suc by (rule sum_length_filter_compl)

lemma length_unreleased_le: "length (unreleased answer (k + n) paths) \<le> length (unreleased answer k paths)"
proof (induction n)
  case (Suc n)
  have "length (unreleased answer (k + Suc n) paths) \<le> length (unreleased answer (k + n) paths)"
    by (simp add: unreleased_Suc)
  with Suc show ?case by (rule order.trans [rotated])
qed simp

text \<open>
  The whole loop from attempt \<open>k\<close> on, once \<open>succeeded\<close> holds exactly what was released before: every
  attempt calls for each path still held, and if some path is left at the end the connection is
  closed.
\<close>

lemma release_attempts_eq:
  assumes "distinct paths" and "\<forall>p \<in> set paths. go_flag succeeded p \<longleftrightarrow> (\<exists>j<k. answer j p)"
    and "n > 0 \<or> unreleased answer k paths \<noteq> []"
  shows "release_attempts n answer closes k conn paths succeeded b =
     (unreleased answer (k + n) paths = [] \<or> closes,
      concat (map (\<lambda>j. map (Release_transport conn) (unreleased answer j paths)) [k..<k + n])
        @ (if unreleased answer (k + n) paths = [] then [] else [Close_connection conn]),
      count_releases (length (unreleased answer k paths) - length (unreleased answer (k + n) paths))
        (sum_list (map (\<lambda>j. length (unreleased answer (Suc j) paths)) [k..<k + n]))
        (if unreleased answer (k + n) paths = [] then 0 else 1) b)"
  using assms(2,3)
proof (induction n arbitrary: k succeeded b)
  case 0
  then show ?case by (simp add: fallbackTransportOwner_def count_releases_def)
next
  case (Suc n)
  let ?u = "\<lambda>j. unreleased answer j paths"
  have todo: "filter (\<lambda>p. \<not> go_flag succeeded p) paths = ?u k"
    unfolding unreleased_def using Suc.prems(1) by (intro filter_cong) auto
  from release_round_eq [OF assms(1), of "answer k" conn succeeded b, unfolded todo] obtain s1 where
    r: "release_round (answer k) conn paths succeeded b = (list_all (answer k) (?u k), s1, map (Release_transport conn) (?u k),
          count_releases (length (filter (answer k) (?u k))) (length (?u (Suc k))) 0 b)"
    and s1: "\<forall>p. go_flag s1 p \<longleftrightarrow> go_flag succeeded p \<or> p \<in> set paths \<and> answer k p"
    unfolding unreleased_Suc by blast
  have all: "list_all (answer k) (?u k) \<longleftrightarrow> ?u (Suc k) = []"
    by (simp add: unreleased_Suc filter_empty_conv list_all_iff)
  have split: "[k..<k + Suc n] = k # [Suc k..<Suc k + n]" by (simp add: upt_conv_Cons)
  note len = length_unreleased [of answer k paths]
  show ?case
  proof (cases "?u (Suc k) = []")
    case True
    then have "?u j = []" if "Suc k \<le> j" for j using that by (rule unreleased_Nil)
    then have nil: "concat (map (\<lambda>j. map (Release_transport conn) (?u j)) [Suc k..<Suc k + n]) = []"
      "sum_list (map (\<lambda>j. length (?u (Suc j))) [Suc k..<Suc k + n]) = 0" "?u (k + Suc n) = []"
      by (auto simp: sum_list_eq_0_iff)
    from True r all len show ?thesis
      unfolding split release_attempts.simps list.map concat.simps sum_list.Cons nil by simp
  next
    case False
    have "\<forall>p \<in> set paths. go_flag s1 p \<longleftrightarrow> (\<exists>j<Suc k. answer j p)"
      using s1 Suc.prems(1) by (auto simp: less_Suc_eq)
    from Suc.IH [OF this] False have ih: "release_attempts n answer closes (Suc k) conn paths s1 b' = 
     (?u (Suc k + n) = [] \<or> closes,
      concat (map (\<lambda>j. map (Release_transport conn) (?u j)) [Suc k..<Suc k + n])
        @ (if ?u (Suc k + n) = [] then [] else [Close_connection conn]),
      count_releases (length (?u (Suc k)) - length (?u (Suc k + n)))
        (sum_list (map (\<lambda>j. length (?u (Suc j))) [Suc k..<Suc k + n]))
        (if ?u (Suc k + n) = [] then 0 else 1) b')" for b' by blast
    have "length (?u (Suc k + n)) \<le> length (?u (Suc k))"
      by (rule length_unreleased_le)
    with False r all ih len show ?thesis
      unfolding split release_attempts.simps by (simp add: add.commute del: upt_Suc)
  qed
qed

lemma releaseTransportPaths_eq:
  assumes "distinct paths"
  shows "releaseTransportPaths answer closes conn paths b =
     (unreleased answer 3 paths = [] \<or> closes,
      map (Release_transport conn) (unreleased answer 0 paths @ unreleased answer 1 paths @ unreleased answer 2 paths)
        @ (if unreleased answer 3 paths = [] then [] else [Close_connection conn]),
      count_releases (length paths - length (unreleased answer 3 paths))
        (length (unreleased answer 1 paths) + length (unreleased answer 2 paths) + length (unreleased answer 3 paths))
        (if unreleased answer 3 paths = [] then 0 else 1) b)"
proof -
  have "[0..<0 + 3] = [0, 1, 2]" by (simp add: upt_rec)
  then show ?thesis
    using release_attempts_eq [OF assms, of "[]" 0 answer 3 closes conn b]
    by (simp add: releaseTransportPaths_def transportReleaseRetries_def numeral_2_eq_2 numeral_3_eq_3 add.assoc)
qed

lemma release_paths_distinct:
  "distinct paths \<Longrightarrow> [] \<notin> set paths \<Longrightarrow> distinct (release_paths held paths) \<and> [] \<notin> set (release_paths held paths)"
proof (induction held arbitrary: paths)
  case (Cons h held)
  define next_paths where "next_paths =
    (if pendingReleasePath h \<noteq> [] \<and> pendingReleasePath h \<notin> set paths then paths @ [pendingReleasePath h] else paths)"
  have "distinct next_paths \<and> [] \<notin> set next_paths" using Cons.prems by (auto simp: next_paths_def)
  then show ?case using Cons.IH [of next_paths] by (simp add: Let_def flip: next_paths_def)
qed simp

lemma pendingReleasePaths_distinct [simp]: "distinct (pendingReleasePaths held)" "[] \<notin> set (pendingReleasePaths held)"
  using release_paths_distinct [of "[]" held] by (auto simp: pendingReleasePaths_def)

section \<open>Properties\<close>

text \<open>
  C21. Releasing transports. Whatever BlueZ answers, each transport is asked for again only while its
  release has failed, at most three times; the owning connection is closed exactly once, at the
  end, if and only if some transport could not be released, and the operation reports success
  exactly when all were released or that close succeeded. The counters record precisely this:
  attempts are the successes and the errors, and nothing else of the broker's state changes.
\<close>

theorem release_bounded_and_counted:
  assumes "distinct paths" and "releaseTransportPaths answer closes conn paths b = (ok, outs, b')"
  shows "(ok \<longleftrightarrow> unreleased answer 3 paths = [] \<or> closes)
    \<and> outs = map (Release_transport conn) paths @ map (Release_transport conn) (unreleased answer 1 paths)
        @ map (Release_transport conn) (unreleased answer 2 paths)
        @ (if unreleased answer 3 paths = [] then [] else [Close_connection conn])
    \<and> b' = count_releases (length paths - length (unreleased answer 3 paths))
        (length (unreleased answer 1 paths) + length (unreleased answer 2 paths) + length (unreleased answer 3 paths))
        (if unreleased answer 3 paths = [] then 0 else 1) b"
  using assms(2) unfolding releaseTransportPaths_eq [OF assms(1)] by auto


theorem release_bounded_and_counted_witness:
  "releaseTransportPaths (\<lambda>k p. k = 1 \<or> p = ''/a'') False (Some 0) [''/a'', ''/b''] sample_broker =
     (True, [Release_transport (Some 0) ''/a'', Release_transport (Some 0) ''/b'', Release_transport (Some 0) ''/b''],
      count_releases 2 1 0 sample_broker)"
proof -
  let ?answer = "\<lambda>k p. k = (1 :: nat) \<or> p = ''/a''"
  let ?r = "releaseTransportPaths ?answer False (Some 0) [''/a'', ''/b''] sample_broker"
  have r: "?r = (fst ?r, fst (snd ?r), snd (snd ?r))" by simp
  have u: "unreleased ?answer 1 [''/a'', ''/b''] = [''/b'']" "unreleased ?answer 2 [''/a'', ''/b''] = []"
    "unreleased ?answer 3 [''/a'', ''/b''] = []"
    by code_simp+
  from release_bounded_and_counted [OF _ r] show ?thesis
    unfolding u by (subst r) (simp add: numeral_2_eq_2)
qed

end
