(* ===== verification/Broker_Invariant.thy ===== *)
theory Broker_Invariant
  imports Broker_Release
begin

text \<open>
  The invariant of the broker's state (\<open>internal/bluez/broker.go\<close>), kept by every critical section:
  what is configured has a supported codec and a generation that was handed out, what is pending is
  recorded under its own path with QoS values of its codec, the active session exists and has not
  been signalled as done, and no generation the handoff has seen is newer than the last one the
  broker made.
\<close>

section \<open>The invariant\<close>

definition codec_ok :: "codec_config \<Rightarrow> bool" where
  "codec_ok codec \<longleftrightarrow> (\<exists>p \<in> set conversationalPresets. \<exists>a. codec = codec_of p a \<and> a \<noteq> 0 \<and> OnesCount32 a = 1)"

definition config_ok :: "transportConfig \<Rightarrow> bool" where
  "config_ok c \<longleftrightarrow> tc_direction c \<in> {DirectionSink, DirectionSource} \<and> codec_ok (tc_codec c)"

definition transport_ok :: "pendingTransport \<Rightarrow> bool" where
  "transport_ok h \<longleftrightarrow> config_ok (pt_config h) \<and> qos_of_codec (tc_codec (pt_config h)) (pt_qos h)
     \<and> tq_CIG (pt_qos h) \<le> 0xef \<and> tq_CIS (pt_qos h) \<le> 0xef"

definition broker_inv :: "broker \<Rightarrow> bool" where
  "broker_inv b \<longleftrightarrow>
     go_wf (bk_configured b) \<and> go_wf (bk_pending b)
     \<and> (\<forall>(p, c) \<in> set (bk_configured b). config_ok c \<and> tc_generation c \<le> bk_nextConfig b)
     \<and> (\<forall>(p, h) \<in> set (bk_pending b). pt_path h = p \<and> transport_ok h)
     \<and> (\<forall>i. bk_activeSession b = Some i \<longrightarrow> i < length (bk_heap b) \<and> \<not> as_lifecycleDone (the_session b i))
     \<and> length (hs_lastGen (bk_handoff b)) = 3
     \<and> hs_lastGen (bk_handoff b) ! 1 \<le> bk_lastGen b \<and> hs_lastGen (bk_handoff b) ! 2 \<le> bk_lastGen b
     \<and> hs_lastBundle (bk_handoff b) \<le> bk_lastGen b"

lemma ParseConfiguration_codec_ok:
  assumes "ParseConfiguration raw = Inr codec"
  shows "codec_ok codec"
proof -
  from assms obtain vs frequency duration frameLength allocation p where
    "parseLTV raw = Inr vs" "go_get vs ltvFrequency = Some frequency" "go_get vs ltvDuration = Some duration"
    "go_get vs ltvFrameLength = Some frameLength" and a: "configured_allocation vs = Inr allocation"
    and p: "find (\<lambda>p. frequency ! 0 = ps_frequencyCode p \<and> duration ! 0 = ps_durationCode p) conversationalPresets = Some p"
    and c: "codec = codec_of p allocation"
    by (auto simp: ParseConfiguration_def Let_def codec_of_def split: sum.splits option.splits if_splits)
  have "OnesCount32 1 = 1" using OnesCount32_single [of 0] by simp
  then have "allocation \<noteq> 0 \<and> OnesCount32 allocation = 1"
    using a by (auto simp: configured_allocation_def Let_def split: option.splits if_splits)
  with p c show ?thesis unfolding codec_ok_def find_Some_iff by force
qed

lemma check_configuration_codec_ok:
  assumes "check_configuration ps = Inr (codec, q)"
  shows "codec_ok codec"
proof -
  have "\<exists>raw. ParseConfiguration raw = Inr codec"
    using assms unfolding check_configuration_def bindE_Inr_iff at_stage_Inr_iff by auto
  then show ?thesis using ParseConfiguration_codec_ok by blast
qed

lemma readTransportDetails_ok:
  assumes "config_ok c" "readTransportDetails answer (tc_codec c) selected = Inr (q, links)"
  shows "qos_of_codec (tc_codec c) q \<and> tq_CIG q \<le> 0xef \<and> tq_CIS q \<le> 0xef"
  using assms(2)
  by (auto simp: readTransportDetails_def bindE_Inr_iff parseFinalTransportQoS_iff split: option.splits)

lemma descriptorForPending_valid:
  assumes "transport_ok h" "g \<noteq> 0" "bundle \<noteq> 0" "correlated \<longleftrightarrow> token \<noteq> 0"
  shows "validateDescriptor (descriptorForPending h g bundle token correlated) \<in> {None, Some Bad_MTU, Some Bad_path}"
proof -
  from assms(1) obtain p a where p: "p \<in> set conversationalPresets" "tc_codec (pt_config h) = codec_of p a" "a \<noteq> 0"
      "OnesCount32 a = 1" and d: "tc_direction (pt_config h) = 1 \<or> tc_direction (pt_config h) = 2"
    by (auto simp: transport_ok_def config_ok_def codec_ok_def)
  let ?d = "descriptorForPending h g bundle token correlated"
  have "preset_matches ?d p"
    by (simp add: preset_matches_def descriptorForPending_def Let_def p(2) codec_of_def)
  then have "list_ex (preset_matches ?d) conversationalPresets" using p(1) by (auto simp: list_ex_iff)
  moreover have "d_IntervalUS ?d = d_FrameDurationUS ?d"
    using assms(1) by (simp add: descriptorForPending_def Let_def transport_ok_def qos_of_codec_def interval_us_def)
  moreover have "d_Direction ?d = 1 \<or> d_Direction ?d = 2" "d_Generation ?d = g" "d_BundleID ?d = bundle"
      "d_OwnershipTransferred ?d" "d_Linked ?d" "d_LifecycleOwned ?d \<longleftrightarrow> d_Direction ?d = 1"
      "d_CallControlCorrelated ?d \<longleftrightarrow> correlated" "d_CallControlToken ?d = token" "d_ChannelAllocation ?d = a"
      "d_Framing ?d = tq_Framing (pt_qos h)" "d_PHY ?d = tq_PHY (pt_qos h)"
      "d_Retransmissions ?d = tq_Retransmissions (pt_qos h)" "d_TargetLatency ?d = tq_TargetLatency (pt_qos h)"
      "d_CIG ?d = tq_CIG (pt_qos h)" "d_CIS ?d = tq_CIS (pt_qos h)" "d_LatencyMS ?d = tq_LatencyMS (pt_qos h)"
      "d_PresentationDelayUS ?d = tq_PresentationDelayUS (pt_qos h)"
    using d p(2) by (simp_all add: descriptorForPending_def Let_def codec_of_def)
  moreover have "tq_Framing (pt_qos h) \<le> 1" "tq_PHY (pt_qos h) AND 2 \<noteq> 0" "tq_Retransmissions (pt_qos h) \<noteq> 0"
      "tq_Retransmissions (pt_qos h) \<le> 13" "1 \<le> tq_TargetLatency (pt_qos h)" "tq_TargetLatency (pt_qos h) \<le> 3"
      "tq_CIG (pt_qos h) \<le> 0xef" "tq_CIS (pt_qos h) \<le> 0xef" "tq_LatencyMS (pt_qos h) \<noteq> 0"
      "tq_LatencyMS (pt_qos h) \<le> 100" "tq_PresentationDelayUS (pt_qos h) \<noteq> 0" "tq_PresentationDelayUS (pt_qos h) \<le> 0xffffff"
    using assms(1) by (simp_all add: transport_ok_def qos_of_codec_def)
  ultimately show ?thesis
    using assms(2-4) p(3,4) by (simp add: validateDescriptor_def not_less [symmetric])
qed

text \<open>The invariant does not look at the other fields.\<close>

lemma broker_inv_frame [simp]:
  "broker_inv (b\<lparr>bk_acquiring := x\<rparr>) \<longleftrightarrow> broker_inv b" "broker_inv (b\<lparr>bk_acquired := x\<rparr>) \<longleftrightarrow> broker_inv b"
  "broker_inv (b\<lparr>bk_pairing := x\<rparr>) \<longleftrightarrow> broker_inv b"
  "broker_inv (count_releases i j k b) \<longleftrightarrow> broker_inv b"
  by (simp_all add: broker_inv_def count_releases_def)

lemma config_okD: "broker_inv b \<Longrightarrow> go_get (bk_configured b) path = Some c \<Longrightarrow> config_ok c"
  by (auto simp: broker_inv_def dest!: map_of_SomeD)

lemma pending_okD: "broker_inv b \<Longrightarrow> go_get (bk_pending b) path = Some h \<Longrightarrow> pt_path h = path \<and> transport_ok h"
  by (auto simp: broker_inv_def dest!: map_of_SomeD)

lemma broker_inv_delete_pending [simp]: "broker_inv b \<Longrightarrow> broker_inv (b\<lparr>bk_pending := go_delete path (bk_pending b)\<rparr>)"
  by (auto simp: broker_inv_def set_go_delete)

lemma broker_inv_put_pending:
  "broker_inv b \<Longrightarrow> transport_ok h \<Longrightarrow> pt_path h = path \<Longrightarrow> broker_inv (b\<lparr>bk_pending := go_put path h (bk_pending b)\<rparr>)"
  using set_go_put [of path h "bk_pending b"] by (auto simp: broker_inv_def)

lemma clearPairingLocked_inv [simp]: "broker_inv (clearPairingLocked a c b) \<longleftrightarrow> broker_inv b"
  by (simp add: clearPairingLocked_def clear_pairing_of_def split: option.split)


lemma broker_inv_set_pending: "broker_inv b \<Longrightarrow> broker_inv (b\<lparr>bk_pending := []\<rparr>)"
  by (simp add: broker_inv_def)

section \<open>The operations keep it\<close>

lemma NewBroker_inv: "NewBroker adapter device socket uid = Some b \<Longrightarrow> broker_inv b"
  by (auto simp: NewBroker_def NewHandoffServer_def SetDisconnectHandler_def broker_inv_def
      split: if_splits option.splits)

lemma close_held_inv:
  assumes "broker_inv b" "close_held path b = (outs, b')"
  shows "broker_inv b' \<and> bk_configured b' = bk_configured b \<and> bk_nextConfig b' = bk_nextConfig b
    \<and> bk_activeSession b' = bk_activeSession b"
  using assms by (auto simp: close_held_def split: option.splits)

lemma broker_inv_configured:
  assumes "broker_inv b" "config_ok c" "bk_nextConfig b < tc_generation c"
  shows "broker_inv (b\<lparr>bk_nextConfig := tc_generation c, bk_configured := go_put path c (bk_configured b)\<rparr>)"
proof -
  have "config_ok c' \<and> tc_generation c' \<le> tc_generation c" if "(p, c') \<in> set (go_put path c (bk_configured b))" for p c'
  proof -
    from that set_go_put [of path c "bk_configured b"] have "c' = c \<or> (p, c') \<in> set (bk_configured b)" by blast
    then show ?thesis using assms by (fastforce simp: broker_inv_def)
  qed
  with assms show ?thesis by (auto simp: broker_inv_def)
qed

lemma configure_inv:
  assumes "broker_inv b" "direction \<in> {DirectionSink, DirectionSource}" "codec_ok codec"
  shows "broker_inv (snd (snd (configure isValid path direction codec qos b)))"
proof (cases "isValid path \<and> HasPrefix path (bk_expectedDevice b @ ''/'') \<and> bk_nextConfig b \<noteq> - 1")
  case False
  with assms show ?thesis by (auto simp: configure_def)
next
  case True
  let ?c = "\<lparr>tc_direction = direction, tc_generation = bk_nextConfig b + 1, tc_codec = codec, tc_qos = qos\<rparr>"
  obtain outs b1 where h: "close_held path b = (outs, b1)" by (metis surj_pair)
  from close_held_inv [OF assms(1) h] have b1: "broker_inv b1" "bk_nextConfig b1 = bk_nextConfig b" by simp_all
  have "close_held path (b\<lparr>bk_nextConfig := bk_nextConfig b + 1\<rparr>) = (outs, b1\<lparr>bk_nextConfig := bk_nextConfig b + 1\<rparr>)"
    using h by (auto simp: close_held_def split: option.splits)
  moreover have "broker_inv (b1\<lparr>bk_nextConfig := tc_generation ?c, bk_configured := go_put path ?c (bk_configured b1)\<rparr>)"
    using True assms b1 by (intro broker_inv_configured) (simp_all add: config_ok_def word_succ_greater)
  ultimately show ?thesis using True by (simp add: configure_def)
qed

lemma SetConfiguration_inv:
  assumes "broker_inv b" "direction \<in> {DirectionSink, DirectionSource}"
  shows "broker_inv (snd (snd (SetConfiguration isValid direction transport ps b)))"
proof (cases "check_configuration ps")
  case (Inr r)
  obtain codec q where r: "r = (codec, q)" by (metis surj_pair)
  obtain ok outs b' where c: "configure isValid transport direction codec q b = (ok, outs, b')" by (metis surj_pair)
  have "codec_ok codec" using Inr r by (simp add: check_configuration_codec_ok)
  from configure_inv [OF assms this, of isValid transport q] c show ?thesis
    by (cases ok) (simp_all add: SetConfiguration_def Inr r)
qed (use assms in \<open>simp add: SetConfiguration_def\<close>)

lemma clearActiveSessionLocked_inv: "broker_inv b \<Longrightarrow> broker_inv (clearActiveSessionLocked i b)"
  by (simp add: clearActiveSessionLocked_def signalActiveSessionDone_def update_session_def Let_def broker_inv_def)

lemma broker_inv_delete_configured:
  "broker_inv b \<Longrightarrow> broker_inv (b\<lparr>bk_configured := go_delete path (bk_configured b)\<rparr>)"
  by (auto simp: broker_inv_def set_go_delete)

lemma clear_inv: "broker_inv b \<Longrightarrow> broker_inv (snd (clear path b))"
proof -
  assume inv: "broker_inv b"
  obtain outs b1 where h: "close_held path b = (outs, b1)" by (metis surj_pair)
  from close_held_inv [OF inv h] have "broker_inv (b1\<lparr>bk_configured := go_delete path (bk_configured b1)\<rparr>)"
    by (blast intro: broker_inv_delete_configured)
  with h show ?thesis
    by (auto simp: clear_def Let_def intro!: clearActiveSessionLocked_inv split: option.split)
qed

lemma releaseTransportPaths_inv:
  "distinct paths \<Longrightarrow> broker_inv (snd (snd (releaseTransportPaths answer closes conn paths b))) \<longleftrightarrow> broker_inv b"
  by (simp add: releaseTransportPaths_eq)

lemma release_inv [simp]:
  "broker_inv (snd (releaseAcquiredTransport answer closes conn path fd b)) \<longleftrightarrow> broker_inv b"
  "broker_inv (snd (releasePendingTransports answer closes conn cd transports b)) \<longleftrightarrow> broker_inv b"
  by (simp_all add: releaseAcquiredTransport_def releasePendingTransports_def releaseTransportPaths_eq)

lemma expirePending_inv: "broker_inv b \<Longrightarrow> broker_inv (snd (expirePending answer closes path generation b))"
  by (simp add: expirePending_def Let_def split: option.split)

end
