(* ===== verification/Broker_Acquire.thy ===== *)
theory Broker_Acquire
  imports Broker_Invariant "HOL-Library.Multiset"
begin

text \<open>
  Acquiring a pair of transports and handing it over (\<open>acquire\<close> of \<open>internal/bluez/broker.go\<close>).

  The function holds the broker's mutex in several short sections with D-Bus calls between them.
  Each section is a definition of its own, and \<open>acquire\<close> composes them in the order of the code.
  What the rest of the program does to the state in between is the argument \<open>other\<close>: the state after
  section number \<open>k\<close> is handed to \<open>other k\<close>, and the theorems hold for every such function (keeping
  the invariant, where they need it). BlueZ's and the system's answers are the fields of \<open>answers\<close>.
\<close>

section \<open>Waiting for a call token\<close>

text \<open>
  \<open>clock i\<close> is the time read at the \<open>i\<close>-th look at the clock, \<open>provider i\<close> the answer of the \<open>i\<close>-th call
  of the provider. Not returning is \<open>None\<close>.
\<close>

partial_function (option) wait_poll :: "(nat \<Rightarrow> instant) \<Rightarrow> (nat \<Rightarrow> uint64 \<times> bool) option \<Rightarrow> duration \<Rightarrow> nat
    \<Rightarrow> (uint64 \<times> bool) option" where
  "wait_poll clock provider timeout i =
     (let token = (case provider of None \<Rightarrow> 0 | Some p \<Rightarrow> if snd (p i) then fst (p i) else 0) in
      if token \<noteq> 0 then Some (token, True)
      else if timeout \<le> 0 \<or> \<not> clock (Suc i) < clock 0 + timeout then Some (0, False)
      else wait_poll clock provider timeout (Suc i))"

declare wait_poll.simps [code]

definition waitForCallToken :: "(nat \<Rightarrow> instant) \<Rightarrow> (nat \<Rightarrow> uint64 \<times> bool) option \<Rightarrow> duration \<Rightarrow> (uint64 \<times> bool) option" where
  "waitForCallToken clock provider timeout = wait_poll clock provider timeout 0"

section \<open>The sections of acquire\<close>

definition acquire_blocked :: "broker \<Rightarrow> object_path \<Rightarrow> bool" where
  "acquire_blocked b path \<longleftrightarrow>
     go_flag (bk_acquiring b) path \<or> go_flag (bk_acquired b) path \<or> go_flag (bk_pairing b) path"

definition acquire_ready :: "object_path \<Rightarrow> broker \<Rightarrow> (transportConfig \<times> conn) option" where
  "acquire_ready path b =
     (case (go_get (bk_configured b) path, bk_connection b) of
        (Some configuration, Some conn) \<Rightarrow>
          if acquire_blocked b path then None else Some (configuration, conn)
      | _ \<Rightarrow> None)"

definition acquire_reserve :: "object_path \<Rightarrow> object_path option \<Rightarrow> broker
    \<Rightarrow> (transportConfig \<times> conn \<times> transportConfig option) option \<times> broker" where
  "acquire_reserve path peer b =
     (case acquire_ready path b of
        None \<Rightarrow> (None, b)
      | Some (configuration, conn) \<Rightarrow>
          (case peer of
             None \<Rightarrow> (Some (configuration, conn, None), b\<lparr>bk_acquiring := go_put path True (bk_acquiring b)\<rparr>)
           | Some peerPath \<Rightarrow>
               (case go_get (bk_configured b) peerPath of
                  None \<Rightarrow> (None, b)
                | Some peerConfiguration \<Rightarrow>
                    if acquire_blocked b peerPath then (None, b)
                    else (Some (configuration, conn, Some peerConfiguration),
                          b\<lparr>bk_acquiring := go_put path True (go_put peerPath True (bk_acquiring b))\<rparr>))))"

text \<open>The deferred end of the reservation.\<close>

definition acquire_unreserve :: "object_path \<Rightarrow> object_path option \<Rightarrow> broker \<Rightarrow> broker" where
  "acquire_unreserve path peer b =
     (let b = b\<lparr>bk_acquiring := go_delete path (bk_acquiring b)\<rparr> in
      case peer of None \<Rightarrow> b | Some peerPath \<Rightarrow> b\<lparr>bk_acquiring := go_delete peerPath (bk_acquiring b)\<rparr>)"

definition still_configured :: "pendingTransport \<Rightarrow> broker \<Rightarrow> bool" where
  "still_configured held b =
     (case go_get (bk_configured b) (pt_path held) of
        None \<Rightarrow> False
      | Some current \<Rightarrow> tc_generation current = tc_generation (pt_config held))"

datatype hold_result =
    Hold_rejected
  | Hold_invalid_pair "pendingTransport option"
  | Hold_waiting
  | Hold_pair pendingTransport pendingTransport

text \<open>Putting the acquired transport, and its linked peer, among the pending ones and looking for a partner.\<close>

definition acquire_match :: "pendingTransport \<Rightarrow> broker \<Rightarrow> hold_result \<times> broker" where
  "acquire_match held b =
     (case findPendingPeerLocked held b of
        (peer, Some err) \<Rightarrow>
          (Hold_invalid_pair peer,
           b\<lparr>bk_pending := (case peer of None \<Rightarrow> id | Some p \<Rightarrow> go_delete (pt_path p)) (go_delete (pt_path held) (bk_pending b))\<rparr>)
      | (None, None) \<Rightarrow> (Hold_waiting, b)
      | (Some peer, None) \<Rightarrow>
          let (sink, source) = (if tc_direction (pt_config held) \<noteq> DirectionSink then (peer, held) else (held, peer)) in
          (Hold_pair sink source,
           b\<lparr>bk_pending := go_delete (pt_path peer) (go_delete (pt_path held) (bk_pending b)),
             bk_pairing := go_put (pt_path source) True (go_put (pt_path sink) True (bk_pairing b))\<rparr>))"

definition acquire_hold :: "pendingTransport \<Rightarrow> pendingTransport option \<Rightarrow> broker \<Rightarrow> hold_result \<times> broker" where
  "acquire_hold held linkedPeer b =
     (if \<not> still_configured held b then (Hold_rejected, b)
      else if (case linkedPeer of None \<Rightarrow> False | Some p \<Rightarrow> \<not> still_configured p b) then (Hold_rejected, b)
      else if go_get (bk_pending b) (pt_path held) \<noteq> None then (Hold_rejected, b)
      else
        let b = b\<lparr>bk_pending := go_put (pt_path held) held (bk_pending b)\<rparr> in
        case linkedPeer of
          None \<Rightarrow> acquire_match held b
        | Some p \<Rightarrow>
            if go_get (bk_pending b) (pt_path p) \<noteq> None
            then (Hold_rejected, b\<lparr>bk_pending := go_delete (pt_path held) (bk_pending b)\<rparr>)
            else acquire_match held (b\<lparr>bk_pending := go_put (pt_path p) p (bk_pending b)\<rparr>))"

text \<open>
  The critical section that publishes. \<open>Publish_returned\<close> are the cases in which the pair goes back
  to BlueZ with its descriptors closed by the release, \<open>Publish_failed\<close> the refusal of the handoff.
\<close>

record answers =
  an_links :: "variant reply"
  an_acquired :: "(int \<times> uint16 \<times> uint16) reply"
  an_details :: "properties reply"
  an_peer_details :: "properties reply"
  an_duplicate :: "int option"
  an_release :: "nat \<Rightarrow> object_path \<Rightarrow> bool"
  an_close :: bool
  an_clock :: "nat \<Rightarrow> instant"
  an_provider :: "nat \<Rightarrow> uint64 \<times> bool"
  an_sink_clock :: "(int \<times> int) option"
  an_source_clock :: "(int \<times> int) option"
  an_send :: "bytes \<Rightarrow> int list \<Rightarrow> nat option"
  an_socketpair :: "(fd \<times> fd) option"
  an_now :: instant

datatype publish_result = Publish_returned | Publish_failed | Published session

definition acquire_publish :: "answers \<Rightarrow> conn \<Rightarrow> pendingTransport \<Rightarrow> pendingTransport \<Rightarrow> uint64 \<Rightarrow> bool \<Rightarrow> broker
    \<Rightarrow> publish_result \<times> broker_out list \<times> broker" where
  "acquire_publish an conn sink source callToken callCorrelated b =
     (if \<not> pairCurrentLocked conn sink source b then (Publish_returned, [], clearPairingLocked sink source b)
      else
        case nextDescriptorGenerationLocked (an_sink_clock an) b of
          None \<Rightarrow> (Publish_returned, [], clearPairingLocked sink source b)
        | Some (sinkGeneration, b) \<Rightarrow>
            (case nextDescriptorGenerationLocked (an_source_clock an) b of
               None \<Rightarrow> (Publish_returned, [], clearPairingLocked sink source b)
             | Some (sourceGeneration, b) \<Rightarrow>
                 let bundleID = sinkGeneration;
                     sinkDescriptor = descriptorForPending sink sinkGeneration bundleID callToken callCorrelated;
                     sourceDescriptor = descriptorForPending source sourceGeneration bundleID callToken callCorrelated;
                     (published, houts, handoff) = PublishPair (an_send an) (an_socketpair an) (pt_fd sink)
                        sinkDescriptor (pt_fd source) sourceDescriptor (bk_handoff b);
                     b = b\<lparr>bk_handoff := handoff\<rparr>;
                     outs = map Handoff_out houts
                 in (case published of
                       Inl _ \<Rightarrow> (Publish_failed, outs, clearPairingLocked sink source b)
                     | Inr lifecycleFD \<Rightarrow>
                         let session = length (bk_heap b);
                             b = b\<lparr>bk_acquired := go_put (pt_path source) True (go_put (pt_path sink) True (bk_acquired b)),
                                   bk_heap := bk_heap b @ [activeSessionForHandoff conn sink source
                                      sinkDescriptor sourceDescriptor lifecycleFD (an_now an)],
                                   bk_activeSession := Some session\<rparr>
                         in (Published session, outs, clearPairingLocked sink source b))))"

text \<open>Correlation with a call, publication and what follows, for a pair that was found.\<close>

definition acquire_pair :: "answers \<Rightarrow> (nat \<Rightarrow> broker \<Rightarrow> broker) \<Rightarrow> conn \<Rightarrow> pendingTransport \<Rightarrow> pendingTransport \<Rightarrow> broker
    \<Rightarrow> broker_out list \<times> broker" where
  "acquire_pair an other conn sink source b =
     (let provider = (if bk_hasProvider b then Some (an_provider an) else None);
          timeout = (if bk_requireToken b then callCorrelationTimeout else 0)
      in case waitForCallToken (an_clock an) provider timeout of
           None \<Rightarrow> ([], b)
         | Some (callToken, callCorrelated) \<Rightarrow>
             if bk_requireToken b \<and> \<not> callCorrelated then
               releasePendingTransports (an_release an) (an_close an) (Some conn) True [Some sink, Some source]
                 (clearPairingLocked sink source (other 4 b))
             else
               let (result, outs, b) = acquire_publish an conn sink source callToken callCorrelated (other 4 b) in
               (case result of
                  Publish_returned \<Rightarrow>
                    releasePendingTransports (an_release an) (an_close an) (Some conn) True [Some sink, Some source] b
                | Publish_failed \<Rightarrow>
                    let (outs', b) = releasePendingTransports (an_release an) (an_close an) (Some conn) False
                          [Some sink, Some source] b
                    in (outs @ [Close_descriptor (pt_fd sink), Close_descriptor (pt_fd source)] @ outs', b)
                | Published session \<Rightarrow>
                    (outs @ [Close_descriptor (pt_fd sink), Close_descriptor (pt_fd source), Start_watch session], b)))"

text \<open>From the acquired file descriptor on.\<close>

definition acquire_found :: "answers \<Rightarrow> (nat \<Rightarrow> broker \<Rightarrow> broker) \<Rightarrow> conn \<Rightarrow> pendingTransport \<Rightarrow> pendingTransport option
    \<Rightarrow> broker \<Rightarrow> broker_out list \<times> broker" where
  "acquire_found an other conn held linkedPeer b =
     (let (result, b) = acquire_hold held linkedPeer b;
          reject = releaseAcquiredTransport (an_release an) (an_close an) (Some conn) (pt_path held) (pt_fd held)
      in case result of
           Hold_rejected \<Rightarrow>
             (let (outs, b) = reject b in
              ((case linkedPeer of None \<Rightarrow> [] | Some p \<Rightarrow> [Close_descriptor (pt_fd p)]) @ outs, b))
         | Hold_invalid_pair peer \<Rightarrow>
             releasePendingTransports (an_release an) (an_close an) (Some conn) True [Some held, peer] b
         | Hold_waiting \<Rightarrow> ([Start_expiry (pt_path held) (tc_generation (pt_config held))], b)
         | Hold_pair sink source \<Rightarrow> acquire_pair an other conn sink source (other 3 b))"

text \<open>The linked peer, once the primary transport is acquired and checked.\<close>

definition acquire_peer :: "answers \<Rightarrow> object_path \<Rightarrow> object_path \<Rightarrow> transportConfig \<Rightarrow> uint16 \<Rightarrow> uint16
    \<Rightarrow> pendingTransport option" where
  "acquire_peer an path peerPath peerConfiguration readMTU writeMTU =
     (case readTransportDetails (an_peer_details an) (tc_codec peerConfiguration) (tc_qos peerConfiguration) of
        Inl _ \<Rightarrow> None
      | Inr (peerQoS, peerLinks) \<Rightarrow>
          if \<not> containsObjectPath peerLinks path then None
          else
            (case an_duplicate an of
               None \<Rightarrow> None
             | Some peerFD \<Rightarrow>
                 Some \<lparr>pt_path = peerPath, pt_release = path, pt_config = peerConfiguration, pt_qos = peerQoS,
                       pt_links = peerLinks, pt_fd = peerFD, pt_readMTU = readMTU, pt_writeMTU = writeMTU\<rparr>))"

definition acquire_transport :: "answers \<Rightarrow> (nat \<Rightarrow> broker \<Rightarrow> broker) \<Rightarrow> object_path \<Rightarrow> object_path option
    \<Rightarrow> transportConfig \<Rightarrow> conn \<Rightarrow> transportConfig option \<Rightarrow> broker \<Rightarrow> broker_out list \<times> broker" where
  "acquire_transport an other path peer configuration conn peerConfiguration b =
     (case an_acquired an of
        Reply (rawFD, readMTU, writeMTU) \<Rightarrow>
          (let reject = releaseAcquiredTransport (an_release an) (an_close an) (Some conn) path rawFD in
           case readTransportDetails (an_details an) (tc_codec configuration) (tc_qos configuration) of
             Inl _ \<Rightarrow> reject b
           | Inr (finalQoS, links) \<Rightarrow>
               let held = \<lparr>pt_path = path, pt_release = path, pt_config = configuration, pt_qos = finalQoS,
                           pt_links = links, pt_fd = rawFD, pt_readMTU = readMTU, pt_writeMTU = writeMTU\<rparr>
               in (case (peer, peerConfiguration) of
                     (Some peerPath, Some peerConfig) \<Rightarrow>
                       if \<not> containsObjectPath links peerPath then reject b
                       else
                         (case acquire_peer an path peerPath peerConfig readMTU writeMTU of
                            None \<Rightarrow> reject b
                          | Some linkedPeer \<Rightarrow> acquire_found an other conn held (Some linkedPeer) b)
                   | _ \<Rightarrow> acquire_found an other conn held None b))
      | _ \<Rightarrow> ([], b))"

text \<open>The reservation, the acquisition under it and its deferred end.\<close>

definition acquire_reserved :: "answers \<Rightarrow> (nat \<Rightarrow> broker \<Rightarrow> broker) \<Rightarrow> object_path \<Rightarrow> object_path option \<Rightarrow> broker
    \<Rightarrow> broker_out list \<times> broker" where
  "acquire_reserved an other path peer b =
     (case acquire_reserve path peer b of
        (None, b) \<Rightarrow> ([], b)
      | (Some (configuration, conn, peerConfiguration), b) \<Rightarrow>
          let (outs, b) = acquire_transport an other path peer configuration conn peerConfiguration (other 2 b)
          in (outs, acquire_unreserve path peer (other 5 b)))"

definition acquire :: "answers \<Rightarrow> (nat \<Rightarrow> broker \<Rightarrow> broker) \<Rightarrow> object_path \<Rightarrow> broker \<Rightarrow> broker_out list \<times> broker" where
  "acquire an other path b =
     (case acquire_ready path b of
        None \<Rightarrow> ([], b)
      | Some _ \<Rightarrow>
          (case readTransportLinks (an_links an) of
             None \<Rightarrow> ([], b)
           | Some links \<Rightarrow>
               (case linkedAcquirePlan path links of
                  None \<Rightarrow> ([], b)
                | Some (peerPath, linked, leader) \<Rightarrow>
                    if linked \<and> \<not> leader then ([], b)
                    else acquire_reserved an other path (if linked then Some peerPath else None) (other 1 b))))"

section \<open>Waiting ends\<close>

lemma wait_poll_token: "wait_poll clock provider timeout i = Some r \<Longrightarrow> snd r \<longleftrightarrow> fst r \<noteq> 0"
  by (rule wait_poll.raw_induct [where P = "\<lambda>_ _ _ _ r. snd r \<longleftrightarrow> fst r \<noteq> 0", rotated], assumption)
     (auto simp: Let_def split: if_splits)

lemma waitForCallToken_token: "waitForCallToken clock provider timeout = Some (token, correlated) \<Longrightarrow> correlated \<longleftrightarrow> token \<noteq> 0"
  using wait_poll_token by (fastforce simp: waitForCallToken_def)

text \<open>The loop sleeps between two looks at the clock, which is monotonic.\<close>

definition ticking :: "(nat \<Rightarrow> instant) \<Rightarrow> bool" where
  "ticking clock \<longleftrightarrow> (\<forall>i. clock i + callCorrelationPoll \<le> clock (Suc i))"

lemma late_enough:
  fixes clock :: "nat \<Rightarrow> instant"
  assumes "0 < pause" "\<And>i. clock i + pause \<le> clock (Suc i)"
  shows "\<exists>n \<ge> i. clock 0 + timeout \<le> clock n"
proof -
  have le: "clock 0 + int n * pause \<le> clock n" for n
  proof (induction n)
    case (Suc n)
    with assms(2) [of n] show ?case by (simp add: algebra_simps)
  qed simp
  have "timeout \<le> int (max i (nat timeout)) * pause"
    using assms(1) mult_left_mono [of 1 pause "int (max i (nat timeout))"] by auto
  with le [of "max i (nat timeout)"] show ?thesis by (intro exI [of _ "max i (nat timeout)"]) auto
qed

lemma wait_poll_returns:
  assumes "ticking clock"
  shows "\<exists>r. wait_poll clock provider timeout i = Some r"
proof -
  have "0 < callCorrelationPoll" by (simp add: callCorrelationPoll_def)
  with assms late_enough obtain n where n: "Suc i \<le> n" "clock 0 + timeout \<le> clock n" unfolding ticking_def by blast
  then obtain m where m: "n = Suc m" "i \<le> m" by (cases n) auto
  show ?thesis
  proof (rule polling_returns [OF _ _ m(2)])
    show "wait_poll clock provider timeout j = wait_poll clock provider timeout (Suc j)
        \<or> (\<exists>r. wait_poll clock provider timeout j = Some r)" for j
      unfolding wait_poll.simps [of clock provider timeout j] by (auto simp: Let_def)
    show "\<exists>r. wait_poll clock provider timeout m = Some r"
      using n(2) m(1) by (subst wait_poll.simps) (auto simp: Let_def)
  qed
qed

section \<open>Publishing a pair\<close>

lemma nextDescriptorGeneration_Some:
  assumes "nextDescriptorGenerationLocked clock b = Some (g, b')"
  shows "bk_lastGen b < g \<and> b' = b\<lparr>bk_lastGen := g\<rparr>"
  using assms
  by (auto simp: nextDescriptorGenerationLocked_def Let_def word_succ_greater split: option.splits if_splits)

definition pair_ok :: "pendingTransport \<Rightarrow> pendingTransport \<Rightarrow> bool" where
  "pair_ok sink source \<longleftrightarrow> transport_ok sink \<and> transport_ok source
     \<and> tc_direction (pt_config sink) = DirectionSink \<and> tc_direction (pt_config source) = DirectionSource
     \<and> validateTransportPair sink source = None"

lemma validateTransportPair_sym: "validateTransportPair a b = None \<longleftrightarrow> validateTransportPair b a = None"
  by (auto simp: validateTransportPair_def Let_def split: if_splits)

lemma pair_descriptors:
  assumes "pair_ok sink source"
  shows "validateDescriptorPair (owned_sink (descriptorForPending sink g bundle token correlated))
           (owned_source (descriptorForPending source g' bundle token correlated)) = None"
    and "owned_sink (descriptorForPending sink g bundle token correlated) = descriptorForPending sink g bundle token correlated"
    and "owned_source (descriptorForPending source g' bundle token correlated) = descriptorForPending source g' bundle token correlated"
proof -
  have v: "cc_SampleRate (tc_codec (pt_config sink)) = cc_SampleRate (tc_codec (pt_config source))"
    "cc_FrameDuration (tc_codec (pt_config sink)) = cc_FrameDuration (tc_codec (pt_config source))"
    "cc_OctetsPerFrame (tc_codec (pt_config sink)) = cc_OctetsPerFrame (tc_codec (pt_config source))"
    "tq_CIG (pt_qos sink) = tq_CIG (pt_qos source)" "tq_CIS (pt_qos sink) = tq_CIS (pt_qos source)"
    "tq_IntervalUS (pt_qos sink) = tq_IntervalUS (pt_qos source)" "tq_Framing (pt_qos sink) = tq_Framing (pt_qos source)"
    "tq_PHY (pt_qos sink) = tq_PHY (pt_qos source)"
    using assms by (auto simp: pair_ok_def validateTransportPair_def Let_def split: if_splits)
  with assms show "validateDescriptorPair (owned_sink (descriptorForPending sink g bundle token correlated))
           (owned_source (descriptorForPending source g' bundle token correlated)) = None"
    by (simp add: validateDescriptorPair_def owned_sink_def owned_source_def descriptorForPending_def Let_def pair_ok_def)
  from assms show "owned_sink (descriptorForPending sink g bundle token correlated) = descriptorForPending sink g bundle token correlated"
    "owned_source (descriptorForPending source g' bundle token correlated) = descriptorForPending source g' bundle token correlated"
    by (simp_all add: owned_sink_def owned_source_def descriptorForPending_def Let_def pair_ok_def)
qed

text \<open>The reasons for which the handoff can still refuse a pair the broker has checked.\<close>

definition refusals :: "handoff_error set" where
  "refusals = {Bad_MTU, Bad_path, Descriptor_fds, Socketpair_failed, Peer_not_connected, Send_error, Short_send}"

lemma PublishPair_refusal:
  assumes pair: "pair_ok sink source" and "g \<noteq> 0" "g' \<noteq> 0" "bundle \<noteq> 0" "correlated \<longleftrightarrow> token \<noteq> 0"
    and fresh: "fresh_pair (descriptorForPending sink g bundle token correlated) (descriptorForPending source g' bundle token correlated) s"
    and "PublishPair send sp fd1 (descriptorForPending sink g bundle token correlated) fd2
           (descriptorForPending source g' bundle token correlated) s = (Inl e, outs, s')"
  shows "e \<in> refusals"
proof -
  let ?a = "descriptorForPending sink g bundle token correlated" and ?b = "descriptorForPending source g' bundle token correlated"
  note d = pair_descriptors(1) [OF pair, of g "bundle" token correlated g']
    pair_descriptors(2,3) [OF pair]
  from pair have ok: "transport_ok sink" "transport_ok source" by (simp_all add: pair_ok_def)
  note v = descriptorForPending_valid [OF ok(1) assms(2,4,5)] descriptorForPending_valid [OF ok(2) assms(3,4,5)]
  have locked: "e \<in> {Peer_not_connected, Send_error, Short_send, Descriptor_fds}"
    if "publish_locked send fd1 ?a p fd2 ?b q r s = (Some e, o1, s1)" for p q r o1 s1
    using that fresh
    by (auto simp: publish_locked_def fresh_pair_def sendDescriptorLocked_def not_less split: if_splits option.splits)
  show ?thesis
    using assms(7) v d(1) locked
    unfolding PublishPair_def Let_def owned_sink_def [symmetric] owned_source_def [symmetric] d
    by (auto simp: encodeDescriptor_def Let_def refusals_def split: option.splits if_splits prod.splits)
qed


text \<open>What the handoff asks of a transport beyond what the broker has checked itself.\<close>

definition transferable :: "pendingTransport \<Rightarrow> bool" where
  "transferable h \<longleftrightarrow> pt_readMTU h \<le> 4096 \<and> pt_writeMTU h \<le> 4096
     \<and> of_int (cc_OctetsPerFrame (tc_codec (pt_config h)))
         \<le> (if tc_direction (pt_config h) = DirectionSink then pt_readMTU h else pt_writeMTU h)
     \<and> HasPrefix (pt_path h) ''/'' \<and> length (pt_path h) \<le> maximumTransport \<and> CHR 0x00 \<notin> set (pt_path h)"

lemma transferable_valid:
  assumes "transport_ok h" "transferable h" "g \<noteq> 0" "bundle \<noteq> 0" "correlated \<longleftrightarrow> token \<noteq> 0"
  shows "validateDescriptor (descriptorForPending h g bundle token correlated) = None"
proof -
  let ?d = "descriptorForPending h g bundle token correlated"
  have d: "d_ReadMTU ?d = pt_readMTU h" "d_WriteMTU ?d = pt_writeMTU h" "d_Direction ?d = tc_direction (pt_config h)"
    "d_OctetsPerFrame ?d = of_int (cc_OctetsPerFrame (tc_codec (pt_config h)))" "d_Transport ?d = pt_path h"
    by (simp_all add: descriptorForPending_def Let_def)
  have "tc_direction (pt_config h) \<in> {DirectionSink, DirectionSource}" using assms(1) by (simp add: transport_ok_def config_ok_def)
  then have mtu: "\<not> (d_ReadMTU ?d > 4096 \<or> d_WriteMTU ?d > 4096
      \<or> (d_Direction ?d = DirectionSink \<and> d_ReadMTU ?d < d_OctetsPerFrame ?d)
      \<or> (d_Direction ?d = DirectionSource \<and> d_WriteMTU ?d < d_OctetsPerFrame ?d))"
    using assms(2) unfolding d by (auto simp: transferable_def not_less)
  have path: "\<not> (length (d_Transport ?d) = 0 \<or> length (d_Transport ?d) > maximumTransport
      \<or> d_Transport ?d ! 0 \<noteq> CHR ''/'' \<or> CHR 0x00 \<in> set (d_Transport ?d))"
    using assms(2) unfolding d by (cases "pt_path h") (auto simp: transferable_def HasPrefix_def not_less)
  have "validateDescriptor ?d \<noteq> Some Bad_MTU" "validateDescriptor ?d \<noteq> Some Bad_path"
    unfolding validateDescriptor_def if_not_P [OF mtu] if_not_P [OF path] by simp_all
  with descriptorForPending_valid [OF assms(1,3,4,5)] show ?thesis by simp
qed

lemma PublishPair_progress:
  assumes pair: "pair_ok sink source" and tr: "transferable sink" "transferable source"
    and nz: "g \<noteq> 0" "g' \<noteq> 0" "bundle \<noteq> 0" "correlated \<longleftrightarrow> token \<noteq> 0"
    and fresh: "fresh_pair (descriptorForPending sink g bundle token correlated) (descriptorForPending source g' bundle token correlated) s"
    and env: "0 \<le> fd1" "0 \<le> fd2" "fd1 \<noteq> fd2" "sp = Some (l, r)" "hs_clientFD s = Some client" "\<And>p fds. send p fds = Some (length p)"
  shows "\<exists>outs s'. PublishPair send sp fd1 (descriptorForPending sink g bundle token correlated) fd2
           (descriptorForPending source g' bundle token correlated) s = (Inr l, outs, s')"
proof -
  let ?a = "descriptorForPending sink g bundle token correlated" and ?b = "descriptorForPending source g' bundle token correlated"
  note d = pair_descriptors(1) [OF pair, of g "bundle" token correlated g'] pair_descriptors(2,3) [OF pair]
  have ok: "transport_ok sink" "transport_ok source" using pair by (simp_all add: pair_ok_def)
  note v = transferable_valid [OF ok(1) tr(1) nz(1,3,4)] transferable_valid [OF ok(2) tr(2) nz(2,3,4)]
  obtain p q where "encodeDescriptor ?a = Inr p" "encodeDescriptor ?b = Inr q"
    by (simp add: encodeDescriptor_def v Let_def)
  moreover have "\<exists>outs s'. publish_locked send fd1 ?a p fd2 ?b q r s = (None, outs, s')"
    using fresh env by (simp add: publish_locked_def fresh_pair_def sendDescriptorLocked_def not_le)
  ultimately show ?thesis
    using d(1) env unfolding PublishPair_def Let_def owned_sink_def [symmetric] owned_source_def [symmetric] d
    by auto
qed

text \<open>The critical section step by step, when it gets as far as the handoff.\<close>

lemma acquire_publish_cases:
  assumes "acquire_publish an conn sink source token correlated b = (result, outs, b')"
  obtains
    (returned) g where "result = Publish_returned" "outs = []" "bk_lastGen b \<le> g"
      "b' = clearPairingLocked sink source (b\<lparr>bk_lastGen := g\<rparr>)"
      "pairCurrentLocked conn sink source b \<longrightarrow> (case nextDescriptorGenerationLocked (an_sink_clock an) b of
          None \<Rightarrow> True | Some (_, b1) \<Rightarrow> nextDescriptorGenerationLocked (an_source_clock an) b1 = None)"
  | (attempted) g g' published houts h where "pairCurrentLocked conn sink source b" "bk_lastGen b < g" "g < g'"
      "PublishPair (an_send an) (an_socketpair an) (pt_fd sink) (descriptorForPending sink g g token correlated)
         (pt_fd source) (descriptorForPending source g' g token correlated) (bk_handoff b) = (published, houts, h)"
      "outs = map Handoff_out houts"
      "case published of
         Inl _ \<Rightarrow> result = Publish_failed \<and> b' = clearPairingLocked sink source (b\<lparr>bk_lastGen := g', bk_handoff := h\<rparr>)
       | Inr lifecycleFD \<Rightarrow> result = Published (length (bk_heap b)) \<and> b' = clearPairingLocked sink source
           (b\<lparr>bk_lastGen := g', bk_handoff := h,
              bk_acquired := go_put (pt_path source) True (go_put (pt_path sink) True (bk_acquired b)),
              bk_heap := bk_heap b @ [activeSessionForHandoff conn sink source (descriptorForPending sink g g token correlated)
                 (descriptorForPending source g' g token correlated) lifecycleFD (an_now an)],
              bk_activeSession := Some (length (bk_heap b))\<rparr>)"
proof (cases "pairCurrentLocked conn sink source b \<and> nextDescriptorGenerationLocked (an_sink_clock an) b \<noteq> None")
  case False
  then have "acquire_publish an conn sink source token correlated b = (Publish_returned, [], clearPairingLocked sink source b)"
    by (cases "nextDescriptorGenerationLocked (an_sink_clock an) b") (auto simp: acquire_publish_def)
  with assms False show ?thesis by (intro returned [of "bk_lastGen b"]) (auto split: option.split)
next
  case True
  then obtain g b1 where g: "nextDescriptorGenerationLocked (an_sink_clock an) b = Some (g, b1)" by auto
  note b1 = nextDescriptorGeneration_Some [OF g]
  show ?thesis
  proof (cases "nextDescriptorGenerationLocked (an_source_clock an) b1")
    case None
    with assms True g b1 returned [of g] show ?thesis by (auto simp: acquire_publish_def)
  next
    case (Some r)
    then obtain g' b2 where g': "nextDescriptorGenerationLocked (an_source_clock an) b1 = Some (g', b2)" by (metis surj_pair)
    note b2 = nextDescriptorGeneration_Some [OF g']
    obtain published houts h where p: "PublishPair (an_send an) (an_socketpair an) (pt_fd sink)
        (descriptorForPending sink g g token correlated)
        (pt_fd source) (descriptorForPending source g' g token correlated) (bk_handoff b) = (published, houts, h)"
      by (metis surj_pair)
    from assms True g g' b1 b2 p show ?thesis
      by (intro attempted [OF _ _ _ p]) (auto simp: acquire_publish_def Let_def split: sum.splits)
  qed
qed

lemma PublishPair_Inr:
  assumes "PublishPair send sp fd1 a fd2 b s = (Inr l, outs, s')"
  shows "\<exists>client r p q. hs_clientFD s = Some client \<and> sp = Some (l, r)
    \<and> outs = [Packet client p [fd1, int r], Packet client q [fd2], Close_fd r]
    \<and> decodeDescriptor p = Inr (owned_sink a) \<and> decodeDescriptor q = Inr (owned_source b)
    \<and> validateDescriptor (owned_sink a) = None \<and> validateDescriptor (owned_source b) = None"
  using assms
proof (cases rule: PublishPair_publish)
  case (attempted p q l' r e outs1)
  note enc = encodeDescriptor_Inr [OF attempted(2)] encodeDescriptor_Inr [OF attempted(3)]
  from attempted(9) have "e = None" "l' = l" "outs = outs1 @ [Close_fd r]" by (cases e; simp)+
  with publish_locked_cases [OF attempted(8)] attempted(4) enc show ?thesis by auto
qed simp

lemma PublishPair_sent:
  assumes "PublishPair send sp fd1 a fd2 b s = (res, outs, s')" "Packet client p fds \<in> set outs"
  shows "\<exists>d \<in> {owned_sink a, owned_source b}. decodeDescriptor p = Inr d \<and> validateDescriptor d = None"
  using assms(1)
proof (cases rule: PublishPair_publish)
  case (attempted p' q l' r e outs1)
  note enc = encodeDescriptor_Inr [OF attempted(2)] encodeDescriptor_Inr [OF attempted(3)]
  have "Packet client p fds \<in> set outs1" using attempted(9) assms(2) by (cases e) auto
  with publish_locked_cases [OF attempted(8)] enc show ?thesis by auto
qed (use assms(2) in simp)

lemma clearPairingLocked_fields [simp]:
  "bk_heap (clearPairingLocked x y b) = bk_heap b" "bk_activeSession (clearPairingLocked x y b) = bk_activeSession b"
  "bk_acquired (clearPairingLocked x y b) = bk_acquired b" "bk_lastGen (clearPairingLocked x y b) = bk_lastGen b"
  "bk_requireToken (clearPairingLocked x y b) = bk_requireToken b" "bk_pending (clearPairingLocked x y b) = bk_pending b"
  by (simp_all add: clearPairingLocked_def clear_pairing_of_def split: option.split)

lemma broker_inv_published:
  assumes "broker_inv b" "bk_lastGen b \<le> g'" "length (hs_lastGen h) = 3"
    "hs_lastGen h ! 1 \<le> g'" "hs_lastGen h ! 2 \<le> g'" "hs_lastBundle h \<le> g'"
  shows "broker_inv (b\<lparr>bk_lastGen := g', bk_handoff := h\<rparr>)"
    "\<not> as_lifecycleDone s \<Longrightarrow> broker_inv (b\<lparr>bk_lastGen := g', bk_handoff := h, bk_acquired := x, bk_heap := bk_heap b @ [s],
       bk_activeSession := Some (length (bk_heap b))\<rparr>)"
  using assms by (simp_all add: broker_inv_def)

lemma activeSessionForHandoff_not_done [simp]: "\<not> as_lifecycleDone (activeSessionForHandoff conn sink source a b fd now)"
  by (simp add: activeSessionForHandoff_def)

lemma acquire_publish_inv:
  assumes inv: "broker_inv b" and r: "acquire_publish an conn sink source token correlated b = (result, outs, b')"
  shows "broker_inv b' \<and> bk_lastGen b \<le> bk_lastGen b' \<and> bk_requireToken b' = bk_requireToken b"
  using r
proof (cases rule: acquire_publish_cases)
  case (returned g)
  moreover have "broker_inv (b\<lparr>bk_lastGen := g\<rparr>)" using inv returned(3) by (auto simp: broker_inv_def)
  ultimately show ?thesis by simp
next
  case (attempted g g' published houts h)
  let ?a = "descriptorForPending sink g g token correlated" and ?b = "descriptorForPending source g' g token correlated"
  have gen: "d_Generation ?a = g" "d_Generation ?b = g'" "d_BundleID ?a = g" by (simp_all add: descriptorForPending_def Let_def)
  have le: "hs_lastGen (bk_handoff b) ! 1 \<le> g'" "hs_lastGen (bk_handoff b) ! 2 \<le> g'" "hs_lastBundle (bk_handoff b) \<le> g'"
    "bk_lastGen b \<le> g'" using inv attempted(2,3) by (auto simp: broker_inv_def)
  have "length (hs_lastGen h) = 3 \<and> hs_lastGen h ! 1 \<le> g' \<and> hs_lastGen h ! 2 \<le> g' \<and> hs_lastBundle h \<le> g'"
    using PublishPair_state [OF attempted(4)] le attempted(3) inv
    by (cases "isl published") (simp_all add: record_pair_def gen broker_inv_def)
  with broker_inv_published [OF inv le(4), of h] attempted(6) le(4) show ?thesis
    by (auto split: sum.splits)
qed

lemma acquire_publish_sent:
  assumes pair: "pair_ok sink source" and tok: "correlated \<longleftrightarrow> token \<noteq> 0"
    and r: "acquire_publish an conn sink source token correlated b = (result, outs, b')"
    and sent: "Handoff_out (Packet client p fds) \<in> set outs"
  shows "\<exists>d. decodeDescriptor p = Inr d \<and> validateDescriptor d = None \<and> d_CallControlToken d = token"
  using r
proof (cases rule: acquire_publish_cases)
  case (attempted g g' published houts h)
  then have "Packet client p fds \<in> set houts" using sent by auto
  from PublishPair_sent [OF attempted(4) this] show ?thesis
    unfolding pair_descriptors(2,3) [OF pair] by (auto simp: descriptorForPending_def Let_def)
qed (use sent in simp)

section \<open>Descriptor accounting\<close>

definition closed :: "broker_out list \<Rightarrow> int multiset" where
  "closed outs = mset (concat (map (\<lambda>x. case x of Close_descriptor fd \<Rightarrow> [fd] | _ \<Rightarrow> []) outs))"

definition pending_fds :: "broker \<Rightarrow> int multiset" where
  "pending_fds b = mset (map (pt_fd \<circ> snd) (bk_pending b))"

definition fds_of :: "pendingTransport option \<Rightarrow> int multiset" where
  "fds_of h = (case h of None \<Rightarrow> {#} | Some h \<Rightarrow> {#pt_fd h#})"

lemma closed_simps [simp]:
  "closed [] = {#}" "closed (xs @ ys) = closed xs + closed ys"
  "closed (Close_descriptor fd # xs) = add_mset fd (closed xs)"
  "closed (Release_transport c p # xs) = closed xs" "closed (Close_connection c # xs) = closed xs"
  "closed (Start_expiry p g # xs) = closed xs" "closed (Start_watch s # xs) = closed xs"
  "closed (Handoff_out x # xs) = closed xs"
  by (simp_all add: closed_def)

lemma closed_map [simp]: "closed (map (Release_transport c) ps) = {#}" "closed (map Handoff_out xs) = {#}"
  by (simp_all add: closed_def comp_def)

lemma closed_release [simp]:
  "closed (fst (releaseAcquiredTransport answer closes conn path fd b)) = {#fd#}"
  "closed (fst (releasePendingTransports answer closes conn True [h, h'] b)) = fds_of h + fds_of h'"
  "closed (fst (releasePendingTransports answer closes conn False [h, h'] b)) = {#}"
  by (simp_all add: releaseAcquiredTransport_def releasePendingTransports_def releaseTransportPaths_eq fds_of_def
      split: option.split)

lemma mset_go_put: "go_get m k = None \<Longrightarrow> mset (map f (go_put k v m)) = add_mset (f (k, v)) (mset (map f m))"
  by (induction m) auto

lemma mset_go_delete:
  "go_wf m \<Longrightarrow> go_get m k = Some v \<Longrightarrow> add_mset (f (k, v)) (mset (map f (go_delete k m))) = mset (map f m)"
proof (induction m)
  case (Cons x m)
  show ?case
  proof (cases "fst x = k")
    case True
    then have "go_delete k m = m" using Cons.prems by (auto simp: AList.delete_eq filter_id_conv image_iff)
    with True Cons show ?thesis by (cases x) auto
  next
    case False
    with Cons show ?thesis by (cases x) auto
  qed
qed simp

lemma pending_fds_put:
  "go_get (bk_pending b) path = None \<Longrightarrow> pending_fds (b\<lparr>bk_pending := go_put path h (bk_pending b)\<rparr>) = add_mset (pt_fd h) (pending_fds b)"
  by (simp add: pending_fds_def mset_go_put del: mset_map)

lemma pending_fds_delete:
  "broker_inv b \<Longrightarrow> go_get (bk_pending b) path = Some h \<Longrightarrow>
     pending_fds b = add_mset (pt_fd h) (pending_fds (b\<lparr>bk_pending := go_delete path (bk_pending b)\<rparr>))"
  using mset_go_delete [of "bk_pending b" path h "pt_fd \<circ> snd"] by (simp add: pending_fds_def broker_inv_def del: mset_map)

text \<open>A pending transport the search returns is another one than the one it is matched with.\<close>

lemma findPendingPeer_Some:
  assumes "broker_inv b" "findPendingPeerLocked current b = (Some peer, e)"
  shows "go_get (bk_pending b) (pt_path peer) = Some peer \<and> pt_path peer \<noteq> pt_path current \<and> transport_ok peer
    \<and> tc_direction (pt_config peer) \<noteq> tc_direction (pt_config current) \<and> e = validateTransportPair current peer"
proof -
  from assms(2) obtain p where "(p, peer) \<in> set (bk_pending b)" "pt_path peer \<noteq> pt_path current"
      "tc_direction (pt_config peer) \<noteq> tc_direction (pt_config current)" "e = validateTransportPair current peer"
    by (auto simp: findPendingPeerLocked_def find_Some_iff in_set_conv_nth split: option.splits) metis
  with assms(1) show ?thesis by (auto simp: broker_inv_def)
qed

lemma acquire_match_spec:
  assumes inv: "broker_inv b" and held: "go_get (bk_pending b) (pt_path held) = Some held"
    and r: "acquire_match held b = (result, b')"
  shows "broker_inv b' \<and> (case result of
      Hold_rejected \<Rightarrow> False
    | Hold_invalid_pair peer \<Rightarrow> pending_fds b = pending_fds b' + {#pt_fd held#} + fds_of peer
    | Hold_waiting \<Rightarrow> b' = b
    | Hold_pair sink source \<Rightarrow> pair_ok sink source \<and> pending_fds b = pending_fds b' + {#pt_fd sink, pt_fd source#})"
proof -
  obtain peer e where f: "findPendingPeerLocked held b = (peer, e)" by (metis surj_pair)
  have ok: "transport_ok held" using pending_okD [OF inv held] by simp
  show ?thesis
  proof (cases peer)
    case None
    then have "e = None" using f by (auto simp: findPendingPeerLocked_def split: option.splits)
    with None f r inv show ?thesis by (auto simp: acquire_match_def)
  next
    case (Some q)
    note q = findPendingPeer_Some [OF inv f [unfolded Some]]
    let ?b1 = "b\<lparr>bk_pending := go_delete (pt_path held) (bk_pending b)\<rparr>"
    let ?b2 = "?b1\<lparr>bk_pending := go_delete (pt_path q) (bk_pending ?b1)\<rparr>"
    have "broker_inv ?b1" using inv by simp
    moreover have "go_get (bk_pending ?b1) (pt_path q) = Some q" using q by (simp add: gomap_simps)
    ultimately have fds: "pending_fds b = add_mset (pt_fd held) (add_mset (pt_fd q) (pending_fds ?b2))" and inv2: "broker_inv ?b2"
      using pending_fds_delete [OF inv held] pending_fds_delete [of ?b1 "pt_path q" q] by (simp_all only: broker_inv_delete_pending)
    have frame: "pending_fds (c\<lparr>bk_pairing := x\<rparr>) = pending_fds c" for c x by (simp add: pending_fds_def)
    show ?thesis
    proof (cases e)
      case None
      have dir: "tc_direction (pt_config held) \<in> {1, 2}" "tc_direction (pt_config q) \<in> {1, 2}"
        using ok q by (auto simp: transport_ok_def config_ok_def)
      then have "pair_ok held q \<or> tc_direction (pt_config held) \<noteq> DirectionSink \<and> pair_ok q held"
        using ok q None validateTransportPair_sym [of held q] by (auto simp: pair_ok_def)
      with None Some f r fds inv2 q dir show ?thesis
        by (auto simp: acquire_match_def Let_def frame pair_ok_def split: if_splits)
    next
      case (Some err)
      with \<open>peer = Some q\<close> f r fds inv2 show ?thesis by (auto simp: acquire_match_def fds_of_def)
    qed
  qed
qed

lemma delete_put: "go_get m k = None \<Longrightarrow> go_delete k (go_put k v m) = m"
  by (induction m) (auto simp: AList.delete_eq filter_id_conv split: if_splits)

lemma acquire_hold_spec:
  assumes inv: "broker_inv b" and ok: "transport_ok held" "\<And>p. linkedPeer = Some p \<Longrightarrow> transport_ok p"
    and r: "acquire_hold held linkedPeer b = (result, b')"
  shows "broker_inv b' \<and> (case result of
      Hold_rejected \<Rightarrow> pending_fds b' = pending_fds b
    | Hold_invalid_pair peer \<Rightarrow> pending_fds b + {#pt_fd held#} + fds_of linkedPeer = pending_fds b' + {#pt_fd held#} + fds_of peer
    | Hold_waiting \<Rightarrow> pending_fds b' = pending_fds b + {#pt_fd held#} + fds_of linkedPeer
    | Hold_pair sink source \<Rightarrow> pair_ok sink source
        \<and> pending_fds b + {#pt_fd held#} + fds_of linkedPeer = pending_fds b' + {#pt_fd sink, pt_fd source#})"
proof (cases "still_configured held b \<and> (case linkedPeer of None \<Rightarrow> True | Some p \<Rightarrow> still_configured p b)
    \<and> go_get (bk_pending b) (pt_path held) = None")
  case False
  then have "result = Hold_rejected \<and> b' = b" using r by (auto simp: acquire_hold_def split: if_splits option.splits)
  with inv show ?thesis by simp
next
  case True
  define b1 where "b1 = b\<lparr>bk_pending := go_put (pt_path held) held (bk_pending b)\<rparr>"
  have b1: "broker_inv b1" "pending_fds b1 = add_mset (pt_fd held) (pending_fds b)" "go_get (bk_pending b1) (pt_path held) = Some held"
    using inv ok(1) True by (simp_all add: b1_def broker_inv_put_pending pending_fds_put gomap_simps)
  have hold: "acquire_hold held linkedPeer b = (case linkedPeer of
          None \<Rightarrow> acquire_match held b1
        | Some p \<Rightarrow>
            if go_get (bk_pending b1) (pt_path p) \<noteq> None
            then (Hold_rejected, b1\<lparr>bk_pending := go_delete (pt_path held) (bk_pending b1)\<rparr>)
            else acquire_match held (b1\<lparr>bk_pending := go_put (pt_path p) p (bk_pending b1)\<rparr>))"
    using True by (auto simp: acquire_hold_def Let_def b1_def split: option.splits)
  show ?thesis
  proof (cases linkedPeer)
    case None
    with acquire_match_spec [OF b1(1,3)] r b1(2) show ?thesis
      unfolding hold by (cases result) (auto simp: fds_of_def)
  next
    case (Some p)
    show ?thesis
    proof (cases "go_get (bk_pending b1) (pt_path p)")
      case None
      define b2 where "b2 = b1\<lparr>bk_pending := go_put (pt_path p) p (bk_pending b1)\<rparr>"
      have b2: "broker_inv b2" "pending_fds b2 = add_mset (pt_fd p) (pending_fds b1)" "go_get (bk_pending b2) (pt_path held) = Some held"
        using b1 ok(2) Some None by (auto simp: b2_def broker_inv_put_pending pending_fds_put gomap_simps)
      have "acquire_match held b2 = (result, b')" using r Some None unfolding hold by (simp add: b2_def)
      from acquire_match_spec [OF b2(1,3) this] b2(2) b1(2) Some show ?thesis
        by (cases result) (auto simp: fds_of_def)
    next
      case (Some q)
      with \<open>linkedPeer = Some p\<close> r have "result = Hold_rejected" "b' = b1\<lparr>bk_pending := go_delete (pt_path held) (bk_pending b1)\<rparr>"
        unfolding hold by simp_all
      with True inv show ?thesis by (simp add: b1_def delete_put)
    qed
  qed
qed

lemma acquire_pair_closed:
  assumes "ticking (an_clock an)"
  shows "closed (fst (acquire_pair an other conn sink source b)) = {#pt_fd sink, pt_fd source#}"
proof -
  obtain r where w: "waitForCallToken (an_clock an) (if bk_hasProvider b then Some (an_provider an) else None)
      (if bk_requireToken b then callCorrelationTimeout else 0) = Some r"
    using wait_poll_returns [OF assms] unfolding waitForCallToken_def by blast
  obtain result outs b' where p: "acquire_publish an conn sink source (fst r) (snd r) (other 4 b) = (result, outs, b')"
    by (metis surj_pair)
  have "closed outs = {#}" using p by (cases rule: acquire_publish_cases) simp_all
  with w p show ?thesis
    by (cases r; cases result) (auto simp: acquire_pair_def Let_def fds_of_def case_prod_beta)
qed

lemma acquire_found_closed:
  assumes "broker_inv b" "transport_ok held" "\<And>p. linkedPeer = Some p \<Longrightarrow> transport_ok p"
    and "ticking (an_clock an)"
  shows "closed (fst (acquire_found an other conn held linkedPeer b)) + pending_fds (snd (acquire_hold held linkedPeer b))
    = pending_fds b + {#pt_fd held#} + fds_of linkedPeer"
proof -
  obtain result b' where r: "acquire_hold held linkedPeer b = (result, b')" by (metis surj_pair)
  note spec = acquire_hold_spec [OF assms(1-3) r]
  show ?thesis
  proof (cases result)
    case Hold_rejected
    with spec r show ?thesis
      by (simp add: acquire_found_def Let_def fds_of_def case_prod_beta split: option.split)
  next
    case (Hold_pair sink source)
    with spec r acquire_pair_closed [OF assms(4), of other conn sink source "other 3 b'"] show ?thesis
      by (simp add: acquire_found_def Let_def add.commute)
  qed (use spec r in \<open>auto simp: acquire_found_def Let_def fds_of_def add.commute\<close>)
qed

section \<open>The whole of acquire\<close>

definition keeps_inv :: "(nat \<Rightarrow> broker \<Rightarrow> broker) \<Rightarrow> bool" where
  "keeps_inv other \<longleftrightarrow> (\<forall>k b. broker_inv b \<longrightarrow> broker_inv (other k b) \<and> bk_requireToken (other k b) = bk_requireToken b)"

fun valid_out :: "bool \<Rightarrow> broker_out \<Rightarrow> bool" where
  "valid_out require (Handoff_out (Packet client p fds)) =
     (case decodeDescriptor p of
        Inl _ \<Rightarrow> False
      | Inr d \<Rightarrow> validateDescriptor d = None \<and> (require \<longrightarrow> d_CallControlToken d \<noteq> 0))"
| "valid_out require _ = True"

definition sends_valid :: "bool \<Rightarrow> broker_out list \<Rightarrow> bool" where
  "sends_valid require outs \<longleftrightarrow> list_all (valid_out require) outs"

lemma keeps_invD: "keeps_inv other \<Longrightarrow> broker_inv b \<Longrightarrow> broker_inv (other k b) \<and> bk_requireToken (other k b) = bk_requireToken b"
  by (simp add: keeps_inv_def)

lemma sends_valid_simps [simp]:
  "sends_valid r []" "sends_valid r (xs @ ys) \<longleftrightarrow> sends_valid r xs \<and> sends_valid r ys"
  "sends_valid r (Close_descriptor fd # xs) \<longleftrightarrow> sends_valid r xs" "sends_valid r (Start_watch s # xs) \<longleftrightarrow> sends_valid r xs"
  "sends_valid r (Start_expiry p g # xs) \<longleftrightarrow> sends_valid r xs" "sends_valid r (Close_connection c # xs) \<longleftrightarrow> sends_valid r xs"
  "sends_valid r (Release_transport c p # xs) \<longleftrightarrow> sends_valid r xs" "sends_valid r (map (Release_transport c) ps)"
  by (simp_all add: sends_valid_def list.pred_map comp_def list.pred_True)

lemma sends_valid_release [simp]:
  "sends_valid r (fst (releaseAcquiredTransport answer closes conn path fd b))"
  "sends_valid r (fst (releasePendingTransports answer closes conn cd [h, h'] b))"
  by (simp_all add: releaseAcquiredTransport_def releasePendingTransports_def releaseTransportPaths_eq split: option.split)

lemma acquire_pair_safe:
  assumes inv: "broker_inv b" and other: "keeps_inv other" and pair: "pair_ok sink source"
  shows "broker_inv (snd (acquire_pair an other conn sink source b))
    \<and> sends_valid (bk_requireToken b) (fst (acquire_pair an other conn sink source b))"
proof (cases "waitForCallToken (an_clock an) (if bk_hasProvider b then Some (an_provider an) else None)
    (if bk_requireToken b then callCorrelationTimeout else 0)")
  case None
  with inv show ?thesis by (simp add: acquire_pair_def Let_def)
next
  case (Some r)
  obtain token correlated where r: "r = (token, correlated)" by (metis surj_pair)
  note tok = waitForCallToken_token [OF Some [unfolded r]]
  note keep = keeps_invD [OF other inv, of 4]
  obtain result outs b' where p: "acquire_publish an conn sink source token correlated (other 4 b) = (result, outs, b')"
    by (metis surj_pair)
  have "broker_inv b'" using acquire_publish_inv [OF _ p] keep by simp
  moreover have "sends_valid (bk_requireToken b) outs" if "bk_requireToken b \<longrightarrow> correlated"
    unfolding sends_valid_def list_all_iff
  proof
    fix x assume x: "x \<in> set outs"
    show "valid_out (bk_requireToken b) x"
    proof (cases "(bk_requireToken b, x)" rule: valid_out.cases)
      case (1 require client q fds)
      with x acquire_publish_sent [OF pair tok p] that tok show ?thesis by fastforce
    qed auto
  qed
  ultimately show ?thesis
    using Some p keep unfolding r
    by (cases result) (auto simp: acquire_pair_def Let_def case_prod_beta)
qed

lemma acquire_hold_requireToken: "bk_requireToken (snd (acquire_hold held linkedPeer b)) = bk_requireToken b"
  by (auto simp: acquire_hold_def acquire_match_def Let_def split: option.split prod.split)

lemma acquire_found_safe:
  assumes "broker_inv b" "keeps_inv other" "transport_ok held" "\<And>p. linkedPeer = Some p \<Longrightarrow> transport_ok p"
  shows "broker_inv (snd (acquire_found an other conn held linkedPeer b))
    \<and> sends_valid (bk_requireToken b) (fst (acquire_found an other conn held linkedPeer b))"
proof -
  obtain result b' where r: "acquire_hold held linkedPeer b = (result, b')" by (metis surj_pair)
  note spec = acquire_hold_spec [OF assms(1,3,4) r]
  have req: "bk_requireToken b' = bk_requireToken b" using acquire_hold_requireToken [of held linkedPeer b] r by simp
  show ?thesis
  proof (cases result)
    case (Hold_pair sink source)
    note keep = keeps_invD [OF assms(2), of b' 3]
    with spec Hold_pair r req acquire_pair_safe [OF _ assms(2), of "other 3 b'" sink source an conn] show ?thesis
      by (simp add: acquire_found_def Let_def)
  qed (use spec r in \<open>auto simp: acquire_found_def Let_def case_prod_beta split: option.split\<close>)
qed

lemma acquire_transport_safe:
  assumes inv: "broker_inv b" and other: "keeps_inv other" and c: "config_ok configuration"
    and peer: "\<And>p. peerConfiguration = Some p \<Longrightarrow> config_ok p"
  shows "broker_inv (snd (acquire_transport an other path peer configuration conn peerConfiguration b))
    \<and> sends_valid (bk_requireToken b) (fst (acquire_transport an other path peer configuration conn peerConfiguration b))"
proof -
  have held: "transport_ok \<lparr>pt_path = path, pt_release = rel, pt_config = configuration, pt_qos = q, pt_links = links, pt_fd = fd,
      pt_readMTU = rm, pt_writeMTU = wm\<rparr>"
    if "readTransportDetails (an_details an) (tc_codec configuration) (tc_qos configuration) = Inr (q, links)" for q links fd rel rm wm
    using readTransportDetails_ok [OF c that] c by (simp add: transport_ok_def)
  have linked: "transport_ok p" if "acquire_peer an path pp pc rm wm = Some p" "config_ok pc" for p pp pc rm wm
    using that readTransportDetails_ok [of pc "an_peer_details an" "tc_qos pc"]
    by (auto simp: acquire_peer_def transport_ok_def split: sum.splits if_splits option.splits)
  have found: "broker_inv (snd (acquire_found an other conn h lp b)) \<and> sends_valid (bk_requireToken b) (fst (acquire_found an other conn h lp b))"
    if "transport_ok h" "lp = None \<or> transport_ok (the lp)" for h lp
    by (rule acquire_found_safe [OF inv other that(1)]) (use that(2) in auto)
  show ?thesis
    using inv by (auto simp: acquire_transport_def Let_def found held dest: linked [OF _ peer]
        split: reply.split sum.split option.split)
qed

lemma acquire_reserve_ok:
  assumes "broker_inv b" "acquire_reserve path peer b = (Some (configuration, conn, peerConfiguration), b')"
  shows "broker_inv b' \<and> bk_requireToken b' = bk_requireToken b \<and> config_ok configuration
    \<and> (\<forall>p. peerConfiguration = Some p \<longrightarrow> config_ok p)"
  using assms by (auto simp: acquire_reserve_def acquire_ready_def intro: config_okD split: option.splits if_splits)

lemma acquire_unreserve_inv [simp]: "broker_inv (acquire_unreserve path peer b) \<longleftrightarrow> broker_inv b"
  by (simp add: acquire_unreserve_def Let_def split: option.split)

lemma acquire_reserve_None: "acquire_reserve path peer b = (None, b') \<Longrightarrow> b' = b"
  by (auto simp: acquire_reserve_def split: option.splits if_splits)

lemma acquire_reserved_safe:
  assumes inv: "broker_inv b" and other: "keeps_inv other"
  shows "broker_inv (snd (acquire_reserved an other path peer b))
    \<and> sends_valid (bk_requireToken b) (fst (acquire_reserved an other path peer b))"
proof -
  obtain res b1 where r: "acquire_reserve path peer b = (res, b1)" by (metis surj_pair)
  show ?thesis
  proof (cases res)
    case None
    with r acquire_reserve_None [of path peer b b1] inv show ?thesis by (simp add: acquire_reserved_def)
  next
    case (Some x)
    obtain configuration conn pc where x: "x = (configuration, conn, pc)" by (metis surj_pair)
    let ?t = "acquire_transport an other path peer configuration conn pc (other 2 b1)"
    from acquire_reserve_ok [OF inv r [unfolded Some x]] have b1: "broker_inv b1" "bk_requireToken b1 = bk_requireToken b"
        and c: "config_ok configuration" "\<And>p. pc = Some p \<Longrightarrow> config_ok p" by auto
    from keeps_invD [OF other b1(1), of 2] acquire_transport_safe [OF _ other c(1), of "other 2 b1" pc an path peer conn] c(2) b1(2)
    have "broker_inv (snd ?t) \<and> sends_valid (bk_requireToken b) (fst ?t)" by simp
    with keeps_invD [OF other, of "snd ?t" 5] r Some x show ?thesis
      by (simp add: acquire_reserved_def case_prod_beta Let_def)
  qed
qed


lemma acquire_safety:
  assumes "broker_inv b" "keeps_inv other"
  shows "broker_inv (snd (acquire an other path b)) \<and> sends_valid (bk_requireToken b) (fst (acquire an other path b))"
proof -
  from acquire_reserved_safe [OF _ assms(2), of "other 1 b"] keeps_invD [OF assms(2,1), of 1]
  have "broker_inv (snd (acquire_reserved an other path peer (other 1 b)))
      \<and> sends_valid (bk_requireToken b) (fst (acquire_reserved an other path peer (other 1 b)))" for peer by simp
  with assms(1) show ?thesis by (auto simp: acquire_def split: option.split)
qed

section \<open>A concrete pair\<close>

text \<open>Two configured, linked transports of one CIS and the answers BlueZ gives for them.\<close>

definition sample_codec :: codec_config where "sample_codec = codec_of (conversationalPresets ! 0) 1"

definition sample_qos :: transport_qos where
  "sample_qos = \<lparr>tq_CIG = 0, tq_CIS = 1, tq_IntervalUS = interval_us sample_codec, tq_Framing = 0, tq_PHY = 2,
     tq_SDU = of_int (cc_OctetsPerFrame sample_codec), tq_Retransmissions = 2, tq_LatencyMS = 10,
     tq_PresentationDelayUS = 40000, tq_TargetLatency = 2\<rparr>"

definition sample_path :: "direction \<Rightarrow> object_path" where
  "sample_path d = (if d = DirectionSink then ''/t/1'' else ''/t/2'')"

definition sample_config :: "direction \<Rightarrow> transportConfig" where
  "sample_config d = \<lparr>tc_direction = d, tc_generation = (if d = DirectionSink then 1 else 2), tc_codec = sample_codec, tc_qos = sample_qos\<rparr>"

definition sample_held :: "direction \<Rightarrow> pendingTransport" where
  "sample_held d = \<lparr>pt_path = sample_path d, pt_release = ''/t/1'', pt_config = sample_config d, pt_qos = sample_qos,
     pt_links = [sample_path (3 - d)], pt_fd = (if d = DirectionSink then 20 else 21), pt_readMTU = 200, pt_writeMTU = 200\<rparr>"

definition sample_configured :: broker where
  "sample_configured = sample_broker\<lparr>bk_connection := Some 0, bk_nextConfig := 2, bk_requireToken := True, bk_hasProvider := True,
     bk_configured := [(sample_path DirectionSink, sample_config DirectionSink), (sample_path DirectionSource, sample_config DirectionSource)],
     bk_handoff := (bk_handoff sample_broker)\<lparr>hs_clientFD := Some 4\<rparr>\<rparr>"

definition sample_details :: "direction \<Rightarrow> properties reply" where
  "sample_details d = Reply [(''QoS'', V_dict [(''CIG'', V_byte 0), (''CIS'', V_byte 1),
     (''Interval'', V_uint32 (tq_IntervalUS sample_qos)), (''SDU'', V_uint16 (tq_SDU sample_qos)), (''Framing'', V_byte 0),
     (''PHY'', V_byte 2), (''Retransmissions'', V_byte 2), (''Latency'', V_uint16 10), (''PresentationDelay'', V_uint32 40000)]),
     (''Links'', V_paths [sample_path (3 - d)])]"

definition sample_answers :: answers where
  "sample_answers = \<lparr>an_links = Reply (V_paths [sample_path DirectionSource]), an_acquired = Reply (20, 200, 200),
     an_details = sample_details DirectionSink, an_peer_details = sample_details DirectionSource, an_duplicate = Some 21,
     an_release = (\<lambda>_ _. True), an_close = True, an_clock = (\<lambda>i. int i * callCorrelationPoll),
     an_provider = (\<lambda>_. (9, True)), an_sink_clock = Some (1, 0), an_source_clock = Some (1, 0),
     an_send = (\<lambda>p _. Some (length p)), an_socketpair = Some (30, 31), an_now = 0\<rparr>"

lemma sample_inv: "broker_inv sample_configured"
proof -
  have n: "NewBroker ''hci0'' ''00:11:22:33:44:55'' ''/run/h'' 0 = Some sample_broker"
    by (simp add: sample_broker_def NewBroker_def NewHandoffServer_def SetDisconnectHandler_def HasPrefix_def)
  have "conversationalPresets ! 0 \<in> set conversationalPresets" by (simp add: conversationalPresets_def)
  moreover have "OnesCount32 1 = 1" using OnesCount32_single [of 0] by simp
  ultimately have "codec_ok sample_codec" unfolding codec_ok_def sample_codec_def by (intro bexI exI conjI refl) auto
  with NewBroker_inv [OF n] show ?thesis
    by (simp add: broker_inv_def sample_configured_def sample_config_def config_ok_def sample_path_def)
qed

lemma sample_acquire:
  "let (outs, b') = acquire sample_answers (\<lambda>_ b. b) ''/t/1'' sample_configured
   in length (filter (\<lambda>x. case x of Handoff_out (Packet _ _ _) \<Rightarrow> True | _ \<Rightarrow> False) outs) = 2 \<and> bk_activeSession b' = Some 0"
  by code_simp

lemma sample_keeps: "keeps_inv (\<lambda>_ b. b)" by (simp add: keeps_inv_def)

lemma sample_ok: "transport_ok (sample_held DirectionSink)" "transport_ok (sample_held DirectionSource)"
proof -
  have c: "config_ok (sample_config DirectionSink)" "config_ok (sample_config DirectionSource)"
    using sample_inv by (simp_all add: broker_inv_def sample_configured_def)
  have "qos_of_codec sample_codec sample_qos" by code_simp
  with c show "transport_ok (sample_held DirectionSink)" "transport_ok (sample_held DirectionSource)"
    by (simp_all add: transport_ok_def sample_held_def sample_config_def sample_qos_def)
qed

lemma sample_pair: "pair_ok (sample_held DirectionSink) (sample_held DirectionSource)"
proof -
  have "validateTransportPair (sample_held DirectionSink) (sample_held DirectionSource) = None" by code_simp
  with sample_ok show ?thesis by (simp add: pair_ok_def sample_held_def sample_config_def)
qed

lemma sample_ticking: "ticking (an_clock sample_answers)"
  by (simp add: ticking_def sample_answers_def algebra_simps)

definition sample_pairing :: broker where
  "sample_pairing = sample_configured\<lparr>bk_pairing := [(sample_path DirectionSink, True), (sample_path DirectionSource, True)]\<rparr>"

lemma sample_publish:
  "pairCurrentLocked 0 (sample_held DirectionSink) (sample_held DirectionSource) sample_pairing"
  "transferable (sample_held DirectionSink)" "transferable (sample_held DirectionSource)"
  "nextDescriptorGenerationLocked (an_sink_clock sample_answers) sample_pairing
     = Some (1000000000, sample_pairing\<lparr>bk_lastGen := 1000000000\<rparr>)"
  "nextDescriptorGenerationLocked (an_source_clock sample_answers) (sample_pairing\<lparr>bk_lastGen := 1000000000\<rparr>)
     = Some (1000000001, sample_pairing\<lparr>bk_lastGen := 1000000001\<rparr>)"
  by code_simp+

section \<open>Properties\<close>

text \<open>
  C10. Acquiring transports, whatever else the program does to the broker between the critical
  sections (as long as it keeps the broker's invariant) and whatever BlueZ, the kernel and the peer
  answer: the invariant holds again at the end, and every packet sent to the telephony process
  decodes to a descriptor its checks accept, which names a call if the broker is configured to
  hand over nothing without one.
\<close>

theorem acquire_safe:
  assumes "broker_inv b" and "keeps_inv other" and "acquire an other path b = (outs, b')"
  shows "broker_inv b' \<and> sends_valid (bk_requireToken b) outs"
  using acquire_safety [OF assms(1,2), of an path] assms(3) by simp

theorem acquire_safe_witness:
  "\<exists>outs b'. acquire sample_answers (\<lambda>_ b. b) ''/t/1'' sample_configured = (outs, b') \<and> broker_inv b' \<and> sends_valid True outs
     \<and> bk_activeSession b' = Some 0
     \<and> length (filter (\<lambda>x. case x of Handoff_out (Packet _ _ _) \<Rightarrow> True | _ \<Rightarrow> False) outs) = 2"
proof -
  obtain outs b' where r: "acquire sample_answers (\<lambda>_ b. b) ''/t/1'' sample_configured = (outs, b')" by (metis surj_pair)
  have "bk_requireToken sample_configured" by (simp add: sample_configured_def)
  with acquire_safe [OF sample_inv sample_keeps r] sample_acquire r show ?thesis by auto
qed

text \<open>
  What publishing a pair does. When the critical section reports a published session, the pair
  was still current, its two generations are new and increasing, the sink's generation names the
  bundle, the peer was sent exactly the sink's packet with the sink's descriptor and the lifecycle
  socket and the source's packet with the source's descriptor, both decoding to the descriptors of
  the pair, and the new session is the broker's active one, with both paths marked as acquired. In
  every other case no session is created and the marks are left alone.
\<close>

theorem acquire_publish_spec:
  assumes "pair_ok sink source" and "acquire_publish an conn sink source token correlated b = (result, outs, b')"
  shows "case result of
     Published session \<Rightarrow> (\<exists>g g' client lifecycle remote p q.
        pairCurrentLocked conn sink source b \<and> bk_lastGen b < g \<and> g < g' \<and> bk_lastGen b' = g'
        \<and> hs_clientFD (bk_handoff b) = Some client \<and> an_socketpair an = Some (lifecycle, remote)
        \<and> outs = map Handoff_out [Packet client p [pt_fd sink, int remote], Packet client q [pt_fd source], Close_fd remote]
        \<and> decodeDescriptor p = Inr (descriptorForPending sink g g token correlated)
        \<and> decodeDescriptor q = Inr (descriptorForPending source g' g token correlated)
        \<and> bk_activeSession b' = Some session \<and> session = length (bk_heap b)
        \<and> bk_heap b' = bk_heap b @ [activeSessionForHandoff conn sink source (descriptorForPending sink g g token correlated)
             (descriptorForPending source g' g token correlated) lifecycle (an_now an)]
        \<and> go_flag (bk_acquired b') (pt_path sink) \<and> go_flag (bk_acquired b') (pt_path source))
   | _ \<Rightarrow> bk_heap b' = bk_heap b \<and> bk_activeSession b' = bk_activeSession b \<and> bk_acquired b' = bk_acquired b"
  using assms(2)
proof (cases rule: acquire_publish_cases)
  case (attempted g g' published houts h)
  show ?thesis
  proof (cases published)
    case (Inr l)
    from PublishPair_Inr [OF attempted(4) [unfolded Inr], unfolded pair_descriptors(2,3) [OF assms(1)]]
    obtain client r p q where
      "hs_clientFD (bk_handoff b) = Some client" "an_socketpair an = Some (l, r)"
      "houts = [Packet client p [pt_fd sink, int r], Packet client q [pt_fd source], Close_fd r]"
      "decodeDescriptor p = Inr (descriptorForPending sink g g token correlated)"
      "decodeDescriptor q = Inr (descriptorForPending source g' g token correlated)"
      by blast
    with attempted Inr show ?thesis
      by (simp add: gomap_simps) blast
  qed (use attempted in simp)
qed simp

theorem acquire_publish_spec_witness:
  "\<exists>outs b'. acquire_publish sample_answers 0 (sample_held DirectionSink) (sample_held DirectionSource) 9 True sample_pairing
       = (Published 0, outs, b') \<and> bk_activeSession b' = Some 0
     \<and> (\<exists>p q. outs = map Handoff_out [Packet 4 p [20, 31], Packet 4 q [21], Close_fd 31])"
proof -
  let ?r = "acquire_publish sample_answers 0 (sample_held DirectionSink) (sample_held DirectionSource) 9 True sample_pairing"
  obtain result outs b' where r: "?r = (result, outs, b')" by (metis surj_pair)
  have "fst ?r = Published 0" by code_simp
  then have res: "result = Published 0" unfolding r by simp
  have "hs_clientFD (bk_handoff sample_pairing) = Some 4" "an_socketpair sample_answers = Some (30, 31)"
    "pt_fd (sample_held DirectionSink) = 20" "pt_fd (sample_held DirectionSource) = 21"
    by (simp_all add: sample_pairing_def sample_configured_def sample_answers_def sample_held_def)
  with acquire_publish_spec [OF sample_pair r] res r show ?thesis by auto
qed

text \<open>
  C11. Publication is not refused for a reason of the broker's own. A pair found by the broker that
  is still current when its call is known is handed over, as long as the clock is readable, the
  descriptors are usable, the transports' MTUs and paths fit a descriptor and the peer is there to
  take the packets: the generations the broker makes are never stale for the handoff server and the
  descriptors it builds are never rejected.
\<close>

theorem publish_progress:
  assumes "broker_inv b" "pair_ok sink source" "correlated \<longleftrightarrow> token \<noteq> 0" "pairCurrentLocked conn sink source b"
    and "nextDescriptorGenerationLocked (an_sink_clock an) b = Some (g, b1)"
    and "nextDescriptorGenerationLocked (an_source_clock an) b1 = Some (g', b2)"
    and "transferable sink" "transferable source" "0 \<le> pt_fd sink" "0 \<le> pt_fd source" "pt_fd sink \<noteq> pt_fd source"
    and "an_socketpair an = Some (lifecycle, remote)" "hs_clientFD (bk_handoff b) = Some client"
    and "an_send an = (\<lambda>p fds. Some (length p))"
  shows "fst (acquire_publish an conn sink source token correlated b) = Published (length (bk_heap b))"
proof -
  obtain result outs b' where r: "acquire_publish an conn sink source token correlated b = (result, outs, b')" by (metis surj_pair)
  from r show ?thesis
  proof (cases rule: acquire_publish_cases)
    case (returned x)
    with assms(4-6) show ?thesis by simp
  next
    case (attempted x x' published houts h)
    have "fresh_pair (descriptorForPending sink x x token correlated) (descriptorForPending source x' x token correlated) (bk_handoff b)"
      using attempted(2,3) assms(1) by (auto simp: fresh_pair_def broker_inv_def descriptorForPending_def Let_def)
    moreover have "x \<noteq> 0" "x' \<noteq> 0" using attempted(2,3) by auto
    ultimately have "\<exists>l. published = Inr l"
      using PublishPair_progress [OF assms(2,7,8), of x x' x correlated token "bk_handoff b" "pt_fd sink" "pt_fd source"
          "an_socketpair an" lifecycle remote client "an_send an"] assms(3,9-14) attempted(4) by auto
    with attempted(6) r show ?thesis by auto
  qed
qed

theorem publish_progress_witness:
  "fst (acquire_publish sample_answers 0 (sample_held DirectionSink) (sample_held DirectionSource) 9 True sample_pairing) = Published 0"
proof -
  have inv: "broker_inv sample_pairing" using sample_inv by (simp add: sample_pairing_def)
  have "bk_heap sample_pairing = []"
    by (simp add: sample_pairing_def sample_configured_def sample_broker_def NewBroker_def NewHandoffServer_def
        SetDisconnectHandler_def HasPrefix_def)
  moreover have "hs_clientFD (bk_handoff sample_pairing) = Some 4" "an_socketpair sample_answers = Some (30, 31)"
    "an_send sample_answers = (\<lambda>p fds. Some (length p))"
    "0 \<le> pt_fd (sample_held DirectionSink)" "0 \<le> pt_fd (sample_held DirectionSource)"
    "pt_fd (sample_held DirectionSink) \<noteq> pt_fd (sample_held DirectionSource)"
    by (simp_all add: sample_pairing_def sample_configured_def sample_answers_def sample_held_def)
  ultimately show ?thesis
    using publish_progress [OF inv sample_pair, of True 9 0 sample_answers _ _ _ _ 30 31 4] sample_publish by simp
qed

text \<open>
  C12. No descriptor is leaked or closed twice. Every file descriptor that was pending or was just
  acquired (the transport's, and the duplicate made for its linked peer) is afterwards either
  still pending or has been closed exactly once, on every path through the rest of the function:
  rejection, invalid pair, waiting for a partner, return for want of a call, and publication,
  where the peer has received duplicates.
\<close>

theorem descriptors_accounted:
  assumes "broker_inv b" "transport_ok held" "case linkedPeer of None \<Rightarrow> True | Some p \<Rightarrow> transport_ok p"
    and "ticking (an_clock an)"
  shows "closed (fst (acquire_found an other conn held linkedPeer b)) + pending_fds (snd (acquire_hold held linkedPeer b))
    = pending_fds b + {#pt_fd held#} + fds_of linkedPeer"
  using assms(3) by (intro acquire_found_closed [OF assms(1,2) _ assms(4)]) simp

theorem descriptors_accounted_witness:
  "closed (fst (acquire_found sample_answers (\<lambda>_ b. b) 0 (sample_held DirectionSink) (Some (sample_held DirectionSource)) sample_configured))
     + pending_fds (snd (acquire_hold (sample_held DirectionSink) (Some (sample_held DirectionSource)) sample_configured))
   = {#20, 21#}"
proof -
  have "pending_fds sample_configured = {#}"
    by (simp add: pending_fds_def sample_configured_def sample_broker_def NewBroker_def NewHandoffServer_def
        SetDisconnectHandler_def HasPrefix_def)
  moreover have "pt_fd (sample_held DirectionSink) = 20" "pt_fd (sample_held DirectionSource) = 21" by (simp_all add: sample_held_def)
  ultimately show ?thesis
    using descriptors_accounted [OF sample_inv sample_ok(1) _ sample_ticking, of "Some (sample_held DirectionSource)" "\<lambda>_ b. b" 0]
      sample_ok(2) by (simp add: fds_of_def)
qed

text \<open>
  Waiting for a call ends, with a token exactly when it says so: the clock moves by at least the
  length of a pause between two looks, so the loop returns whatever the provider answers, and what
  it returns is a token other than zero or the report that there is none.
\<close>

theorem waitForCallToken_returns:
  assumes "ticking clock"
  shows "\<exists>token correlated. waitForCallToken clock provider timeout = Some (token, correlated) \<and> (correlated \<longleftrightarrow> token \<noteq> 0)"
  using wait_poll_returns [OF assms, of provider timeout 0] waitForCallToken_token
  by (fastforce simp: waitForCallToken_def)

theorem waitForCallToken_returns_witness:
  "\<exists>token correlated. waitForCallToken (an_clock sample_answers) (Some (\<lambda>i. (of_nat i, i = 3))) callCorrelationTimeout = Some (token, correlated)
     \<and> (correlated \<longleftrightarrow> token \<noteq> 0) \<and> token = 3"
proof -
  have "waitForCallToken (an_clock sample_answers) (Some (\<lambda>i. (of_nat i, i = 3))) callCorrelationTimeout = Some (3, True)"
    by code_simp
  with waitForCallToken_returns [OF sample_ticking, of "Some (\<lambda>i. (of_nat i, i = 3))" callCorrelationTimeout] show ?thesis
    by auto
qed

end
