(* ===== verification/Broker_Session.thy ===== *)
theory Broker_Session
  imports Broker_Acquire
begin

text \<open>
  The life of a session the broker has handed over (the lifecycle part of \<open>internal/bluez/broker.go\<close>):
  progress and normal-end messages of the telephony process, the leases, the bounded wait for the
  remote side, the release of the transports, the transport signals of BlueZ, and the goroutine
  \<open>watchActiveSession\<close>.

  A function that takes the mutex several times has an argument \<open>other\<close> for what the rest of the
  program does to the state in between. Starting a goroutine is an effect (\<open>Start_release\<close>,
  \<open>Start_normal_wait\<close>, \<open>Start_acquire\<close>); its body is an operation of its own.
\<close>

section \<open>Operations\<close>

definition lifecycleProgressMatches :: "activeTransportSession \<Rightarrow> lifecycleProgress \<Rightarrow> bool" where
  "lifecycleProgressMatches session progress \<longleftrightarrow>
     lp_BundleID progress = as_bundleID session \<and> lp_SinkGeneration progress = as_sinkGeneration session
     \<and> lp_SourceGeneration progress = as_sourceGeneration session"

text \<open>The guard of most operations: the session is the active one and no release has begun.\<close>

definition session_open :: "broker \<Rightarrow> session \<Rightarrow> bool" where
  "session_open b i \<longleftrightarrow> bk_activeSession b = Some i \<and> \<not> as_releasing (the_session b i) \<and> \<not> as_releaseExhausted (the_session b i)"

definition recordLifecycleProgress :: "session \<Rightarrow> lifecycleProgress \<Rightarrow> instant \<Rightarrow> broker \<Rightarrow> bool \<times> broker" where
  "recordLifecycleProgress i progress now b =
     (if \<not> session_open b i then (False, b\<lparr>bk_lifecycleStale := bk_lifecycleStale b + 1\<rparr>)
      else if \<not> lifecycleProgressMatches (the_session b i) progress
      then (False, b\<lparr>bk_lifecycleStale := bk_lifecycleStale b + 1\<rparr>)
      else
        let b = update_session i (\<lambda>s. s\<lparr>as_progressArmed := True, as_lastProgress := Some now\<rparr>) b
        in (True, b\<lparr>bk_lifecycleProgress := bk_lifecycleProgress b + 1\<rparr>))"

definition normalReleaseWaiting :: "session \<Rightarrow> broker \<Rightarrow> bool" where
  "normalReleaseWaiting i b \<longleftrightarrow> bk_activeSession b = Some i \<and> as_normalWaitStarted (the_session b i)
     \<and> \<not> as_releasing (the_session b i) \<and> \<not> as_releaseExhausted (the_session b i)"

definition normalReleasePending :: "session \<Rightarrow> broker \<Rightarrow> bool" where
  "normalReleasePending i b \<longleftrightarrow> bk_activeSession b = Some i \<and> as_normalEndSeen (the_session b i)
     \<and> \<not> as_releasing (the_session b i) \<and> \<not> as_releaseExhausted (the_session b i)"

definition markNormalReleasePending :: "session option \<Rightarrow> bool \<Rightarrow> broker \<Rightarrow> bool \<times> broker" where
  "markNormalReleasePending session normalEndEvent b =
     (case session of
        None \<Rightarrow> (False, b)
      | Some i \<Rightarrow>
          if \<not> session_open b i then (False, b)
          else
            let b = (if normalEndEvent then b\<lparr>bk_lifecycleNormalEnds := bk_lifecycleNormalEnds b + 1\<rparr> else b) in
            if as_normalEndSeen (the_session b i) then (False, b)
            else (True, update_session i (\<lambda>s. s\<lparr>as_normalEndSeen := True\<rparr>) b))"

definition requestSpecificSessionRelease :: "session option \<Rightarrow> broker \<Rightarrow> bool \<times> broker_out list \<times> broker" where
  "requestSpecificSessionRelease session b =
     (case session of
        None \<Rightarrow> (False, [], b)
      | Some i \<Rightarrow>
          if \<not> session_open b i then (False, [], b)
          else (True, [Start_release i], update_session i (\<lambda>s. s\<lparr>as_releasing := True\<rparr>) b))"

definition beginNormalReleaseWait :: "(broker \<Rightarrow> broker) \<Rightarrow> session option \<Rightarrow> bool \<Rightarrow> broker \<Rightarrow> bool \<times> broker_out list \<times> broker" where
  "beginNormalReleaseWait other session normalEndEvent b =
     (case session of
        None \<Rightarrow> (False, [], b)
      | Some i \<Rightarrow>
          if \<not> session_open b i then (False, [], b)
          else
            let b = (if normalEndEvent then b\<lparr>bk_lifecycleNormalEnds := bk_lifecycleNormalEnds b + 1\<rparr> else b) in
            if as_normalWaitStarted (the_session b i) then (False, [], b)
            else
              let b = update_session i (\<lambda>s. s\<lparr>as_normalEndSeen := as_normalEndSeen s \<or> normalEndEvent\<rparr>) b;
                  wait = bk_normalReleaseWait b
              in if wait \<le> 0 then
                   (let (_, outs, b) = requestSpecificSessionRelease (Some i) (other b) in (False, outs, b))
                 else
                   let b = update_session i (\<lambda>s. s\<lparr>as_normalWaitStarted := True\<rparr>) b;
                       b = b\<lparr>bk_normalReleaseWaits := bk_normalReleaseWaits b + 1\<rparr>
                   in (True, [Start_normal_wait i wait], b))"

definition recordLifecycleNormalEnd :: "(broker \<Rightarrow> broker) \<Rightarrow> session \<Rightarrow> lifecycleProgress \<Rightarrow> broker \<Rightarrow> bool \<times> broker" where
  "recordLifecycleNormalEnd other i identity b =
     (if \<not> session_open b i then (False, b\<lparr>bk_lifecycleStale := bk_lifecycleStale b + 1\<rparr>)
      else if \<not> lifecycleProgressMatches (the_session b i) identity
      then (False, b\<lparr>bk_lifecycleStale := bk_lifecycleStale b + 1\<rparr>)
      else markNormalReleasePending (Some i) True (other b))"

text \<open>The synchronous call of \<open>releaseActiveSession\<close> at the end is the effect \<open>Start_release\<close>.\<close>

definition forceNormalReleaseTimeout :: "session \<Rightarrow> broker \<Rightarrow> bool \<times> broker_out list \<times> broker" where
  "forceNormalReleaseTimeout i b =
     (if bk_activeSession b \<noteq> Some i \<or> \<not> as_normalWaitStarted (the_session b i)
         \<or> as_releasing (the_session b i) \<or> as_releaseExhausted (the_session b i)
      then (False, [], b)
      else
        let b = update_session i (\<lambda>s. s\<lparr>as_releasing := True\<rparr>) b
        in (True, [Start_release i], b\<lparr>bk_normalReleaseTimeouts := bk_normalReleaseTimeouts b + 1\<rparr>))"

text \<open>\<open>done_first\<close>: the done channel is ready before the timer fires.\<close>

definition waitNormalRelease :: "bool \<Rightarrow> session \<Rightarrow> broker \<Rightarrow> broker_out list \<times> broker" where
  "waitNormalRelease done_first i b =
     (if done_first then ([], b) else let (_, outs, b) = forceNormalReleaseTimeout i b in (outs, b))"

definition completeActiveSession :: "session \<Rightarrow> broker \<Rightarrow> broker" where
  "completeActiveSession i b = clearActiveSessionLocked i b"

definition releaseActiveSession :: "(nat \<Rightarrow> object_path \<Rightarrow> bool) \<Rightarrow> bool \<Rightarrow> (broker \<Rightarrow> broker) \<Rightarrow> session \<Rightarrow> broker
    \<Rightarrow> broker_out list \<times> broker" where
  "releaseActiveSession answer closes other i b =
     (let (ok, outs, b) = releaseTransportPaths answer closes (Some (as_connection (the_session b i)))
            (as_releasePaths (the_session b i)) b;
          b = other b
      in (outs,
          if ok then completeActiveSession i b
          else if bk_activeSession b = Some i then
            (if as_remoteIdleSeen (the_session b i)
             then clearActiveSessionLocked i (b\<lparr>bk_transportIdleComplete := bk_transportIdleComplete b + 1\<rparr>)
             else update_session i (\<lambda>s. s\<lparr>as_releasing := False, as_releaseExhausted := True\<rparr>) b)
          else b))"

definition requestActiveSessionRelease :: "(broker \<Rightarrow> broker) \<Rightarrow> broker \<Rightarrow> bool \<times> broker_out list \<times> broker" where
  "requestActiveSessionRelease other b = requestSpecificSessionRelease (bk_activeSession b) (other b)"

definition handleLEBearerDisconnected :: "(broker \<Rightarrow> broker) \<Rightarrow> broker \<Rightarrow> bool \<times> broker_out list \<times> broker" where
  "handleLEBearerDisconnected other b = requestActiveSessionRelease other b"

definition ReleaseCallToken :: "(broker \<Rightarrow> broker) \<Rightarrow> uint64 \<Rightarrow> broker \<Rightarrow> bool \<times> broker" where
  "ReleaseCallToken other token b =
     (if token = 0 then (False, b)
      else
        case bk_activeSession b of
          None \<Rightarrow> (False, b)
        | Some i \<Rightarrow>
            if as_callToken (the_session b i) \<noteq> token then (False, b)
            else markNormalReleasePending (Some i) False (other b))"

text \<open>The part of \<open>handleSignal\<close> for a transport that became idle, under one lock.\<close>

definition transport_idle :: "object_path \<Rightarrow> broker \<Rightarrow> broker" where
  "transport_idle path b =
     (let b = b\<lparr>bk_acquiring := go_delete path (bk_acquiring b), bk_acquired := go_delete path (bk_acquired b),
                bk_pairing := go_delete path (bk_pairing b)\<rparr>
      in case bk_activeSession b of
           None \<Rightarrow> b
         | Some i \<Rightarrow>
             if \<not> session_uses (the_session b i) path then b
             else
               let b = update_session i (\<lambda>s. s\<lparr>as_idlePaths := go_put path True (as_idlePaths s)\<rparr>) b;
                   active = the_session b i
               in if \<not> (go_flag (as_idlePaths active) (as_sinkPath active) \<and> go_flag (as_idlePaths active) (as_sourcePath active))
                  then b
                  else if as_releasing active then update_session i (\<lambda>s. s\<lparr>as_remoteIdleSeen := True\<rparr>) b
                  else
                    let b = b\<lparr>bk_transportIdleComplete := bk_transportIdleComplete b + 1\<rparr>;
                        b = (if as_normalEndSeen active then b\<lparr>bk_normalReleaseIdle := bk_normalReleaseIdle b + 1\<rparr> else b)
                    in clearActiveSessionLocked i b)"

definition handleSignal :: "signal option \<Rightarrow> broker \<Rightarrow> broker_out list \<times> broker" where
  "handleSignal sig b =
     (case sig of
        None \<Rightarrow> ([], b)
      | Some sig \<Rightarrow>
          if sig_Name sig \<noteq> propertiesInterface @ ''.PropertiesChanged'' \<or> length (sig_Body sig) < 2 then ([], b)
          else if sig_Path sig \<noteq> bk_expectedDevice b \<and> \<not> HasPrefix (sig_Path sig) (bk_expectedDevice b @ ''/'') then ([], b)
          else if as_string (sig_Body sig ! 0) \<noteq> Some transportInterface then ([], b)
          else
            case as_dict (sig_Body sig ! 1) of
              None \<Rightarrow> ([], b)
            | Some changed \<Rightarrow>
                (case as_string (property changed ''State'') of
                   None \<Rightarrow> ([], b)
                 | Some state \<Rightarrow>
                     if state = ''pending'' then ([Start_acquire (sig_Path sig)], b)
                     else if state = ''idle'' then ([], transport_idle (sig_Path sig) b)
                     else ([], b)))"

text \<open>
  The two sections of \<open>runBlueZOnce\<close> that forget everything about transports: with a new connection,
  and when it stops serving one.
\<close>

definition reset_transports :: "broker \<Rightarrow> broker_out list \<times> broker" where
  "reset_transports b =
     (let b = b\<lparr>bk_configured := [], bk_acquiring := [], bk_acquired := [], bk_pairing := []\<rparr>;
          b = signalActiveSessionDone (bk_activeSession b) b;
          b = b\<lparr>bk_activeSession := None\<rparr>
      in closePendingLocked b)"

definition attach_connection :: "object_path \<Rightarrow> conn \<Rightarrow> broker \<Rightarrow> broker_out list \<times> broker" where
  "attach_connection devicePath conn b =
     reset_transports (b\<lparr>bk_expectedDevice := devicePath, bk_connection := Some conn\<rparr>)"

definition detach_endpoints :: "broker \<Rightarrow> broker_out list \<times> broker" where
  "detach_endpoints b =
     reset_transports (b\<lparr>bk_registered := False, bk_advertising := False, bk_discoverable := False\<rparr>)"

section \<open>Watching a session\<close>

text \<open>
  One answer of \<open>Recvmsg\<close>: nothing queued, end of file, an error or a truncated packet, or a packet
  received at a time. \<open>drain\<close> reads until the queue is empty (the end of the list), the peer has closed
  or a packet is bad.
\<close>

datatype receive = Recv_again | Recv_closed | Recv_failed | Recv_packet bytes instant

datatype drained = Drained | Peer_closed | Receive_failed | Protocol_failed

primrec drain :: "(broker \<Rightarrow> broker) \<Rightarrow> session \<Rightarrow> receive list \<Rightarrow> broker \<Rightarrow> drained \<times> broker" where
  "drain other i [] b = (Drained, b)"
| "drain other i (r # rs) b =
     (case r of
        Recv_again \<Rightarrow> (Drained, b)
      | Recv_closed \<Rightarrow> (Peer_closed, b)
      | Recv_failed \<Rightarrow> (Receive_failed, b)
      | Recv_packet packet now \<Rightarrow>
          (case decodeLifecycleMessage packet of
             Inl _ \<Rightarrow> (Protocol_failed, b)
           | Inr (typeID, identity) \<Rightarrow>
               drain other i rs
                 (other (if typeID = lifecycleTypeProgress then snd (recordLifecycleProgress i identity now b)
                         else if typeID = lifecycleTypeNormalEnd then snd (recordLifecycleNormalEnd other i identity b)
                         else b))))"

text \<open>
  What one round of the loop sees: whether the done channel is closed at its beginning, the answer of
  \<open>Poll\<close> (\<open>None\<close> when it failed), the queued packets, the time and the provider's answer.
\<close>

record watch_poll =
  wp_in :: bool
  wp_hup :: bool
  wp_error :: bool

record watch_input =
  wi_done :: bool
  wi_poll :: "watch_poll option"
  wi_queue :: "receive list"
  wi_now :: instant
  wi_provider :: "uint64 \<times> bool"

text \<open>
  The two halves of a round, each with the value of \<open>lifecycleOpen\<close> for the next one or \<open>None\<close> when the
  goroutine returns: the lifecycle socket, then the leases and the call.
\<close>

definition stop_release :: "session \<Rightarrow> broker \<Rightarrow> bool option \<times> broker_out list \<times> broker" where
  "stop_release i b = (let (_, outs, b) = requestSpecificSessionRelease (Some i) b in (None, outs, b))"

definition watch_socket :: "(broker \<Rightarrow> broker) \<Rightarrow> session \<Rightarrow> watch_input \<Rightarrow> bool \<Rightarrow> broker \<Rightarrow> bool option \<times> broker_out list \<times> broker" where
  "watch_socket other i w open_fd b =
     (if \<not> open_fd then (Some False, [], b)
      else
        case wi_poll w of
          None \<Rightarrow> stop_release i b
        | Some p \<Rightarrow>
            if \<not> (wp_in p \<or> wp_hup p \<or> wp_error p) then (Some True, [], b)
            else
              let (outcome, b) = drain other i (wi_queue w) b; b = other b in
              if outcome = Receive_failed then stop_release i b
              else if outcome = Protocol_failed then stop_release i b
              else if wp_error p then stop_release i b
              else if outcome = Peer_closed \<or> wp_hup p then
                let b = (if bk_activeSession b = Some i then b\<lparr>bk_lifecycleHUPs := bk_lifecycleHUPs b + 1\<rparr> else b);
                    b = other b
                in if normalReleasePending i b then (Some False, [], b) else stop_release i (other b)
              else (Some True, [], b))"

text \<open>
  An expired lease. The values of the session are those read under the first lock; \<open>counted\<close> counts the
  time-out.
\<close>

definition lease_expired :: "(broker \<Rightarrow> broker) \<Rightarrow> (broker \<Rightarrow> broker) \<Rightarrow> session \<Rightarrow> bool \<Rightarrow> broker \<Rightarrow> bool option \<times> broker_out list \<times> broker" where
  "lease_expired other counted i open_fd b =
     (if normalReleasePending i b then
        (let (_, outs, b) = beginNormalReleaseWait other (Some i) False (other b) in (Some open_fd, outs, b))
      else
        let b = other b; b = (if session_open b i then counted b else b)
        in stop_release i (other b))"

definition count_start_timeout :: "broker \<Rightarrow> broker" where
  "count_start_timeout b = b\<lparr>bk_lifecycleStartTimeouts := bk_lifecycleStartTimeouts b + 1\<rparr>"

definition count_timeout :: "broker \<Rightarrow> broker" where
  "count_timeout b = b\<lparr>bk_lifecycleTimeouts := bk_lifecycleTimeouts b + 1\<rparr>"

definition start_lease_over :: "broker \<Rightarrow> session \<Rightarrow> instant \<Rightarrow> bool" where
  "start_lease_over b i now \<longleftrightarrow> \<not> as_progressArmed (the_session b i) \<and> bk_progressStartLease b > 0
     \<and> (case as_startedAt (the_session b i) of None \<Rightarrow> False | Some t \<Rightarrow> now - t \<ge> bk_progressStartLease b)"

text \<open>An armed session has a time of its last progress; the zero time is long past.\<close>

definition progress_lease_over :: "broker \<Rightarrow> session \<Rightarrow> instant \<Rightarrow> bool" where
  "progress_lease_over b i now \<longleftrightarrow> as_progressArmed (the_session b i) \<and> bk_progressLease b > 0
     \<and> (case as_lastProgress (the_session b i) of None \<Rightarrow> True | Some t \<Rightarrow> now - t \<ge> bk_progressLease b)"

definition watch_leases :: "(broker \<Rightarrow> broker) \<Rightarrow> session \<Rightarrow> watch_input \<Rightarrow> bool \<Rightarrow> broker \<Rightarrow> bool option \<times> broker_out list \<times> broker" where
  "watch_leases other i w open_fd b =
     (if \<not> (bk_activeSession b = Some i \<and> \<not> as_releaseExhausted (the_session b i)) then (None, [], b)
      else
        let seen = b; b = other b in
        if normalReleaseWaiting i b then (Some open_fd, [], b)
        else if start_lease_over seen i (wi_now w) then lease_expired other count_start_timeout i open_fd (other b)
        else if progress_lease_over seen i (wi_now w) then lease_expired other count_timeout i open_fd (other b)
        else if as_callToken (the_session seen i) \<noteq> 0 then
          let (token, present) = (if bk_hasProvider seen then wi_provider w else (0, False)) in
          if \<not> present \<or> token \<noteq> as_callToken (the_session seen i)
          then (Some open_fd, [], snd (markNormalReleasePending (Some i) False (other b)))
          else (Some open_fd, [], b)
        else (Some open_fd, [], b))"

definition watch_round :: "(broker \<Rightarrow> broker) \<Rightarrow> session \<Rightarrow> watch_input \<Rightarrow> bool \<Rightarrow> broker \<Rightarrow> bool option \<times> broker_out list \<times> broker" where
  "watch_round other i w open_fd b =
     (if wi_done w then (None, [], b)
      else
        case watch_socket other i w open_fd b of
          (None, outs, b) \<Rightarrow> (None, outs, b)
        | (Some open_fd, outs, b) \<Rightarrow>
            let (next_open, outs', b) = watch_leases other i w open_fd (other b) in (next_open, outs @ outs', b))"

text \<open>The goroutine over the rounds it makes; the deferred close of the lifecycle socket is its last effect.\<close>

primrec watchActiveSession :: "(broker \<Rightarrow> broker) \<Rightarrow> session \<Rightarrow> watch_input list \<Rightarrow> bool \<Rightarrow> broker \<Rightarrow> bool \<times> broker_out list \<times> broker" where
  "watchActiveSession other i [] open_fd b = (False, [], b)"
| "watchActiveSession other i (w # ws) open_fd b =
     (case watch_round other i w open_fd b of
        (None, outs, b) \<Rightarrow> (True, outs @ [Close_descriptor (int (as_lifecycleFD (the_session b i)))], b)
      | (Some open_fd, outs, b) \<Rightarrow>
          let (returned, outs', b) = watchActiveSession other i ws open_fd (other b) in (returned, outs @ outs', b))"


section \<open>Phases\<close>

text \<open>
  The life of a session as the broker's own specification of it: it is created, streams, is asked to
  end, waits for the remote side, is released, perhaps in vain, and is gone. No operation moves it
  backwards.
\<close>

datatype phase = Unborn | Streaming | Ending | Waiting | Releasing | Exhausted | Gone

primrec phase_rank :: "phase \<Rightarrow> nat" where
  "phase_rank Unborn = 0" | "phase_rank Streaming = 1" | "phase_rank Ending = 2" | "phase_rank Waiting = 3"
| "phase_rank Releasing = 4" | "phase_rank Exhausted = 5" | "phase_rank Gone = 6"

instantiation phase :: linorder
begin

definition less_eq_phase :: "phase \<Rightarrow> phase \<Rightarrow> bool" where "p \<le> q \<longleftrightarrow> phase_rank p \<le> phase_rank q"
definition less_phase :: "phase \<Rightarrow> phase \<Rightarrow> bool" where "p < q \<longleftrightarrow> phase_rank p < phase_rank q"

instance
proof
  fix p q :: phase
  show "p \<le> q \<Longrightarrow> q \<le> p \<Longrightarrow> p = q" by (cases p; cases q) (simp_all add: less_eq_phase_def)
qed (auto simp: less_eq_phase_def less_phase_def)

end

definition phase_of :: "activeTransportSession \<Rightarrow> phase" where
  "phase_of s = (if as_releaseExhausted s then Exhausted else if as_releasing s then Releasing
     else if as_normalWaitStarted s then Waiting else if as_normalEndSeen s then Ending else Streaming)"

definition session_phase :: "broker \<Rightarrow> session \<Rightarrow> phase" where
  "session_phase b i = (if length (bk_heap b) \<le> i then Unborn else if bk_activeSession b \<noteq> Some i then Gone
     else phase_of (the_session b i))"

text \<open>How often an operation may still start the release of a session in a phase.\<close>

definition budget :: "phase \<Rightarrow> nat" where
  "budget p = (if p < Releasing then 1 else 0)"

definition starts :: "broker_out list \<Rightarrow> session \<Rightarrow> nat" where
  "starts outs i = length (filter (\<lambda>x. x = Start_release i) outs)"

definition active_exists :: "broker \<Rightarrow> bool" where
  "active_exists b \<longleftrightarrow> (case bk_activeSession b of None \<Rightarrow> True | Some i \<Rightarrow> i < length (bk_heap b))"

definition moves_on :: "broker \<Rightarrow> broker \<Rightarrow> bool" where
  "moves_on b b' \<longleftrightarrow> active_exists b' \<and> (\<forall>i. session_phase b i \<le> session_phase b' i)"

definition accounted :: "broker_out list \<Rightarrow> broker \<Rightarrow> broker \<Rightarrow> bool" where
  "accounted outs b b' \<longleftrightarrow> (active_exists b \<longrightarrow> moves_on b b'
     \<and> (\<forall>i. starts outs i + budget (session_phase b' i) \<le> budget (session_phase b i)))"

lemma budget_antimono: "p \<le> q \<Longrightarrow> budget q \<le> budget p"
  by (auto simp: budget_def)

lemma phase_order [simp]:
  "phase_of s \<le> Exhausted" "p \<le> Gone" "Unborn \<le> p" "Streaming \<le> phase_of s"
  by (simp_all add: less_eq_phase_def phase_of_def, (cases p; simp)+)

lemma starts_simps [simp]:
  "starts [] i = 0" "starts (xs @ ys) i = starts xs i + starts ys i"
  "starts (x # xs) i = (if x = Start_release i then Suc (starts xs i) else starts xs i)"
  "starts (map (Release_transport c) ps) i = 0" "starts (map Handoff_out hs) i = 0"
  by (simp_all add: starts_def filter_empty_conv)

lemma accounted_silent: "(active_exists b \<Longrightarrow> moves_on b b') \<Longrightarrow> (\<And>i. starts outs i = 0) \<Longrightarrow> accounted outs b b'"
  by (simp add: accounted_def moves_on_def budget_antimono)

lemma accounted_refl [simp]: "accounted [] b b"
  by (simp add: accounted_def moves_on_def)

lemma accounted_trans:
  assumes "accounted xs b c" "accounted ys c d"
  shows "accounted (xs @ ys) b d"
  unfolding accounted_def
proof
  assume "active_exists b"
  with assms have bc: "moves_on b c" "\<And>i. starts xs i + budget (session_phase c i) \<le> budget (session_phase b i)"
    and cd: "moves_on c d" "\<And>i. starts ys i + budget (session_phase d i) \<le> budget (session_phase c i)"
    by (auto simp: accounted_def moves_on_def)
  have "moves_on b d" using bc(1) cd(1) unfolding moves_on_def by (meson order.trans)
  moreover have "starts (xs @ ys) i + budget (session_phase d i) \<le> budget (session_phase b i)" for i
    using bc(2) [of i] cd(2) [of i] by simp
  ultimately show "moves_on b d \<and> (\<forall>i. starts (xs @ ys) i + budget (session_phase d i) \<le> budget (session_phase b i))" by blast
qed

lemma accounted_frame:
  "bk_heap b' = bk_heap b \<Longrightarrow> bk_activeSession b' = bk_activeSession b \<Longrightarrow> (\<And>i. starts outs i = 0) \<Longrightarrow> accounted outs b b'"
  by (intro accounted_silent) (simp_all add: moves_on_def session_phase_def active_exists_def split: option.splits)

lemma session_phase_update:
  "session_phase (update_session i f b) j =
     (if j = i \<and> i < length (bk_heap b) \<and> bk_activeSession b = Some i then phase_of (f (the_session b i)) else session_phase b j)"
  by (auto simp: session_phase_def update_session_def)

lemma session_phase_active: "bk_activeSession b = Some i \<Longrightarrow> i < length (bk_heap b) \<Longrightarrow> session_phase b i = phase_of (the_session b i)"
  by (simp add: session_phase_def)

lemma active_exists_update [simp]: "active_exists (update_session i f b) = active_exists b"
  by (simp add: active_exists_def update_session_def split: option.split)

lemma accounted_update:
  "phase_of (the_session b i) \<le> phase_of (f (the_session b i)) \<Longrightarrow> accounted [] b (update_session i f b)"
  by (intro accounted_silent) (auto simp: moves_on_def session_phase_update session_phase_active)

lemma accounted_release:
  assumes "session_open b i" "phase_of (f (the_session b i)) = Releasing"
  shows "accounted [Start_release i] b (update_session i f b)"
proof -
  have "phase_of (the_session b i) < Releasing" "bk_activeSession b = Some i"
    using assms(1) by (auto simp: session_open_def phase_of_def less_phase_def)
  moreover from this(2) have "i < length (bk_heap b)" if "active_exists b" using that by (simp add: active_exists_def)
  ultimately show ?thesis
    unfolding accounted_def using assms(2)
    by (auto simp: moves_on_def session_phase_update session_phase_active budget_def)
qed

lemma accounted_clear: "accounted [] b (clearActiveSessionLocked i b)"
  by (intro accounted_silent)
     (auto simp: moves_on_def clearActiveSessionLocked_def Let_def signalActiveSessionDone_def session_phase_def update_session_def active_exists_def)

text \<open>The specification does not look at the other fields.\<close>

lemma session_phase_frame:
  "bk_heap b' = bk_heap b \<Longrightarrow> bk_activeSession b' = bk_activeSession b \<Longrightarrow> session_phase b' = session_phase b \<and> active_exists b' = active_exists b"
  by (auto simp: session_phase_def active_exists_def split: option.split)

lemma accounted_cong:
  assumes "bk_heap b' = bk_heap b" "bk_activeSession b' = bk_activeSession b" "bk_heap c' = bk_heap c" "bk_activeSession c' = bk_activeSession c"
  shows "accounted outs b' c' = accounted outs b c"
  using session_phase_frame [OF assms(1,2)] session_phase_frame [OF assms(3,4)] by (simp add: accounted_def moves_on_def)

lemma accounted_fields [simp]:
  "accounted outs b (c\<lparr>bk_expectedDevice := x1\<rparr>) \<longleftrightarrow> accounted outs b c" "accounted outs (b\<lparr>bk_expectedDevice := x2\<rparr>) c \<longleftrightarrow> accounted outs b c"
  "accounted outs b (c\<lparr>bk_connection := x3\<rparr>) \<longleftrightarrow> accounted outs b c" "accounted outs (b\<lparr>bk_connection := x4\<rparr>) c \<longleftrightarrow> accounted outs b c"
  "accounted outs b (c\<lparr>bk_configured := x5\<rparr>) \<longleftrightarrow> accounted outs b c" "accounted outs (b\<lparr>bk_configured := x6\<rparr>) c \<longleftrightarrow> accounted outs b c"
  "accounted outs b (c\<lparr>bk_acquiring := x7\<rparr>) \<longleftrightarrow> accounted outs b c" "accounted outs (b\<lparr>bk_acquiring := x8\<rparr>) c \<longleftrightarrow> accounted outs b c"
  "accounted outs b (c\<lparr>bk_acquired := x9\<rparr>) \<longleftrightarrow> accounted outs b c" "accounted outs (b\<lparr>bk_acquired := x10\<rparr>) c \<longleftrightarrow> accounted outs b c"
  "accounted outs b (c\<lparr>bk_pairing := x11\<rparr>) \<longleftrightarrow> accounted outs b c" "accounted outs (b\<lparr>bk_pairing := x12\<rparr>) c \<longleftrightarrow> accounted outs b c"
  "accounted outs b (c\<lparr>bk_pending := x13\<rparr>) \<longleftrightarrow> accounted outs b c" "accounted outs (b\<lparr>bk_pending := x14\<rparr>) c \<longleftrightarrow> accounted outs b c"
  "accounted outs b (c\<lparr>bk_registered := x15\<rparr>) \<longleftrightarrow> accounted outs b c" "accounted outs (b\<lparr>bk_registered := x16\<rparr>) c \<longleftrightarrow> accounted outs b c"
  "accounted outs b (c\<lparr>bk_advertising := x17\<rparr>) \<longleftrightarrow> accounted outs b c" "accounted outs (b\<lparr>bk_advertising := x18\<rparr>) c \<longleftrightarrow> accounted outs b c"
  "accounted outs b (c\<lparr>bk_discoverable := x19\<rparr>) \<longleftrightarrow> accounted outs b c" "accounted outs (b\<lparr>bk_discoverable := x20\<rparr>) c \<longleftrightarrow> accounted outs b c"
  "accounted outs b (c\<lparr>bk_nextConfig := x21\<rparr>) \<longleftrightarrow> accounted outs b c" "accounted outs (b\<lparr>bk_nextConfig := x22\<rparr>) c \<longleftrightarrow> accounted outs b c"
  "accounted outs b (c\<lparr>bk_lastGen := x23\<rparr>) \<longleftrightarrow> accounted outs b c" "accounted outs (b\<lparr>bk_lastGen := x24\<rparr>) c \<longleftrightarrow> accounted outs b c"
  "accounted outs b (c\<lparr>bk_handoff := x25\<rparr>) \<longleftrightarrow> accounted outs b c" "accounted outs (b\<lparr>bk_handoff := x26\<rparr>) c \<longleftrightarrow> accounted outs b c"
  "accounted outs b (c\<lparr>bk_lifecycleProgress := x27\<rparr>) \<longleftrightarrow> accounted outs b c" "accounted outs (b\<lparr>bk_lifecycleProgress := x28\<rparr>) c \<longleftrightarrow> accounted outs b c"
  "accounted outs b (c\<lparr>bk_lifecycleStale := x29\<rparr>) \<longleftrightarrow> accounted outs b c" "accounted outs (b\<lparr>bk_lifecycleStale := x30\<rparr>) c \<longleftrightarrow> accounted outs b c"
  "accounted outs b (c\<lparr>bk_lifecycleHUPs := x31\<rparr>) \<longleftrightarrow> accounted outs b c" "accounted outs (b\<lparr>bk_lifecycleHUPs := x32\<rparr>) c \<longleftrightarrow> accounted outs b c"
  "accounted outs b (c\<lparr>bk_lifecycleTimeouts := x33\<rparr>) \<longleftrightarrow> accounted outs b c" "accounted outs (b\<lparr>bk_lifecycleTimeouts := x34\<rparr>) c \<longleftrightarrow> accounted outs b c"
  "accounted outs b (c\<lparr>bk_lifecycleStartTimeouts := x35\<rparr>) \<longleftrightarrow> accounted outs b c" "accounted outs (b\<lparr>bk_lifecycleStartTimeouts := x36\<rparr>) c \<longleftrightarrow> accounted outs b c"
  "accounted outs b (c\<lparr>bk_lifecycleNormalEnds := x37\<rparr>) \<longleftrightarrow> accounted outs b c" "accounted outs (b\<lparr>bk_lifecycleNormalEnds := x38\<rparr>) c \<longleftrightarrow> accounted outs b c"
  "accounted outs b (c\<lparr>bk_normalReleaseWaits := x39\<rparr>) \<longleftrightarrow> accounted outs b c" "accounted outs (b\<lparr>bk_normalReleaseWaits := x40\<rparr>) c \<longleftrightarrow> accounted outs b c"
  "accounted outs b (c\<lparr>bk_normalReleaseIdle := x41\<rparr>) \<longleftrightarrow> accounted outs b c" "accounted outs (b\<lparr>bk_normalReleaseIdle := x42\<rparr>) c \<longleftrightarrow> accounted outs b c"
  "accounted outs b (c\<lparr>bk_normalReleaseTimeouts := x43\<rparr>) \<longleftrightarrow> accounted outs b c" "accounted outs (b\<lparr>bk_normalReleaseTimeouts := x44\<rparr>) c \<longleftrightarrow> accounted outs b c"
  "accounted outs b (c\<lparr>bk_transportIdleComplete := x45\<rparr>) \<longleftrightarrow> accounted outs b c" "accounted outs (b\<lparr>bk_transportIdleComplete := x46\<rparr>) c \<longleftrightarrow> accounted outs b c"
  by (rule accounted_cong; simp)+

lemma update_session_fields [simp]:
  "update_session i f (b\<lparr>bk_lifecycleNormalEnds := x\<rparr>) = (update_session i f b)\<lparr>bk_lifecycleNormalEnds := x\<rparr>"
  by (simp add: update_session_def)

lemma accounted_before: "accounted [] b c \<Longrightarrow> accounted outs c d \<Longrightarrow> accounted outs b d"
  using accounted_trans [of "[]" b c outs d] by simp

lemma accounted_after: "accounted outs b c \<Longrightarrow> accounted [] c d \<Longrightarrow> accounted outs b d"
  using accounted_trans [of outs b c "[]" d] by simp

definition keeps_phase :: "(broker \<Rightarrow> broker) \<Rightarrow> bool" where
  "keeps_phase other \<longleftrightarrow> (\<forall>b. accounted [] b (other b))"

lemma keeps_phaseD [simp]: "keeps_phase other \<Longrightarrow> accounted [] b (other b)"
  by (simp add: keeps_phase_def)

section \<open>Every operation is accounted for\<close>

lemma recordLifecycleProgress_accounted: "accounted [] b (snd (recordLifecycleProgress i p now b))"
proof -
  have "accounted [] b (update_session i (\<lambda>s. s\<lparr>as_progressArmed := True, as_lastProgress := Some now\<rparr>) b)"
    by (rule accounted_update) (simp add: phase_of_def)
  then show ?thesis
    by (simp add: recordLifecycleProgress_def Let_def)
qed

lemma markNormalReleasePending_accounted: "accounted [] b (snd (markNormalReleasePending s e b))"
proof -
  have "accounted [] c (update_session i (\<lambda>s. s\<lparr>as_normalEndSeen := True\<rparr>) c)" for i c
    by (rule accounted_update) (simp add: phase_of_def less_eq_phase_def)
  then show ?thesis
    by (auto simp: markNormalReleasePending_def Let_def split: option.split)
qed

lemma requestSpecificSessionRelease_accounted:
  "requestSpecificSessionRelease s b = (r, outs, b') \<Longrightarrow> accounted outs b b'"
  by (auto simp: requestSpecificSessionRelease_def session_open_def phase_of_def intro!: accounted_release
      split: option.splits if_splits)

lemma stop_release_accounted: "stop_release i b = (r, outs, b') \<Longrightarrow> accounted outs b b' \<and> r = None"
  by (auto simp: stop_release_def Let_def split: prod.splits dest: requestSpecificSessionRelease_accounted)

lemma request_after_other_accounted:
  "keeps_phase other \<Longrightarrow> requestSpecificSessionRelease s (other b) = (r, outs, b') \<Longrightarrow> accounted outs b b'"
  by (rule accounted_before [OF keeps_phaseD requestSpecificSessionRelease_accounted])

lemma beginNormalReleaseWait_accounted:
  assumes "keeps_phase other" "beginNormalReleaseWait other s e b = (r, outs, b')"
  shows "accounted outs b b'"
proof (cases "\<exists>i. s = Some i \<and> session_open b i \<and> \<not> as_normalWaitStarted (the_session b i)")
  case False
  with assms(2) show ?thesis by (auto simp: beginNormalReleaseWait_def Let_def split: option.splits if_splits)
next
  case True
  then obtain i where i: "s = Some i" "session_open b i" "\<not> as_normalWaitStarted (the_session b i)" by blast
  define b1 where "b1 = (if e then b\<lparr>bk_lifecycleNormalEnds := bk_lifecycleNormalEnds b + 1\<rparr> else b)"
  define c where "c = update_session i (\<lambda>s. s\<lparr>as_normalEndSeen := as_normalEndSeen s \<or> e\<rparr>) b1"
  define d where "d = update_session i (\<lambda>s. s\<lparr>as_normalWaitStarted := True\<rparr>) c"
  have b1: "accounted [] b b1" "bk_heap b1 = bk_heap b" by (simp_all add: b1_def)
  have "accounted [] b1 c" "accounted [] c d"
    unfolding c_def d_def by (rule accounted_update, simp add: phase_of_def less_eq_phase_def)+
  then have c: "accounted [] b c" and d: "accounted [] b d" using b1(1) by (blast intro: accounted_before)+
  have eq: "(r, outs, b') = (if bk_normalReleaseWait c \<le> 0 then
      (let (_, outs, b) = requestSpecificSessionRelease (Some i) (other c) in (False, outs, b))
      else (True, [Start_normal_wait i (bk_normalReleaseWait c)], d\<lparr>bk_normalReleaseWaits := bk_normalReleaseWaits d + 1\<rparr>))"
    using assms(2) i b1(2) by (simp add: beginNormalReleaseWait_def Let_def cong: if_cong flip: b1_def c_def d_def)
  obtain r' outs' b'' where q: "requestSpecificSessionRelease (Some i) (other c) = (r', outs', b'')" by (metis surj_pair)
  have "accounted outs' b b''" by (rule accounted_before [OF c request_after_other_accounted [OF assms(1) q]])
  moreover have "accounted [Start_normal_wait i w] b d" for w using d by (simp add: accounted_def)
  ultimately show ?thesis using eq q by (simp split: if_splits)
qed

lemma recordLifecycleNormalEnd_accounted:
  "keeps_phase other \<Longrightarrow> accounted [] b (snd (recordLifecycleNormalEnd other i p b))"
  using accounted_before [OF keeps_phaseD markNormalReleasePending_accounted, of other b "Some i" True]
  by (simp add: recordLifecycleNormalEnd_def)

lemma forceNormalReleaseTimeout_accounted:
  assumes "forceNormalReleaseTimeout i b = (r, outs, b')"
  shows "accounted outs b b'"
proof (cases "session_open b i \<and> as_normalWaitStarted (the_session b i)")
  case True
  have "accounted [Start_release i] b (update_session i (\<lambda>s. s\<lparr>as_releasing := True\<rparr>) b)"
    using True by (intro accounted_release) (auto simp: session_open_def phase_of_def)
  with True assms show ?thesis by (auto simp: forceNormalReleaseTimeout_def session_open_def Let_def)
next
  case False
  with assms show ?thesis by (auto simp: forceNormalReleaseTimeout_def session_open_def split: if_splits)
qed

lemma release_round_frame:
  "release_round answer conn paths succeeded b = (a, s, outs, b') \<Longrightarrow>
     bk_heap b' = bk_heap b \<and> bk_activeSession b' = bk_activeSession b \<and> (\<forall>i. starts outs i = 0)"
  by (induction paths arbitrary: succeeded b a s outs b')
     (force simp: releaseMediaTransport_def Let_def split: if_splits prod.splits)+

lemma release_attempts_frame:
  "release_attempts n answer closes k conn paths succeeded b = (a, outs, b') \<Longrightarrow>
     bk_heap b' = bk_heap b \<and> bk_activeSession b' = bk_activeSession b \<and> (\<forall>i. starts outs i = 0)"
  by (induction n arbitrary: k succeeded b a outs b')
     (force simp: fallbackTransportOwner_def Let_def split: if_splits prod.splits dest: release_round_frame)+

lemma releaseTransportPaths_accounted:
  "releaseTransportPaths answer closes conn paths b = (ok, outs, b') \<Longrightarrow> accounted outs b b'"
  unfolding releaseTransportPaths_def by (blast dest: release_attempts_frame intro: accounted_frame)

lemma releaseActiveSession_accounted:
  assumes "keeps_phase other" "releaseActiveSession answer closes other i b = (outs, b')"
  shows "accounted outs b b'"
proof -
  obtain ok outs1 b1 where r: "releaseTransportPaths answer closes (Some (as_connection (the_session b i)))
            (as_releasePaths (the_session b i)) b = (ok, outs1, b1)" by (metis surj_pair)
  let ?c = "other b1"
  have c: "accounted outs b ?c"
    using accounted_after [OF releaseTransportPaths_accounted [OF r] keeps_phaseD [OF assms(1)]] assms(2) r
    by (simp add: releaseActiveSession_def Let_def)
  have fail: "accounted [] ?c (update_session i (\<lambda>s. s\<lparr>as_releasing := False, as_releaseExhausted := True\<rparr>) ?c)"
    by (rule accounted_update) (simp add: phase_of_def less_eq_phase_def)
  have clear: "accounted [] ?c (clearActiveSessionLocked i (?c\<lparr>bk_transportIdleComplete := bk_transportIdleComplete ?c + 1\<rparr>))"
    using accounted_clear [of "?c\<lparr>bk_transportIdleComplete := bk_transportIdleComplete ?c + 1\<rparr>"] by simp
  have "accounted [] ?c b'"
    using assms(2) r fail clear accounted_clear by (auto simp: releaseActiveSession_def Let_def completeActiveSession_def split: if_splits)
  with c show ?thesis by (rule accounted_after)
qed

lemma ReleaseCallToken_accounted: "keeps_phase other \<Longrightarrow> accounted [] b (snd (ReleaseCallToken other token b))"
  using accounted_before [OF keeps_phaseD markNormalReleasePending_accounted]
  by (simp add: ReleaseCallToken_def split: option.split)

lemma transport_idle_accounted: "accounted [] b (transport_idle path b)"
proof (cases "bk_activeSession b")
  case None
  then show ?thesis by (simp add: transport_idle_def Let_def)
next
  case (Some i)
  define b1 where "b1 = b\<lparr>bk_acquiring := go_delete path (bk_acquiring b), bk_acquired := go_delete path (bk_acquired b),
                bk_pairing := go_delete path (bk_pairing b)\<rparr>"
  define c where "c = update_session i (\<lambda>s. s\<lparr>as_idlePaths := go_put path True (as_idlePaths s)\<rparr>) b1"
  define d where "d = update_session i (\<lambda>s. s\<lparr>as_remoteIdleSeen := True\<rparr>) c"
  have b1: "accounted [] b b1" "bk_activeSession b1 = Some i" using Some by (simp_all add: b1_def)
  have "accounted [] b1 c" "accounted [] c d" unfolding c_def d_def by (rule accounted_update, simp add: phase_of_def)+
  with b1(1) have c: "accounted [] b c" and d: "accounted [] b d" by (blast intro: accounted_before)+
  have "transport_idle path b \<in> {b1, c, d} \<or> (\<exists>x. transport_idle path b = clearActiveSessionLocked i x \<and> accounted [] b x)"
    using b1(2) c unfolding transport_idle_def Let_def b1_def [symmetric] by (auto simp flip: c_def d_def)
  with b1(1) c d show ?thesis using accounted_before [OF _ accounted_clear] by auto
qed

lemma handleSignal_accounted: "handleSignal sig b = (outs, b') \<Longrightarrow> accounted outs b b'"
  using transport_idle_accounted
  by (auto simp: handleSignal_def intro: accounted_frame split: option.splits if_splits)

lemma drain_accounted: "keeps_phase other \<Longrightarrow> accounted [] b (snd (drain other i rs b))"
proof (induction rs arbitrary: b)
  case (Cons r rs)
  have step: "accounted [] b (snd (drain other i rs (other c)))" if "accounted [] b c" for c
    using accounted_before [OF accounted_before [OF that keeps_phaseD [OF Cons.prems]] Cons.IH [OF Cons.prems]] .
  show ?case
  proof (cases r)
    case (Recv_packet packet now)
    then show ?thesis
      by (auto simp: recordLifecycleProgress_accounted recordLifecycleNormalEnd_accounted Cons.prems intro!: step split: sum.split)
  qed simp_all
qed simp

lemma stop_release_after:
  "accounted [] b c \<Longrightarrow> stop_release i c = (r, outs, b') \<Longrightarrow> accounted outs b b'"
  by (blast dest: stop_release_accounted intro: accounted_before)

lemma watch_socket_accounted:
  assumes other: "keeps_phase other" and r: "watch_socket other i w open_fd b = (r, outs, b')"
  shows "accounted outs b b'"
proof -
  obtain outcome b1 where d: "drain other i (wi_queue w) b = (outcome, b1)" by (metis surj_pair)
  have c: "accounted [] b (other b1)"
    using drain_accounted [OF other, of b i "wi_queue w"] d keeps_phaseD [OF other] by (auto intro: accounted_before)
  define h where "h = (if bk_activeSession (other b1) = Some i then (other b1)\<lparr>bk_lifecycleHUPs := bk_lifecycleHUPs (other b1) + 1\<rparr> else other b1)"
  have "accounted [] b h" using c by (simp add: h_def)
  then have h: "accounted [] b (other h)" "accounted [] b (other (other h))"
    using keeps_phaseD [OF other] by (blast intro: accounted_before)+
  have "(r = None \<and> (\<exists>c \<in> {b, other b1, other (other h)}. stop_release i c = (r, outs, b'))) \<or> outs = [] \<and> b' \<in> {b, other b1, other h}"
    using r d unfolding watch_socket_def
    by (auto simp: Let_def stop_release_def split: if_splits option.splits prod.splits simp flip: h_def)
  then show ?thesis using c h accounted_refl stop_release_after by blast
qed

lemma lease_expired_accounted:
  assumes other: "keeps_phase other" and "\<And>c. accounted [] c (counted c)" and r: "lease_expired other counted i open_fd b = (r, outs, b')"
  shows "accounted outs b b'"
proof (cases "normalReleasePending i b")
  case True
  obtain x outs1 b1 where q: "beginNormalReleaseWait other (Some i) False (other b) = (x, outs1, b1)" by (metis surj_pair)
  from accounted_before [OF keeps_phaseD [OF other] beginNormalReleaseWait_accounted [OF other q]] r True q show ?thesis
    by (simp add: lease_expired_def)
next
  case False
  define c where "c = (if session_open (other b) i then counted (other b) else other b)"
  have "accounted [] b c" using assms(2) keeps_phaseD [OF other] by (auto simp: c_def intro: accounted_before)
  then have "accounted [] b (other c)" using keeps_phaseD [OF other] by (rule accounted_before)
  from stop_release_after [OF this] r False show ?thesis by (simp add: lease_expired_def Let_def flip: c_def)
qed

lemma watch_leases_accounted:
  assumes other: "keeps_phase other" and r: "watch_leases other i w open_fd b = (r, outs, b')"
  shows "accounted outs b b'"
proof -
  have b: "accounted [] b (other b)" "accounted [] b (other (other b))"
    using keeps_phaseD [OF other] by (auto intro: accounted_before)
  have lease: "accounted outs b b'" if "lease_expired other counted i open_fd (other (other b)) = (r, outs, b')"
      "\<And>c. accounted [] c (counted c)" for counted
    using accounted_before [OF b(2) lease_expired_accounted [OF other that(2,1)]] .
  have counts: "accounted [] c (count_start_timeout c)" "accounted [] c (count_timeout c)" for c
    by (simp_all add: count_start_timeout_def count_timeout_def)
  have mark: "accounted [] b (snd (markNormalReleasePending (Some i) False (other (other b))))"
    using accounted_before [OF b(2) markNormalReleasePending_accounted] .
  show ?thesis
    using r b mark lease [OF _ counts(1)] lease [OF _ counts(2)] unfolding watch_leases_def Let_def
    by (auto split: if_splits prod.splits)
qed

lemma watch_round_accounted:
  assumes other: "keeps_phase other" and r: "watch_round other i w open_fd b = (r, outs, b')"
  shows "accounted outs b b'"
proof -
  obtain o1 outs1 b1 where s: "watch_socket other i w open_fd b = (o1, outs1, b1)" by (metis surj_pair)
  have b1: "accounted outs1 b (other b1)" "accounted outs1 b b1"
    using accounted_after [OF watch_socket_accounted [OF other s] keeps_phaseD [OF other]] watch_socket_accounted [OF other s] .
  obtain o2 outs2 b2 where l: "watch_leases other i w (the o1) (other b1) = (o2, outs2, b2)" by (metis surj_pair)
  from accounted_trans [OF b1(1) watch_leases_accounted [OF other l]] b1(2) r s l show ?thesis
    by (cases o1) (auto simp: watch_round_def split: if_splits)
qed

lemma watchActiveSession_accounted:
  assumes other: "keeps_phase other" and "watchActiveSession other i ws open_fd b = (r, outs, b')"
  shows "accounted outs b b'"
  using assms(2)
proof (induction ws arbitrary: open_fd b r outs b')
  case (Cons w ws)
  obtain o1 outs1 b1 where s: "watch_round other i w open_fd b = (o1, outs1, b1)" by (metis surj_pair)
  note b1 = watch_round_accounted [OF other s]
  show ?case
  proof (cases o1)
    case None
    then have "outs = outs1 @ [Close_descriptor (int (as_lifecycleFD (the_session b1 i)))]" "b' = b1" using Cons.prems s by auto
    with accounted_trans [OF b1 accounted_frame [of b1 b1 "[Close_descriptor (int (as_lifecycleFD (the_session b1 i)))]"]]
    show ?thesis by simp
  next
    case (Some open1)
    obtain r2 outs2 b2 where l: "watchActiveSession other i ws open1 (other b1) = (r2, outs2, b2)" by (metis surj_pair)
    have "accounted (outs1 @ outs2) b b2"
      using accounted_trans [OF accounted_after [OF b1 keeps_phaseD [OF other]] Cons.IH [OF l]] .
    with Cons.prems s Some l show ?thesis by simp
  qed
qed simp

lemma close_held_accounted: "close_held path b = (outs, b') \<Longrightarrow> accounted outs b b'"
  by (auto simp: close_held_def intro: accounted_frame split: option.splits)

lemma configure_accounted: "configure isValid path direction codec qos b = (ok, outs, b') \<Longrightarrow> accounted outs b b'"
proof -
  assume c: "configure isValid path direction codec qos b = (ok, outs, b')"
  obtain outs1 b1 where h: "close_held path (b\<lparr>bk_nextConfig := bk_nextConfig b + 1\<rparr>) = (outs1, b1)" by (metis surj_pair)
  from close_held_accounted [OF h] c h show ?thesis
    by (auto simp: configure_def Let_def split: if_splits)
qed

lemma clear_accounted: "clear path b = (outs, b') \<Longrightarrow> accounted outs b b'"
proof -
  assume c: "clear path b = (outs, b')"
  obtain outs1 b1 where h: "close_held path b = (outs1, b1)" by (metis surj_pair)
  define b2 where "b2 = b1\<lparr>bk_configured := go_delete path (bk_configured b1), bk_acquiring := go_delete path (bk_acquiring b1),
                bk_acquired := go_delete path (bk_acquired b1), bk_pairing := go_delete path (bk_pairing b1)\<rparr>"
  have b2: "accounted outs1 b b2" using close_held_accounted [OF h] by (simp add: b2_def)
  have "outs = outs1 \<and> (b' = b2 \<or> (\<exists>i. b' = clearActiveSessionLocked i b2))"
    using c h unfolding clear_def Let_def by (auto simp flip: b2_def split: option.splits if_splits)
  with b2 accounted_after [OF b2 accounted_clear] show ?thesis by auto
qed

lemma clearPairingLocked_accounted [simp]: "accounted outs b (clearPairingLocked x y c) \<longleftrightarrow> accounted outs b c"
  by (rule accounted_cong) simp_all

lemma session_published_accounted:
  assumes "bk_heap b' = bk_heap b @ [s]" "bk_activeSession b' = Some (length (bk_heap b))" "phase_of s = Streaming"
    "\<And>i. starts outs i = 0"
  shows "accounted outs b b'"
  using assms by (intro accounted_silent) (auto simp: moves_on_def session_phase_def nth_append active_exists_def)

lemma acquire_publish_accounted:
  assumes "acquire_publish an conn sink source token correlated b = (result, outs, b')"
  shows "accounted outs b b'"
  using assms
proof (cases rule: acquire_publish_cases)
  case (returned g)
  then show ?thesis by simp
next
  case (attempted g g' published houts h)
  have "phase_of (activeSessionForHandoff conn sink source x y l now) = Streaming" for x y l now
    by (simp add: phase_of_def activeSessionForHandoff_def)
  with attempted(5,6) show ?thesis
    by (auto split: sum.splits intro: session_published_accounted accounted_frame)
qed

lemma reset_transports_accounted: "reset_transports b = (outs, b') \<Longrightarrow> accounted outs b b'"
proof -
  assume r: "reset_transports b = (outs, b')"
  have "starts (map (\<lambda>(_, held). Close_descriptor (pt_fd held)) xs) i = 0" for xs :: "(object_path \<times> pendingTransport) list" and i
    by (induction xs) auto
  with r have outs: "starts outs i = 0" for i
    by (auto simp: reset_transports_def closePendingLocked_def Let_def)
  have "bk_activeSession b' = None" "length (bk_heap b') = length (bk_heap b)"
    using r by (auto simp: reset_transports_def closePendingLocked_def Let_def signalActiveSessionDone_def update_session_def split: option.splits)
  with outs show ?thesis by (intro accounted_silent) (auto simp: moves_on_def session_phase_def active_exists_def)
qed

section \<open>Sequences of operations\<close>

datatype session_op =
    Op_publish answers conn pendingTransport pendingTransport uint64 bool
  | Op_configure "object_path \<Rightarrow> bool" object_path direction codec_config transport_qos
  | Op_clear object_path
  | Op_signal "signal option"
  | Op_call_over "broker \<Rightarrow> broker" uint64
  | Op_bearer_lost "broker \<Rightarrow> broker"
  | Op_wait_over bool session
  | Op_release "nat \<Rightarrow> object_path \<Rightarrow> bool" bool "broker \<Rightarrow> broker" session
  | Op_watch "broker \<Rightarrow> broker" session "watch_input list" bool
  | Op_attach object_path conn
  | Op_detach

primrec session_step :: "session_op \<Rightarrow> broker \<Rightarrow> broker_out list \<times> broker" where
  "session_step (Op_publish an conn sink source token correlated) b = snd (acquire_publish an conn sink source token correlated b)"
| "session_step (Op_configure isValid path direction codec qos) b = snd (configure isValid path direction codec qos b)"
| "session_step (Op_clear path) b = clear path b"
| "session_step (Op_signal sig) b = handleSignal sig b"
| "session_step (Op_call_over other token) b = ([], snd (ReleaseCallToken other token b))"
| "session_step (Op_bearer_lost other) b = snd (handleLEBearerDisconnected other b)"
| "session_step (Op_wait_over done_first i) b = waitNormalRelease done_first i b"
| "session_step (Op_release answer closes other i) b = releaseActiveSession answer closes other i b"
| "session_step (Op_watch other i ws open_fd) b = snd (watchActiveSession other i ws open_fd b)"
| "session_step (Op_attach devicePath conn) b = attach_connection devicePath conn b"
| "session_step Op_detach b = detach_endpoints b"

primrec op_keeps_phase :: "session_op \<Rightarrow> bool" where
  "op_keeps_phase (Op_publish an conn sink source token correlated) = True"
| "op_keeps_phase (Op_configure isValid path direction codec qos) = True"
| "op_keeps_phase (Op_clear path) = True"
| "op_keeps_phase (Op_signal sig) = True"
| "op_keeps_phase (Op_call_over other token) = keeps_phase other"
| "op_keeps_phase (Op_bearer_lost other) = keeps_phase other"
| "op_keeps_phase (Op_wait_over done_first i) = True"
| "op_keeps_phase (Op_release answer closes other i) = keeps_phase other"
| "op_keeps_phase (Op_watch other i ws open_fd) = keeps_phase other"
| "op_keeps_phase (Op_attach devicePath conn) = True"
| "op_keeps_phase Op_detach = True"

primrec session_run :: "session_op list \<Rightarrow> broker \<Rightarrow> broker_out list \<times> broker" where
  "session_run [] b = ([], b)"
| "session_run (op # ops) b =
     (let (outs, b) = session_step op b; (outs', b) = session_run ops b in (outs @ outs', b))"

lemma session_step_accounted:
  assumes "op_keeps_phase op" "session_step op b = (outs, b')"
  shows "accounted outs b b'"
proof (cases op)
  case (Op_call_over other token)
  then show ?thesis using assms ReleaseCallToken_accounted [of other b token] by auto
next
  case (Op_attach devicePath conn)
  then show ?thesis
    using assms(2) reset_transports_accounted [of "b\<lparr>bk_expectedDevice := devicePath, bk_connection := Some conn\<rparr>"]
    by (simp add: attach_connection_def)
next
  case Op_detach
  then show ?thesis
    using assms(2) reset_transports_accounted [of "b\<lparr>bk_registered := False, bk_advertising := False, bk_discoverable := False\<rparr>"]
    by (simp add: detach_endpoints_def)
next
  case (Op_wait_over done_first i)
  then show ?thesis using assms(2)
    by (auto simp: waitNormalRelease_def split: if_splits prod.splits dest: forceNormalReleaseTimeout_accounted)
qed (use assms in \<open>auto simp: handleLEBearerDisconnected_def requestActiveSessionRelease_def snd_def split: prod.splits
      intro: acquire_publish_accounted configure_accounted clear_accounted handleSignal_accounted
        request_after_other_accounted releaseActiveSession_accounted watchActiveSession_accounted\<close>)

lemma session_run_accounted:
  "list_all op_keeps_phase ops \<Longrightarrow> session_run ops b = (outs, b') \<Longrightarrow> accounted outs b b'"
proof (induction ops arbitrary: b outs)
  case (Cons op ops)
  obtain o1 b1 where s: "session_step op b = (o1, b1)" by (metis surj_pair)
  obtain o2 b2 where r: "session_run ops b1 = (o2, b2)" by (metis surj_pair)
  from Cons s r accounted_trans [OF session_step_accounted [OF _ s]] show ?case by auto
qed auto


lemma drain_messages:
  assumes "session_open b i" "i < length (bk_heap b)" "list_all (\<lambda>(m, _). lifecycle_ok m) msgs"
  shows "\<exists>b'. drain (\<lambda>b. b) i (map (\<lambda>(m, t). Recv_packet (lifecycle_bytes m) t) msgs @ rs) b = drain (\<lambda>b. b) i rs b'
    \<and> session_open b' i \<and> i < length (bk_heap b')
    \<and> lifecycleProgressMatches (the_session b' i) = lifecycleProgressMatches (the_session b i)
    \<and> (as_normalEndSeen (the_session b' i) \<longleftrightarrow> as_normalEndSeen (the_session b i)
        \<or> list_ex (\<lambda>((typeID, identity), _). typeID = lifecycleTypeNormalEnd \<and> lifecycleProgressMatches (the_session b i) identity) msgs)"
  using assms
proof (induction msgs arbitrary: b)
  case (Cons x msgs)
  obtain ty identity t where x: "x = ((ty, identity), t)" by (metis surj_pair)
  have ok: "lifecycle_ok (ty, identity)" using Cons.prems(3) x by simp
  then have dec: "decodeLifecycleMessage (lifecycle_bytes (ty, identity)) = Inr (ty, identity)" by (simp add: decodeLifecycleMessage_iff)
  have ty: "ty = lifecycleTypeProgress \<or> ty = lifecycleTypeNormalEnd" using ok by (simp add: lifecycle_ok_def)
  define b1 where "b1 = (if ty = lifecycleTypeProgress then snd (recordLifecycleProgress i identity t b)
                         else snd (recordLifecycleNormalEnd (\<lambda>b. b) i identity b))"
  have step: "drain (\<lambda>b. b) i (map (\<lambda>(m, t). Recv_packet (lifecycle_bytes m) t) (x # msgs) @ rs) b
      = drain (\<lambda>b. b) i (map (\<lambda>(m, t). Recv_packet (lifecycle_bytes m) t) msgs @ rs) b1"
    using ty by (auto simp: x dec b1_def)
  have b1: "session_open b1 i" "i < length (bk_heap b1)"
      "lifecycleProgressMatches (the_session b1 i) = lifecycleProgressMatches (the_session b i)"
      "as_normalEndSeen (the_session b1 i) \<longleftrightarrow> as_normalEndSeen (the_session b i)
        \<or> ty = lifecycleTypeNormalEnd \<and> lifecycleProgressMatches (the_session b i) identity"
    using ty Cons.prems(1,2)
    by (auto simp: b1_def recordLifecycleProgress_def recordLifecycleNormalEnd_def markNormalReleasePending_def Let_def session_open_def
        update_session_def lifecycleProgressMatches_def fun_eq_iff)
  from Cons.IH [OF b1(1,2)] Cons.prems(3) b1(3,4) show ?case unfolding step by (auto simp: x)
qed auto

text \<open>A broker with one session, as \<open>acquire\<close> leaves it for the concrete pair.\<close>

definition sample_session :: activeTransportSession where
  "sample_session = activeSessionForHandoff 0 (sample_held DirectionSink) (sample_held DirectionSource)
     (descriptorForPending (sample_held DirectionSink) 5 5 9 True) (descriptorForPending (sample_held DirectionSource) 6 5 9 True) 30 0"

definition sample_active :: broker where
  "sample_active = sample_configured\<lparr>bk_heap := [sample_session], bk_activeSession := Some 0, bk_normalReleaseWait := Second\<rparr>"

definition sample_identity :: lifecycleProgress where
  "sample_identity = \<lparr>lp_BundleID = 5, lp_SinkGeneration = 5, lp_SourceGeneration = 6\<rparr>"

definition sample_close :: watch_input where
  "sample_close = \<lparr>wi_done = False, wi_poll = Some \<lparr>wp_in = True, wp_hup = True, wp_error = False\<rparr>,
     wi_queue = [Recv_packet (lifecycle_bytes (lifecycleTypeNormalEnd, sample_identity)) 7, Recv_closed], wi_now = mediaProgressStartTimeout,
     wi_provider = (9, True)\<rparr>"

lemma sample_active_simps:
  "session_open sample_active 0" "bk_heap sample_active = [sample_session]" "bk_activeSession sample_active = Some 0"
  "active_exists sample_active" "\<not> as_normalEndSeen sample_session" "lifecycleProgressMatches sample_session sample_identity"
  by (simp_all add: sample_active_def session_open_def sample_session_def activeSessionForHandoff_def active_exists_def
      lifecycleProgressMatches_def sample_identity_def descriptorForPending_def Let_def)

section \<open>Properties\<close>

text \<open>
  C9. A session only moves forward. Over any sequence of operations of the broker on its sessions
  (publication, configuration changes, BlueZ's signals, the watching goroutine, the end of a call,
  a lost bearer, elapsed waits, finished releases, a new connection), with anything else of the kind
  happening whenever the mutex is free, no session returns to an earlier phase, and the release of
  its transports is started at most once; for a session already being released, exhausted or gone,
  never.
\<close>

theorem session_released_once:
  assumes "list_all op_keeps_phase ops" "active_exists b" "session_run ops b = (outs, b')"
  shows "session_phase b i \<le> session_phase b' i \<and> starts outs i \<le> (if session_phase b i < Releasing then 1 else 0)"
proof -
  have "moves_on b b'" "starts outs i + budget (session_phase b' i) \<le> budget (session_phase b i)"
    using session_run_accounted [OF assms(1,3)] assms(2) by (simp_all add: accounted_def)
  then show ?thesis by (auto simp: moves_on_def budget_def split: if_splits)
qed

theorem session_released_once_witness:
  "\<exists>outs b'. session_run [Op_bearer_lost (\<lambda>b. b), Op_watch (\<lambda>b. b) 0 [sample_close] True, Op_bearer_lost (\<lambda>b. b)] sample_active = (outs, b')
     \<and> session_phase sample_active 0 \<le> session_phase b' 0 \<and> starts outs 0 \<le> 1 \<and> starts outs 0 = 1"
proof -
  let ?ops = "[Op_bearer_lost (\<lambda>b. b), Op_watch (\<lambda>b. b) 0 [sample_close] True, Op_bearer_lost (\<lambda>b. b)]"
  obtain outs b' where r: "session_run ?ops sample_active = (outs, b')" by (metis surj_pair)
  have keeps: "list_all op_keeps_phase ?ops" by (simp add: keeps_phase_def)
  have "starts (fst (session_run ?ops sample_active)) 0 = 1" by code_simp
  with session_released_once [OF keeps sample_active_simps(4) r, of 0] r show ?thesis by (auto split: if_splits)
qed

text \<open>
  Telling a normal end from an abnormal one. When the telephony process closes the lifecycle socket,
  whatever it wrote before is read first, and the session is left to its orderly end exactly if a
  normal end was recorded before or is among those messages and names this session; otherwise the
  release of the session is started and the goroutine returns. Messages for another session do not
  count.
\<close>

theorem close_classified:
  assumes "session_open b i" "i < length (bk_heap b)" "list_all (\<lambda>(m, _). lifecycle_ok m) msgs"
    and "wi_queue w = map (\<lambda>(m, t). Recv_packet (lifecycle_bytes m) t) msgs @ [Recv_closed]"
    and "wi_poll w = Some \<lparr>wp_in = True, wp_hup = hup, wp_error = False\<rparr>"
    and "watch_socket (\<lambda>b. b) i w True b = (next_open, outs, b')"
  shows "if as_normalEndSeen (the_session b i)
        \<or> list_ex (\<lambda>((typeID, identity), _). typeID = lifecycleTypeNormalEnd \<and> lifecycleProgressMatches (the_session b i) identity) msgs
     then next_open = Some False \<and> outs = [] \<and> session_phase b' i \<in> {Ending, Waiting}
     else next_open = None \<and> outs = [Start_release i] \<and> session_phase b' i = Releasing"
proof -
  from drain_messages [OF assms(1-3), of "[Recv_closed]"] assms(4) obtain b1 where
    d: "drain (\<lambda>b. b) i (wi_queue w) b = (Peer_closed, b1)" and b1: "session_open b1 i" "i < length (bk_heap b1)"
      "as_normalEndSeen (the_session b1 i) \<longleftrightarrow> as_normalEndSeen (the_session b i)
        \<or> list_ex (\<lambda>((typeID, identity), _). typeID = lifecycleTypeNormalEnd \<and> lifecycleProgressMatches (the_session b i) identity) msgs"
    by auto
  define h where "h = b1\<lparr>bk_lifecycleHUPs := bk_lifecycleHUPs b1 + 1\<rparr>"
  have h: "session_open h i" "i < length (bk_heap h)" "the_session h i = the_session b1 i" "bk_activeSession h = Some i"
    using b1 by (simp_all add: h_def session_open_def)
  have "(next_open, outs, b') = (if as_normalEndSeen (the_session b1 i) then (Some False, [], h) else stop_release i h)"
    using assms(5,6) d b1(1) h by (auto simp: watch_socket_def Let_def normalReleasePending_def session_open_def h_def)
  then show ?thesis
    unfolding b1(3) [symmetric] using h
    by (auto simp: stop_release_def requestSpecificSessionRelease_def session_phase_update session_phase_active phase_of_def
        session_open_def split: if_splits)
qed

theorem close_classified_witness:
  "watch_socket (\<lambda>b. b) 0 sample_close True sample_active
     = (Some False, [], snd (snd (watch_socket (\<lambda>b. b) 0 sample_close True sample_active)))"
proof -
  let ?msgs = "[((lifecycleTypeNormalEnd, sample_identity), 7)]"
  obtain next_open outs b' where r: "watch_socket (\<lambda>b. b) 0 sample_close True sample_active = (next_open, outs, b')" by (metis surj_pair)
  have "list_all (\<lambda>(m, _). lifecycle_ok m) ?msgs" by (simp add: lifecycle_ok_def sample_identity_def)
  moreover have "wi_queue sample_close = map (\<lambda>(m, t). Recv_packet (lifecycle_bytes m) t) ?msgs @ [Recv_closed]"
    "wi_poll sample_close = Some \<lparr>wp_in = True, wp_hup = True, wp_error = False\<rparr>"
    by (simp_all add: sample_close_def)
  ultimately show ?thesis
    using close_classified [OF sample_active_simps(1) _ _ _ _ r, of ?msgs True] sample_active_simps r by simp
qed

lemma stop_release_open:
  "session_open b i \<Longrightarrow> i < length (bk_heap b) \<Longrightarrow>
     stop_release i b = (None, [Start_release i], update_session i (\<lambda>s. s\<lparr>as_releasing := True\<rparr>) b)
     \<and> session_phase (update_session i (\<lambda>s. s\<lparr>as_releasing := True\<rparr>) b) i = Releasing"
  by (simp add: stop_release_def requestSpecificSessionRelease_def session_phase_update session_open_def phase_of_def)

lemma releaseActiveSession_ends:
  assumes "bk_activeSession b = Some i" "i < length (bk_heap b)"
  shows "session_phase (snd (releaseActiveSession answer closes (\<lambda>b. b) i b)) i \<in> {Exhausted, Gone}"
proof -
  obtain ok outs b1 where r: "releaseTransportPaths answer closes (Some (as_connection (the_session b i)))
            (as_releasePaths (the_session b i)) b = (ok, outs, b1)" by (metis surj_pair)
  then have b1: "bk_heap b1 = bk_heap b" "bk_activeSession b1 = Some i"
    using release_attempts_frame assms(1) unfolding releaseTransportPaths_def by metis+
  have clear: "session_phase (clearActiveSessionLocked i c) i = Gone" if "bk_activeSession c = Some i" "bk_heap c = bk_heap b" for c
    using that assms(2) by (simp add: clearActiveSessionLocked_def Let_def signalActiveSessionDone_def update_session_def session_phase_def)
  show ?thesis
    using r b1 assms(2)
    by (simp add: releaseActiveSession_def completeActiveSession_def clear session_phase_update phase_of_def)
qed

lemma lease_expired_open:
  assumes "session_open b i" "i < length (bk_heap b)" "\<not> as_normalWaitStarted (the_session b i)"
    and "lease_expired (\<lambda>b. b) counted i open_fd b = (next_open, outs, b')"
    and "\<And>c. bk_heap (counted c) = bk_heap c \<and> bk_activeSession (counted c) = bk_activeSession c"
  shows "i < length (bk_heap b') \<and> bk_activeSession b' = Some i
    \<and> (if as_normalEndSeen (the_session b i) \<and> bk_normalReleaseWait b > 0
      then outs = [Start_normal_wait i (bk_normalReleaseWait b)] \<and> session_phase b' i = Waiting
      else outs = [Start_release i] \<and> session_phase b' i = Releasing)"
proof (cases "as_normalEndSeen (the_session b i)")
  case True
  then have "normalReleasePending i b" using assms(1) by (simp add: normalReleasePending_def session_open_def)
  with assms True show ?thesis
    by (auto simp: lease_expired_def beginNormalReleaseWait_def requestSpecificSessionRelease_def Let_def session_open_def
        update_session_def session_phase_def phase_of_def not_le split: if_splits)
next
  case False
  then have "\<not> normalReleasePending i b" by (simp add: normalReleasePending_def)
  moreover have "session_open (counted b) i" "i < length (bk_heap (counted b))" using assms by (simp_all add: session_open_def)
  ultimately show ?thesis
    using assms(1,2,4) False stop_release_open [of "counted b" i] by (auto simp: lease_expired_def update_session_def session_open_def)
qed

lemma forced_release:
  assumes "session_phase b i = Waiting" "i < length (bk_heap b)" "bk_activeSession b = Some i"
  shows "\<exists>c. waitNormalRelease False i b = ([Start_release i], c) \<and> session_phase c i = Releasing
    \<and> i < length (bk_heap c) \<and> bk_activeSession c = Some i"
  using assms
  by (auto simp: waitNormalRelease_def forceNormalReleaseTimeout_def Let_def session_phase_def phase_of_def update_session_def split: if_splits)

text \<open>
  C18. An abandoned session comes to its end. When no media progress was reported for the length of the
  lease, the round of the watching goroutine starts the release, or, if the call has ended normally
  and a wait is configured, the bounded wait; when that wait is over without the remote side
  having finished, the release is started; and a release, whatever BlueZ answers, leaves the session
  gone or marked as exhausted.
\<close>

theorem abandoned_session_ends:
  assumes "session_open b i" "i < length (bk_heap b)" "\<not> as_normalWaitStarted (the_session b i)"
    and "start_lease_over b i (wi_now w) \<or> progress_lease_over b i (wi_now w)"
    and "watch_leases (\<lambda>b. b) i w open_fd b = (next_open, outs, b')"
  shows "let waits = as_normalEndSeen (the_session b i) \<and> bk_normalReleaseWait b > 0;
             (outs', b'') = (if waits then waitNormalRelease False i b' else ([], b'))
         in outs @ outs' = (if waits then [Start_normal_wait i (bk_normalReleaseWait b)] else []) @ [Start_release i]
            \<and> session_phase b'' i = Releasing
            \<and> session_phase (snd (releaseActiveSession answer closes (\<lambda>b. b) i b'')) i \<in> {Exhausted, Gone}"
proof -
  have "bk_activeSession b = Some i" "\<not> as_releaseExhausted (the_session b i)" "\<not> normalReleaseWaiting i b"
    using assms(1,3) by (simp_all add: session_open_def normalReleaseWaiting_def)
  with assms(4,5) obtain counted where "lease_expired (\<lambda>b. b) counted i open_fd b = (next_open, outs, b')"
      "counted = count_start_timeout \<or> counted = count_timeout"
    by (auto simp: watch_leases_def Let_def split: if_splits)
  with lease_expired_open [OF assms(1-3), of counted] have b': "i < length (bk_heap b')" "bk_activeSession b' = Some i"
    "if as_normalEndSeen (the_session b i) \<and> bk_normalReleaseWait b > 0
      then outs = [Start_normal_wait i (bk_normalReleaseWait b)] \<and> session_phase b' i = Waiting
      else outs = [Start_release i] \<and> session_phase b' i = Releasing"
    by (auto simp: count_start_timeout_def count_timeout_def)
  show ?thesis
  proof (cases "as_normalEndSeen (the_session b i) \<and> bk_normalReleaseWait b > 0")
    case True
    with forced_release [OF _ b'(1,2)] b'(3) obtain c where "waitNormalRelease False i b' = ([Start_release i], c)"
        "session_phase c i = Releasing" "i < length (bk_heap c)" "bk_activeSession c = Some i" by auto
    with True b'(3) releaseActiveSession_ends [of c i answer closes] show ?thesis by auto
  next
    case False
    with b' releaseActiveSession_ends [of b' i answer closes] show ?thesis by auto
  qed
qed

theorem abandoned_session_ends_witness:
  "let b = sample_active; (next_open, outs, b') = watch_leases (\<lambda>b. b) 0 sample_close True b
   in outs = [Start_release 0] \<and> session_phase b' 0 = Releasing
      \<and> session_phase (snd (releaseActiveSession (\<lambda>_ _. False) False (\<lambda>b. b) 0 b')) 0 \<in> {Exhausted, Gone}"
proof -
  obtain next_open outs b' where r: "watch_leases (\<lambda>b. b) 0 sample_close True sample_active = (next_open, outs, b')" by (metis surj_pair)
  have "start_lease_over sample_active 0 (wi_now sample_close)" by code_simp
  moreover have "\<not> as_normalWaitStarted sample_session" by (simp add: sample_session_def activeSessionForHandoff_def)
  ultimately show ?thesis
    using abandoned_session_ends [OF sample_active_simps(1) _ _ _ r, of "\<lambda>_ _. False" False] sample_active_simps r by simp
qed

end
