(* ===== verification/Broker_Serve.thy ===== *)
theory Broker_Serve
  imports Broker_Session
begin

text \<open>
  Serving one connection to BlueZ (\<open>runBlueZOnce\<close> of \<open>internal/bluez/broker.go\<close>): registering the
  endpoints, the targeted advertisement and the event loop that stops and rearms it, with the hold
  that keeps it down during a call taken on the handset, and \<open>Run\<close>, which repeats all this.

  BlueZ's answers are arguments. The events of the loop form a list; what the rest of the program
  does to the broker between two of them is the event \<open>Ev_other\<close>. Where the list ends, the context is
  cancelled. The functions registered with \<open>defer\<close> run when the inner function returns, in the reverse
  of the order in which they were registered.
\<close>

section \<open>Registered objects\<close>

definition PACSinkUUID :: string where "PACSinkUUID = ''00002bc9-0000-1000-8000-00805f9b34fb''"
definition PACSourceUUID :: string where "PACSourceUUID = ''00002bcb-0000-1000-8000-00805f9b34fb''"
definition ASCSUUID :: string where "ASCSUUID = ''0000184e-0000-1000-8000-00805f9b34fb''"
definition PACSUUID :: string where "PACSUUID = ''00001850-0000-1000-8000-00805f9b34fb''"
definition CASUUID :: string where "CASUUID = ''00001853-0000-1000-8000-00805f9b34fb''"
definition TMASUUID :: string where "TMASUUID = ''00001855-0000-1000-8000-00805f9b34fb''"
definition VCSUUID :: string where "VCSUUID = ''00001844-0000-1000-8000-00805f9b34fb''"
definition TMAPRoleCT :: string where "TMAPRoleCT = ''ct''"
definition HeadsetAppearance :: uint16 where "HeadsetAppearance = 0x0942"

definition sinkEndpointPath :: object_path where "sinkEndpointPath = ''/callbridge/leaudio/sink''"
definition sourceEndpointPath :: object_path where "sourceEndpointPath = ''/callbridge/leaudio/source''"

definition advertisementProperties :: properties where
  "advertisementProperties =
     [(''Type'', V_string ''peripheral''),
      (''ServiceUUIDs'', V_strings [ASCSUUID, PACSUUID, CASUUID, TMASUUID, VCSUUID]),
      (''ServiceData'', V_dict [(ASCSUUID, V_bytes [1, 0, 0, 0, 0, 0]), (CASUUID, V_bytes [1]), (TMASUUID, V_bytes [2, 0])]),
      (''Appearance'', V_uint16 HeadsetAppearance),
      (''Discoverable'', V_bool True),
      (''DiscoverableTimeout'', V_uint16 0),
      (''LocalName'', V_string ''Callbridge-Asterisk''),
      (''SecondaryChannel'', V_string ''1M'')]"

definition endpointProperties :: "string \<Rightarrow> properties" where
  "endpointProperties uuid =
     [(''UUID'', V_string uuid), (''Codec'', V_byte LC3Codec), (''Capabilities'', V_bytes LC3Capabilities),
      (''Metadata'', V_bytes [3, 1, 2, 0]), (''Locations'', V_uint32 FrontLeftLocation),
      (''SupportedContext'', V_uint16 SupportedContexts), (''Context'', V_uint16 SupportedContexts),
      (''Framing'', V_byte 0), (''PHY'', V_byte 2), (''Retransmissions'', V_byte 2),
      (''SupportedFeatures'', V_dict [(TMASUUID, V_strings [TMAPRoleCT])])]"

section \<open>The bearer\<close>

definition readLEBearerConnected :: "variant reply \<Rightarrow> bool option" where
  "readLEBearerConnected answer = (case answer of Reply v \<Rightarrow> as_bool v | _ \<Rightarrow> None)"

text \<open>
  \<open>clock i\<close> is the \<open>i\<close>-th look at the clock, \<open>reads i\<close> the answer of the \<open>i\<close>-th read. The result is whether
  the link is known to be gone; not returning is \<open>None\<close>.
\<close>

definition resetTimeout :: duration where "resetTimeout = 5 * Second"
definition resetPoll :: duration where "resetPoll = 200 * Millisecond"

partial_function (option) reset_poll :: "(nat \<Rightarrow> instant) \<Rightarrow> (nat \<Rightarrow> variant reply) \<Rightarrow> nat \<Rightarrow> bool option" where
  "reset_poll clock reads i =
     (if \<not> clock (Suc i) < clock 0 + resetTimeout then Some False
      else
        case readLEBearerConnected (reads i) of
          None \<Rightarrow> Some False
        | Some connected \<Rightarrow> if \<not> connected then Some True else reset_poll clock reads (Suc i))"

declare reset_poll.simps [code]

definition resetLEBearer :: "bool \<Rightarrow> (nat \<Rightarrow> instant) \<Rightarrow> (nat \<Rightarrow> variant reply) \<Rightarrow> bool option" where
  "resetLEBearer disconnects clock reads = (if \<not> disconnects then Some False else reset_poll clock reads 0)"

definition leBearerConnectionChanged :: "signal option \<Rightarrow> string \<Rightarrow> bool \<times> bool" where
  "leBearerConnectionChanged sig expectedDevice =
     (case sig of
        None \<Rightarrow> (False, False)
      | Some sig \<Rightarrow>
          if sig_Name sig \<noteq> propertiesInterface @ ''.PropertiesChanged'' \<or> sig_Path sig \<noteq> expectedDevice
             \<or> length (sig_Body sig) < 2
          then (False, False)
          else if as_string (sig_Body sig ! 0) \<noteq> Some leBearerInterface then (False, False)
          else
            case as_dict (sig_Body sig ! 1) of
              None \<Rightarrow> (False, False)
            | Some changed \<Rightarrow>
                (case as_bool (property changed ''Connected'') of
                   None \<Rightarrow> (False, False)
                 | Some connected \<Rightarrow> (connected, True)))"

definition bluezNameLost :: "signal option \<Rightarrow> bool" where
  "bluezNameLost sig =
     (case sig of
        None \<Rightarrow> False
      | Some sig \<Rightarrow>
          if sig_Name sig \<noteq> ''org.freedesktop.DBus.NameOwnerChanged'' \<or> length (sig_Body sig) < 3 then False
          else if as_string (sig_Body sig ! 0) \<noteq> Some bluezBusName then False
          else as_string (sig_Body sig ! 2) = Some [])"

definition DropLEBearer :: "bool \<Rightarrow> (nat \<Rightarrow> instant) \<Rightarrow> (nat \<Rightarrow> variant reply) \<Rightarrow> broker \<Rightarrow> bool option" where
  "DropLEBearer disconnects clock reads b =
     (if bk_connection b = None \<or> bk_expectedDevice b = [] then Some False
      else resetLEBearer disconnects clock reads)"

section \<open>The advertisement\<close>

definition HoldAdvertisement :: "bool \<Rightarrow> broker \<Rightarrow> broker" where
  "HoldAdvertisement hold b =
     (let changed = (bk_advertisementHold b \<noteq> hold);
          b = b\<lparr>bk_advertisementHold := hold\<rparr>
      in if \<not> changed \<or> hold then b else b\<lparr>bk_rearmRequest := True\<rparr>)"

definition advertisementHeld :: "broker \<Rightarrow> bool" where
  "advertisementHeld b = bk_advertisementHold b"

text \<open>The method \<open>Release\<close> of the exported advertisement, called by BlueZ.\<close>

definition advertisement_Release :: "broker \<Rightarrow> broker" where
  "advertisement_Release b = b\<lparr>bk_advertising := False, bk_discoverable := False\<rparr>"

datatype serve_out =
    Register_endpoint object_path properties
  | Unregister_endpoint object_path
  | Register_advertisement
  | Unregister_advertisement
  | Disconnect_device
  | Close_bus
  | Broker_effect broker_out

text \<open>The variable \<open>advertisementRegistered\<close> of the closure and the broker; the first component of a result is success.\<close>

type_synonym serve_state = "bool \<times> broker"

definition setAdvertisement :: "bool \<Rightarrow> bool \<Rightarrow> serve_state \<Rightarrow> bool \<times> serve_out list \<times> serve_state" where
  "setAdvertisement accepts enable = (\<lambda>(registered, b).
     if enable = registered then (True, [], (registered, b))
     else
       let outs = [if enable then Register_advertisement else Unregister_advertisement] in
       if \<not> accepts then (False, outs, (registered, b))
       else (True, outs, (enable, b\<lparr>bk_advertising := enable, bk_discoverable := enable\<rparr>)))"

section \<open>The event loop\<close>

datatype serve_stop =
    Stopped_cancelled | Stopped_handoff "string option" | Stopped_rearm_read | Stopped_advertisement
  | Stopped_bus | Stopped_signals | Stopped_name_lost | Stopped_setup string

datatype serve_event =
    Ev_handoff "string option"
  | Ev_rearm "variant reply" bool
  | Ev_bus_closed
  | Ev_signal "signal option" bool
  | Ev_other "broker \<Rightarrow> broker"

text \<open>
  The boolean of an event is BlueZ's answer to the advertisement call it may lead to. A rearm event
  needs a request in the channel and takes it.
\<close>

definition set_and_go_on :: "bool \<Rightarrow> bool \<Rightarrow> serve_state \<Rightarrow> serve_stop option \<times> serve_out list \<times> serve_state" where
  "set_and_go_on accepts enable s =
     (let (ok, outs, s) = setAdvertisement accepts enable s in (if ok then None else Some Stopped_advertisement, outs, s))"

definition on_rearm :: "variant reply \<Rightarrow> bool \<Rightarrow> serve_state \<Rightarrow> serve_stop option \<times> serve_out list \<times> serve_state" where
  "on_rearm answer accepts = (\<lambda>(registered, b).
     if \<not> bk_rearmRequest b then (None, [], (registered, b))
     else
       let b = b\<lparr>bk_rearmRequest := False\<rparr> in
       case readLEBearerConnected answer of
         None \<Rightarrow> (Some Stopped_rearm_read, [], (registered, b))
       | Some connected \<Rightarrow>
           if connected \<or> advertisementHeld b then (None, [], (registered, b))
           else set_and_go_on accepts True (registered, b))"

definition on_signal :: "string \<Rightarrow> signal option \<Rightarrow> bool \<Rightarrow> serve_state \<Rightarrow> serve_stop option \<times> serve_out list \<times> serve_state" where
  "on_signal devicePath sig accepts = (\<lambda>(registered, b).
     if sig = None then (Some Stopped_signals, [], (registered, b))
     else if bluezNameLost sig then (Some Stopped_name_lost, [], (registered, b))
     else
       let (connected, matched) = leBearerConnectionChanged sig devicePath in
       if matched then
         (if connected then set_and_go_on accepts False (registered, b)
          else
            let (_, outs, b) = handleLEBearerDisconnected (\<lambda>b. b) b in
            if advertisementHeld b then (None, map Broker_effect outs, (registered, b))
            else
              let (stop, outs', s) = set_and_go_on accepts True (registered, b)
              in (stop, map Broker_effect outs @ outs', s))
       else
         let (outs, b) = handleSignal sig b in (None, map Broker_effect outs, (registered, b)))"

definition serve_event :: "string \<Rightarrow> serve_event \<Rightarrow> serve_state \<Rightarrow> serve_stop option \<times> serve_out list \<times> serve_state" where
  "serve_event devicePath ev s =
     (case ev of
        Ev_handoff err \<Rightarrow> (Some (Stopped_handoff err), [], s)
      | Ev_rearm answer accepts \<Rightarrow> on_rearm answer accepts s
      | Ev_bus_closed \<Rightarrow> (Some Stopped_bus, [], s)
      | Ev_signal sig accepts \<Rightarrow> on_signal devicePath sig accepts s
      | Ev_other f \<Rightarrow> (None, [], (fst s, f (snd s))))"

primrec serve_loop :: "string \<Rightarrow> serve_event list \<Rightarrow> serve_state \<Rightarrow> serve_stop \<times> serve_out list \<times> serve_state" where
  "serve_loop devicePath [] s = (Stopped_cancelled, [], s)"
| "serve_loop devicePath (ev # evs) s =
     (case serve_event devicePath ev s of
        (Some stop, outs, s) \<Rightarrow> (stop, outs, s)
      | (None, outs, s) \<Rightarrow> let (stop, outs', s) = serve_loop devicePath evs s in (stop, outs @ outs', s))"

section \<open>One connection\<close>

record setup_answers =
  sa_connects :: bool
  sa_unix_fds :: bool
  sa_objects :: "managed_objects reply"
  sa_connection :: conn
  sa_export_sink :: bool
  sa_export_source :: bool
  sa_register_sink :: bool
  sa_register_source :: bool
  sa_export_advertisement :: bool
  sa_export_properties :: bool
  sa_match_transports :: bool
  sa_match_name :: bool
  sa_bearer :: "variant reply"
  sa_disconnects :: bool
  sa_clock :: "nat \<Rightarrow> instant"
  sa_reads :: "nat \<Rightarrow> variant reply"
  sa_advertises :: bool
  sa_unadvertises :: bool

text \<open>From the initial state of the bearer on: the advertisement, unless the phone stays connected, and the loop.\<close>

definition initially_connected :: "setup_answers \<Rightarrow> bool option" where
  "initially_connected sa =
     (case readLEBearerConnected (sa_bearer sa) of
        None \<Rightarrow> None
      | Some False \<Rightarrow> Some False
      | Some True \<Rightarrow> map_option Not (resetLEBearer (sa_disconnects sa) (sa_clock sa) (sa_reads sa)))"

definition serve_bearer :: "setup_answers \<Rightarrow> string \<Rightarrow> serve_event list \<Rightarrow> broker \<Rightarrow> serve_stop \<times> serve_out list \<times> serve_state" where
  "serve_bearer sa devicePath evs b =
     (case initially_connected sa of
        None \<Rightarrow> (Stopped_setup ''read initial LE bearer state'', [], (False, b))
      | Some leConnected \<Rightarrow>
          let reset = (if readLEBearerConnected (sa_bearer sa) = Some True then [Disconnect_device] else []);
              (ok, outs, s) = (if leConnected then (True, [], (False, b)) else setAdvertisement (sa_advertises sa) True (False, b))
          in if \<not> ok then (Stopped_setup ''register targeted LE Audio advertisement'', reset @ outs, s)
             else let (stop, outs', s) = serve_loop devicePath evs s in (stop, reset @ outs @ outs', s))"

text \<open>With both endpoints registered; the deferred calls take the advertisement down and forget all transports.\<close>

definition serve_registered :: "setup_answers \<Rightarrow> string \<Rightarrow> serve_event list \<Rightarrow> broker \<Rightarrow> serve_stop \<times> serve_out list \<times> broker" where
  "serve_registered sa devicePath evs b =
     (let b = b\<lparr>bk_registered := True\<rparr>;
          (stop, outs, b) =
            (if \<not> sa_export_advertisement sa then (Stopped_setup ''export LE Audio advertisement'', [], b)
             else if \<not> sa_export_properties sa then (Stopped_setup ''export LE Audio advertisement properties'', [], b)
             else if \<not> sa_match_transports sa then (Stopped_setup ''subscribe to LE Audio transport state'', [], b)
             else if \<not> sa_match_name sa then (Stopped_setup ''subscribe to BlueZ bus name'', [], b)
             else
               let (stop, outs, s) = serve_bearer sa devicePath evs b;
                   (_, outs', s) = setAdvertisement (sa_unadvertises sa) False s
               in (stop, outs @ outs', snd s));
          (outs', b) = detach_endpoints b
      in (stop, outs @ map Broker_effect outs', b))"

definition serve_endpoints :: "setup_answers \<Rightarrow> string \<Rightarrow> serve_event list \<Rightarrow> broker \<Rightarrow> serve_stop \<times> serve_out list \<times> broker" where
  "serve_endpoints sa devicePath evs b =
     (let sink = Register_endpoint sinkEndpointPath (endpointProperties PACSinkUUID);
          source = Register_endpoint sourceEndpointPath (endpointProperties PACSourceUUID)
      in if \<not> sa_export_sink sa then (Stopped_setup ''export LE Audio sink'', [], b)
         else if \<not> sa_export_source sa then (Stopped_setup ''export LE Audio source'', [], b)
         else if \<not> sa_register_sink sa then (Stopped_setup ''register LE Audio sink'', [sink], b)
         else if \<not> sa_register_source sa
         then (Stopped_setup ''register LE Audio source'', [sink, source, Unregister_endpoint sinkEndpointPath], b)
         else
           let (stop, outs, b) = serve_registered sa devicePath evs b
           in (stop, [sink, source] @ outs @ [Unregister_endpoint sourceEndpointPath, Unregister_endpoint sinkEndpointPath], b))"

definition runBlueZOnce :: "setup_answers \<Rightarrow> serve_event list \<Rightarrow> broker \<Rightarrow> serve_stop \<times> serve_out list \<times> broker" where
  "runBlueZOnce sa evs b =
     (if \<not> sa_connects sa then (Stopped_setup ''connect system bus'', [], b)
      else if \<not> sa_unix_fds sa then (Stopped_setup ''system bus lacks Unix FD passing'', [Close_bus], b)
      else
        case resolveDevicePath (sa_objects sa) (bk_adapter b) (bk_expectedAddress b) of
          None \<Rightarrow> (Stopped_setup ''resolve LE Audio device'', [Close_bus], b)
        | Some devicePath \<Rightarrow>
            let (outs, b) = attach_connection devicePath (sa_connection sa) b;
                (stop, outs', b) = serve_endpoints sa devicePath evs b
            in (stop, map Broker_effect outs @ outs' @ [Close_bus], b\<lparr>bk_connection := None\<rparr>))"

section \<open>Repeating\<close>

text \<open>
  One turn of \<open>Run\<close>: the answers and events of the connection, whether the context is cancelled when it
  returns, and how the wait before the next turn ends.
\<close>

datatype run_wait = Wait_elapsed | Wait_cancelled | Wait_handoff "string option"

datatype run_error = Run_stop_handoff string | Run_shutdown_timeout | Run_handoff_stopped "string option"

definition waitHandoffExit :: "string option option \<Rightarrow> run_error option" where
  "waitHandoffExit result =
     (case result of
        Some None \<Rightarrow> None
      | Some (Some err) \<Rightarrow> Some (Run_stop_handoff err)
      | None \<Rightarrow> Some Run_shutdown_timeout)"

definition next_backoff :: "duration \<Rightarrow> duration" where
  "next_backoff backoff = (if backoff < 30 * Second then backoff * 2 else backoff)"

primrec run_turns :: "string option option \<Rightarrow> (setup_answers \<times> serve_event list \<times> bool \<times> run_wait) list \<Rightarrow> duration \<Rightarrow> broker
    \<Rightarrow> run_error option \<times> duration list \<times> serve_out list \<times> broker" where
  "run_turns exit [] backoff b = (waitHandoffExit exit, [], [], b)"
| "run_turns exit (turn # turns) backoff b =
     (let (sa, evs, cancelled, wait) = turn;
          (stop, outs, b) = runBlueZOnce sa evs b
      in if cancelled then
           (case stop of Stopped_handoff _ \<Rightarrow> (None, [], outs, b) | _ \<Rightarrow> (waitHandoffExit exit, [], outs, b))
         else
           case stop of
             Stopped_handoff err \<Rightarrow> (Some (Run_handoff_stopped err), [], outs, b)
           | _ \<Rightarrow>
               (case wait of
                  Wait_cancelled \<Rightarrow> (waitHandoffExit exit, [backoff], outs, b)
                | Wait_handoff err \<Rightarrow> (Some (Run_handoff_stopped err), [backoff], outs, b)
                | Wait_elapsed \<Rightarrow>
                    let (result, waits, outs', b) = run_turns exit turns (next_backoff backoff) b
                    in (result, backoff # waits, outs @ outs', b)))"

definition broker_Run :: "string option option \<Rightarrow> (setup_answers \<times> serve_event list \<times> bool \<times> run_wait) list \<Rightarrow> broker
    \<Rightarrow> run_error option \<times> duration list \<times> serve_out list \<times> broker" where
  "broker_Run exit turns b = run_turns exit turns Second b"


section \<open>Resetting the link ends\<close>

lemma resetLEBearer_returns:
  assumes "\<And>i. clock i + resetPoll \<le> clock (Suc i)"
  shows "\<exists>r. resetLEBearer disconnects clock reads = Some r"
proof -
  have "0 < resetPoll" by (simp add: resetPoll_def)
  with assms late_enough [of resetPoll clock 1 resetTimeout] obtain n where "1 \<le> n" "clock 0 + resetTimeout \<le> clock n" by blast
  then obtain m where m: "clock 0 + resetTimeout \<le> clock (Suc m)" by (cases n) auto
  have "\<exists>r. reset_poll clock reads 0 = Some r"
  proof (rule polling_returns [of _ m])
    show "reset_poll clock reads j = reset_poll clock reads (Suc j) \<or> (\<exists>r. reset_poll clock reads j = Some r)" for j
      unfolding reset_poll.simps [of clock reads j] by (auto split: option.split)
    show "\<exists>r. reset_poll clock reads m = Some r" using m by (subst reset_poll.simps) auto
  qed simp
  then show ?thesis by (auto simp: resetLEBearer_def)
qed

section \<open>The advertisement in the loop\<close>

lemma broker_effects [simp]: "Register_advertisement \<notin> set (map Broker_effect outs)" by auto

text \<open>Fields an operation of the session part leaves alone.\<close>

lemma session_ops_hold [simp]:
  "bk_advertisementHold (update_session i f b) = bk_advertisementHold b"
  "bk_advertisementHold (clearActiveSessionLocked i b) = bk_advertisementHold b"
  "bk_advertisementHold (transport_idle path b) = bk_advertisementHold b"
  by (simp_all add: update_session_def clearActiveSessionLocked_def signalActiveSessionDone_def transport_idle_def Let_def split: option.split)

lemma request_hold: "requestSpecificSessionRelease s b = (r, outs, b') \<Longrightarrow> bk_advertisementHold b' = bk_advertisementHold b"
  by (auto simp: requestSpecificSessionRelease_def split: option.splits if_splits)

lemma handleSignal_hold: "handleSignal sig b = (outs, b') \<Longrightarrow> bk_advertisementHold b' = bk_advertisementHold b"
  by (auto simp: handleSignal_def split: option.splits if_splits)

definition keeps_hold :: "serve_event \<Rightarrow> bool" where
  "keeps_hold ev \<longleftrightarrow> (\<forall>f b. ev = Ev_other f \<longrightarrow> bk_advertisementHold b \<longrightarrow> bk_advertisementHold (f b))"

lemma setAdvertisement_hold:
  "setAdvertisement accepts enable s = (ok, outs, s') \<Longrightarrow> bk_advertisementHold (snd s') = bk_advertisementHold (snd s)
     \<and> (\<not> enable \<longrightarrow> Register_advertisement \<notin> set outs)"
  by (cases s) (auto simp: setAdvertisement_def Let_def split: if_splits)

lemma on_signal_held:
  assumes "bk_advertisementHold b" "on_signal devicePath sig accepts (registered, b) = (stop, outs, s')"
  shows "bk_advertisementHold (snd s') \<and> Register_advertisement \<notin> set outs"
proof -
  obtain x o1 b1 where d: "handleLEBearerDisconnected (\<lambda>b. b) b = (x, o1, b1)" by (metis surj_pair)
  obtain o2 b2 where h: "handleSignal sig b = (o2, b2)" by (metis surj_pair)
  obtain ok o3 s3 where a: "setAdvertisement accepts False (registered, b) = (ok, o3, s3)" by (metis surj_pair)
  have "bk_advertisementHold b1" "bk_advertisementHold b2"
    using d h assms(1) request_hold handleSignal_hold by (auto simp: handleLEBearerDisconnected_def requestActiveSessionRelease_def)
  with assms setAdvertisement_hold [OF a] d h a show ?thesis
    by (auto simp: on_signal_def Let_def set_and_go_on_def advertisementHeld_def split: if_splits prod.splits)
qed

lemma serve_event_held:
  assumes "bk_advertisementHold (snd s)" "keeps_hold ev" "serve_event devicePath ev s = (stop, outs, s')"
  shows "bk_advertisementHold (snd s') \<and> Register_advertisement \<notin> set outs"
proof (cases ev)
  case (Ev_rearm answer accepts)
  then show ?thesis using assms
    by (cases s) (auto simp: serve_event_def on_rearm_def Let_def advertisementHeld_def split: if_splits option.splits)
next
  case (Ev_signal sig accepts)
  then show ?thesis using assms on_signal_held [of "snd s" devicePath sig accepts "fst s" stop outs s'] by (simp add: serve_event_def)
qed (use assms in \<open>auto simp: serve_event_def keeps_hold_def\<close>)

lemma serve_loop_held:
  assumes "bk_advertisementHold (snd s)" "list_all keeps_hold evs" "serve_loop devicePath evs s = (stop, outs, s')"
  shows "Register_advertisement \<notin> set outs"
  using assms
proof (induction evs arbitrary: s outs)
  case (Cons ev evs)
  obtain st o1 s1 where e: "serve_event devicePath ev s = (st, o1, s1)" by (metis surj_pair)
  obtain st2 o2 s2 where l: "serve_loop devicePath evs s1 = (st2, o2, s2)" by (metis surj_pair)
  from serve_event_held [OF _ _ e] Cons.prems Cons.IH [of s1 o2] e l show ?case by (cases st) auto
qed simp

section \<open>Cleaning up\<close>

definition forgotten :: "broker \<Rightarrow> bool" where
  "forgotten b \<longleftrightarrow> bk_configured b = [] \<and> bk_acquiring b = [] \<and> bk_acquired b = [] \<and> bk_pairing b = [] \<and> bk_pending b = []
     \<and> bk_activeSession b = None"

lemma reset_transports_forgotten: "forgotten (snd (reset_transports b))"
  by (simp add: forgotten_def reset_transports_def closePendingLocked_def signalActiveSessionDone_def update_session_def Let_def
      split: option.split)

text \<open>The endpoint calls among the effects, in order.\<close>

definition endpoint_calls :: "serve_out list \<Rightarrow> (bool \<times> object_path) list" where
  "endpoint_calls outs = concat (map (\<lambda>x. case x of Register_endpoint p _ \<Rightarrow> [(True, p)] | Unregister_endpoint p \<Rightarrow> [(False, p)] | _ \<Rightarrow> []) outs)"

lemma endpoint_calls_simps [simp]:
  "endpoint_calls [] = []" "endpoint_calls (xs @ ys) = endpoint_calls xs @ endpoint_calls ys"
  "endpoint_calls (Register_endpoint p ps # xs) = (True, p) # endpoint_calls xs"
  "endpoint_calls (Unregister_endpoint p # xs) = (False, p) # endpoint_calls xs"
  "endpoint_calls (Register_advertisement # xs) = endpoint_calls xs" "endpoint_calls (Unregister_advertisement # xs) = endpoint_calls xs"
  "endpoint_calls (Disconnect_device # xs) = endpoint_calls xs" "endpoint_calls (Close_bus # xs) = endpoint_calls xs"
  "endpoint_calls (Broker_effect x # xs) = endpoint_calls xs" "endpoint_calls (map Broker_effect bs) = []"
  by (simp_all add: endpoint_calls_def concat_eq_Nil_conv)

lemma setAdvertisement_endpoints: "setAdvertisement accepts enable s = (ok, outs, s') \<Longrightarrow> endpoint_calls outs = []"
  by (cases s) (auto simp: setAdvertisement_def Let_def split: if_splits)

lemma serve_event_endpoints: "serve_event devicePath ev s = (stop, outs, s') \<Longrightarrow> endpoint_calls outs = []"
  by (cases s)
     (auto simp: serve_event_def on_rearm_def on_signal_def set_and_go_on_def Let_def
       dest: setAdvertisement_endpoints split: serve_event.splits if_splits option.splits prod.splits)

lemma serve_loop_endpoints: "serve_loop devicePath evs s = (stop, outs, s') \<Longrightarrow> endpoint_calls outs = []"
proof (induction evs arbitrary: s outs stop s')
  case (Cons ev evs)
  obtain st o1 s1 where e: "serve_event devicePath ev s = (st, o1, s1)" by (metis surj_pair)
  obtain st2 o2 s2 where l: "serve_loop devicePath evs s1 = (st2, o2, s2)" by (metis surj_pair)
  from Cons.prems e l serve_event_endpoints [OF e] Cons.IH [OF l] show ?case by (cases st) auto
qed simp

lemma serve_bearer_endpoints: "serve_bearer sa devicePath evs b = (stop, outs, s') \<Longrightarrow> endpoint_calls outs = []"
  by (auto simp: serve_bearer_def Let_def dest: setAdvertisement_endpoints serve_loop_endpoints split: option.splits if_splits prod.splits)

lemma detach_endpoints_clean:
  "forgotten (snd (detach_endpoints b)) \<and> \<not> bk_registered (snd (detach_endpoints b))
     \<and> \<not> bk_advertising (snd (detach_endpoints b)) \<and> \<not> bk_discoverable (snd (detach_endpoints b))"
  using reset_transports_forgotten [of "b\<lparr>bk_registered := False, bk_advertising := False, bk_discoverable := False\<rparr>"]
  by (auto simp: detach_endpoints_def reset_transports_def closePendingLocked_def signalActiveSessionDone_def update_session_def Let_def
      split: option.split)

lemma serve_registered_clean:
  assumes "serve_registered sa devicePath evs b = (stop, outs, b')"
  shows "endpoint_calls outs = [] \<and> forgotten b' \<and> \<not> bk_registered b' \<and> \<not> bk_advertising b' \<and> \<not> bk_discoverable b'"
proof -
  obtain st o1 s1 where e: "serve_bearer sa devicePath evs (b\<lparr>bk_registered := True\<rparr>) = (st, o1, s1)" by (metis surj_pair)
  obtain ok o2 s2 where a: "setAdvertisement (sa_unadvertises sa) False s1 = (ok, o2, s2)" by (metis surj_pair)
  have "\<exists>b1 d. detach_endpoints b1 = (d, b') \<and> (outs = map Broker_effect d \<or> outs = o1 @ o2 @ map Broker_effect d)"
    using assms e a by (auto simp: serve_registered_def Let_def split: if_splits prod.splits)
  then obtain b1 d where d: "detach_endpoints b1 = (d, b')" "outs = map Broker_effect d \<or> outs = o1 @ o2 @ map Broker_effect d" by blast
  with serve_bearer_endpoints [OF e] setAdvertisement_endpoints [OF a] detach_endpoints_clean [of b1] show ?thesis by auto
qed

definition sample_setup :: setup_answers where
  "sample_setup = \<lparr>sa_connects = True, sa_unix_fds = True,
     sa_objects = Reply [(''/org/bluez/hci0/dev_1'', [(''org.bluez.Device1'',
        [(''Adapter'', V_path ''/org/bluez/hci0''), (''Address'', V_string ''00:11:22:33:44:55'')])])],
     sa_connection = 1, sa_export_sink = True, sa_export_source = True, sa_register_sink = True, sa_register_source = True,
     sa_export_advertisement = True, sa_export_properties = True, sa_match_transports = True, sa_match_name = True,
     sa_bearer = Reply (V_bool False), sa_disconnects = True, sa_clock = (\<lambda>i. int i * resetPoll), sa_reads = (\<lambda>_. Reply (V_bool False)),
     sa_advertises = True, sa_unadvertises = True\<rparr>"

section \<open>Properties\<close>

text \<open>
  C20. While the advertisement is held it is not registered again. From any state of the event loop in
  which the hold is set, and as long as the rest of the program does not end the hold, no event,
  whether a lost link, a leftover rearm request or any other signal, makes the loop register the
  advertisement.
\<close>

theorem held_advertisement_stays_down:
  assumes "bk_advertisementHold b" "list_all keeps_hold evs" "serve_loop devicePath evs (registered, b) = (stop, outs, s')"
  shows "Register_advertisement \<notin> set outs"
  by (rule serve_loop_held [OF _ assms(2,3)]) (simp add: assms(1))

theorem held_advertisement_stays_down_witness:
  "\<exists>stop outs s'. serve_loop ''/d'' [Ev_signal (Some \<lparr>sig_Name = propertiesInterface @ ''.PropertiesChanged'', sig_Path = ''/d'',
        sig_Body = [V_string leBearerInterface, V_dict [(''Connected'', V_bool False)]]\<rparr>) True]
      (False, HoldAdvertisement True sample_active) = (stop, outs, s')
     \<and> outs = [Broker_effect (Start_release 0)] \<and> Register_advertisement \<notin> set outs"
proof -
  let ?evs = "[Ev_signal (Some \<lparr>sig_Name = propertiesInterface @ ''.PropertiesChanged'', sig_Path = ''/d'',
        sig_Body = [V_string leBearerInterface, V_dict [(''Connected'', V_bool False)]]\<rparr>) True]"
  obtain stop outs s' where r: "serve_loop ''/d'' ?evs (False, HoldAdvertisement True sample_active) = (stop, outs, s')" by (metis surj_pair)
  have "bk_advertisementHold (HoldAdvertisement True sample_active)" by (simp add: HoldAdvertisement_def Let_def)
  moreover have "list_all keeps_hold ?evs" by (simp add: keeps_hold_def)
  ultimately have "Register_advertisement \<notin> set outs" using r by (rule held_advertisement_stays_down)
  moreover have "fst (snd (serve_loop ''/d'' ?evs (False, HoldAdvertisement True sample_active))) = [Broker_effect (Start_release 0)]" by code_simp
  ultimately show ?thesis using r by auto
qed

text \<open>
  Ending the hold brings the advertisement back: the request it leaves in the channel makes the
  loop register the advertisement, if the phone is still away and BlueZ accepts it, and record it
  as advertising.
\<close>

theorem hold_release_rearms:
  assumes "bk_advertisementHold b" "readLEBearerConnected answer = Some False"
  shows "\<exists>b'. serve_event devicePath (Ev_rearm answer True) (False, HoldAdvertisement False b) = (None, [Register_advertisement], (True, b'))
     \<and> bk_advertising b' \<and> bk_discoverable b' \<and> \<not> bk_rearmRequest b'"
  using assms
  by (simp add: serve_event_def on_rearm_def HoldAdvertisement_def advertisementHeld_def set_and_go_on_def setAdvertisement_def Let_def)

theorem hold_release_rearms_witness:
  "\<exists>b'. serve_event ''/d'' (Ev_rearm (Reply (V_bool False)) True) (False, HoldAdvertisement False (HoldAdvertisement True sample_active))
       = (None, [Register_advertisement], (True, b')) \<and> bk_advertising b'"
proof -
  have "bk_advertisementHold (HoldAdvertisement True sample_active)" by (simp add: HoldAdvertisement_def Let_def)
  moreover have "readLEBearerConnected (Reply (V_bool False)) = Some False" by code_simp
  ultimately show ?thesis using hold_release_rearms [of "HoldAdvertisement True sample_active"] by blast
qed



text \<open>
  C22. Two gaps in the handling of the advertisement. A new connection registers it whenever the phone
  is away, also while it is held; and once BlueZ has released it on its own, a lost link no longer
  brings it back, because the loop still takes it for registered.
\<close>

theorem advertisement_gaps:
  assumes "initially_connected sa = Some False" "leBearerConnectionChanged sig devicePath = (False, True)" "\<not> bluezNameLost sig"
  shows "Register_advertisement \<in> set (fst (snd (serve_bearer sa devicePath evs (HoldAdvertisement True b))))
    \<and> (let (stop, outs, (registered, b')) = serve_event devicePath (Ev_signal sig accepts) (True, advertisement_Release b)
       in Register_advertisement \<notin> set outs \<and> registered \<and> \<not> bk_advertising b')"
proof
  show "Register_advertisement \<in> set (fst (snd (serve_bearer sa devicePath evs (HoldAdvertisement True b))))"
    using assms(1) by (simp add: serve_bearer_def setAdvertisement_def Let_def split: prod.split)
  obtain x o1 b1 where d: "handleLEBearerDisconnected (\<lambda>b. b) (advertisement_Release b) = (x, o1, b1)" by (metis surj_pair)
  have "\<not> bk_advertising b1"
    using d by (auto simp: handleLEBearerDisconnected_def requestActiveSessionRelease_def requestSpecificSessionRelease_def
        advertisement_Release_def update_session_def split: option.splits if_splits)
  moreover have "sig \<noteq> None" using assms(2) by (cases sig) (auto simp: leBearerConnectionChanged_def)
  ultimately show "let (stop, outs, (registered, b')) = serve_event devicePath (Ev_signal sig accepts) (True, advertisement_Release b)
       in Register_advertisement \<notin> set outs \<and> registered \<and> \<not> bk_advertising b'"
    using assms(2,3) d by (auto simp: serve_event_def on_signal_def set_and_go_on_def setAdvertisement_def advertisementHeld_def Let_def)
qed

theorem advertisement_gaps_witness:
  "Register_advertisement \<in> set (fst (snd (serve_bearer sample_setup ''/d'' [] (HoldAdvertisement True sample_active))))"
proof -
  let ?sig = "Some \<lparr>sig_Name = propertiesInterface @ ''.PropertiesChanged'', sig_Path = ''/d'',
        sig_Body = [V_string leBearerInterface, V_dict [(''Connected'', V_bool False)]]\<rparr>"
  have "initially_connected sample_setup = Some False" "leBearerConnectionChanged ?sig ''/d'' = (False, True)" "\<not> bluezNameLost ?sig"
    by code_simp+
  then show ?thesis using advertisement_gaps [of sample_setup ?sig "''/d''" "[]" sample_active True] by blast
qed

end
