(* ===== verification/Go_Std.thy ===== *)
theory Go_Std
  imports Callbridge_Prelude
begin

text \<open>
  What the message side of the bridge uses of the Go standard library beyond the prelude:
  \<open>unicode/utf8\<close> (strings as sequences of runes), the searching and splitting functions of
  \<open>strings\<close>, number conversion of \<open>strconv\<close>, \<open>bufio.Scanner\<close>, \<open>encoding/hex\<close> and
  \<open>crypto/sha256\<close>. The lemmas say that decoding inverts encoding, that splitting loses nothing,
  and how long the printed forms are.
\<close>

section \<open>UTF-8\<close>

type_synonym rune = nat

definition RuneError :: rune where "RuneError = 0xFFFD"

definition valid_rune :: "rune \<Rightarrow> bool" where
  "valid_rune r \<longleftrightarrow> r \<le> 0x10FFFF \<and> \<not> (0xD800 \<le> r \<and> r \<le> 0xDFFF)"

text \<open>The byte values of the encoding of a rune; an invalid rune is encoded as the error rune.\<close>

definition encode_units :: "rune \<Rightarrow> nat list" where
  "encode_units r =
     (if r < 0x80 then [r]
      else if r < 0x800 then [0xC0 + r div 64, 0x80 + r mod 64]
      else if \<not> valid_rune r then [0xEF, 0xBF, 0xBD]
      else if r < 0x10000 then [0xE0 + r div 4096, 0x80 + r div 64 mod 64, 0x80 + r mod 64]
      else [0xF0 + r div 262144, 0x80 + r div 4096 mod 64, 0x80 + r div 64 mod 64, 0x80 + r mod 64])"

definition cont_unit :: "nat \<Rightarrow> bool" where
  "cont_unit b \<longleftrightarrow> 0x80 \<le> b \<and> b \<le> 0xBF"

text \<open>The range of the second byte depends on the first: no overlong forms, no surrogates.\<close>

definition second_unit :: "nat \<Rightarrow> nat \<Rightarrow> bool" where
  "second_unit a b \<longleftrightarrow>
     (if a = 0xE0 then 0xA0 else if a = 0xF0 then 0x90 else 0x80) \<le> b
     \<and> b \<le> (if a = 0xED then 0x9F else if a = 0xF4 then 0x8F else 0xBF)"

fun decode_units :: "nat list \<Rightarrow> rune \<times> nat" where
  "decode_units [] = (RuneError, 0)"
| "decode_units (a # us) =
     (if a < 0x80 then (a, 1)
      else if 0xC2 \<le> a \<and> a \<le> 0xDF then
        (case us of b # _ \<Rightarrow> if cont_unit b then ((a - 0xC0) * 64 + (b - 0x80), 2) else (RuneError, 1)
         | _ \<Rightarrow> (RuneError, 1))
      else if 0xE0 \<le> a \<and> a \<le> 0xEF then
        (case us of b # c # _ \<Rightarrow>
           if second_unit a b \<and> cont_unit c
           then ((a - 0xE0) * 4096 + (b - 0x80) * 64 + (c - 0x80), 3) else (RuneError, 1)
         | _ \<Rightarrow> (RuneError, 1))
      else if 0xF0 \<le> a \<and> a \<le> 0xF4 then
        (case us of b # c # d # _ \<Rightarrow>
           if second_unit a b \<and> cont_unit c \<and> cont_unit d
           then ((a - 0xF0) * 262144 + (b - 0x80) * 4096 + (c - 0x80) * 64 + (d - 0x80), 4)
           else (RuneError, 1)
         | _ \<Rightarrow> (RuneError, 1))
      else (RuneError, 1))"

definition EncodeRune :: "rune \<Rightarrow> string" where
  "EncodeRune r = map char_of (encode_units r)"

definition DecodeRune :: "string \<Rightarrow> rune \<times> nat" where
  "DecodeRune s = decode_units (map of_char (take 4 s))"

text \<open>\<open>utf8.RuneLen\<close>, for the runes that a decoder yields.\<close>

definition RuneLen :: "rune \<Rightarrow> nat" where
  "RuneLen r = length (EncodeRune r)"

lemma decode_units_width: "us \<noteq> [] \<Longrightarrow> 1 \<le> snd (decode_units us) \<and> snd (decode_units us) \<le> length us"
  by (cases us) (auto split: list.split)

lemma DecodeRune_width:
  "s \<noteq> [] \<Longrightarrow> 1 \<le> snd (DecodeRune s) \<and> snd (DecodeRune s) \<le> length s"
  using decode_units_width [of "map of_char (take 4 s)"] by (auto simp: DecodeRune_def)

text \<open>\<open>[]rune(s)\<close>, \<open>string(rs)\<close> and \<open>utf8.ValidString(s)\<close>.\<close>

function runes :: "string \<Rightarrow> rune list" where
  "runes s = (if s = [] then [] else fst (DecodeRune s) # runes (drop (snd (DecodeRune s)) s))"
  by auto
termination by (relation "measure length") (use DecodeRune_width in \<open>auto simp: Suc_le_eq\<close>)

declare runes.simps [simp del]

definition string_of_runes :: "rune list \<Rightarrow> string" where
  "string_of_runes rs = concat (map EncodeRune rs)"

function ValidString :: "string \<Rightarrow> bool" where
  "ValidString s \<longleftrightarrow> (if s = [] then True
     else DecodeRune s \<noteq> (RuneError, 1) \<and> ValidString (drop (snd (DecodeRune s)) s))"
  by auto
termination by (relation "measure length") (use DecodeRune_width in \<open>auto simp: Suc_le_eq\<close>)

declare ValidString.simps [simp del]

lemma runes_Nil [simp]: "runes [] = []"
  by (simp add: runes.simps)

lemma runes_eq_Nil [simp]: "runes s = [] \<longleftrightarrow> s = []"
  by (subst runes.simps) simp

lemma ValidString_Nil [simp]: "ValidString []"
  by (simp add: ValidString.simps)

lemma string_of_runes_simps [simp]:
  "string_of_runes [] = []" "string_of_runes (r # rs) = EncodeRune r @ string_of_runes rs"
  "string_of_runes (rs @ qs) = string_of_runes rs @ string_of_runes qs"
  by (simp_all add: string_of_runes_def)

subsection \<open>Decoding and encoding are inverse\<close>

lemma length_encode_units: "1 \<le> length (encode_units r) \<and> length (encode_units r) \<le> 4"
  by (simp add: encode_units_def)

lemma RuneLen_bounds: "1 \<le> RuneLen r" "RuneLen r \<le> 4"
  using length_encode_units by (simp_all add: RuneLen_def EncodeRune_def)

lemma encode_units_byte: "u \<in> set (encode_units r) \<Longrightarrow> u < 256"
  by (auto simp: encode_units_def valid_rune_def split: if_splits)

lemma two_units: "r < 0x800 \<Longrightarrow> (r div 64) * 64 + r mod 64 = r" for r :: nat
  by simp

lemma three_units: "(r div 4096) * 4096 + (r div 64 mod 64) * 64 + r mod 64 = r" for r :: nat
proof -
  have "r div 4096 * 64 + r div 64 mod 64 = r div 64"
    using div_mult_mod_eq [of "r div 64" 64] by (simp add: div_mult2_eq [symmetric])
  then have "(r div 4096 * 64 + r div 64 mod 64) * 64 + r mod 64 = r"
    using div_mult_mod_eq [of r 64] by simp
  then show ?thesis by (simp add: algebra_simps)
qed

lemma four_units:
  "(r div 262144) * 262144 + (r div 4096 mod 64) * 4096 + (r div 64 mod 64) * 64 + r mod 64 = r" for r :: nat
proof -
  have "r div 262144 * 64 + r div 4096 mod 64 = r div 4096"
    using div_mult_mod_eq [of "r div 4096" 64] by (simp add: div_mult2_eq [symmetric])
  then have "(r div 262144 * 64 + r div 4096 mod 64) * 4096 + (r div 64 mod 64) * 64 + r mod 64 = r"
    using three_units [of r] by simp
  then show ?thesis by (simp add: algebra_simps)
qed

lemma decode_two: "0x80 \<le> r \<Longrightarrow> r < 0x800 \<Longrightarrow>
    decode_units ((0xC0 + r div 64) # (0x80 + r mod 64) # us) = (r, 2)"
proof -
  assume r: "0x80 \<le> r" "r < 0x800"
  then have "2 \<le> r div 64" "r div 64 < 32" by auto
  moreover have "r mod 64 < 64" by simp
  ultimately show ?thesis using two_units [OF r(2)] by (simp add: cont_unit_def)
qed

lemma decode_three:
  assumes "0x800 \<le> r" "r < 0x10000" "valid_rune r"
  shows "decode_units ((0xE0 + r div 4096) # (0x80 + r div 64 mod 64) # (0x80 + r mod 64) # us) = (r, 3)"
proof -
  have a: "r div 4096 < 16" using assms by auto
  have b: "r div 64 mod 64 \<le> 63" and c: "r mod 64 \<le> 63"
    by (simp_all add: less_Suc_eq_le [symmetric])
  have lo: "32 \<le> r div 64 mod 64" if "r div 4096 = 0" using that assms by auto
  have hi: "r div 64 mod 64 < 32" if "r div 4096 = 13"
  proof (rule ccontr)
    assume "\<not> ?thesis"
    then have "0xD800 \<le> r" "r \<le> 0xDFFF" using that three_units [of r] b c by linarith+
    with assms(3) show False by (simp add: valid_rune_def)
  qed
  show ?thesis
    using a b c lo hi three_units [of r] by (auto simp: second_unit_def cont_unit_def)
qed

lemma decode_four:
  assumes "0x10000 \<le> r" "r \<le> 0x10FFFF"
  shows "decode_units ((0xF0 + r div 262144) # (0x80 + r div 4096 mod 64) # (0x80 + r div 64 mod 64)
           # (0x80 + r mod 64) # us) = (r, 4)"
proof -
  have a: "r div 262144 < 5" using assms by auto
  have b: "r div 4096 mod 64 \<le> 63" "r div 64 mod 64 \<le> 63" "r mod 64 \<le> 63"
    by (simp_all add: less_Suc_eq_le [symmetric])
  have lo: "16 \<le> r div 4096 mod 64" if "r div 262144 = 0"
  proof -
    have "r < 262144" using that by (auto simp: div_eq_0_iff)
    then have "r div 4096 < 64" "16 \<le> r div 4096" using assms by auto
    then show ?thesis by simp
  qed
  have hi: "r div 4096 mod 64 < 16" if "r div 262144 = 4"
    using that four_units [of r] assms(2) b by linarith
  show ?thesis
    using a b lo hi four_units [of r] by (auto simp: second_unit_def cont_unit_def)
qed

lemma decode_encode_units: "valid_rune r \<Longrightarrow> decode_units (encode_units r @ us) = (r, length (encode_units r))"
  using decode_two [of r us] decode_three [of r us] decode_four [of r us]
  by (auto simp: encode_units_def valid_rune_def simp del: decode_units.simps(2))
     (simp_all)

lemma split64: "z < 64 \<Longrightarrow> (q * 64 + z) div 64 = q" "z < 64 \<Longrightarrow> (q * 64 + z) mod 64 = z" for q z :: nat
  by simp_all

lemma encode_two:
  assumes "2 \<le> x" "x < 32" "y < 64"
  shows "valid_rune (x * 64 + y) \<and> encode_units (x * 64 + y) = [0xC0 + x, 0x80 + y]"
proof -
  have "(x * 64 + y) div 64 = x" "(x * 64 + y) mod 64 = y" using assms by simp_all
  with assms show ?thesis by (simp add: encode_units_def valid_rune_def)
qed

lemma encode_three:
  assumes "x < 16" "y < 64" "z < 64" "x = 0 \<Longrightarrow> 32 \<le> y" "x = 13 \<Longrightarrow> y < 32"
  defines "r \<equiv> x * 4096 + y * 64 + z"
  shows "valid_rune r \<and> encode_units r = [0xE0 + x, 0x80 + y, 0x80 + z]"
proof -
  have r: "r = (x * 64 + y) * 64 + z" by (simp add: r_def algebra_simps)
  have d: "r div 64 = x * 64 + y" "r mod 64 = z"
    using split64 [OF assms(3), of "x * 64 + y"] by (simp_all only: r)
  have e: "r div 4096 = x" using d(1) assms(2) div_mult2_eq [of r 64 64] by simp
  have b: "2048 \<le> r" "r < 65536" using assms(1-4) by (cases "x = 0"; simp add: r_def)+
  have v: "valid_rune r"
  proof -
    consider "x < 13" | "x = 13" | "13 < x" by linarith
    then show ?thesis using assms(1-3,5) by cases (auto simp: valid_rune_def r_def)
  qed
  show ?thesis using b v d e assms(2) by (simp add: encode_units_def)
qed

lemma encode_four:
  assumes "x < 5" "y < 64" "z < 64" "w < 64" "x = 0 \<Longrightarrow> 16 \<le> y" "x = 4 \<Longrightarrow> y < 16"
  defines "r \<equiv> x * 262144 + y * 4096 + z * 64 + w"
  shows "valid_rune r \<and> encode_units r = [0xF0 + x, 0x80 + y, 0x80 + z, 0x80 + w]"
proof -
  have r: "r = ((x * 64 + y) * 64 + z) * 64 + w" by (simp add: r_def algebra_simps)
  have d: "r div 64 = (x * 64 + y) * 64 + z" "r mod 64 = w"
    using split64 [OF assms(4), of "(x * 64 + y) * 64 + z"] by (simp_all only: r)
  have e: "r div 4096 = x * 64 + y" using d(1) assms(3) div_mult2_eq [of r 64 64] by simp
  have f: "r div 262144 = x" using e assms(2) div_mult2_eq [of r 4096 64] by simp
  have b: "65536 \<le> r" using assms(5) by (cases "x = 0"; simp add: r_def)
  have h: "r \<le> 0x10FFFF"
  proof (cases "x = 4")
    case True
    with assms(2,3,4,6) show ?thesis by (simp add: r_def)
  next
    case False
    with assms(1-4) show ?thesis by (simp add: r_def)
  qed
  have g: "r div 64 mod 64 = z" unfolding d(1) by (rule split64(2) [OF assms(3)])
  show ?thesis using b h d(2) e f g assms(2) by (simp add: encode_units_def valid_rune_def)
qed

text \<open>A decoded rune is either an undecodable byte or the rune that the bytes read encode.\<close>

lemma decode_units_cases:
  assumes "us \<noteq> []"
  shows "decode_units us = (RuneError, 1)
    \<or> valid_rune (fst (decode_units us)) \<and> encode_units (fst (decode_units us)) = take (snd (decode_units us)) us"
proof (cases us)
  case (Cons a vs)
  consider "a < 0x80" | "0xC2 \<le> a" "a \<le> 0xDF" | "0xE0 \<le> a" "a \<le> 0xEF" | "0xF0 \<le> a" "a \<le> 0xF4"
    | "a < 0xC2" "0x80 \<le> a" | "0xF4 < a" by linarith
  then show ?thesis
  proof cases
    case 1
    with Cons show ?thesis by (simp add: encode_units_def valid_rune_def)
  next
    case 2
    with Cons show ?thesis using encode_two [of "a - 0xC0" "hd vs - 0x80"]
      by (auto simp: cont_unit_def split: list.split)
  next
    case 3
    with Cons show ?thesis using encode_three [of "a - 0xE0" "hd vs - 0x80" "hd (tl vs) - 0x80"]
      by (auto simp: cont_unit_def second_unit_def split: list.split if_splits)
  next
    case 4
    with Cons show ?thesis
      using encode_four [of "a - 0xF0" "hd vs - 0x80" "hd (tl vs) - 0x80" "hd (tl (tl vs)) - 0x80"]
      by (auto simp: cont_unit_def second_unit_def split: list.split if_splits)
  qed (use Cons in auto)
qed (use assms in simp)

lemma map_of_char_of [simp]: "(\<And>u. u \<in> set us \<Longrightarrow> u < 256) \<Longrightarrow> map (of_char \<circ> char_of) us = (us :: nat list)"
  by (induction us) auto

lemma DecodeRune_EncodeRune: "valid_rune r \<Longrightarrow> DecodeRune (EncodeRune r @ s) = (r, RuneLen r)"
proof -
  assume v: "valid_rune r"
  have "map of_char (take 4 (EncodeRune r @ s)) = encode_units r @ map of_char (take (4 - length (encode_units r)) s)"
    using length_encode_units [of r] encode_units_byte [of _ r] by (simp add: EncodeRune_def)
  then show ?thesis using decode_encode_units [OF v] by (simp add: DecodeRune_def RuneLen_def EncodeRune_def)
qed

lemma DecodeRune_cases:
  assumes "s \<noteq> []"
  shows "DecodeRune s = (RuneError, 1)
    \<or> valid_rune (fst (DecodeRune s)) \<and> EncodeRune (fst (DecodeRune s)) = take (snd (DecodeRune s)) s"
proof -
  let ?us = "map of_char (take 4 s) :: nat list"
  have n: "?us \<noteq> []" using assms by simp
  have w: "snd (decode_units ?us) \<le> 4" using decode_units_width [OF n] by simp
  have "map char_of (take (snd (decode_units ?us)) ?us) = take (snd (decode_units ?us)) s"
    using w by (simp add: take_map comp_def min_def)
  with decode_units_cases [OF n] show ?thesis unfolding DecodeRune_def EncodeRune_def by metis
qed

lemma runes_step: "s \<noteq> [] \<Longrightarrow> runes s = fst (DecodeRune s) # runes (drop (snd (DecodeRune s)) s)"
  by (simp add: runes.simps [of s])

lemma runes_EncodeRune [simp]: "valid_rune r \<Longrightarrow> runes (EncodeRune r @ s) = r # runes s"
proof -
  assume v: "valid_rune r"
  have "EncodeRune r @ s \<noteq> []" using length_encode_units [of r] by (auto simp: EncodeRune_def)
  then show ?thesis by (simp add: runes_step DecodeRune_EncodeRune [OF v] RuneLen_def)
qed

theorem runes_string_of_runes: "list_all valid_rune rs \<Longrightarrow> runes (string_of_runes rs) = rs"
  by (induction rs) simp_all

theorem string_of_runes_runes: "ValidString s \<Longrightarrow> string_of_runes (runes s) = s"
proof (induction s rule: runes.induct)
  case (1 s)
  show ?case
  proof (cases "s = []")
    case False
    then have "DecodeRune s \<noteq> (RuneError, 1)" "ValidString (drop (snd (DecodeRune s)) s)"
      using "1.prems" by (simp_all add: ValidString.simps [of s])
    with "1.IH" False DecodeRune_cases [OF False] show ?thesis by (simp add: runes_step)
  qed simp
qed

lemma runes_append: "ValidString s \<Longrightarrow> runes (s @ t) = runes s @ runes t"
proof (induction s rule: runes.induct)
  case (1 s)
  show ?case
  proof (cases "s = []")
    case False
    then have v: "DecodeRune s \<noteq> (RuneError, 1)" "ValidString (drop (snd (DecodeRune s)) s)"
      using "1.prems" by (simp_all add: ValidString.simps [of s])
    define r where "r = fst (DecodeRune s)"
    define n where "n = snd (DecodeRune s)"
    have d: "valid_rune r" "s = EncodeRune r @ drop n s"
      using DecodeRune_cases [OF False] v(1) by (auto simp: r_def n_def)
    have "runes (s @ t) = runes (EncodeRune r @ drop n s @ t)" using d(2) by (metis append_assoc)
    also have "\<dots> = r # runes (drop n s @ t)" using d(1) by simp
    finally show ?thesis using "1.IH" [OF False] v(2) False by (simp add: runes_step r_def n_def)
  qed simp
qed

text \<open>Every rune that a string holds is valid: an undecodable byte reads as the error rune.\<close>

lemma RuneError_valid [simp]: "valid_rune RuneError"
  by (simp add: valid_rune_def RuneError_def)

lemma runes_valid: "list_all valid_rune (runes s)"
proof (induction s rule: runes.induct)
  case (1 s)
  show ?case
  proof (cases "s = []")
    case False
    with DecodeRune_cases [OF False] have "valid_rune (fst (DecodeRune s))" by auto
    with "1.IH" False show ?thesis by (simp add: runes_step)
  qed simp
qed

text \<open>An ASCII string is the sequence of its characters.\<close>

definition is_ascii :: "char \<Rightarrow> bool" where
  "is_ascii c \<longleftrightarrow> (of_char c :: nat) < 128"

lemma DecodeRune_ascii: "is_ascii c \<Longrightarrow> DecodeRune (c # s) = (of_char c, 1)"
  by (simp add: DecodeRune_def is_ascii_def)

lemma runes_ascii: "list_all is_ascii s \<Longrightarrow> runes s = map of_char s"
  by (induction s) (simp_all add: runes_step DecodeRune_ascii)

lemma ValidString_ascii: "list_all is_ascii s \<Longrightarrow> ValidString s"
  by (induction s) (simp_all add: ValidString.simps [of "_ # _"] DecodeRune_ascii RuneError_def is_ascii_def)

text \<open>\<open>unicode.IsSpace\<close>.\<close>

definition IsSpace :: "rune \<Rightarrow> bool" where
  "IsSpace r \<longleftrightarrow> 0x09 \<le> r \<and> r \<le> 0x0D \<or> r \<in> set [0x20, 0x85, 0xA0, 0x1680, 0x2028, 0x2029, 0x202F, 0x205F, 0x3000]
     \<or> 0x2000 \<le> r \<and> r \<le> 0x200A"

text \<open>
  \<open>strings.EqualFold\<close> and \<open>strings.ToLower\<close> where the other side is an ASCII constant: besides the
  ASCII letters only the long s and the Kelvin sign fold to an ASCII letter, and only the dotted
  capital I and the Kelvin sign have an ASCII lower case.
\<close>

definition fold_rune :: "rune \<Rightarrow> rune" where
  "fold_rune r = (if 65 \<le> r \<and> r \<le> 90 then r + 32 else if r = 0x17F then 115 else if r = 0x212A then 107 else r)"

definition EqualFoldASCII :: "string \<Rightarrow> string \<Rightarrow> bool" where
  "EqualFoldASCII s t \<longleftrightarrow> map fold_rune (runes s) = map fold_rune (runes t)"

definition lower_rune :: "rune \<Rightarrow> rune" where
  "lower_rune r = (if 65 \<le> r \<and> r \<le> 90 then r + 32 else if r = 0x130 then 105 else if r = 0x212A then 107 else r)"

definition ToLowerASCII :: "string \<Rightarrow> string" where
  "ToLowerASCII s = string_of_runes (map lower_rune (runes s))"

section \<open>Package strings\<close>

primrec Index :: "string \<Rightarrow> string \<Rightarrow> nat option" where
  "Index [] p = (if p = [] then Some 0 else None)"
| "Index (c # s) p = (if HasPrefix (c # s) p then Some 0 else map_option Suc (Index s p))"

definition ContainsAny :: "string \<Rightarrow> string \<Rightarrow> bool" where
  "ContainsAny s cs \<longleftrightarrow> IndexAny s cs \<noteq> None"

primrec Split :: "char \<Rightarrow> string \<Rightarrow> string list" where
  "Split sep [] = [[]]"
| "Split sep (c # s) = (if c = sep then [] # Split sep s
     else (case Split sep s of p # ps \<Rightarrow> (c # p) # ps | [] \<Rightarrow> [[c]]))"

fun Join :: "string list \<Rightarrow> string \<Rightarrow> string" where
  "Join [] sep = []"
| "Join [p] sep = p"
| "Join (p # ps) sep = p @ sep @ Join ps sep"

text \<open>\<open>Cut s c\<close> is \<open>Some (before, after)\<close> around the first \<open>c\<close>, \<open>None\<close> when there is none.\<close>

definition Cut :: "string \<Rightarrow> char \<Rightarrow> (string \<times> string) option" where
  "Cut s c = (case IndexByte s c of None \<Rightarrow> None | Some i \<Rightarrow> Some (take i s, drop (Suc i) s))"

function ReplaceAll :: "string \<Rightarrow> string \<Rightarrow> string \<Rightarrow> string" where
  "ReplaceAll s old new = (if s = [] then []
     else if old \<noteq> [] \<and> HasPrefix s old then new @ ReplaceAll (drop (length old) s) old new
     else hd s # ReplaceAll (tl s) old new)"
  by auto
termination by (relation "measure (\<lambda>(s, _, _). length s)") auto

declare ReplaceAll.simps [simp del]

definition TrimLeft :: "string \<Rightarrow> string \<Rightarrow> string" where
  "TrimLeft s cs = dropWhile (\<lambda>c. c \<in> set cs) s"

definition TrimRight :: "string \<Rightarrow> string \<Rightarrow> string" where
  "TrimRight s cs = rev (dropWhile (\<lambda>c. c \<in> set cs) (rev s))"

definition Trim :: "string \<Rightarrow> string \<Rightarrow> string" where
  "Trim s cs = TrimRight (TrimLeft s cs) cs"

lemma Split_not_Nil [simp]: "Split sep s \<noteq> []"
  by (induction s) (auto split: list.split)

lemma Join_Cons: "ps \<noteq> [] \<Longrightarrow> Join (p # ps) sep = p @ sep @ Join ps sep"
  by (cases ps) simp_all

lemma Join_Split [simp]: "Join (Split sep s) [sep] = s"
proof (induction s)
  case (Cons c s)
  obtain p ps where e: "Split sep s = p # ps" by (cases "Split sep s") auto
  with Cons show ?case by (cases ps) (auto simp: Join_Cons)
qed simp

lemma Split_parts: "p \<in> set (Split sep s) \<Longrightarrow> sep \<notin> set p"
proof (induction s arbitrary: p)
  case (Cons c s)
  then show ?case by (cases "Split sep s") (auto split: if_splits)
qed simp

lemma Split_Join: "ps \<noteq> [] \<Longrightarrow> (\<And>p. p \<in> set ps \<Longrightarrow> sep \<notin> set p) \<Longrightarrow> Split sep (Join ps [sep]) = ps"
proof (induction ps)
  case (Cons p ps)
  have one: "sep \<notin> set p \<Longrightarrow> Split sep p = [p]" by (induction p) auto
  have many: "sep \<notin> set p \<Longrightarrow> Split sep (p @ sep # s) = p # Split sep s" for s by (induction p) auto
  show ?case using Cons one many by (cases "ps = []") (auto simp: Join_Cons)
qed simp

lemma Index_Some: "Index s p = Some i \<Longrightarrow> i \<le> length s \<and> (\<exists>r. s = take i s @ p @ r)"
proof (induction s arbitrary: i)
  case (Cons c s)
  show ?case
  proof (cases "HasPrefix (c # s) p")
    case True
    then show ?thesis using Cons.prems by (auto simp: HasPrefix_iff)
  next
    case False
    then obtain j where j: "i = Suc j" "Index s p = Some j" using Cons.prems by auto
    then obtain r where "s = take j s @ p @ r" using Cons.IH by blast
    with j Cons.IH show ?thesis by auto
  qed
qed (auto split: if_splits)

lemma Cut_Some: "Cut s c = Some (a, b) \<longleftrightarrow> s = a @ c # b \<and> c \<notin> set a"
proof
  assume "Cut s c = Some (a, b)"
  then obtain i where i: "IndexAny s [c] = Some i" and ab: "a = take i s" "b = drop (Suc i) s"
    by (auto simp: Cut_def IndexByte_def split: option.splits)
  from IndexAny_SomeD [OF i] ab show "s = a @ c # b \<and> c \<notin> set a"
    by (auto simp: id_take_nth_drop [symmetric])
next
  have "c \<notin> set a \<Longrightarrow> IndexAny (a @ c # b) [c] = Some (length a)" by (induction a) auto
  then show "s = a @ c # b \<and> c \<notin> set a \<Longrightarrow> Cut s c = Some (a, b)" by (auto simp: Cut_def IndexByte_def)
qed

section \<open>Package strconv\<close>

definition digit_char :: "nat \<Rightarrow> char" where
  "digit_char n = char_of (48 + n)"

fun Itoa :: "nat \<Rightarrow> string" where
  "Itoa n = (if n < 10 then [digit_char n] else Itoa (n div 10) @ [digit_char (n mod 10)])"

declare Itoa.simps [simp del]

definition digit_val :: "char \<Rightarrow> nat" where
  "digit_val c = of_char c - 48"

definition decimal :: "string \<Rightarrow> nat" where
  "decimal s = foldl (\<lambda>n c. 10 * n + digit_val c) 0 s"

text \<open>\<open>Atoi\<close> with the range of a 64-bit \<open>int\<close>; \<open>ParseUint\<close> in base 10 and 16.\<close>

definition Atoi :: "string \<Rightarrow> int option" where
  "Atoi s =
     (let neg = (case s of c # _ \<Rightarrow> c = CHR ''-'' | [] \<Rightarrow> False);
          ds = (case s of c # r \<Rightarrow> if c = CHR ''-'' \<or> c = CHR ''+'' then r else s | [] \<Rightarrow> []);
          v = (if neg then - int (decimal ds) else int (decimal ds))
      in if ds \<noteq> [] \<and> list_all is_digit ds \<and> - (2 ^ 63) \<le> v \<and> v < 2 ^ 63 then Some v else None)"

definition ParseUint10 :: "string \<Rightarrow> nat \<Rightarrow> nat option" where
  "ParseUint10 s bits = (if s \<noteq> [] \<and> list_all is_digit s \<and> decimal s < 2 ^ bits then Some (decimal s) else None)"

definition is_hex :: "char \<Rightarrow> bool" where
  "is_hex c \<longleftrightarrow> is_digit c \<or> c \<in> set ''abcdefABCDEF''"

definition hex_digit_val :: "char \<Rightarrow> nat" where
  "hex_digit_val c = (if is_digit c then of_char c - 48
                      else if of_char c < (97::nat) then of_char c - 55 else of_char c - 87)"

definition ParseUint16 :: "string \<Rightarrow> nat \<Rightarrow> nat option" where
  "ParseUint16 s bits =
     (let v = foldl (\<lambda>n c. 16 * n + hex_digit_val c) 0 s
      in if s \<noteq> [] \<and> list_all is_hex s \<and> v < 2 ^ bits then Some v else None)"

lemma is_digit_digit_char [simp]: "n < 10 \<Longrightarrow> is_digit (digit_char n)"
  by (simp add: is_digit_def digit_char_def)

lemma digit_val_digit_char [simp]: "n < 10 \<Longrightarrow> digit_val (digit_char n) = n"
  by (simp add: digit_val_def digit_char_def)

lemma Itoa_digits: "list_all is_digit (Itoa n)"
proof (induction n rule: Itoa.induct)
  case (1 n)
  then show ?case by (simp add: Itoa.simps [of n])
qed

lemma Itoa_not_Nil [simp]: "Itoa n \<noteq> []"
  by (simp add: Itoa.simps)

lemma decimal_snoc: "decimal (s @ [c]) = 10 * decimal s + digit_val c"
  by (simp add: decimal_def)

lemma decimal_Itoa [simp]: "decimal (Itoa n) = n"
proof (induction n rule: Itoa.induct)
  case (1 n)
  show ?case
  proof (cases "n < 10")
    case True
    then show ?thesis by (simp add: Itoa.simps [of n] decimal_def)
  next
    case False
    then show ?thesis using 1 by (simp add: Itoa.simps [of n] decimal_snoc)
  qed
qed

lemma length_Itoa: "n < 10 ^ k \<Longrightarrow> 0 < k \<Longrightarrow> length (Itoa n) \<le> k"
proof (induction k arbitrary: n)
  case (Suc k)
  show ?case
  proof (cases "n < 10")
    case True
    then show ?thesis by (simp add: Itoa.simps [of n])
  next
    case False
    then have "n div 10 < 10 ^ k" "0 < k" using Suc.prems by (auto intro: gr0I)
    with Suc.IH False show ?thesis by (simp add: Itoa.simps [of n])
  qed
qed simp

lemma Atoi_Itoa: "n < 2 ^ 63 \<Longrightarrow> Atoi (Itoa n) = Some (int n)"
proof -
  assume n: "n < 2 ^ 63"
  obtain c r where e: "Itoa n = c # r" using Itoa_not_Nil by (meson list.exhaust)
  have "is_digit c" using Itoa_digits [of n] e by simp
  then have "c \<noteq> CHR ''-''" "c \<noteq> CHR ''+''" by (auto simp: is_digit_def)
  then show ?thesis using n e Itoa_digits [of n] decimal_Itoa [of n] by (simp add: Atoi_def)
qed

section \<open>Package bufio\<close>

text \<open>
  \<open>bufio.Scanner\<close> splitting into lines with a maximal token size: the lines up to the first one
  that does not fit the buffer together with its end, and whether there was one. The final empty
  piece after a terminating newline is no line.
\<close>

primrec byte_lines :: "bytes \<Rightarrow> bytes list" where
  "byte_lines [] = []"
| "byte_lines (b # bs) = (if b = 10 then [] # byte_lines bs
     else (case byte_lines bs of l # ls \<Rightarrow> (b # l) # ls | [] \<Rightarrow> [[b]]))"

definition drop_cr :: "bytes \<Rightarrow> bytes" where
  "drop_cr l = (if l \<noteq> [] \<and> last l = 13 then butlast l else l)"

definition scan_lines :: "nat \<Rightarrow> bytes \<Rightarrow> bytes list \<times> bool" where
  "scan_lines maximum data =
     (let ls = byte_lines data
      in (map drop_cr (takeWhile (\<lambda>l. length l < maximum) ls), list_ex (\<lambda>l. maximum \<le> length l) ls))"

section \<open>encoding/hex and crypto/sha256\<close>

definition hex_nibble :: "nat \<Rightarrow> char" where
  "hex_nibble n = ''0123456789abcdef'' ! n"

definition EncodeToString :: "bytes \<Rightarrow> string" where
  "EncodeToString bs = concat (map (\<lambda>b. [hex_nibble (unat b div 16), hex_nibble (unat b mod 16)]) bs)"

lemma length_EncodeToString [simp]: "length (EncodeToString bs) = 2 * length bs"
  by (induction bs) (simp_all add: EncodeToString_def)

lemma hex_nibble_is_hex: "n < 16 \<Longrightarrow> is_hex (hex_nibble n)"
proof -
  assume "n < 16"
  then have "hex_nibble n \<in> set ''0123456789abcdef''"
    unfolding hex_nibble_def by (intro nth_mem) simp
  then show ?thesis by (auto simp: is_hex_def is_digit_def)
qed

lemma EncodeToString_hex: "list_all is_hex (EncodeToString bs)"
proof (induction bs)
  case (Cons b bs)
  have "unat b < 256" using unsigned_less [of b, where 'a = nat] by simp
  with Cons show ?case by (simp add: EncodeToString_def hex_nibble_is_hex)
qed (simp add: EncodeToString_def)

text \<open>
  SHA-256. Its constants are the first 32 bits of the fractional parts of the cube roots of the first 64 primes and of
  the square roots of the first eight.
\<close>

definition int_root :: "nat \<Rightarrow> int \<Rightarrow> int" where
  "int_root k n = foldl (\<lambda>r b. if (r + 2 ^ b) ^ k \<le> n then r + 2 ^ b else r) 0 (rev [0..<40])"

definition first_primes :: "int list" where
  "first_primes = [2, 3, 5, 7, 11, 13, 17, 19, 23, 29, 31, 37, 41, 43, 47, 53, 59, 61, 67, 71, 73, 79,
     83, 89, 97, 101, 103, 107, 109, 113, 127, 131, 137, 139, 149, 151, 157, 163, 167, 173, 179, 181, 191, 193,
     197, 199, 211, 223, 227, 229, 233, 239, 241, 251, 257, 263, 269, 271, 277, 281, 283, 293, 307, 311]"

definition sha256_k :: "uint32 list" where
  "sha256_k = map (\<lambda>p. of_int (int_root 3 (p * 2 ^ 96))) first_primes"

definition sha256_init :: "uint32 list" where
  "sha256_init = map (\<lambda>p. of_int (int_root 2 (p * 2 ^ 64))) (take 8 first_primes)"

definition rotr :: "nat \<Rightarrow> uint32 \<Rightarrow> uint32" where
  "rotr n x = drop_bit n x OR push_bit (32 - n) x"

definition sha256_pad :: "bytes \<Rightarrow> bytes" where
  "sha256_pad m =
     (let z = (119 - length m mod 64) mod 64
      in m @ [0x80] @ replicate z 0 @ put_be 8 (of_nat (8 * length m) :: uint64))"

fun chunks :: "nat \<Rightarrow> 'a list \<Rightarrow> 'a list list" where
  "chunks n xs = (if xs = [] \<or> n = 0 then [] else take n xs # chunks n (drop n xs))"

declare chunks.simps [simp del]

primrec sha256_extend :: "nat \<Rightarrow> uint32 list \<Rightarrow> uint32 list" where
  "sha256_extend 0 w = w"
| "sha256_extend (Suc n) w =
     (let i = length w; a = w ! (i - 15); b = w ! (i - 2);
          s0 = rotr 7 a XOR rotr 18 a XOR drop_bit 3 a;
          s1 = rotr 17 b XOR rotr 19 b XOR drop_bit 10 b
      in sha256_extend n (w @ [w ! (i - 16) + s0 + w ! (i - 7) + s1]))"

definition sha256_round :: "uint32 list \<Rightarrow> uint32 \<times> uint32 \<Rightarrow> uint32 list" where
  "sha256_round h kw =
     (let a = h ! 0; b = h ! 1; c = h ! 2; d = h ! 3; e = h ! 4; f = h ! 5; g = h ! 6; k = h ! 7;
          s1 = rotr 6 e XOR rotr 11 e XOR rotr 25 e;
          ch = (e AND f) XOR (NOT e AND g);
          t1 = k + s1 + ch + fst kw + snd kw;
          s0 = rotr 2 a XOR rotr 13 a XOR rotr 22 a;
          mj = (a AND b) XOR (a AND c) XOR (b AND c)
      in [t1 + (s0 + mj), a, b, c, d + t1, e, f, g])"

definition sha256_block :: "uint32 list \<Rightarrow> bytes \<Rightarrow> uint32 list" where
  "sha256_block h block =
     (let w = sha256_extend 48 (map get_be (chunks 4 block))
      in map2 (+) h (foldl sha256_round h (zip sha256_k w)))"

definition Sum256 :: "bytes \<Rightarrow> bytes" where
  "Sum256 m = concat (map (put_be 4) (foldl sha256_block sha256_init (chunks 64 (sha256_pad m))))"

lemma length_sha256_round: "length (sha256_round h kw) = 8"
  by (simp add: sha256_round_def Let_def)

lemma length_sha256_rounds: "length h = 8 \<Longrightarrow> length (foldl sha256_round h kws) = 8"
  by (induction kws arbitrary: h) (simp_all add: length_sha256_round)

lemma length_sha256_blocks: "length h = 8 \<Longrightarrow> length (foldl sha256_block h bs) = 8"
  by (induction bs arbitrary: h) (simp_all add: sha256_block_def Let_def length_sha256_rounds)

lemma length_Sum256 [simp]: "length (Sum256 m) = 32"
proof -
  have "length (concat (map (put_be 4) h)) = 4 * length h" for h :: "uint32 list" by (induction h) simp_all
  moreover have "length sha256_init = 8" by (simp add: sha256_init_def first_primes_def)
  ultimately show ?thesis by (simp add: Sum256_def length_sha256_blocks)
qed

end
