(* ===== verification/Le_Call.thy ===== *)
theory Le_Call
  imports Control_Server Broker_Serve Go_Std
begin

text \<open>
  The programs of the LE Audio side: \<open>le-call-go\<close> (\<open>cmd/le-call-go/main.go\<close>), which connects the GTBS client, the call store, the socket server
  and the broker, and the one-shot \<open>le-sink-nudge\<close> (\<open>cmd/le-sink-nudge/main.go\<close>, \<open>internal/bluez/sink_nudge.go\<close>).

  The closures of \<open>runServe\<close> are operations on the record \<open>lecall\<close> of the parts they share. The lemmas: a call answered on the handset holds the
  advertisement and drops the link once; a call accepted over the socket is never taken for one; the shutdown reports the first error; the nudge
  never leaves its endpoint registered unless BlueZ refuses to remove it.
\<close>

section \<open>le-call-go\<close>

record lecall =
  le_store :: store
  le_client :: client
  le_server :: "server option"
  le_broker :: "broker option"
  le_droppedForToken :: uint64
  le_drops :: "uint64 list"

text \<open>The callback \<open>Snapshot\<close>; \<open>le_drops\<close> notes the tokens for which \<open>DropLEBearer\<close> was started.\<close>

definition hand_back :: "broker \<Rightarrow> lecall \<Rightarrow> lecall" where
  "hand_back b l =
     (let token = HandsetAnswered (le_store l);
          l = l\<lparr>le_broker := Some (HoldAdvertisement (token \<noteq> 0) b)\<rparr>
      in if token = 0 then l\<lparr>le_droppedForToken := 0\<rparr>
         else if token \<noteq> le_droppedForToken l then l\<lparr>le_droppedForToken := token, le_drops := le_drops l @ [token]\<rparr>
         else l)"

definition on_snapshot :: "(bytes \<Rightarrow> bool) \<Rightarrow> snapshot \<Rightarrow> lecall \<Rightarrow> server_out list \<times> lecall" where
  "on_snapshot send snap l =
     (let (outs, l) = (case le_server l of
          None \<Rightarrow> ([], l)
        | Some sv \<Rightarrow> (let (outs, sv) = BroadcastSnapshot send snap sv in (outs, l\<lparr>le_server := Some sv\<rparr>)))
      in case le_broker l of None \<Rightarrow> (outs, l) | Some b \<Rightarrow> (outs, hand_back b l))"

definition on_ready :: "(bytes \<Rightarrow> bool) \<Rightarrow> bool \<Rightarrow> lecall \<Rightarrow> server_out list \<times> lecall" where
  "on_ready send ready l =
     (case le_server l of
        None \<Rightarrow> ([], l)
      | Some sv \<Rightarrow> (let (outs, sv) = SetReady send ready sv in (outs, l\<lparr>le_server := Some sv\<rparr>)))"

definition on_result :: "(bytes \<Rightarrow> bool) \<Rightarrow> byte \<Rightarrow> byte \<Rightarrow> byte \<Rightarrow> uint64 \<Rightarrow> lecall \<Rightarrow> server_out list \<times> lecall" where
  "on_result send opcode index result token l =
     (case le_server l of
        None \<Rightarrow> ([], l)
      | Some sv \<Rightarrow> (let (outs, sv) = BroadcastResult send opcode index result token sv in (outs, l\<lparr>le_server := Some sv\<rparr>)))"

fun on_callback :: "(bytes \<Rightarrow> bool) \<Rightarrow> callback \<Rightarrow> lecall \<Rightarrow> server_out list \<times> lecall" where
  "on_callback send (Cb_Snapshot snap) l = on_snapshot send snap l"
| "on_callback send (Cb_Ready ready) l = on_ready send ready l"
| "on_callback send (Cb_Result opcode index result token) l = on_result send opcode index result token l"

text \<open>
  The closure \<open>command\<close>. \<open>other\<close> is what the broker's goroutines do between the two critical sections of \<open>ReleaseCallToken\<close>, \<open>write\<close>
  what the Control Point answers.
\<close>

definition command :: "(broker \<Rightarrow> broker) \<Rightarrow> (object_path \<Rightarrow> bytes \<Rightarrow> string option) \<Rightarrow> message \<Rightarrow> lecall \<Rightarrow> client_error option \<times> lecall" where
  "command other write m l =
     (let l = (if msg_Code m = OpcodeTerminate
               then l\<lparr>le_broker := map_option (\<lambda>b. snd (ReleaseCallToken other (msg_Token m) b)) (le_broker l)\<rparr> else l);
          l = (if msg_Code m = OpcodeAccept then l\<lparr>le_store := ClaimCall (msg_Index m) (msg_Token m) (le_store l)\<rparr> else l);
          (err, _, c) = Command write m (le_store l) (le_client l)
      in (err, l\<lparr>le_client := c\<rparr>))"

record call_options =
  op_adapter :: string
  op_device :: string
  op_mediaSocket :: string
  op_controlSocket :: string
  op_peerUID :: int
  op_mediaStartupLease :: duration
  op_mediaProgressLease :: duration
  op_normalReleaseWait :: duration

text \<open>The construction in \<open>runServe\<close>: every error is an early return.\<close>

definition runServe_start :: "(object_path \<Rightarrow> bool) \<Rightarrow> uint64 \<Rightarrow> uint64 \<Rightarrow> call_options \<Rightarrow> lecall option" where
  "runServe_start isValid storeNow serverNow o1 =
     Option.bind (NewClient isValid (op_adapter o1) (op_device o1)) (\<lambda>c.
     Option.bind (NewBroker (op_adapter o1) (op_device o1) (op_mediaSocket o1) (op_peerUID o1)) (\<lambda>b.
     Option.bind (ConfigureMediaLeases (op_mediaStartupLease o1) (op_mediaProgressLease o1) b) (\<lambda>b.
     Option.bind (ConfigureNormalReleaseWait (op_normalReleaseWait o1) b) (\<lambda>b.
     Option.bind (ConfigureCallControl True True b) (\<lambda>b.
     Option.bind (NewServer (op_controlSocket o1) (op_peerUID o1) (cl_device c) serverNow) (\<lambda>sv.
       Some \<lparr>le_store = NewStore storeNow, le_client = c, le_server = Some sv, le_broker = Some b, le_droppedForToken = 0, le_drops = []\<rparr>))))))"

text \<open>The end of \<open>runServe\<close>: the results of the other two goroutines as they arrive, \<open>None\<close> for a wait of three seconds.\<close>

datatype 'e stop_error = Goroutine 'e | Shutdown_timed_out

primrec collect_results :: "'e stop_error option \<Rightarrow> 'e option option list \<Rightarrow> 'e stop_error option" where
  "collect_results first [] = first"
| "collect_results first (r # rs) =
     (case r of
        None \<Rightarrow> (if first = None then Some Shutdown_timed_out else first)
      | Some err \<Rightarrow> collect_results (if first = None then map_option Goroutine err else first) rs)"

definition runServe_end :: "'e option \<Rightarrow> 'e option option \<Rightarrow> 'e option option \<Rightarrow> 'e stop_error option" where
  "runServe_end first second third = collect_results (map_option Goroutine first) [second, third]"

section \<open>le-sink-nudge\<close>

definition sinkNudgeEndpointPath :: object_path where "sinkNudgeEndpointPath = ''/callbridge/leaudio/sink_nudge''"

definition validAdapterName :: "string \<Rightarrow> bool" where
  "validAdapterName adapter \<longleftrightarrow> HasPrefix adapter ''hci'' \<and> length adapter \<noteq> length ''hci'' \<and> ParseUint10 (TrimPrefix adapter ''hci'') 31 \<noteq> None"

definition validBluetoothAddress :: "string \<Rightarrow> bool" where
  "validBluetoothAddress address \<longleftrightarrow>
     (let parts = Split (CHR '':'') address
      in length parts = 6 \<and> list_all (\<lambda>part. length part = 2 \<and> ParseUint16 part 8 \<noteq> None) parts)"

definition readDeviceBoolean :: "variant reply \<Rightarrow> bool option" where
  "readDeviceBoolean answer = (case answer of Reply v \<Rightarrow> as_bool v | _ \<Rightarrow> None)"

definition sinkNudgeEndpointProperties :: properties where
  "sinkNudgeEndpointProperties =
     go_put ''SupportedContext'' (V_uint16 MediaContext) (go_put ''Context'' (V_uint16 MediaContext) (endpointProperties PACSinkUUID))"

datatype nudge_call = Nudge_register object_path properties | Nudge_unregister object_path

datatype nudge_error = Nudge_configuration | Nudge_bus | Nudge_target | Nudge_baseline string | Nudge_bearer | Nudge_export | Nudge_registration | Nudge_removal

text \<open>The calls made and the result; the two answers tell whether BlueZ accepted them.\<close>

definition performSinkNudge :: "bool \<Rightarrow> bool \<Rightarrow> nudge_error option \<times> nudge_call list" where
  "performSinkNudge registered removed =
     (let register = Nudge_register sinkNudgeEndpointPath sinkNudgeEndpointProperties;
          unregister = Nudge_unregister sinkNudgeEndpointPath
      in if \<not> registered then (Some Nudge_registration, [register])
         else if \<not> removed then (Some Nudge_removal, [register, unregister])
         else (None, [register, unregister]))"

record nudge_world =
  nw_bus :: bool
  nw_objects :: "managed_objects reply"
  nw_property :: "object_path \<Rightarrow> string \<Rightarrow> variant reply"
  nw_bearer :: "object_path \<Rightarrow> variant reply"
  nw_export :: bool
  nw_register :: bool
  nw_unregister :: bool

primrec nudge_baseline :: "(string \<Rightarrow> variant reply) \<Rightarrow> string list \<Rightarrow> nudge_error option" where
  "nudge_baseline answer [] = None"
| "nudge_baseline answer (p # ps) =
     (case readDeviceBoolean (answer p) of
        None \<Rightarrow> Some (Nudge_baseline p)
      | Some ready \<Rightarrow> if \<not> ready then Some (Nudge_baseline p) else nudge_baseline answer ps)"

definition SinkNudge :: "nudge_world \<Rightarrow> string \<Rightarrow> string \<Rightarrow> nudge_error option \<times> nudge_call list" where
  "SinkNudge w adapter device =
     (if \<not> validAdapterName adapter \<or> \<not> validBluetoothAddress device then (Some Nudge_configuration, [])
      else if \<not> nw_bus w then (Some Nudge_bus, [])
      else case resolveDevicePath (nw_objects w) adapter device of
        None \<Rightarrow> (Some Nudge_target, [])
      | Some path \<Rightarrow>
          (case nudge_baseline (nw_property w path) [''Paired'', ''Bonded'', ''Trusted''] of
             Some e \<Rightarrow> (Some e, [])
           | None \<Rightarrow>
               (case Broker_Serve.readLEBearerConnected (nw_bearer w path) of
                  None \<Rightarrow> (Some Nudge_bearer, [])
                | Some leConnected \<Rightarrow>
                    if \<not> leConnected then (Some Nudge_bearer, [])
                    else if \<not> nw_export w then (Some Nudge_export, [])
                    else performSinkNudge (nw_register w) (nw_unregister w))))"

section \<open>Calls answered on the handset\<close>

lemma on_snapshot_parts:
  "le_store (snd (on_snapshot send snap l)) = le_store l"
  "le_broker l = Some b \<Longrightarrow> le_broker (snd (on_snapshot send snap l)) = Some (HoldAdvertisement (HandsetAnswered (le_store l) \<noteq> 0) b)"
  "le_broker l = Some b \<Longrightarrow> le_droppedForToken (snd (on_snapshot send snap l)) = HandsetAnswered (le_store l)"
  "le_broker l = Some b \<Longrightarrow> le_drops (snd (on_snapshot send snap l)) = le_drops l @
     (if HandsetAnswered (le_store l) \<noteq> 0 \<and> HandsetAnswered (le_store l) \<noteq> le_droppedForToken l then [HandsetAnswered (le_store l)] else [])"
  by (auto simp: on_snapshot_def hand_back_def Let_def split: option.splits prod.splits)

text \<open>A run of the call side: the store changes as it will, and each change ends in the callback.\<close>

definition snapshots_run :: "(bytes \<Rightarrow> bool) \<Rightarrow> store list \<Rightarrow> lecall \<Rightarrow> lecall" where
  "snapshots_run send = fold (\<lambda>st l. snd (on_snapshot send (Snapshot st) (l\<lparr>le_store := st\<rparr>)))"

lemma remdups_adj_first:
  "filter (\<lambda>t. t \<noteq> 0) (remdups_adj (x # xs)) = (if x = 0 then [] else [x]) @ filter (\<lambda>t. t \<noteq> (0 :: uint64)) (tl (remdups_adj (x # xs)))"
  by (auto simp: remdups_adj_Cons split: list.split)

lemma snapshots_run_spec:
  assumes "le_broker l = Some b"
  shows "le_drops (snapshots_run send sts l) = le_drops l @ filter (\<lambda>t. t \<noteq> 0) (tl (remdups_adj (le_droppedForToken l # map HandsetAnswered sts)))
    \<and> (\<exists>b'. le_broker (snapshots_run send sts l) = Some b' \<and> (sts \<noteq> [] \<longrightarrow> bk_advertisementHold b' = (HandsetAnswered (last sts) \<noteq> 0)))"
  using assms
proof (induction sts arbitrary: l b)
  case (Cons st sts)
  define l1 where "l1 = snd (on_snapshot send (Snapshot st) (l\<lparr>le_store := st\<rparr>))"
  have b: "le_broker (l\<lparr>le_store := st\<rparr>) = Some b" using Cons.prems by simp
  have l1: "le_broker l1 = Some (HoldAdvertisement (HandsetAnswered st \<noteq> 0) b)" "le_droppedForToken l1 = HandsetAnswered st"
    "le_drops l1 = le_drops l @ (if HandsetAnswered st \<noteq> 0 \<and> HandsetAnswered st \<noteq> le_droppedForToken l then [HandsetAnswered st] else [])"
    using on_snapshot_parts(2,3,4) [OF b, of send "Snapshot st"] by (simp_all add: l1_def)
  have r: "snapshots_run send (st # sts) l = snapshots_run send sts l1" by (simp add: snapshots_run_def l1_def)
  have h: "bk_advertisementHold (HoldAdvertisement x b) = x" for x by (simp add: HoldAdvertisement_def Let_def)
  show ?case
  proof (intro conjI)
    show "le_drops (snapshots_run send (st # sts) l)
        = le_drops l @ filter (\<lambda>t. t \<noteq> 0) (tl (remdups_adj (le_droppedForToken l # map HandsetAnswered (st # sts))))"
    proof (cases "HandsetAnswered st = le_droppedForToken l")
      case True
      then show ?thesis using Cons.IH [OF l1(1)] unfolding r l1(2,3) by simp
    next
      case False
      have "le_drops (snapshots_run send sts l1) = le_drops l1 @ filter (\<lambda>t. t \<noteq> 0) (tl (remdups_adj (HandsetAnswered st # map HandsetAnswered sts)))"
        using Cons.IH [OF l1(1)] l1(2) by simp
      then show ?thesis unfolding r l1(3) using False by (simp add: remdups_adj_first)
    qed
    show "\<exists>b'. le_broker (snapshots_run send (st # sts) l) = Some b' \<and> (st # sts \<noteq> [] \<longrightarrow> bk_advertisementHold b' = (HandsetAnswered (last (st # sts)) \<noteq> 0))"
      unfolding r using Cons.IH [OF l1(1)] l1(1) h by (cases sts) (auto simp: snapshots_run_def)
  qed
qed (simp add: snapshots_run_def)

text \<open>
  C6. A call answered on the handset is handed back once. From the start of the program, however the store changes, the link is dropped for exactly the
  tokens in the sequence of handset-answered calls the snapshots show, repetitions in a row counted once and the times without such
  a call left out; and after each snapshot the advertisement is held exactly while such a call exists.\<close>

theorem handset_handed_back_once:
  assumes "runServe_start isValid storeNow serverNow o1 = Some l" "sts \<noteq> []"
  shows "le_drops (snapshots_run send sts l) = filter (\<lambda>t. t \<noteq> 0) (remdups_adj (map HandsetAnswered sts))
    \<and> (\<exists>b. le_broker (snapshots_run send sts l) = Some b \<and> advertisementHeld b = (HandsetAnswered (last sts) \<noteq> 0))"
proof -
  obtain b where b: "le_broker l = Some b" "le_droppedForToken l = 0" "le_drops l = []"
    using assms(1) by (auto simp: runServe_start_def bind_eq_Some_conv)
  have "filter (\<lambda>t. t \<noteq> 0) (tl (remdups_adj (0 # ts))) = filter (\<lambda>t. t \<noteq> 0) (remdups_adj ts)" for ts :: "uint64 list"
    by (cases ts) (auto simp: remdups_adj_Cons split: list.splits)
  with snapshots_run_spec [OF b(1), of send sts] b(2,3) assms(2) show ?thesis by (auto simp: advertisementHeld_def)
qed

definition sample_options :: call_options where
  "sample_options = \<lparr>op_adapter = ''hci0'', op_device = ''00:11:22:33:44:55'', op_mediaSocket = ''/run/m'', op_controlSocket = ''/run/c'', op_peerUID = 0,
     op_mediaStartupLease = 60 * Second, op_mediaProgressLease = 5 * Second, op_normalReleaseWait = Second\<rparr>"

lemma sample_serving: "map_option le_drops (runServe_start (\<lambda>_. True) 100 7 sample_options) = Some []"
  by code_simp

text \<open>The phone answers the ringing call by itself.\<close>

definition sample_answered :: store where
  "sample_answered = snd (Apply [1, 3, 0] sample_ringing)"

theorem handset_handed_back_once_witness:
  "\<exists>l. runServe_start (\<lambda>_. True) 100 7 sample_options = Some l
     \<and> le_drops (snapshots_run (\<lambda>_. True) [sample_ringing, sample_answered, sample_answered] l) = [101]"
proof -
  obtain l where l: "runServe_start (\<lambda>_. True) 100 7 sample_options = Some l"
    using sample_serving by (auto simp: map_option_eq_Some)
  have "HandsetAnswered sample_ringing = 0" "HandsetAnswered sample_answered = 101"
    by (simp_all add: sample_answered_def sample_ringing_eq HandsetAnswered_def Apply_def ParseCallState_def Let_def bump_sequence_def claimed_at_def)
  with handset_handed_back_once [OF l, of "[sample_ringing, sample_answered, sample_answered]" "\<lambda>_. True"] l show ?thesis by auto
qed



text \<open>
  The result of the program: the first error that a goroutine returned before the wait ran out, a timeout only when none had failed, and no
  error only when all three ended without one.\<close>

lemma runServe_end_None: "runServe_end first second third = None \<longleftrightarrow> first = None \<and> second = Some None \<and> third = Some None"
  by (auto simp: runServe_end_def split: option.splits)

lemma runServe_end_first: "first = Some e \<Longrightarrow> runServe_end first second third = Some (Goroutine e)"
  by (simp add: runServe_end_def split: option.split)

text \<open>
  The nudge changes nothing unless every check passed, and then it always asks for the removal of what it registered, also when the
  context has ended meanwhile; the temporary endpoint announces a context that the real endpoints do not have.\<close>

theorem nudge_cleans_up:
  "(fst (SinkNudge w adapter device) = None \<longleftrightarrow> snd (SinkNudge w adapter device) \<noteq> [] \<and> nw_register w \<and> nw_unregister w)
   \<and> (snd (SinkNudge w adapter device) = [] \<or> hd (snd (SinkNudge w adapter device)) = Nudge_register sinkNudgeEndpointPath sinkNudgeEndpointProperties
      \<and> tl (snd (SinkNudge w adapter device)) = (if nw_register w then [Nudge_unregister sinkNudgeEndpointPath] else []))
   \<and> go_get sinkNudgeEndpointProperties ''Context'' = Some (V_uint16 4) \<and> (4 :: uint16) AND SupportedContexts = 0"
proof -
  define res where "res = SinkNudge w adapter device"
  have "res = performSinkNudge (nw_register w) (nw_unregister w) \<or> (\<exists>e. res = (Some e, []))"
    by (auto simp: res_def SinkNudge_def split: option.split)
  moreover have "go_get sinkNudgeEndpointProperties ''Context'' = Some (V_uint16 4)"
    by (simp add: sinkNudgeEndpointProperties_def go_get_put MediaContext_def)
  moreover have "(4 :: uint16) AND SupportedContexts = 0" by code_simp
  ultimately show ?thesis unfolding res_def [symmetric] by (auto simp: performSinkNudge_def Let_def split: if_splits)
qed

end
