(* ===== verification/Broker_System.thy ===== *)
theory Broker_System
  imports Broker_Serve
begin

text \<open>
  The broker as one system: every operation of the other broker theories as a step, and its invariant
  in all states they can reach. An operation that releases the mutex in between runs with
  anything else that keeps the invariant in the gaps, which is what the theorem then shows of each
  of them.
\<close>

section \<open>The operations keep the invariant\<close>

lemma broker_inv_fields [simp]:
  "broker_inv (b\<lparr>bk_expectedDevice := x1\<rparr>) \<longleftrightarrow> broker_inv b" "broker_inv (b\<lparr>bk_connection := x2\<rparr>) \<longleftrightarrow> broker_inv b"
  "broker_inv (b\<lparr>bk_registered := x3\<rparr>) \<longleftrightarrow> broker_inv b" "broker_inv (b\<lparr>bk_advertising := x4\<rparr>) \<longleftrightarrow> broker_inv b"
  "broker_inv (b\<lparr>bk_discoverable := x5\<rparr>) \<longleftrightarrow> broker_inv b" "broker_inv (b\<lparr>bk_advertisementHold := x6\<rparr>) \<longleftrightarrow> broker_inv b"
  "broker_inv (b\<lparr>bk_rearmRequest := x7\<rparr>) \<longleftrightarrow> broker_inv b" "broker_inv (b\<lparr>bk_lifecycleProgress := x8\<rparr>) \<longleftrightarrow> broker_inv b"
  "broker_inv (b\<lparr>bk_lifecycleStale := x9\<rparr>) \<longleftrightarrow> broker_inv b" "broker_inv (b\<lparr>bk_lifecycleHUPs := x10\<rparr>) \<longleftrightarrow> broker_inv b"
  "broker_inv (b\<lparr>bk_lifecycleTimeouts := x11\<rparr>) \<longleftrightarrow> broker_inv b" "broker_inv (b\<lparr>bk_lifecycleStartTimeouts := x12\<rparr>) \<longleftrightarrow> broker_inv b"
  "broker_inv (b\<lparr>bk_lifecycleNormalEnds := x13\<rparr>) \<longleftrightarrow> broker_inv b" "broker_inv (b\<lparr>bk_normalReleaseWaits := x14\<rparr>) \<longleftrightarrow> broker_inv b"
  "broker_inv (b\<lparr>bk_normalReleaseIdle := x15\<rparr>) \<longleftrightarrow> broker_inv b" "broker_inv (b\<lparr>bk_normalReleaseTimeouts := x16\<rparr>) \<longleftrightarrow> broker_inv b"
  "broker_inv (b\<lparr>bk_transportIdleComplete := x17\<rparr>) \<longleftrightarrow> broker_inv b" "broker_inv (b\<lparr>bk_releaseAttempts := x18\<rparr>) \<longleftrightarrow> broker_inv b"
  "broker_inv (b\<lparr>bk_releaseSuccesses := x19\<rparr>) \<longleftrightarrow> broker_inv b" "broker_inv (b\<lparr>bk_releaseErrors := x20\<rparr>) \<longleftrightarrow> broker_inv b"
  "broker_inv (b\<lparr>bk_releaseFallbacks := x21\<rparr>) \<longleftrightarrow> broker_inv b" "broker_inv (b\<lparr>bk_hasProvider := x22\<rparr>) \<longleftrightarrow> broker_inv b"
  "broker_inv (b\<lparr>bk_requireToken := x23\<rparr>) \<longleftrightarrow> broker_inv b" "broker_inv (b\<lparr>bk_progressStartLease := x24\<rparr>) \<longleftrightarrow> broker_inv b"
  "broker_inv (b\<lparr>bk_progressLease := x25\<rparr>) \<longleftrightarrow> broker_inv b" "broker_inv (b\<lparr>bk_normalReleaseWait := x26\<rparr>) \<longleftrightarrow> broker_inv b"
  by (simp_all add: broker_inv_def)

lemma broker_inv_update [simp]:
  "(\<And>s. as_lifecycleDone (f s) = as_lifecycleDone s) \<Longrightarrow> broker_inv b \<Longrightarrow> broker_inv (update_session i f b)"
proof -
  assume f: "\<And>s. as_lifecycleDone (f s) = as_lifecycleDone s" and inv: "broker_inv b"
  have "as_lifecycleDone ((bk_heap b)[i := f (the_session b i)] ! j) = as_lifecycleDone (the_session b j)" if "j < length (bk_heap b)" for j
    using that f by (cases "j = i") simp_all
  with inv show ?thesis by (auto simp: broker_inv_def update_session_def)
qed

lemmas session_defs = recordLifecycleProgress_def markNormalReleasePending_def requestSpecificSessionRelease_def
  recordLifecycleNormalEnd_def forceNormalReleaseTimeout_def waitNormalRelease_def completeActiveSession_def
  requestActiveSessionRelease_def handleLEBearerDisconnected_def ReleaseCallToken_def Let_def

lemma release_round_inv:
  "release_round answer conn paths succeeded b = (a, s, outs, b') \<Longrightarrow> broker_inv b' = broker_inv b"
  by (induction paths arbitrary: succeeded b a s outs b')
     (auto simp: releaseMediaTransport_def Let_def split: if_splits prod.splits)

lemma release_attempts_inv:
  "release_attempts n answer closes k conn paths succeeded b = (a, outs, b') \<Longrightarrow> broker_inv b' = broker_inv b"
  by (induction n arbitrary: k succeeded b a outs b')
     (auto simp: fallbackTransportOwner_def Let_def split: if_splits prod.splits dest: release_round_inv)

lemma release_keeps_inv: "releaseTransportPaths answer closes conn paths b = (ok, outs, b') \<Longrightarrow> broker_inv b' = broker_inv b"
  unfolding releaseTransportPaths_def by (rule release_attempts_inv)

text \<open>What may happen while an operation does not hold the mutex.\<close>

locale broker_gap =
  fixes other :: "broker \<Rightarrow> broker"
  assumes gap_inv: "broker_inv b \<Longrightarrow> broker_inv (other b)"
begin

lemma mark: "broker_inv b \<Longrightarrow> broker_inv (snd (markNormalReleasePending s e b))"
  by (auto simp: session_defs split: option.split)

lemma request: "broker_inv b \<Longrightarrow> requestSpecificSessionRelease s b = (r, outs, b') \<Longrightarrow> broker_inv b'"
  by (auto simp: session_defs split: option.splits if_splits)

lemma begin_wait: "broker_inv b \<Longrightarrow> beginNormalReleaseWait other s e b = (r, outs, b') \<Longrightarrow> broker_inv b'"
proof -
  assume b: "broker_inv b" and r: "beginNormalReleaseWait other s e b = (r, outs, b')"
  define c where "c i = update_session i (\<lambda>s. s\<lparr>as_normalEndSeen := as_normalEndSeen s \<or> e\<rparr>)
     (if e then b\<lparr>bk_lifecycleNormalEnds := bk_lifecycleNormalEnds b + 1\<rparr> else b)" for i
  have c: "broker_inv (c i)" "broker_inv (other (c i))" for i using b gap_inv by (auto simp: c_def)
  show ?thesis
    using r b c request [OF c(2)] unfolding beginNormalReleaseWait_def Let_def c_def [symmetric]
    by (auto split: option.splits if_splits prod.splits)
qed

lemma normal_end: "broker_inv b \<Longrightarrow> broker_inv (snd (recordLifecycleNormalEnd other i p b))"
  using mark gap_inv by (simp add: recordLifecycleNormalEnd_def)

lemma progress: "broker_inv b \<Longrightarrow> broker_inv (snd (recordLifecycleProgress i p now b))"
  by (simp add: recordLifecycleProgress_def Let_def)

lemma drain_inv: "broker_inv b \<Longrightarrow> broker_inv (snd (drain other i rs b))"
  by (induction rs arbitrary: b) (auto simp: gap_inv progress normal_end split: receive.split sum.split)

lemma stop_inv: "broker_inv b \<Longrightarrow> stop_release i b = (r, outs, b') \<Longrightarrow> broker_inv b'"
  by (auto simp: stop_release_def dest: request split: prod.splits)

lemma watch_socket_inv:
  assumes "broker_inv b" "watch_socket other i w open_fd b = (r, outs, b')"
  shows "broker_inv b'"
proof -
  obtain outcome b1 where d: "drain other i (wi_queue w) b = (outcome, b1)" by (metis surj_pair)
  have c: "broker_inv (other b1)" using drain_inv [OF assms(1), of i "wi_queue w"] d gap_inv by simp
  define h where "h = (if bk_activeSession (other b1) = Some i then (other b1)\<lparr>bk_lifecycleHUPs := bk_lifecycleHUPs (other b1) + 1\<rparr> else other b1)"
  have h: "broker_inv (other h)" "broker_inv (other (other h))" using c gap_inv by (simp_all add: h_def)
  show ?thesis
    using assms c h d stop_inv unfolding watch_socket_def Let_def
    by (auto simp flip: h_def split: if_splits option.splits prod.splits)
qed

lemma lease_expired_inv:
  assumes "broker_inv b" "lease_expired other counted i open_fd b = (r, outs, b')" "\<And>c. broker_inv c \<Longrightarrow> broker_inv (counted c)"
  shows "broker_inv b'"
proof -
  define c where "c = (if session_open (other b) i then counted (other b) else other b)"
  have "broker_inv (other b)" using assms(1) by (rule gap_inv)
  moreover have "broker_inv (other c)" using calculation assms(3) by (auto simp: c_def intro: gap_inv)
  ultimately show ?thesis
    using assms(2) begin_wait [of "other b"] stop_inv [of "other c"] unfolding lease_expired_def Let_def c_def [symmetric]
    by (auto split: if_splits prod.splits)
qed

lemma watch_leases_inv:
  assumes "broker_inv b" "watch_leases other i w open_fd b = (r, outs, b')"
  shows "broker_inv b'"
proof -
  have b: "broker_inv (other b)" "broker_inv (other (other b))" using assms(1) gap_inv by simp_all
  have counts: "broker_inv c \<Longrightarrow> broker_inv (count_start_timeout c)" "broker_inv c \<Longrightarrow> broker_inv (count_timeout c)" for c
    by (simp_all add: count_start_timeout_def count_timeout_def)
  show ?thesis
    using assms b mark [OF b(2)] lease_expired_inv [OF b(2) _ counts(1)] lease_expired_inv [OF b(2) _ counts(2)]
    unfolding watch_leases_def Let_def by (auto split: if_splits prod.splits)
qed

lemma watch_inv: "broker_inv b \<Longrightarrow> watchActiveSession other i ws open_fd b = (r, outs, b') \<Longrightarrow> broker_inv b'"
proof (induction ws arbitrary: open_fd b r outs b')
  case (Cons w ws)
  obtain o1 outs1 b1 where s: "watch_round other i w open_fd b = (o1, outs1, b1)" by (metis surj_pair)
  obtain o2 outs2 b2 where t: "watch_socket other i w open_fd b = (o2, outs2, b2)" by (metis surj_pair)
  have b2: "broker_inv b2" "broker_inv (other b2)" using watch_socket_inv [OF Cons.prems(1) t] gap_inv by simp_all
  have b1: "broker_inv b1"
    using s t b2 Cons.prems(1) watch_leases_inv [OF b2(2)]
    by (cases o2) (auto simp: watch_round_def split: if_splits prod.splits)
  then show ?case
    using Cons.prems(2) s Cons.IH [OF gap_inv [OF b1]] by (cases o1) (auto split: prod.splits)
qed simp

lemma token: "broker_inv b \<Longrightarrow> broker_inv (snd (ReleaseCallToken other t b))"
  using mark gap_inv by (simp add: ReleaseCallToken_def split: option.split)

lemma bearer: "broker_inv b \<Longrightarrow> broker_inv (snd (snd (handleLEBearerDisconnected other b)))"
  using request gap_inv by (metis handleLEBearerDisconnected_def requestActiveSessionRelease_def surjective_pairing)

lemma release_session_inv:
  assumes "broker_inv b" "releaseActiveSession answer closes other i b = (outs, b')"
  shows "broker_inv b'"
proof -
  obtain ok outs1 b1 where r: "releaseTransportPaths answer closes (Some (as_connection (the_session b i)))
            (as_releasePaths (the_session b i)) b = (ok, outs1, b1)" by (metis surj_pair)
  have "broker_inv b1" using assms(1) r release_keeps_inv [of answer closes] by fastforce
  then have "broker_inv (other b1)" by (rule gap_inv)
  then have "broker_inv (other b1)" "broker_inv (clearActiveSessionLocked i (other b1))"
    "broker_inv (clearActiveSessionLocked i ((other b1)\<lparr>bk_transportIdleComplete := n\<rparr>))"
    "broker_inv (update_session i (\<lambda>s. s\<lparr>as_releasing := False, as_releaseExhausted := True\<rparr>) (other b1))" for n
    by (simp_all add: clearActiveSessionLocked_inv)
  with assms(2) r show ?thesis by (auto simp: releaseActiveSession_def completeActiveSession_def Let_def split: if_splits)
qed

end

lemma transport_idle_inv: "broker_inv b \<Longrightarrow> broker_inv (transport_idle path b)"
proof (cases "bk_activeSession b")
  case None
  then show "broker_inv b \<Longrightarrow> ?thesis" by (simp add: transport_idle_def Let_def)
next
  case (Some i)
  assume b: "broker_inv b"
  define b1 where "b1 = b\<lparr>bk_acquiring := go_delete path (bk_acquiring b), bk_acquired := go_delete path (bk_acquired b),
                bk_pairing := go_delete path (bk_pairing b)\<rparr>"
  define c where "c = update_session i (\<lambda>s. s\<lparr>as_idlePaths := go_put path True (as_idlePaths s)\<rparr>) b1"
  have c: "broker_inv b1" "broker_inv c" using b by (simp_all add: b1_def c_def)
  have "bk_activeSession b1 = Some i" using Some by (simp add: b1_def)
  with c show ?thesis
    unfolding transport_idle_def Let_def b1_def [symmetric] by (auto simp: clearActiveSessionLocked_inv simp flip: c_def)
qed

lemma handleSignal_inv: "broker_inv b \<Longrightarrow> handleSignal sig b = (outs, b') \<Longrightarrow> broker_inv b'"
  by (auto simp: handleSignal_def transport_idle_inv split: option.splits if_splits)

lemma reset_transports_inv: "broker_inv b \<Longrightarrow> reset_transports b = (outs, b') \<Longrightarrow> broker_inv b'"
  by (auto simp: reset_transports_def closePendingLocked_def signalActiveSessionDone_def update_session_def Let_def broker_inv_def
      split: option.splits)

lemma HoldAdvertisement_inv: "broker_inv b \<Longrightarrow> broker_inv (HoldAdvertisement hold b)"
  by (simp add: HoldAdvertisement_def Let_def)

section \<open>The system\<close>

text \<open>The configuration functions are called before the broker runs; the rest is in any order.\<close>

inductive broker_step :: "broker \<Rightarrow> broker \<Rightarrow> bool" where
  leases: "ConfigureMediaLeases startup active b = Some b' \<Longrightarrow> broker_step b b'"
| release_wait: "ConfigureNormalReleaseWait wait b = Some b' \<Longrightarrow> broker_step b b'"
| call_control: "ConfigureCallControl provider require b = Some b' \<Longrightarrow> broker_step b b'"
| configuration: "direction \<in> {DirectionSink, DirectionSource} \<Longrightarrow> broker_step b (snd (snd (SetConfiguration isValid direction transport ps b)))"
| cleared: "broker_step b (snd (clear path b))"
| signalled: "broker_step b (snd (handleSignal sig b))"
| acquired: "keeps_inv other \<Longrightarrow> broker_step b (snd (acquire an other path b))"
| expired: "broker_step b (snd (expirePending answer closes path generation b))"
| watched: "broker_gap other \<Longrightarrow> broker_step b (snd (snd (watchActiveSession other i ws open_fd b)))"
| waited: "broker_step b (snd (waitNormalRelease done_first i b))"
| released: "broker_gap other \<Longrightarrow> broker_step b (snd (releaseActiveSession answer closes other i b))"
| call_over: "broker_gap other \<Longrightarrow> broker_step b (snd (ReleaseCallToken other token b))"
| bearer_lost: "broker_gap other \<Longrightarrow> broker_step b (snd (snd (handleLEBearerDisconnected other b)))"
| held: "broker_step b (HoldAdvertisement hold b)"
| unadvertised: "broker_step b (advertisement_Release b)"
| advertised: "broker_step b (snd (snd (snd (setAdvertisement accepts enable (registered, b)))))"
| attached: "broker_step b (snd (attach_connection devicePath conn b))"
| detached: "broker_step b (snd (detach_endpoints b))"

definition broker_init :: "broker \<Rightarrow> bool" where
  "broker_init b \<longleftrightarrow> (\<exists>adapter device socket uid. NewBroker adapter device socket uid = Some b)"

lemma broker_step_inv:
  assumes "broker_inv b" "broker_step b b'"
  shows "broker_inv b'"
  using assms(2,1)
proof (cases rule: broker_step.cases)
  case (acquired other an path)
  then show ?thesis using acquire_safety assms(1) by blast
next
  case (watched other i ws open_fd)
  then show ?thesis using broker_gap.watch_inv [of other] assms(1) by (metis surjective_pairing)
next
  case (released other answer closes i)
  then show ?thesis using broker_gap.release_session_inv [of other] assms(1) by (metis surjective_pairing)
next
  case (call_over other token)
  then show ?thesis using broker_gap.token [of other] assms(1) by blast
next
  case (bearer_lost other)
  then show ?thesis using broker_gap.bearer [of other] assms(1) by blast
next
  case (signalled sig)
  then show ?thesis using handleSignal_inv assms(1) by (metis surjective_pairing)
next
  case (attached devicePath conn)
  then show ?thesis using assms(1) reset_transports_inv [of "b\<lparr>bk_expectedDevice := devicePath, bk_connection := Some conn\<rparr>"]
    by (simp add: attach_connection_def) (metis surjective_pairing)
next
  case detached
  then show ?thesis using assms(1) reset_transports_inv [of "b\<lparr>bk_registered := False, bk_advertising := False, bk_discoverable := False\<rparr>"]
    by (simp add: detach_endpoints_def) (metis surjective_pairing)
qed (auto simp: ConfigureMediaLeases_def ConfigureNormalReleaseWait_def ConfigureCallControl_def SetConfiguration_inv clear_inv
      expirePending_inv HoldAdvertisement_inv advertisement_Release_def setAdvertisement_def waitNormalRelease_def
      forceNormalReleaseTimeout_def Let_def split: if_splits)

interpretation broker_sys: invariant_system broker_init broker_step broker_inv
  by unfold_locales (auto simp: broker_init_def NewBroker_inv broker_step_inv)

text \<open>
  Every step is itself something that may happen in the gaps of the others, so the hypothesis on the
  gaps holds for any operation of the broker in them.
\<close>

lemma step_is_gap: "(\<And>b. broker_step b (f b)) \<Longrightarrow> broker_gap f"
  by unfold_locales (blast intro: broker_step_inv)

interpretation signal_gap: broker_gap "\<lambda>b. snd (handleSignal sig b)" for sig
  by (rule step_is_gap) (rule signalled)

interpretation clear_gap: broker_gap "\<lambda>b. snd (clear path b)" for path
  by (rule step_is_gap) (rule cleared)

interpretation hold_gap: broker_gap "HoldAdvertisement hold" for hold
  by (rule step_is_gap) (rule held)

section \<open>Properties\<close>

text \<open>
  C13. The broker's state is always well formed. In every state the operations of the broker can lead to
  from its creation, whatever happens in the gaps where they do not hold the mutex, what is
  configured has a supported codec and a generation that was handed out, every pending transport
  is recorded under its own path with QoS values its codec allows, the active session exists and
  its done channel is open, and no generation the handoff server has seen is newer than the last
  one the broker made.
\<close>

theorem broker_always_well_formed:
  assumes "reachable broker_init broker_step b"
  shows "go_wf (bk_configured b) \<and> go_wf (bk_pending b)
    \<and> (\<forall>path c. go_get (bk_configured b) path = Some c \<longrightarrow> config_ok c \<and> tc_generation c \<le> bk_nextConfig b)
    \<and> (\<forall>path h. go_get (bk_pending b) path = Some h \<longrightarrow> pt_path h = path \<and> transport_ok h)
    \<and> (\<forall>i. bk_activeSession b = Some i \<longrightarrow> i < length (bk_heap b) \<and> \<not> as_lifecycleDone (the_session b i))
    \<and> hs_lastGen (bk_handoff b) ! 1 \<le> bk_lastGen b \<and> hs_lastGen (bk_handoff b) ! 2 \<le> bk_lastGen b
    \<and> hs_lastBundle (bk_handoff b) \<le> bk_lastGen b"
proof -
  have inv: "broker_inv b" using assms by (rule broker_sys.reachable_inv)
  then have "config_ok c \<and> tc_generation c \<le> bk_nextConfig b" if "go_get (bk_configured b) path = Some c" for path c
    using that by (auto simp: broker_inv_def dest: map_of_SomeD)
  with inv pending_okD [OF inv] show ?thesis by (auto simp: broker_inv_def)
qed

theorem broker_always_well_formed_witness:
  "let b = snd (expirePending (\<lambda>_ _. True) True ''/t/1'' 1 (HoldAdvertisement True sample_broker))
   in go_wf (bk_pending b) \<and> hs_lastBundle (bk_handoff b) \<le> bk_lastGen b"
proof -
  have "NewBroker ''hci0'' ''00:11:22:33:44:55'' ''/run/h'' 0 = Some sample_broker"
    by (simp add: sample_broker_def NewBroker_def NewHandoffServer_def SetDisconnectHandler_def HasPrefix_def)
  then have "broker_init sample_broker" by (auto simp: broker_init_def)
  then have "reachable broker_init broker_step sample_broker" by (rule reachable.intros)
  then have "reachable broker_init broker_step (HoldAdvertisement True sample_broker)" by (rule reachable.intros) (rule held)
  then have "reachable broker_init broker_step (snd (expirePending (\<lambda>_ _. True) True ''/t/1'' 1 (HoldAdvertisement True sample_broker)))"
    by (rule reachable.intros) (rule expired)
  from broker_always_well_formed [OF this] show ?thesis by (simp add: Let_def)
qed

end
