(* ===== verification/State_Store.thy ===== *)
theory State_Store
  imports Go_Std "HOL-Library.Sublist"
begin

text \<open>
  The state file of the message bridge (\<open>internal/state/store.go\<close> with \<open>Outbound\<close> of
  \<open>internal/model/model.go\<close>): the message handles already consumed and the queue of outgoing messages.

  A store is the record \<open>sms_store\<close>; the file is \<open>state_file\<close>, with the JSON document it holds
  given as the value that \<open>encoding/json\<close> decodes it to. The system calls of \<open>saveLocked\<close> are one
  argument: the step that fails, if one does. Every operation returns its error, what it did to the
  file system, the store and the file. Reading the older files gets their contents and the results of
  decoding their lines as arguments.

  The lemmas: every operation keeps the store well formed and either takes effect in memory and in the
  file or in neither; a restart finds what was saved; over all runs with crashes at any point, an
  outgoing message is taken at most once and in order.
\<close>

section \<open>Data\<close>

definition stateVersion :: int where "stateVersion = 1"
definition maximumSeenHandles :: nat where "maximumSeenHandles = 4096"
definition maximumOutbound :: nat where "maximumOutbound = 128"
definition maximumLegacyBytes :: nat where "maximumLegacyBytes = 32 * 2 ^ 20"

record outbound =
  ob_ID :: string
  ob_To :: string
  ob_Text :: string
  ob_QueuedAt :: instant

record diskState =
  ds_Version :: int
  ds_Initialized :: bool
  ds_SeenHandles :: "string list"
  ds_Outbound :: "outbound list"

record sms_store =
  st_data :: diskState
  st_seen :: "(string, unit) gomap"

datatype store_error =
    Not_exist | Io_error | Exceeds_bound | Permissions_invalid | Decode_error | Trailing_data
  | Schema_invalid | Invalid_outbound | Scan_too_long | Invalid_handle | Invalid_item | Queue_full

text \<open>What opening and reading a file gives.\<close>

datatype 'a opened = Absent | Unopenable | Unreadable | Present 'a

record state_file =
  sf_size :: nat
  sf_regular :: bool
  sf_perm :: uint16
  sf_document :: "diskState option"
  sf_trailing :: bool

definition validHandle :: "string \<Rightarrow> bool" where
  "validHandle value \<longleftrightarrow> value \<noteq> [] \<and> length value \<le> 64 \<and> list_all is_hex value"

definition validOutbound :: "outbound \<Rightarrow> bool" where
  "validOutbound item \<longleftrightarrow>
     ob_ID item \<noteq> [] \<and> length (ob_ID item) \<le> 128 \<and> \<not> ContainsAny (ob_ID item) [CHR 0x00, CHR 0x0D, CHR 0x0A]
     \<and> ob_Text item \<noteq> [] \<and> length (ob_Text item) \<le> 16 * 1024
     \<and> (let digits = TrimPrefix (ob_To item) ''+''
        in 3 \<le> length digits \<and> length digits \<le> 20 \<and> list_all is_digit digits
           \<and> (ob_To item = digits \<or> ob_To item = ''+'' @ digits))"

section \<open>Saving and loading\<close>

datatype save_step = Mkdir | Create_temp | Chmod_temp | Encode_state | Sync_temp | Close_temp | Rename_temp

datatype file_action = Temp_created | Temp_closed | Temp_removed | Temp_renamed

definition saved_file :: "(diskState \<Rightarrow> nat) \<Rightarrow> diskState \<Rightarrow> state_file" where
  "saved_file encoded d = \<lparr>sf_size = encoded d, sf_regular = True, sf_perm = 0x180, sf_document = Some d, sf_trailing = False\<rparr>"

text \<open>The deferred clean-up closes the temporary file once more and removes it unless it was renamed.\<close>

fun saveLocked :: "(diskState \<Rightarrow> nat) \<Rightarrow> save_step option \<Rightarrow> diskState \<Rightarrow> state_file option
    \<Rightarrow> store_error option \<times> file_action list \<times> state_file option" where
  "saveLocked encoded (Some Mkdir) d file = (Some Io_error, [], file)"
| "saveLocked encoded (Some Create_temp) d file = (Some Io_error, [], file)"
| "saveLocked encoded (Some Chmod_temp) d file = (Some Io_error, [Temp_created, Temp_closed, Temp_removed], file)"
| "saveLocked encoded (Some Encode_state) d file = (Some Io_error, [Temp_created, Temp_closed, Temp_removed], file)"
| "saveLocked encoded (Some Sync_temp) d file = (Some Io_error, [Temp_created, Temp_closed, Temp_removed], file)"
| "saveLocked encoded (Some Close_temp) d file = (Some Io_error, [Temp_created, Temp_closed, Temp_closed, Temp_removed], file)"
| "saveLocked encoded (Some Rename_temp) d file = (Some Io_error, [Temp_created, Temp_closed, Temp_closed, Temp_removed], file)"
| "saveLocked encoded None d file =
     (None, [Temp_created, Temp_closed, Temp_renamed, Temp_closed], Some (saved_file encoded d))"

primrec rebuild :: "string list \<Rightarrow> (string, unit) gomap \<Rightarrow> string list \<Rightarrow> (string, unit) gomap \<times> string list" where
  "rebuild [] seen clean = (seen, clean)"
| "rebuild (h # hs) seen clean =
     (if \<not> validHandle h \<or> go_get seen h \<noteq> None then rebuild hs seen clean
      else rebuild hs (go_put h () seen) (clean @ [h]))"

definition rebuildSeen :: "diskState \<Rightarrow> sms_store" where
  "rebuildSeen d = (let (seen, clean) = rebuild (ds_SeenHandles d) [] []
                    in \<lparr>st_data = d\<lparr>ds_SeenHandles := clean\<rparr>, st_seen = seen\<rparr>)"

definition load :: "state_file opened \<Rightarrow> store_error + sms_store" where
  "load opened =
     (case opened of
        Absent \<Rightarrow> Inl Not_exist
      | Unopenable \<Rightarrow> Inl Io_error
      | Unreadable \<Rightarrow> Inl Io_error
      | Present f \<Rightarrow>
          bindE (check (sf_size f \<le> maximumLegacyBytes) Exceeds_bound) (\<lambda>_.
          bindE (check (sf_regular f \<and> sf_perm f AND 0x3F = 0) Permissions_invalid) (\<lambda>_.
          bindE (the_or (sf_document f) Decode_error) (\<lambda>d.
          bindE (check (\<not> sf_trailing f) Trailing_data) (\<lambda>_.
          bindE (check (ds_Version d = stateVersion \<and> length (ds_SeenHandles d) \<le> maximumSeenHandles
                        \<and> length (ds_Outbound d) \<le> maximumOutbound) Schema_invalid) (\<lambda>_.
          bindE (check (list_all validOutbound (ds_Outbound d)) Invalid_outbound) (\<lambda>_.
          Inr (rebuildSeen d))))))))"

section \<open>Import of the older files\<close>

text \<open>
  The results of \<open>json.Unmarshal\<close> into the types of the four older files, \<open>None\<close> where it fails.
\<close>

record legacy_json =
  js_envelope :: "bytes \<Rightarrow> string list option"
  js_values :: "bytes \<Rightarrow> string list option"
  js_event_handle :: "bytes \<Rightarrow> string option"
  js_outbound :: "bytes \<Rightarrow> (string \<times> string) option"

record legacy_files =
  lf_SeenFile :: "bytes opened"
  lf_MessageLog :: "bytes opened"
  lf_ForwardState :: "bytes opened"
  lf_OutboundQueue :: "bytes opened"

definition readBounded :: "bytes opened \<Rightarrow> store_error + bytes option" where
  "readBounded opened =
     (case opened of
        Absent \<Rightarrow> Inr None
      | Unopenable \<Rightarrow> Inl Io_error
      | Unreadable \<Rightarrow> Inl Io_error
      | Present raw \<Rightarrow> if maximumLegacyBytes < length raw then Inl Exceeds_bound else Inr (Some raw))"

text \<open>The closure \<open>add\<close> with the set \<open>seen\<close> and the slice \<open>seenOrder\<close> it updates.\<close>

definition legacy_add :: "string \<Rightarrow> (string, unit) gomap \<times> string list \<Rightarrow> (string, unit) gomap \<times> string list" where
  "legacy_add h = (\<lambda>(seen, order).
     if \<not> validHandle h \<or> go_get seen h \<noteq> None then (seen, order)
     else let seen' = go_put h () seen; order' = order @ [h]
          in if maximumSeenHandles < length order' then (go_delete (hd order') seen', tl order') else (seen', order'))"

definition legacy_seen_file :: "legacy_json \<Rightarrow> bytes \<Rightarrow> (string, unit) gomap \<times> string list \<Rightarrow> (string, unit) gomap \<times> string list" where
  "legacy_seen_file js raw acc =
     (case js_envelope js raw of
        Some hs \<Rightarrow> fold legacy_add hs acc
      | None \<Rightarrow> (case js_values js raw of Some hs \<Rightarrow> fold legacy_add hs acc | None \<Rightarrow> acc))"

definition legacy_log :: "legacy_json \<Rightarrow> bytes list \<Rightarrow> (string, unit) gomap \<times> string list \<Rightarrow> (string, unit) gomap \<times> string list" where
  "legacy_log js ls acc =
     fold (\<lambda>l acc. case js_event_handle js l of Some h \<Rightarrow> legacy_add h acc | None \<Rightarrow> acc) ls acc"

definition legacy_item :: "bytes \<Rightarrow> nat \<Rightarrow> instant \<Rightarrow> string \<times> string \<Rightarrow> outbound" where
  "legacy_item line index now row =
     \<lparr>ob_ID = ''legacy-'' @ EncodeToString (take 8 (Sum256 (line @ [of_nat index]))),
      ob_To = fst row, ob_Text = snd row, ob_QueuedAt = now\<rparr>"

text \<open>The loop over the old queue; the second result says that it read all lines it could scan.\<close>

primrec legacy_queue :: "legacy_json \<Rightarrow> (nat \<Rightarrow> instant) \<Rightarrow> bytes list \<Rightarrow> nat \<Rightarrow> outbound list \<Rightarrow> outbound list \<times> bool" where
  "legacy_queue js now [] index out = (out, True)"
| "legacy_queue js now (l # ls) index out =
     (if length out < maximumOutbound then
        legacy_queue js now ls (Suc index)
          (case js_outbound js l of
             None \<Rightarrow> out
           | Some row \<Rightarrow> let item = legacy_item l index (now index) row
                         in if validOutbound item then out @ [item] else out)
      else (out, False))"

text \<open>A file read by a scanner: whether it exists, and its lines or the error.\<close>

definition scanned :: "nat \<Rightarrow> bytes opened \<Rightarrow> store_error + (bytes list \<times> bool) option" where
  "scanned maximum opened =
     (case opened of
        Absent \<Rightarrow> Inr None
      | Unopenable \<Rightarrow> Inl Io_error
      | Unreadable \<Rightarrow> Inl Io_error
      | Present raw \<Rightarrow> Inr (Some (scan_lines maximum (take maximumLegacyBytes raw))))"

definition legacy_handles :: "legacy_json \<Rightarrow> bytes option \<Rightarrow> (bytes list \<times> bool) option \<Rightarrow> bytes option \<Rightarrow> string list" where
  "legacy_handles js seenRaw log forward =
     (let acc1 = (case seenRaw of None \<Rightarrow> ([], []) | Some raw \<Rightarrow> legacy_seen_file js raw ([], []));
          acc2 = (case log of None \<Rightarrow> acc1 | Some (ls, _) \<Rightarrow> legacy_log js ls acc1);
          acc3 = (case forward of None \<Rightarrow> acc2 | Some raw \<Rightarrow> legacy_add (TrimSpace (string_of raw)) acc2)
      in snd acc3)"

definition legacy_outbound :: "legacy_json \<Rightarrow> (nat \<Rightarrow> instant) \<Rightarrow> (bytes list \<times> bool) option \<Rightarrow> outbound list \<times> bool" where
  "legacy_outbound js now queue =
     (case queue of None \<Rightarrow> ([], True) | Some (ls, _) \<Rightarrow> legacy_queue js now ls 0 [])"

definition importLegacy :: "legacy_json \<Rightarrow> (nat \<Rightarrow> instant) \<Rightarrow> legacy_files \<Rightarrow> store_error + diskState" where
  "importLegacy js now files =
     bindE (readBounded (lf_SeenFile files)) (\<lambda>seenRaw.
     bindE (scanned (2 * 2 ^ 20) (lf_MessageLog files)) (\<lambda>log.
     bindE (check (case log of Some (_, long) \<Rightarrow> \<not> long | None \<Rightarrow> True) Scan_too_long) (\<lambda>_.
     bindE (readBounded (lf_ForwardState files)) (\<lambda>forward.
     bindE (scanned (64 * 1024) (lf_OutboundQueue files)) (\<lambda>queue.
     bindE (check (case queue of Some (_, long) \<Rightarrow> \<not> (long \<and> snd (legacy_outbound js now queue)) | None \<Rightarrow> True) Scan_too_long) (\<lambda>_.
     Inr \<lparr>ds_Version = stateVersion,
          ds_Initialized = (seenRaw \<noteq> None \<or> log \<noteq> None \<or> forward \<noteq> None \<or> queue \<noteq> None),
          ds_SeenHandles = legacy_handles js seenRaw log forward,
          ds_Outbound = fst (legacy_outbound js now queue)\<rparr>))))))"

section \<open>Operations\<close>

definition Open :: "(diskState \<Rightarrow> nat) \<Rightarrow> save_step option \<Rightarrow> legacy_json \<Rightarrow> (nat \<Rightarrow> instant) \<Rightarrow> legacy_files
    \<Rightarrow> state_file opened \<Rightarrow> store_error + sms_store \<times> bool \<times> file_action list \<times> state_file option" where
  "Open encoded fault js now legacy opened =
     (let file = (case opened of Present f \<Rightarrow> Some f | _ \<Rightarrow> None)
      in case load opened of
        Inr store \<Rightarrow> Inr (store, False, [], file)
      | Inl e \<Rightarrow>
          if e \<noteq> Not_exist then Inl e
          else bindE (importLegacy js now legacy) (\<lambda>imported.
            let store = rebuildSeen imported
            in case saveLocked encoded fault (st_data store) file of
                 (Some e, acts, file') \<Rightarrow> Inl e
               | (None, acts, file') \<Rightarrow> Inr (store, True, acts, file')))"

definition IsInitialized :: "sms_store \<Rightarrow> bool" where
  "IsInitialized st = ds_Initialized (st_data st)"

definition SetInitialized :: "(diskState \<Rightarrow> nat) \<Rightarrow> save_step option \<Rightarrow> sms_store \<Rightarrow> state_file option
    \<Rightarrow> store_error option \<times> file_action list \<times> sms_store \<times> state_file option" where
  "SetInitialized encoded fault st file =
     (if ds_Initialized (st_data st) then (None, [], st, file)
      else let st' = st\<lparr>st_data := (st_data st)\<lparr>ds_Initialized := True\<rparr>\<rparr>;
               (e, acts, file') = saveLocked encoded fault (st_data st') file
           in (e, acts, st', file'))"

definition HasSeen :: "string \<Rightarrow> sms_store \<Rightarrow> bool" where
  "HasSeen handle st \<longleftrightarrow> go_get (st_seen st) handle \<noteq> None"

text \<open>The loop over the new handles: the slice, the set and whether anything changed.\<close>

primrec mark_new :: "string list \<Rightarrow> string list \<times> (string, unit) gomap \<times> bool \<Rightarrow> string list \<times> (string, unit) gomap \<times> bool" where
  "mark_new [] acc = acc"
| "mark_new (h # hs) acc =
     (case acc of (order, seen, changed) \<Rightarrow>
        if go_get seen h \<noteq> None then mark_new hs (order, seen, changed)
        else mark_new hs (order @ [h], go_put h () seen, True))"

definition trim_seen :: "string list \<Rightarrow> (string, unit) gomap \<Rightarrow> string list \<times> (string, unit) gomap" where
  "trim_seen order seen =
     (let extra = length order - maximumSeenHandles
      in if 0 < extra then (drop extra order, fold go_delete (take extra order) seen) else (order, seen))"

definition MarkSeenMany :: "(diskState \<Rightarrow> nat) \<Rightarrow> save_step option \<Rightarrow> string list \<Rightarrow> sms_store \<Rightarrow> state_file option
    \<Rightarrow> store_error option \<times> file_action list \<times> sms_store \<times> state_file option" where
  "MarkSeenMany encoded fault handles st file =
     (if handles = [] then (None, [], st, file)
      else if \<not> list_all validHandle handles then (Some Invalid_handle, [], st, file)
      else let original = ds_SeenHandles (st_data st);
               (order, seen, changed) = mark_new handles (original, st_seen st, False)
           in if \<not> changed then (None, [], st\<lparr>st_seen := seen\<rparr>, file)
              else let (order', seen') = trim_seen order seen;
                       d = (st_data st)\<lparr>ds_SeenHandles := order'\<rparr>;
                       (e, acts, file') = saveLocked encoded fault d file
                   in if e \<noteq> None then (e, acts, st, file')
                      else (None, acts, \<lparr>st_data = d, st_seen = seen'\<rparr>, file'))"

definition MarkSeen :: "(diskState \<Rightarrow> nat) \<Rightarrow> save_step option \<Rightarrow> string \<Rightarrow> sms_store \<Rightarrow> state_file option
    \<Rightarrow> store_error option \<times> file_action list \<times> sms_store \<times> state_file option" where
  "MarkSeen encoded fault handle st file = MarkSeenMany encoded fault [handle] st file"

definition with_outbound :: "sms_store \<Rightarrow> outbound list \<Rightarrow> sms_store" where
  "with_outbound st q = st\<lparr>st_data := (st_data st)\<lparr>ds_Outbound := q\<rparr>\<rparr>"

definition AddOutbound :: "(diskState \<Rightarrow> nat) \<Rightarrow> save_step option \<Rightarrow> outbound \<Rightarrow> sms_store \<Rightarrow> state_file option
    \<Rightarrow> store_error option \<times> file_action list \<times> sms_store \<times> state_file option" where
  "AddOutbound encoded fault item st file =
     (if \<not> validOutbound item then (Some Invalid_item, [], st, file)
      else let q = ds_Outbound (st_data st)
           in if maximumOutbound \<le> length q then (Some Queue_full, [], st, file)
              else if list_ex (\<lambda>existing. ob_ID existing = ob_ID item) q then (None, [], st, file)
              else let st' = with_outbound st (q @ [item]);
                       (e, acts, file') = saveLocked encoded fault (st_data st') file
                   in if e \<noteq> None then (e, acts, with_outbound st' (butlast (q @ [item])), file')
                      else (None, acts, st', file'))"

definition TakeOutbound :: "(diskState \<Rightarrow> nat) \<Rightarrow> save_step option \<Rightarrow> sms_store \<Rightarrow> state_file option
    \<Rightarrow> (store_error + outbound option) \<times> file_action list \<times> sms_store \<times> state_file option" where
  "TakeOutbound encoded fault st file =
     (case ds_Outbound (st_data st) of
        [] \<Rightarrow> (Inr None, [], st, file)
      | item # rest \<Rightarrow>
          let st' = with_outbound st rest;
              (e, acts, file') = saveLocked encoded fault (st_data st') file
          in case e of
               Some err \<Rightarrow> (Inl err, acts, with_outbound st' (item # rest), file')
             | None \<Rightarrow> (Inr (Some item), acts, st', file'))"

definition Counts :: "sms_store \<Rightarrow> nat \<times> nat" where
  "Counts st = (length (st_seen st), length (ds_Outbound (st_data st)))"

section \<open>Well-formed stores\<close>

definition state_ok :: "diskState \<Rightarrow> bool" where
  "state_ok d \<longleftrightarrow> ds_Version d = stateVersion
     \<and> distinct (ds_SeenHandles d) \<and> list_all validHandle (ds_SeenHandles d) \<and> length (ds_SeenHandles d) \<le> maximumSeenHandles
     \<and> list_all validOutbound (ds_Outbound d) \<and> length (ds_Outbound d) \<le> maximumOutbound"

definition store_ok :: "sms_store \<Rightarrow> bool" where
  "store_ok st \<longleftrightarrow> state_ok (st_data st) \<and> go_wf (st_seen st)
     \<and> fst ` set (st_seen st) = set (ds_SeenHandles (st_data st))"

lemma seen_iff: "go_get m h \<noteq> None \<longleftrightarrow> h \<in> fst ` set m"
  by (auto simp: map_of_eq_None_iff)

lemma keys_go_put [simp]: "fst ` set (go_put k v m) = insert k (fst ` set m)"
  by (induction m) auto

lemma keys_go_delete [simp]: "fst ` set (go_delete k m) = fst ` set m - {k}"
  by (auto simp: set_go_delete)

lemma keys_fold_delete: "fst ` set (fold go_delete ks m) = fst ` set m - set ks"
  by (induction ks arbitrary: m) auto

lemma wf_fold_delete: "go_wf m \<Longrightarrow> go_wf (fold go_delete ks m)"
  by (induction ks arbitrary: m) auto

lemma HasSeen_iff: "store_ok st \<Longrightarrow> HasSeen h st \<longleftrightarrow> h \<in> set (ds_SeenHandles (st_data st))"
  unfolding HasSeen_def seen_iff store_ok_def by simp

lemma Counts_ok: "store_ok st \<Longrightarrow> Counts st = (length (ds_SeenHandles (st_data st)), length (ds_Outbound (st_data st)))"
proof -
  assume ok: "store_ok st"
  then have "length (map fst (st_seen st)) = length (ds_SeenHandles (st_data st))"
    unfolding store_ok_def state_ok_def by (metis distinct_card list.set_map)
  then show ?thesis by (simp add: Counts_def)
qed

subsection \<open>Saving and loading\<close>

lemma saveLocked_cases:
  assumes "saveLocked encoded fault d file = (e, acts, file')"
  obtains (saved) "fault = None" "e = None" "file' = Some (saved_file encoded d)"
    | (failed) "fault \<noteq> None" "e = Some Io_error" "file' = file"
proof (cases fault)
  case None
  with assms saved show ?thesis by simp
next
  case (Some step)
  with assms failed show ?thesis by (cases step) auto
qed

text \<open>The set and the slice that are built together.\<close>

definition seen_pair :: "(string, unit) gomap \<times> string list \<Rightarrow> bool" where
  "seen_pair acc \<longleftrightarrow> go_wf (fst acc) \<and> fst ` set (fst acc) = set (snd acc) \<and> distinct (snd acc)
     \<and> list_all validHandle (snd acc)"

lemma seen_pair_Nil [simp]: "seen_pair ([], [])"
  by (simp add: seen_pair_def)

lemma seen_pair_put: "seen_pair (seen, order) \<Longrightarrow> validHandle h \<Longrightarrow> go_get seen h \<noteq> Some () \<Longrightarrow> seen_pair (go_put h () seen, order @ [h])"
  using seen_iff [of seen h] by (auto simp: seen_pair_def)

lemma rebuild_pair: "seen_pair (seen, clean) \<Longrightarrow> seen_pair (rebuild hs seen clean)"
  by (induction hs arbitrary: seen clean) (auto intro: seen_pair_put)

lemma rebuild_length: "length (snd (rebuild hs seen clean)) \<le> length clean + length hs"
proof (induction hs arbitrary: seen clean)
  case (Cons h hs)
  show ?case using Cons.IH [of seen clean] Cons.IH [of "go_put h () seen" "clean @ [h]"] by auto
qed simp

lemma rebuild_id:
  "seen_pair (seen, clean) \<Longrightarrow> distinct (clean @ hs) \<Longrightarrow> list_all validHandle hs \<Longrightarrow> snd (rebuild hs seen clean) = clean @ hs"
proof (induction hs arbitrary: seen clean)
  case (Cons h hs)
  then have "go_get seen h = None" using seen_iff [of seen h] by (auto simp: seen_pair_def)
  with Cons show ?case by (simp add: seen_pair_put)
qed simp

lemma rebuildSeen_ok:
  assumes "ds_Version d = stateVersion" "length (ds_SeenHandles d) \<le> maximumSeenHandles"
    "list_all validOutbound (ds_Outbound d)" "length (ds_Outbound d) \<le> maximumOutbound"
  shows "store_ok (rebuildSeen d)"
  using assms rebuild_pair [of "[]" "[]" "ds_SeenHandles d"] rebuild_length [of "ds_SeenHandles d" "[]" "[]"]
  by (cases "rebuild (ds_SeenHandles d) [] []")
     (simp add: rebuildSeen_def store_ok_def state_ok_def seen_pair_def)

lemma rebuildSeen_data: "state_ok d \<Longrightarrow> st_data (rebuildSeen d) = d"
  using rebuild_id [of "[]" "[]" "ds_SeenHandles d"]
  by (auto simp: rebuildSeen_def state_ok_def split: prod.split)

lemma rebuildSeen_state_ok: "state_ok d \<Longrightarrow> store_ok (rebuildSeen d)"
  by (auto simp: state_ok_def intro: rebuildSeen_ok)

lemma load_ok: "load opened = Inr st \<Longrightarrow> store_ok st"
  by (auto simp: load_def bindE_Inr_iff split: opened.splits intro: rebuildSeen_ok)

lemma load_saved:
  "state_ok d \<Longrightarrow> encoded d \<le> maximumLegacyBytes \<Longrightarrow> load (Present (saved_file encoded d)) = Inr (rebuildSeen d)"
  by (simp add: load_def saved_file_def state_ok_def check_def the_or_def)

subsection \<open>Import\<close>

definition legacy_ok :: "(string, unit) gomap \<times> string list \<Rightarrow> bool" where
  "legacy_ok acc \<longleftrightarrow> seen_pair acc \<and> length (snd acc) \<le> maximumSeenHandles"

lemma legacy_add_ok: "legacy_ok acc \<Longrightarrow> legacy_ok (legacy_add h acc)"
proof -
  assume ok: "legacy_ok acc"
  obtain seen order where acc: "acc = (seen, order)" by (cases acc)
  show ?thesis
  proof (cases "validHandle h \<and> go_get seen h = None")
    case True
    then have p: "seen_pair (go_put h () seen, order @ [h])"
      using ok acc by (auto simp: legacy_ok_def intro: seen_pair_put)
    then have q: "seen_pair (go_delete (hd (order @ [h])) (go_put h () seen), tl (order @ [h]))"
      by (cases order) (auto simp: seen_pair_def)
    show ?thesis using True p q ok acc by (auto simp: legacy_add_def legacy_ok_def Let_def)
  next
    case False
    with ok acc show ?thesis by (auto simp: legacy_add_def)
  qed
qed

lemma legacy_fold_ok: "legacy_ok acc \<Longrightarrow> legacy_ok (fold legacy_add hs acc)"
  by (induction hs arbitrary: acc) (simp_all add: legacy_add_ok)

lemma legacy_log_ok: "legacy_ok acc \<Longrightarrow> legacy_ok (legacy_log js ls acc)"
  by (induction ls arbitrary: acc) (auto simp: legacy_log_def legacy_add_ok split: option.split)

lemma legacy_seen_file_ok: "legacy_ok acc \<Longrightarrow> legacy_ok (legacy_seen_file js raw acc)"
  by (auto simp: legacy_seen_file_def legacy_fold_ok split: option.split)

definition queue_ok :: "outbound list \<Rightarrow> bool" where
  "queue_ok out \<longleftrightarrow> list_all validOutbound out \<and> length out \<le> maximumOutbound"

lemma legacy_queue_ok: "queue_ok out \<Longrightarrow> queue_ok (fst (legacy_queue js now ls index out))"
proof (induction ls arbitrary: index out)
  case (Cons l ls)
  define out' where "out' = (case js_outbound js l of None \<Rightarrow> out
    | Some row \<Rightarrow> let item = legacy_item l index (now index) row in if validOutbound item then out @ [item] else out)"
  have "queue_ok out'" if "length out < maximumOutbound"
    using that Cons.prems by (auto simp: out'_def queue_ok_def Let_def split: option.split)
  with Cons show ?case by (simp add: out'_def [symmetric])
qed simp

lemma legacy_outbound_ok: "queue_ok (fst (legacy_outbound js now queue))"
  by (auto simp: legacy_outbound_def queue_ok_def [of "[]"] intro: legacy_queue_ok split: option.split)

lemma legacy_ok_Nil: "legacy_ok ([], [])"
  by (simp add: legacy_ok_def)

lemma legacy_handles_ok: "\<exists>seen. legacy_ok (seen, legacy_handles js seenRaw log forward)"
proof -
  define acc1 where "acc1 = (case seenRaw of None \<Rightarrow> ([], []) | Some raw \<Rightarrow> legacy_seen_file js raw ([], []))"
  define acc2 where "acc2 = (case log of None \<Rightarrow> acc1 | Some (ls, _) \<Rightarrow> legacy_log js ls acc1)"
  define acc3 where "acc3 = (case forward of None \<Rightarrow> acc2 | Some raw \<Rightarrow> legacy_add (TrimSpace (string_of raw)) acc2)"
  have "legacy_ok acc1" by (auto simp: acc1_def legacy_seen_file_ok legacy_ok_Nil split: option.split)
  then have "legacy_ok acc2" by (auto simp: acc2_def legacy_log_ok split: option.split)
  then have "legacy_ok acc3" by (auto simp: acc3_def legacy_add_ok split: option.split)
  moreover have "legacy_handles js seenRaw log forward = snd acc3"
    unfolding legacy_handles_def Let_def acc3_def acc2_def acc1_def by (rule refl)
  ultimately show ?thesis by (metis prod.collapse)
qed

lemma importLegacy_ok: "importLegacy js now files = Inr d \<Longrightarrow> state_ok d"
proof -
  assume "importLegacy js now files = Inr d"
  then obtain seenRaw log forward queue where
    d: "ds_Version d = stateVersion" "ds_SeenHandles d = legacy_handles js seenRaw log forward"
      "ds_Outbound d = fst (legacy_outbound js now queue)"
    unfolding importLegacy_def bindE_Inr_iff by auto
  show ?thesis
    using legacy_handles_ok [of js seenRaw log forward] legacy_outbound_ok [of js now queue]
    by (auto simp: state_ok_def d legacy_ok_def seen_pair_def queue_ok_def)
qed

lemma Open_cases:
  assumes "Open encoded fault js now legacy opened = Inr (st, imported, acts, file')"
  obtains (loaded) "load opened = Inr st" "\<not> imported" "file' = (case opened of Present f \<Rightarrow> Some f | _ \<Rightarrow> None)"
    | (imported) d where "load opened = Inl Not_exist" "importLegacy js now legacy = Inr d" "imported"
        "st = rebuildSeen d" "file' = Some (saved_file encoded (st_data st))"
proof (cases "load opened")
  case (Inr st0)
  with assms loaded show ?thesis by (auto simp: Open_def Let_def)
next
  case (Inl err)
  define f0 where "f0 = (case opened of Present f \<Rightarrow> Some f | _ \<Rightarrow> None)"
  from assms Inl have err: "err = Not_exist" by (auto simp: Open_def Let_def split: if_splits)
  from assms Inl err obtain d where d: "importLegacy js now legacy = Inr d"
    by (auto simp: Open_def Let_def bindE_Inr_iff)
  obtain e acts0 file0 where s: "saveLocked encoded fault (st_data (rebuildSeen d)) f0 = (e, acts0, file0)"
    by (metis surj_pair)
  from s show ?thesis
  proof (cases rule: saveLocked_cases)
    case saved
    with assms Inl err d s show ?thesis by (intro imported [of d]) (auto simp: Open_def f0_def [symmetric] Let_def)
  next
    case failed
    with assms Inl err d s show ?thesis by (auto simp: Open_def f0_def [symmetric] Let_def)
  qed
qed

lemma Open_ok: "Open encoded fault js now legacy opened = Inr (st, imported, acts, file') \<Longrightarrow> store_ok st"
  by (erule Open_cases) (auto intro: load_ok rebuildSeen_state_ok importLegacy_ok)

subsection \<open>Marking handles\<close>

text \<open>The first occurrences of a list's elements, and its newest elements within the bound.\<close>

definition firsts :: "'a list \<Rightarrow> 'a list" where
  "firsts xs = rev (remdups (rev xs))"

definition newest :: "string list \<Rightarrow> string list" where
  "newest order = drop (length order - maximumSeenHandles) order"

lemma firsts_distinct: "distinct xs \<Longrightarrow> firsts xs = xs"
  by (simp add: firsts_def distinct_remdups_id)

lemma set_firsts [simp]: "set (firsts xs) = set xs"
  by (simp add: firsts_def)

lemma firsts_snoc_old: "x \<in> set xs \<Longrightarrow> firsts (xs @ x # ys) = firsts (xs @ ys)"
proof -
  have "x \<in> set zs \<Longrightarrow> remdups (as @ x # zs) = remdups (as @ zs)" for as zs by (induction as) auto
  then show "x \<in> set xs \<Longrightarrow> ?thesis" by (simp add: firsts_def)
qed

lemma mark_new_spec:
  "seen_pair (seen, order) \<Longrightarrow> list_all validHandle hs \<Longrightarrow> mark_new hs (order, seen, c) = (order', seen', c')
   \<Longrightarrow> seen_pair (seen', order') \<and> order' = firsts (order @ hs) \<and> (c' \<longleftrightarrow> c \<or> order' \<noteq> order)
       \<and> (order' = order \<longrightarrow> seen' = seen) \<and> (\<exists>new. order' = order @ new)"
proof (induction hs arbitrary: order seen c)
  case Nil
  then show ?case by (auto simp: firsts_distinct seen_pair_def)
next
  case (Cons h hs)
  show ?case
  proof (cases "go_get seen h = Some ()")
    case True
    then have "h \<in> set order" using seen_iff [of seen h] Cons.prems(1) by (auto simp: seen_pair_def)
    with True Cons.prems Cons.IH [of seen order c] show ?thesis by (auto simp: firsts_snoc_old)
  next
    case False
    have "seen_pair (go_put h () seen, order @ [h])" using False Cons.prems by (auto intro: seen_pair_put)
    from Cons.IH [OF this, of True] Cons.prems False show ?thesis by auto
  qed
qed

lemma trim_seen_spec:
  "seen_pair (seen, order) \<Longrightarrow> trim_seen order seen = (order', seen') \<Longrightarrow> seen_pair (seen', order') \<and> order' = newest order"
proof -
  assume p: "seen_pair (seen, order)" and t: "trim_seen order seen = (order', seen')"
  let ?n = "length order - maximumSeenHandles"
  have split: "set order - set (take ?n order) = set (drop ?n order)"
  proof -
    have "distinct (take ?n order @ drop ?n order)" using p by (simp add: seen_pair_def)
    then have "set (take ?n order) \<inter> set (drop ?n order) = {}" by (simp only: distinct_append)
    moreover have "set order = set (take ?n order) \<union> set (drop ?n order)" by (metis append_take_drop_id set_append)
    ultimately show ?thesis by blast
  qed
  show ?thesis
  proof (cases "0 < ?n")
    case True
    then have e: "order' = drop ?n order" "seen' = fold go_delete (take ?n order) seen"
      using t by (simp_all add: trim_seen_def Let_def)
    have "list_all validHandle (drop ?n order)" using p by (auto simp: seen_pair_def list_all_iff dest: in_set_dropD)
    with p e split show ?thesis
      by (simp add: seen_pair_def newest_def keys_fold_delete wf_fold_delete)
  next
    case False
    with p t show ?thesis by (simp add: trim_seen_def Let_def newest_def)
  qed
qed

lemma newest_id: "length order \<le> maximumSeenHandles \<Longrightarrow> newest order = order"
  by (simp add: newest_def)

lemma length_newest: "length (newest order) \<le> maximumSeenHandles"
  by (simp add: newest_def)

lemma store_pair: "store_ok st \<Longrightarrow> seen_pair (st_seen st, ds_SeenHandles (st_data st))"
  by (simp add: store_ok_def state_ok_def seen_pair_def)

lemma MarkSeenMany_cases:
  assumes ok: "store_ok st" and run: "MarkSeenMany encoded fault hs st file = (e, acts, st', file')"
  obtains (refused) "e \<noteq> None" "st' = st" "file' = file" "\<not> list_all validHandle hs \<or> fault \<noteq> None"
    | (unchanged) "e = None" "st' = st" "file' = file" "set hs \<subseteq> set (ds_SeenHandles (st_data st))"
    | (marked) "e = None" "store_ok st'" "file' = Some (saved_file encoded (st_data st'))" "list_all validHandle hs"
        "st_data st' = (st_data st)\<lparr>ds_SeenHandles := newest (firsts (ds_SeenHandles (st_data st) @ hs))\<rparr>"
proof -
  let ?o = "ds_SeenHandles (st_data st)"
  obtain order seen changed where m: "mark_new hs (?o, st_seen st, False) = (order, seen, changed)"
    by (metis surj_pair)
  obtain order' seen' where tr: "trim_seen order seen = (order', seen')" by (metis surj_pair)
  define d where "d = (st_data st)\<lparr>ds_SeenHandles := order'\<rparr>"
  obtain e0 acts0 file0 where s: "saveLocked encoded fault d file = (e0, acts0, file0)" by (metis surj_pair)
  consider "hs = []" | "\<not> list_all validHandle hs" | "hs \<noteq> []" "list_all validHandle hs" by blast
  then show ?thesis
  proof cases
    case 1
    with run show ?thesis by (intro unchanged) (auto simp: MarkSeenMany_def)
  next
    case 2
    then have "hs \<noteq> []" by auto
    with 2 run show ?thesis by (intro refused) (auto simp: MarkSeenMany_def)
  next
    case 3
    note spec = mark_new_spec [OF store_pair [OF ok] 3(2) m]
    have r: "(e, acts, st', file') = (if \<not> changed then (None, [], st\<lparr>st_seen := seen\<rparr>, file)
        else if e0 \<noteq> None then (e0, acts0, st, file0) else (None, acts0, \<lparr>st_data = d, st_seen = seen'\<rparr>, file0))"
      using run 3 m tr s by (simp add: MarkSeenMany_def d_def [symmetric] Let_def cong: if_cong)
    show ?thesis
    proof (cases changed)
      case False
      then have "order = ?o" "seen = st_seen st" using spec by auto
      moreover have "set (firsts (?o @ hs)) = set ?o \<union> set hs" by simp
      ultimately have "set hs \<subseteq> set ?o" using spec by auto
      with False r \<open>seen = st_seen st\<close> show ?thesis by (intro unchanged) auto
    next
      case True
      have p: "seen_pair (seen', order')" "order' = newest (firsts (?o @ hs))"
        using spec trim_seen_spec [OF _ tr] by auto
      have new: "store_ok \<lparr>st_data = d, st_seen = seen'\<rparr>"
        using ok p length_newest by (auto simp: store_ok_def state_ok_def seen_pair_def d_def)
      from s show ?thesis
      proof (cases rule: saveLocked_cases)
        case saved
        with True r new p 3 show ?thesis by (intro marked) (auto simp: d_def)
      next
        case failed
        with True r show ?thesis by (intro refused) auto
      qed
    qed
  qed
qed

subsection \<open>The queue\<close>

lemma store_ok_with_outbound:
  "store_ok st \<Longrightarrow> queue_ok q \<Longrightarrow> store_ok (with_outbound st q)"
  by (simp add: store_ok_def state_ok_def with_outbound_def queue_ok_def)

lemma with_outbound_simps [simp]:
  "with_outbound (with_outbound st q) q' = with_outbound st q'" "with_outbound st (ds_Outbound (st_data st)) = st"
  "ds_Outbound (st_data (with_outbound st q)) = q" "ds_SeenHandles (st_data (with_outbound st q)) = ds_SeenHandles (st_data st)"
  "ds_Initialized (st_data (with_outbound st q)) = ds_Initialized (st_data st)" "st_seen (with_outbound st q) = st_seen st"
  by (simp_all add: with_outbound_def)

lemma AddOutbound_cases:
  assumes ok: "store_ok st" and run: "AddOutbound encoded fault item st file = (e, acts, st', file')"
  obtains (refused) "e \<noteq> None" "st' = st" "file' = file"
      "\<not> validOutbound item \<or> length (ds_Outbound (st_data st)) = maximumOutbound \<or> fault \<noteq> None"
    | (duplicate) "e = None" "st' = st" "file' = file" "ob_ID item \<in> ob_ID ` set (ds_Outbound (st_data st))"
    | (queued) "e = None" "store_ok st'" "file' = Some (saved_file encoded (st_data st'))"
        "ob_ID item \<notin> ob_ID ` set (ds_Outbound (st_data st))" "st' = with_outbound st (ds_Outbound (st_data st) @ [item])"
proof -
  let ?q = "ds_Outbound (st_data st)"
  have q: "queue_ok ?q" using ok by (simp add: store_ok_def state_ok_def queue_ok_def)
  define st1 where "st1 = with_outbound st (?q @ [item])"
  obtain e0 acts0 file0 where s: "saveLocked encoded fault (st_data st1) file = (e0, acts0, file0)" by (metis surj_pair)
  consider "\<not> validOutbound item" | "validOutbound item" "maximumOutbound \<le> length ?q"
    | "validOutbound item" "length ?q < maximumOutbound" "list_ex (\<lambda>x. ob_ID x = ob_ID item) ?q"
    | "validOutbound item" "length ?q < maximumOutbound" "\<not> list_ex (\<lambda>x. ob_ID x = ob_ID item) ?q"
    by linarith
  then show ?thesis
  proof cases
    case 1
    with run show ?thesis by (intro refused) (auto simp: AddOutbound_def)
  next
    case 2
    with run q show ?thesis by (intro refused) (auto simp: AddOutbound_def queue_ok_def Let_def)
  next
    case 3
    then obtain x where x: "x \<in> set ?q" "ob_ID item = ob_ID x" by (auto simp: list_ex_iff)
    have "ob_ID item \<in> ob_ID ` set ?q" unfolding x(2) using x(1) by (rule imageI)
    with 3 run show ?thesis by (intro duplicate) (auto simp: AddOutbound_def Let_def)
  next
    case 4
    then have new: "ob_ID item \<notin> ob_ID ` set ?q" by (auto simp: list_ex_iff)
    have r: "(e, acts, st', file') = (if e0 \<noteq> None then (e0, acts0, st, file0) else (None, acts0, st1, file0))"
      using run 4 s by (simp add: AddOutbound_def Let_def st1_def [symmetric] cong: if_cong)
    have ok1: "store_ok st1" unfolding st1_def using ok q 4 by (intro store_ok_with_outbound) (auto simp: queue_ok_def)
    from s show ?thesis
    proof (cases rule: saveLocked_cases)
      case saved
      with r ok1 new show ?thesis by (intro queued) (auto simp: st1_def)
    next
      case failed
      with r show ?thesis by (intro refused) auto
    qed
  qed
qed

lemma TakeOutbound_cases:
  assumes ok: "store_ok st" and run: "TakeOutbound encoded fault st file = (r, acts, st', file')"
  obtains (refused) err where "r = Inl err" "st' = st" "file' = file" "fault \<noteq> None"
    | (empty) "r = Inr None" "st' = st" "file' = file" "ds_Outbound (st_data st) = []"
    | (taken) item where "r = Inr (Some item)" "store_ok st'" "file' = Some (saved_file encoded (st_data st'))"
        "ds_Outbound (st_data st) = item # ds_Outbound (st_data st')"
        "st' = with_outbound st (tl (ds_Outbound (st_data st)))"
proof (cases "ds_Outbound (st_data st)")
  case Nil
  with run show ?thesis by (intro empty) (auto simp: TakeOutbound_def)
next
  case (Cons item rest)
  define st1 where "st1 = with_outbound st rest"
  obtain e0 acts0 file0 where s: "saveLocked encoded fault (st_data st1) file = (e0, acts0, file0)" by (metis surj_pair)
  have ok1: "store_ok st1" unfolding st1_def using ok Cons
    by (intro store_ok_with_outbound) (auto simp: store_ok_def state_ok_def queue_ok_def)
  have same: "with_outbound st (item # rest) = st" using Cons by (metis with_outbound_simps(2))
  have r: "(r, acts, st', file') = (case e0 of Some err \<Rightarrow> (Inl err, acts0, st, file0) | None \<Rightarrow> (Inr (Some item), acts0, st1, file0))"
    using run Cons s same by (simp add: TakeOutbound_def Let_def st1_def [symmetric] cong: option.case_cong)
  from s show ?thesis
  proof (cases rule: saveLocked_cases)
    case saved
    with r ok1 Cons show ?thesis by (intro taken [of item]) (auto simp: st1_def)
  next
    case failed
    with r show ?thesis by (intro refused [of Io_error]) auto
  qed
qed

lemma SetInitialized_cases:
  assumes ok: "store_ok st" and run: "SetInitialized encoded fault st file = (e, acts, st', file')"
  obtains (already) "e = None" "IsInitialized st" "st' = st" "file' = file"
    | (set) "st' = st\<lparr>st_data := (st_data st)\<lparr>ds_Initialized := True\<rparr>\<rparr>" "store_ok st'" "\<not> IsInitialized st"
        "if fault = None then e = None \<and> file' = Some (saved_file encoded (st_data st')) else e \<noteq> None \<and> file' = file"
proof (cases "IsInitialized st")
  case True
  with run show ?thesis by (intro already) (auto simp: SetInitialized_def IsInitialized_def)
next
  case False
  define st1 where "st1 = st\<lparr>st_data := (st_data st)\<lparr>ds_Initialized := True\<rparr>\<rparr>"
  obtain e0 acts0 file0 where s: "saveLocked encoded fault (st_data st1) file = (e0, acts0, file0)" by (metis surj_pair)
  have r: "(e, acts, st', file') = (e0, acts0, st1, file0)"
    using run False s by (simp add: SetInitialized_def IsInitialized_def Let_def st1_def [symmetric])
  have "store_ok st1" using ok by (simp add: st1_def store_ok_def state_ok_def)
  with r False have all: "st' = st1" "store_ok st'" "e = e0" "file' = file0" by auto
  show ?thesis
  proof (rule set)
    show "if fault = None then e = None \<and> file' = Some (saved_file encoded (st_data st')) else e \<noteq> None \<and> file' = file"
      using s all by (auto elim: saveLocked_cases)
  qed (use all False in \<open>simp_all add: st1_def\<close>)
qed

section \<open>Runs with crashes and restarts\<close>

datatype store_op = Mark "string list" | Add outbound | Take | Initialize

text \<open>One operation: its error, the item it hands out, the store and the file after it.\<close>

fun exec :: "(diskState \<Rightarrow> nat) \<Rightarrow> save_step option \<Rightarrow> store_op \<Rightarrow> sms_store \<Rightarrow> state_file option
    \<Rightarrow> store_error option \<times> outbound list \<times> sms_store \<times> state_file option" where
  "exec encoded fault (Mark hs) st file =
     (case MarkSeenMany encoded fault hs st file of (e, acts, st', file') \<Rightarrow> (e, [], st', file'))"
| "exec encoded fault (Add item) st file =
     (case AddOutbound encoded fault item st file of (e, acts, st', file') \<Rightarrow> (e, [], st', file'))"
| "exec encoded fault Take st file =
     (case TakeOutbound encoded fault st file of (r, acts, st', file') \<Rightarrow>
        (case r of Inl e \<Rightarrow> (Some e, [], st', file') | Inr None \<Rightarrow> (None, [], st', file')
         | Inr (Some item) \<Rightarrow> (None, [item], st', file')))"
| "exec encoded fault Initialize st file =
     (case SetInitialized encoded fault st file of (e, acts, st', file') \<Rightarrow> (e, [], st', file'))"

fun offered :: "store_op \<Rightarrow> outbound list" where
  "offered (Add item) = [item]"
| "offered _ = []"

text \<open>
  A process with its state file: the store while it runs, the file, the messages whose addition was
  acknowledged or cut short by a crash, and the messages handed out for sending.
\<close>

record process =
  pr_store :: "sms_store option"
  pr_file :: "state_file option"
  pr_added :: "outbound list"
  pr_taken :: "outbound list"

definition opened_of :: "'a option \<Rightarrow> 'a opened" where
  "opened_of file = (case file of None \<Rightarrow> Absent | Some f \<Rightarrow> Present f)"

definition file_queue :: "state_file option \<Rightarrow> outbound list" where
  "file_queue file = (case file of None \<Rightarrow> [] | Some f \<Rightarrow> (case sf_document f of None \<Rightarrow> [] | Some d \<Rightarrow> ds_Outbound d))"

inductive store_step :: "(diskState \<Rightarrow> nat) \<Rightarrow> process \<Rightarrow> process \<Rightarrow> bool" for encoded :: "diskState \<Rightarrow> nat" where
  run: "pr_store p = Some st \<Longrightarrow> exec encoded fault op st (pr_file p) = (e, out, st', file')
    \<Longrightarrow> store_step encoded p (p\<lparr>pr_store := Some st', pr_file := file',
          pr_added := pr_added p @ (if e = None then offered op else []), pr_taken := pr_taken p @ out\<rparr>)"
| crash: "store_step encoded p (p\<lparr>pr_store := None\<rparr>)"
| crash_within: "pr_store p = Some st \<Longrightarrow> exec encoded fault op st (pr_file p) = (e, out, st', file')
    \<Longrightarrow> store_step encoded p (p\<lparr>pr_store := None, pr_file := file', pr_added := pr_added p @ offered op\<rparr>)"
| restart: "pr_store p = None \<Longrightarrow> Open encoded fault js now legacy (opened_of (pr_file p)) = Inr (st, imported, acts, file')
    \<Longrightarrow> store_step encoded p (p\<lparr>pr_store := Some st, pr_file := file',
          pr_added := pr_added p @ (if imported then ds_Outbound (st_data st) else [])\<rparr>)"

definition store_init :: "process \<Rightarrow> bool" where
  "store_init p \<longleftrightarrow> pr_store p = None \<and> pr_taken p = [] \<and> pr_added p = file_queue (pr_file p)"

text \<open>What the file says agrees with the store: the same handles, the same queue, no flag the store lacks.\<close>

definition agrees :: "diskState \<Rightarrow> sms_store \<Rightarrow> bool" where
  "agrees d st \<longleftrightarrow> ds_SeenHandles d = ds_SeenHandles (st_data st) \<and> ds_Outbound d = ds_Outbound (st_data st)
     \<and> (ds_Initialized d \<longrightarrow> ds_Initialized (st_data st))"

definition on_disk :: "(diskState \<Rightarrow> nat) \<Rightarrow> state_file option \<Rightarrow> sms_store \<Rightarrow> bool" where
  "on_disk encoded file st \<longleftrightarrow>
     (\<exists>f st0. file = Some f \<and> load (Present f) = Inr st0 \<and> agrees (st_data st0) st)
     \<or> (\<exists>d. file = Some (saved_file encoded d) \<and> state_ok d \<and> agrees d st)"

definition process_ok :: "(diskState \<Rightarrow> nat) \<Rightarrow> process \<Rightarrow> bool" where
  "process_ok encoded p \<longleftrightarrow> subseq (pr_taken p @ file_queue (pr_file p)) (pr_added p)
     \<and> (case pr_store p of None \<Rightarrow> True | Some st \<Rightarrow> store_ok st \<and> on_disk encoded (pr_file p) st)"

lemma rebuildSeen_outbound [simp]: "ds_Outbound (st_data (rebuildSeen d)) = ds_Outbound d"
  by (simp add: rebuildSeen_def split: prod.split)

lemma load_queue: "load (Present f) = Inr st \<Longrightarrow> file_queue (Some f) = ds_Outbound (st_data st)"
  by (auto simp: load_def bindE_Inr_iff file_queue_def)

lemma saved_queue [simp]: "file_queue (Some (saved_file encoded d)) = ds_Outbound d"
  by (simp add: file_queue_def saved_file_def)

lemma on_disk_queue: "on_disk encoded file st \<Longrightarrow> file_queue file = ds_Outbound (st_data st)"
  by (auto simp: on_disk_def agrees_def dest: load_queue)

lemma on_disk_saved: "store_ok st \<Longrightarrow> file = Some (saved_file encoded (st_data st)) \<Longrightarrow> on_disk encoded file st"
  by (auto simp: on_disk_def agrees_def store_ok_def)

text \<open>Every operation keeps the store well formed and on disk, and moves the queue as it says.\<close>

lemma exec_ok:
  assumes ok: "store_ok st" "on_disk encoded file st" and run: "exec encoded fault op st file = (e, out, st', file')"
  shows "store_ok st'" "on_disk encoded file' st'"
    and "subseq (out @ file_queue file') (file_queue file @ (if e = None then offered op else []))"
proof -
  have "store_ok st' \<and> on_disk encoded file' st'
    \<and> subseq (out @ file_queue file') (file_queue file @ (if e = None then offered op else []))"
  proof (cases op)
    case (Mark hs)
    obtain acts where m: "MarkSeenMany encoded fault hs st file = (e, acts, st', file')" and out: "out = []"
      using run Mark by (auto split: prod.splits)
    from ok(1) m show ?thesis
    proof (cases rule: MarkSeenMany_cases)
      case marked
      have "on_disk encoded file' st'" using marked(2,3) by (rule on_disk_saved)
      with marked ok out show ?thesis by (simp add: on_disk_queue Mark)
    qed (use ok out Mark in auto)
  next
    case (Add item)
    obtain acts where m: "AddOutbound encoded fault item st file = (e, acts, st', file')" and out: "out = []"
      using run Add by (auto split: prod.splits)
    from ok(1) m show ?thesis
    proof (cases rule: AddOutbound_cases)
      case queued
      have "on_disk encoded file' st'" using queued(2,3) by (rule on_disk_saved)
      with queued ok out show ?thesis by (simp add: on_disk_queue Add)
    qed (use ok out Add in auto)
  next
    case Take
    obtain r acts where m: "TakeOutbound encoded fault st file = (r, acts, st', file')"
      and out: "out = (case r of Inr (Some item) \<Rightarrow> [item] | _ \<Rightarrow> [])"
      using run Take by (auto split: prod.splits sum.splits option.splits)
    from ok(1) m show ?thesis
    proof (cases rule: TakeOutbound_cases)
      case (taken item)
      have "on_disk encoded file' st'" using taken(2,3) by (rule on_disk_saved)
      with taken(1,2,4) ok out show ?thesis by (simp add: on_disk_queue Take)
    qed (use ok out Take in auto)
  next
    case Initialize
    obtain acts where m: "SetInitialized encoded fault st file = (e, acts, st', file')" and out: "out = []"
      using run Initialize by (auto split: prod.splits)
    from ok(1) m show ?thesis
    proof (cases rule: SetInitialized_cases)
      case set
      have "on_disk encoded file (st\<lparr>st_data := (st_data st)\<lparr>ds_Initialized := True\<rparr>\<rparr>)"
        using ok(2) by (auto simp: on_disk_def agrees_def)
      then have d: "on_disk encoded file' st'"
        using set on_disk_saved [OF set(2), of file'] by (cases "fault = None") auto
      then have "file_queue file' = file_queue file" using ok(2) set(1) by (simp add: on_disk_queue)
      with d set(2) out show ?thesis by (simp add: Initialize)
    qed (use ok out Initialize in auto)
  qed
  then show "store_ok st'" "on_disk encoded file' st'"
    "subseq (out @ file_queue file') (file_queue file @ (if e = None then offered op else []))" by auto
qed

interpretation store_sys: invariant_system store_init "store_step encoded" "process_ok encoded" for encoded
proof
  fix p
  assume "store_init p"
  then show "process_ok encoded p" by (simp add: store_init_def process_ok_def)
next
  fix p q
  assume inv: "process_ok encoded p" and "store_step encoded p q"
  from this(2) show "process_ok encoded q"
  proof cases
    case (run st fault op e out st' file')
    with inv have st: "store_ok st" "on_disk encoded (pr_file p) st" by (auto simp: process_ok_def)
    note ex = exec_ok [OF st run(3)]
    have "subseq (pr_taken p @ out @ file_queue file') (pr_taken p @ file_queue (pr_file p) @ (if e = None then offered op else []))"
      using ex(3) by (rule list_emb_append_mono [OF subseq_order.refl])
    also have "subseq \<dots> (pr_added p @ (if e = None then offered op else []))"
      using inv list_emb_append_mono [OF _ subseq_order.refl] by (fastforce simp: process_ok_def)
    finally show ?thesis using ex run by (simp add: process_ok_def)
  next
    case crash
    with inv show ?thesis by (simp add: process_ok_def)
  next
    case (crash_within st fault op e out st' file')
    with inv have st: "store_ok st" "on_disk encoded (pr_file p) st" by (auto simp: process_ok_def)
    have "subseq (file_queue file') (file_queue (pr_file p) @ offered op)"
    proof -
      have "subseq (file_queue file') (out @ file_queue file')" by (rule list_emb_append2) (rule subseq_order.refl)
      also have "subseq \<dots> (file_queue (pr_file p) @ (if e = None then offered op else []))"
        using exec_ok(3) [OF st crash_within(3)] .
      also have "subseq \<dots> (file_queue (pr_file p) @ offered op)" by (cases e) auto
      finally show ?thesis .
    qed
    then have "subseq (pr_taken p @ file_queue file') (pr_taken p @ file_queue (pr_file p) @ offered op)"
      by (rule list_emb_append_mono [OF subseq_order.refl])
    also have "subseq \<dots> (pr_added p @ offered op)"
      using inv list_emb_append_mono [OF _ subseq_order.refl] by (fastforce simp: process_ok_def)
    finally show ?thesis using crash_within by (simp add: process_ok_def)
  next
    case (restart fault js now legacy st imported acts file')
    note sub = inv [unfolded process_ok_def, THEN conjunct1]
    from restart(3) show ?thesis
    proof (cases rule: Open_cases)
      case loaded
      then obtain f where f: "pr_file p = Some f" "load (Present f) = Inr st" "file' = Some f"
        by (cases "pr_file p") (auto simp: opened_of_def load_def)
      then have "on_disk encoded file' st" by (auto simp: on_disk_def agrees_def)
      with f loaded sub restart show ?thesis by (auto simp: process_ok_def load_ok)
    next
      case (imported d)
      then have absent: "pr_file p = None"
        by (cases "pr_file p") (auto simp: opened_of_def load_def bindE_def check_def the_or_def split: if_splits option.splits)
      have ok: "store_ok st" using Open_ok [OF restart(3)] .
      have "subseq (pr_taken p @ ds_Outbound (st_data st)) (pr_added p @ ds_Outbound (st_data st))"
        using sub absent by (simp add: file_queue_def)
      with ok imported(3,5) restart(1) show ?thesis by (auto simp: process_ok_def on_disk_saved)
    qed
  qed
qed

section \<open>Properties\<close>

lemma subseq_distinct: "subseq xs ys \<Longrightarrow> distinct ys \<Longrightarrow> distinct xs"
  by (induction rule: list_emb.induct) (auto dest: list_emb_set)

lemma sample_fits: "state_ok d \<Longrightarrow> length (ds_SeenHandles d) + length (ds_Outbound d) \<le> maximumLegacyBytes"
  by (simp add: state_ok_def maximumSeenHandles_def maximumOutbound_def maximumLegacyBytes_def)

definition sample_item :: outbound where
  "sample_item = \<lparr>ob_ID = ''a1'', ob_To = ''+821012345678'', ob_Text = ''hello'', ob_QueuedAt = 0\<rparr>"

definition sample_json :: legacy_json where
  "sample_json = \<lparr>js_envelope = \<lambda>_. None, js_values = \<lambda>_. None, js_event_handle = \<lambda>_. None, js_outbound = \<lambda>_. None\<rparr>"

definition no_legacy :: legacy_files where
  "no_legacy = \<lparr>lf_SeenFile = Absent, lf_MessageLog = Absent, lf_ForwardState = Absent, lf_OutboundQueue = Absent\<rparr>"

definition sample_count :: "diskState \<Rightarrow> nat" where
  "sample_count d = length (ds_SeenHandles d) + length (ds_Outbound d)"

definition empty_state :: diskState where
  "empty_state = \<lparr>ds_Version = 1, ds_Initialized = False, ds_SeenHandles = [], ds_Outbound = []\<rparr>"

definition empty_store :: sms_store where
  "empty_store = \<lparr>st_data = empty_state, st_seen = []\<rparr>"

definition sample_process :: process where
  "sample_process = \<lparr>pr_store = Some empty_store, pr_file = Some (saved_file sample_count empty_state),
     pr_added = [sample_item], pr_taken = [sample_item]\<rparr>"

lemma sample_valid: "validOutbound sample_item"
  by (simp add: validOutbound_def sample_item_def ContainsAny_def TrimPrefix_def HasPrefix_def is_digit_def)

lemma sample_reachable: "reachable store_init (store_step sample_count) sample_process"
proof -
  define p0 where "p0 = \<lparr>pr_store = None, pr_file = None, pr_added = [], pr_taken = []\<rparr>"
  define p1 where "p1 = p0\<lparr>pr_store := Some empty_store, pr_file := Some (saved_file sample_count empty_state)\<rparr>"
  define st2 where "st2 = with_outbound empty_store [sample_item]"
  define p2 where "p2 = p1\<lparr>pr_store := Some st2, pr_file := Some (saved_file sample_count (st_data st2)), pr_added := [sample_item]\<rparr>"
  have "reachable store_init (store_step sample_count) p0"
    by (rule start) (simp add: p0_def store_init_def file_queue_def)
  moreover have "store_step sample_count p0 p1"
  proof -
    have "Open sample_count None sample_json (\<lambda>_. 0) no_legacy (opened_of (pr_file p0))
        = Inr (empty_store, True, [Temp_created, Temp_closed, Temp_renamed, Temp_closed], Some (saved_file sample_count empty_state))"
      by (simp add: Open_def p0_def opened_of_def load_def importLegacy_def readBounded_def scanned_def no_legacy_def
          check_def legacy_handles_def legacy_outbound_def rebuildSeen_def empty_store_def empty_state_def stateVersion_def)
    from store_step.restart [OF _ this] show ?thesis by (simp add: p0_def p1_def empty_store_def empty_state_def)
  qed
  ultimately have "reachable store_init (store_step sample_count) p1" by (rule next_state)
  moreover have "store_step sample_count p1 p2"
  proof -
    have "exec sample_count None (Add sample_item) empty_store (pr_file p1) = (None, [], st2, pr_file p2)"
      by (simp add: AddOutbound_def sample_valid Let_def p1_def p2_def st2_def empty_store_def empty_state_def maximumOutbound_def)
    from store_step.run [OF _ this] show ?thesis by (simp add: p2_def p1_def p0_def)
  qed
  ultimately have "reachable store_init (store_step sample_count) p2" by (rule next_state)
  moreover have "store_step sample_count p2 sample_process"
  proof -
    have "exec sample_count None Take st2 (pr_file p2) = (None, [sample_item], empty_store, pr_file sample_process)"
      by (simp add: TakeOutbound_def Let_def st2_def with_outbound_def sample_process_def empty_store_def empty_state_def)
    from store_step.run [OF _ this] show ?thesis by (simp add: p2_def p1_def p0_def sample_process_def)
  qed
  ultimately show ?thesis by (rule next_state)
qed

text \<open>
  C27. Outgoing messages are handed out at most once and in order, whatever happens to the process. In
  every state that the store, its file and any sequence of operations, failing system calls, crashes
  (also in the middle of an operation) and restarts can reach, the messages handed out by
  \<open>TakeOutbound\<close> followed by those still in the file are a subsequence of the messages accepted by
  \<open>AddOutbound\<close> or imported; so with distinct identifiers no message is handed out twice.\<close>

theorem outbound_at_most_once:
  assumes "reachable store_init (store_step encoded) p"
  shows "subseq (pr_taken p @ file_queue (pr_file p)) (pr_added p)
    \<and> (distinct (map ob_ID (pr_added p)) \<longrightarrow> distinct (map ob_ID (pr_taken p @ file_queue (pr_file p))))"
proof -
  have s: "subseq (pr_taken p @ file_queue (pr_file p)) (pr_added p)"
    using store_sys.reachable_inv [OF assms] by (simp add: process_ok_def)
  then have "subseq (map ob_ID (pr_taken p @ file_queue (pr_file p))) (map ob_ID (pr_added p))"
    by (rule subseq_map)
  then have "distinct (map ob_ID (pr_added p)) \<longrightarrow> distinct (map ob_ID (pr_taken p @ file_queue (pr_file p)))"
    using subseq_distinct by blast
  with s show ?thesis ..
qed

theorem outbound_at_most_once_witness:
  "reachable store_init (store_step sample_count) sample_process
   \<and> distinct (map ob_ID (pr_taken sample_process @ file_queue (pr_file sample_process)))
   \<and> subseq (pr_taken sample_process @ file_queue (pr_file sample_process)) [sample_item]"
  using outbound_at_most_once [OF sample_reachable] sample_reachable by (simp add: sample_process_def)

text \<open>
  C28. A restart finds what the running process knows. In every reachable state with a running process,
  provided that every well-formed state is encoded in at most 32 MiB, loading the state file
  succeeds and gives a well-formed store with the same outgoing queue and the same consumed handles, so
  \<open>HasSeen\<close> and \<open>Counts\<close> answer as before; in particular a failed save has left memory and file in step.\<close>

theorem restart_recovers:
  assumes "reachable store_init (store_step encoded) p" and "pr_store p = Some st"
    and "\<And>d. state_ok d \<Longrightarrow> encoded d \<le> maximumLegacyBytes"
  shows "\<exists>st0. load (opened_of (pr_file p)) = Inr st0 \<and> store_ok st0 \<and> store_ok st
    \<and> ds_Outbound (st_data st0) = ds_Outbound (st_data st) \<and> (\<forall>h. HasSeen h st0 \<longleftrightarrow> HasSeen h st) \<and> Counts st0 = Counts st
    \<and> (IsInitialized st0 \<longrightarrow> IsInitialized st)"
proof -
  have ok: "store_ok st" "on_disk encoded (pr_file p) st"
    using store_sys.reachable_inv [OF assms(1)] assms(2) by (auto simp: process_ok_def)
  have "\<exists>st0. load (opened_of (pr_file p)) = Inr st0 \<and> agrees (st_data st0) st"
    using ok(2) assms(3) by (auto simp: on_disk_def opened_of_def load_saved rebuildSeen_data)
  then obtain st0 where l: "load (opened_of (pr_file p)) = Inr st0" "agrees (st_data st0) st" by blast
  have "store_ok st0" using l(1) by (rule load_ok)
  with l ok show ?thesis by (auto simp: agrees_def HasSeen_iff Counts_ok IsInitialized_def)
qed

theorem restart_recovers_witness:
  "\<exists>st0. load (opened_of (pr_file sample_process)) = Inr st0 \<and> ds_Outbound (st_data st0) = [] \<and> store_ok st0"
proof -
  have st: "pr_store sample_process = Some empty_store" by (simp add: sample_process_def)
  have fits: "state_ok d \<Longrightarrow> sample_count d \<le> maximumLegacyBytes" for d
    unfolding sample_count_def by (rule sample_fits)
  from restart_recovers [OF sample_reachable st fits] show ?thesis by (auto simp: empty_store_def empty_state_def)
qed

text \<open>
  \<open>MarkSeenMany\<close> takes effect completely or not at all. With no error the consumed handles are the old
  ones followed by the new ones in order, without repetition, cut to the newest 4096, and the
  file holds them unless nothing changed; with an error (an invalid handle or a failing system call) the
  store and the file are as before. A handle marked alone is seen afterwards.\<close>

theorem MarkSeenMany_spec:
  assumes "store_ok st" and "MarkSeenMany encoded fault hs st file = (e, acts, st', file')"
  shows "if e = None
    then store_ok st' \<and> ds_SeenHandles (st_data st') = newest (firsts (ds_SeenHandles (st_data st) @ hs))
      \<and> ds_Outbound (st_data st') = ds_Outbound (st_data st)
      \<and> (file' = Some (saved_file encoded (st_data st')) \<or> st' = st \<and> file' = file)
      \<and> (\<forall>h. hs = [h] \<longrightarrow> HasSeen h st')
    else st' = st \<and> file' = file \<and> (\<not> list_all validHandle hs \<or> fault \<noteq> None)"
  using assms
proof (cases rule: MarkSeenMany_cases)
  case unchanged
  have "firsts (ds_SeenHandles (st_data st) @ hs) = ds_SeenHandles (st_data st)"
    using unchanged(4)
  proof (induction hs)
    case Nil
    then show ?case using assms(1) by (simp add: firsts_distinct store_ok_def state_ok_def)
  qed (simp add: firsts_snoc_old)
  moreover have "length (ds_SeenHandles (st_data st)) \<le> maximumSeenHandles"
    using assms(1) by (simp add: store_ok_def state_ok_def)
  ultimately show ?thesis using unchanged assms(1) by (simp add: newest_id HasSeen_iff) auto
next
  case marked
  have "h \<in> set (newest (firsts (ds_SeenHandles (st_data st) @ [h])))" for h
  proof (cases "h \<in> set (ds_SeenHandles (st_data st))")
    case True
    then show ?thesis using assms(1)
      by (simp add: firsts_snoc_old firsts_distinct newest_id store_ok_def state_ok_def)
  next
    case False
    have "firsts (ds_SeenHandles (st_data st) @ [h]) = ds_SeenHandles (st_data st) @ [h]"
      using False assms(1) by (intro firsts_distinct) (simp add: store_ok_def state_ok_def)
    then show ?thesis by (auto simp: newest_def maximumSeenHandles_def)
  qed
  with marked show ?thesis by (auto simp: HasSeen_iff)
qed auto

theorem MarkSeenMany_spec_witness:
  "\<exists>acts st' file'. MarkSeenMany sample_count None [''0a1f''] empty_store None = (None, acts, st', file')
     \<and> HasSeen ''0a1f'' st' \<and> store_ok st'"
proof -
  have ok: "store_ok empty_store"
    by (simp add: store_ok_def state_ok_def empty_store_def empty_state_def stateVersion_def)
  obtain e acts st' file' where r: "MarkSeenMany sample_count None [''0a1f''] empty_store None = (e, acts, st', file')"
    by (metis surj_pair)
  have "e = None"
    using r by (auto simp: MarkSeenMany_def empty_store_def empty_state_def validHandle_def is_hex_def is_digit_def
        trim_seen_def maximumSeenHandles_def Let_def)
  with r MarkSeenMany_spec [OF ok r] show ?thesis by auto
qed

text \<open>
  \<open>SetInitialized\<close> differs from the other operations: when saving fails it reports the error
  and leaves the file as it was, but the store says it is initialised, and the next call reports success
  without writing anything.\<close>

theorem SetInitialized_gap:
  assumes "store_ok st" and "\<not> IsInitialized st" and "fault \<noteq> None"
    and "SetInitialized encoded fault st file = (e, acts, st', file')"
  shows "e \<noteq> None \<and> file' = file \<and> IsInitialized st' \<and> SetInitialized encoded None st' file' = (None, [], st', file)"
  using assms(1,4)
proof (cases rule: SetInitialized_cases)
  case set
  with assms(3) show ?thesis by (auto simp: IsInitialized_def SetInitialized_def)
qed (use assms(2) in simp)

theorem SetInitialized_gap_witness:
  "\<exists>st'. SetInitialized sample_count (Some Rename_temp) empty_store None
      = (Some Io_error, [Temp_created, Temp_closed, Temp_closed, Temp_removed], st', None) \<and> IsInitialized st'"
proof -
  have ok: "store_ok empty_store" "\<not> IsInitialized empty_store"
    by (simp_all add: store_ok_def state_ok_def empty_store_def empty_state_def stateVersion_def IsInitialized_def)
  define st1 where "st1 = empty_store\<lparr>st_data := empty_state\<lparr>ds_Initialized := True\<rparr>\<rparr>"
  have r: "SetInitialized sample_count (Some Rename_temp) empty_store None
      = (Some Io_error, [Temp_created, Temp_closed, Temp_closed, Temp_removed], st1, None)"
    by (simp add: SetInitialized_def empty_store_def empty_state_def st1_def)
  with SetInitialized_gap [OF ok _ r] show ?thesis by auto
qed

end
