(* ===== verification/Rfcomm.thy ===== *)
theory Rfcomm
  imports Go_Std
begin

text \<open>
  The RFCOMM sockets of \<open>internal/bt/rfcomm.go\<close>. A connection is a descriptor with what the kernel will
  answer to the next \<open>read\<close> and \<open>write\<close> calls: received data in pieces of any size, interrupted
  calls, errors and the end of the stream; how much of a buffer a \<open>write\<close> takes. The loops of \<open>ReadFull\<close>
  and \<open>WriteAll\<close> go through these answers. The lemmas: reading and writing terminate and
  do not depend on how the data is cut into pieces, and every failing path of \<open>Connect\<close> and \<open>FromFD\<close>
  closes the descriptor exactly once.
\<close>

section \<open>Errors\<close>

datatype errno =
    EINTR | EINPROGRESS | EPIPE | ECONNRESET | ECONNABORTED | ENOTCONN | ETIMEDOUT | EHOSTDOWN | EHOSTUNREACH
  | EAGAIN | EBADF | Errno nat

text \<open>An error of a system call, the two errors of package \<open>io\<close>, a plain text, and a wrapped error.\<close>

datatype go_error = Sys errno | Unexpected_EOF | Short_write | Text string | Wrap string go_error

primrec cause :: "go_error \<Rightarrow> go_error" where
  "cause (Sys e) = Sys e"
| "cause Unexpected_EOF = Unexpected_EOF"
| "cause Short_write = Short_write"
| "cause (Text s) = Text s"
| "cause (Wrap s e) = cause e"

section \<open>Addresses\<close>

definition address_error :: go_error where
  "address_error = Text ''invalid Bluetooth address''"

text \<open>The parts in the order of the text; \<open>ParseAddress\<close> stores them from the last byte down.\<close>

primrec address_parts :: "string list \<Rightarrow> go_error + bytes" where
  "address_parts [] = Inr []"
| "address_parts (part # parts) =
     (if length part \<noteq> 2 then Inl address_error
      else case ParseUint16 part 8 of
             None \<Rightarrow> Inl address_error
           | Some parsed \<Rightarrow> bindE (address_parts parts) (\<lambda>rest. Inr (of_nat parsed # rest)))"

definition ParseAddress :: "string \<Rightarrow> go_error + bytes" where
  "ParseAddress value =
     (let parts = Split (CHR '':'') value
      in if length parts \<noteq> 6 then Inl address_error
         else bindE (address_parts parts) (\<lambda>address. Inr (rev address)))"

section \<open>Connections\<close>

datatype read_answer = Chunk bytes | Read_interrupted | Read_error errno
datatype write_answer = Accept nat | Write_interrupted | Write_error errno

record conn =
  cn_fd :: int
  cn_reads :: "read_answer list"
  cn_writes :: "write_answer list"
  cn_sent :: bytes
  cn_closed :: bool

text \<open>
  \<open>unix.Read\<close> with room for \<open>k\<close> bytes: part of the next piece, the rest of which stays; an empty piece is
  the end of the stream; when nothing comes the receive timeout ends the call.
\<close>

fun sys_read :: "nat \<Rightarrow> read_answer list \<Rightarrow> (errno + bytes) \<times> read_answer list" where
  "sys_read k [] = (Inl EAGAIN, [])"
| "sys_read k (Chunk c # q) = (Inr (take k c), if length c \<le> k then q else Chunk (drop k c) # q)"
| "sys_read k (Read_interrupted # q) = (Inl EINTR, q)"
| "sys_read k (Read_error e # q) = (Inl e, q)"

lemma sys_read_interrupted: "(Inl EINTR, q') = sys_read k q \<Longrightarrow> length q' < length q"
  by (cases "(k, q)" rule: sys_read.cases) auto

lemma sys_read_progress: "(Inr got, q') = sys_read k q \<Longrightarrow> got \<noteq> [] \<Longrightarrow> k - length got + length q' < k + length q"
  by (cases "(k, q)" rule: sys_read.cases) (auto split: if_splits)

function read_loop :: "nat \<Rightarrow> bytes \<Rightarrow> read_answer list \<Rightarrow> (go_error + bytes) \<times> read_answer list" where
  "read_loop k buffer q =
     (if k = 0 then (Inr buffer, q)
      else case sys_read k q of
             (Inl e, q') \<Rightarrow> if e = EINTR then read_loop k buffer q' else (Inl (Sys e), q')
           | (Inr got, q') \<Rightarrow> if got = [] then (Inl Unexpected_EOF, q') else read_loop (k - length got) (buffer @ got) q')"
  by auto
termination by (relation "measure (\<lambda>(k, _, q). k + length q)") (auto dest: sys_read_interrupted sys_read_progress)

declare read_loop.simps [simp del]

definition ReadFull :: "nat \<Rightarrow> conn \<Rightarrow> (go_error + bytes) \<times> conn" where
  "ReadFull n c = (let (r, q) = read_loop n [] (cn_reads c) in (r, c\<lparr>cn_reads := q\<rparr>))"

text \<open>\<open>unix.Write\<close> takes some of the buffer; when the queue of answers is over, the send timeout ends the call.\<close>

fun sys_write :: "nat \<Rightarrow> write_answer list \<Rightarrow> (errno + nat) \<times> write_answer list" where
  "sys_write k [] = (Inl EAGAIN, [])"
| "sys_write k (Accept n # q) = (Inr (min n k), q)"
| "sys_write k (Write_interrupted # q) = (Inl EINTR, q)"
| "sys_write k (Write_error e # q) = (Inl e, q)"

lemma sys_write_interrupted: "(Inl EINTR, q') = sys_write k q \<Longrightarrow> length q' < length q"
  by (cases "(k, q)" rule: sys_write.cases) auto

lemma sys_write_progress: "(Inr n, q') = sys_write k q \<Longrightarrow> n \<noteq> 0 \<Longrightarrow> k - n + length q' < k + length q"
  by (cases "(k, q)" rule: sys_write.cases) auto

function write_loop :: "bytes \<Rightarrow> bytes \<Rightarrow> write_answer list \<Rightarrow> go_error option \<times> bytes \<times> write_answer list" where
  "write_loop buffer sent q =
     (if buffer = [] then (None, sent, q)
      else case sys_write (length buffer) q of
             (Inl e, q') \<Rightarrow> if e = EINTR then write_loop buffer sent q' else (Some (Sys e), sent, q')
           | (Inr n, q') \<Rightarrow> if n = 0 then (Some Short_write, sent, q')
                            else write_loop (drop n buffer) (sent @ take n buffer) q')"
  by auto
termination by (relation "measure (\<lambda>(buffer, _, q). length buffer + length q)") (auto dest: sys_write_interrupted sys_write_progress)

declare write_loop.simps [simp del]

definition WriteAll :: "bytes \<Rightarrow> conn \<Rightarrow> go_error option \<times> conn" where
  "WriteAll buffer c =
     (let (e, sent, q) = write_loop buffer (cn_sent c) (cn_writes c) in (e, c\<lparr>cn_sent := sent, cn_writes := q\<rparr>))"

datatype fd_action = Opened_fd int | Closed_fd int

text \<open>\<open>Close\<close> closes the descriptor once; the flag is \<open>sync.Once\<close>.\<close>

definition Close :: "conn \<Rightarrow> fd_action list \<times> conn" where
  "Close c = (if cn_closed c then ([], c) else ([Closed_fd (cn_fd c)], c\<lparr>cn_closed := True\<rparr>))"

definition new_conn :: "int \<Rightarrow> read_answer list \<Rightarrow> write_answer list \<Rightarrow> conn" where
  "new_conn fd reads writes = \<lparr>cn_fd = fd, cn_reads = reads, cn_writes = writes, cn_sent = [], cn_closed = False\<rparr>"

text \<open>The answers of the system calls that set a connection up; \<open>None\<close> is success.\<close>

record connect_answers =
  ca_socket :: "errno + int"
  ca_connect :: "errno option"
  ca_poll :: "errno + int"
  ca_so_error :: "errno + errno option"
  ca_setnonblock :: "errno option"
  ca_rcvtimeo :: "errno option"
  ca_sndtimeo :: "errno option"

definition SetTimeout :: "connect_answers \<Rightarrow> go_error option" where
  "SetTimeout a =
     (case ca_rcvtimeo a of
        Some e \<Rightarrow> Some (Wrap ''set RFCOMM receive timeout'' (Sys e))
      | None \<Rightarrow> (case ca_sndtimeo a of Some e \<Rightarrow> Some (Wrap ''set RFCOMM send timeout'' (Sys e)) | None \<Rightarrow> None))"

text \<open>The wait for a connection that is still being set up.\<close>

definition await_connect :: "connect_answers \<Rightarrow> go_error option" where
  "await_connect a =
     (case ca_connect a of
        None \<Rightarrow> None
      | Some e \<Rightarrow>
          if e \<noteq> EINPROGRESS then Some (Wrap ''connect RFCOMM'' (Sys e))
          else case ca_poll a of
            Inl pe \<Rightarrow> Some (Wrap ''wait RFCOMM'' (Sys pe))
          | Inr ready \<Rightarrow>
              if ready \<noteq> 1 then Some (Text ''RFCOMM connection timed out'')
              else (case ca_so_error a of
                 Inl se \<Rightarrow> Some (Wrap ''inspect RFCOMM connection'' (Sys se))
               | Inr (Some result) \<Rightarrow> Some (Wrap ''connect RFCOMM'' (Sys result))
               | Inr None \<Rightarrow> None))"

definition Connect :: "connect_answers \<Rightarrow> read_answer list \<Rightarrow> write_answer list \<Rightarrow> string
    \<Rightarrow> (go_error + conn) \<times> fd_action list" where
  "Connect a reads writes addressText =
     (case ParseAddress addressText of
        Inl e \<Rightarrow> (Inl e, [])
      | Inr address \<Rightarrow>
          (case ca_socket a of
             Inl e \<Rightarrow> (Inl (Wrap ''create RFCOMM socket'' (Sys e)), [])
           | Inr fd \<Rightarrow>
               let fail = (\<lambda>e. (Inl e, [Opened_fd fd, Closed_fd fd])) in
               (case await_connect a of
                  Some e \<Rightarrow> fail e
                | None \<Rightarrow>
                    (case ca_setnonblock a of
                       Some e \<Rightarrow> fail (Wrap ''set RFCOMM blocking mode'' (Sys e))
                     | None \<Rightarrow>
                         (case SetTimeout a of
                            Some e \<Rightarrow> fail e
                          | None \<Rightarrow> (Inr (new_conn fd reads writes), [Opened_fd fd]))))))"

definition FromFD :: "connect_answers \<Rightarrow> read_answer list \<Rightarrow> write_answer list \<Rightarrow> int \<Rightarrow> (go_error + conn) \<times> fd_action list" where
  "FromFD a reads writes fd =
     (if fd < 0 then (Inl (Text ''invalid RFCOMM descriptor''), [])
      else case ca_setnonblock a of
        Some e \<Rightarrow> (Inl (Wrap ''set passed RFCOMM descriptor blocking'' (Sys e)), [Closed_fd fd])
      | None \<Rightarrow>
          let c = new_conn fd reads writes in
          (case SetTimeout a of
             Some e \<Rightarrow> (Inl e, fst (Close c))
           | None \<Rightarrow> (Inr c, [])))"

section \<open>The stream of a connection\<close>

text \<open>The data that can still be read: all pieces before the first error or the end of the stream.\<close>

fun readable :: "read_answer list \<Rightarrow> bytes" where
  "readable [] = []"
| "readable (Chunk c # q) = (if c = [] then [] else c @ readable q)"
| "readable (Read_interrupted # q) = readable q"
| "readable (Read_error e # q) = (if e = EINTR then readable q else [])"

abbreviation unread :: "conn \<Rightarrow> bytes" where
  "unread c \<equiv> readable (cn_reads c)"

lemma sys_read_data:
  "sys_read k q = (Inr got, q') \<Longrightarrow> 0 < k \<Longrightarrow> got \<noteq> [] \<Longrightarrow> readable q = got @ readable q' \<and> length got \<le> k"
  by (cases "(k, q)" rule: sys_read.cases) (auto split: if_splits)

lemma sys_read_none: "sys_read k q = (Inr [], q') \<Longrightarrow> 0 < k \<Longrightarrow> readable q = []"
  by (cases "(k, q)" rule: sys_read.cases) (auto split: if_splits)

lemma sys_read_error: "sys_read k q = (Inl e, q') \<Longrightarrow> readable q = (if e = EINTR then readable q' else [])"
  by (cases "(k, q)" rule: sys_read.cases) auto

text \<open>Reading succeeds exactly when enough data comes, and then takes it from the front of the stream.\<close>

lemma read_loop_spec:
  "(k \<le> length (readable q) \<longrightarrow> fst (read_loop k buffer q) = Inr (buffer @ take k (readable q))
      \<and> readable (snd (read_loop k buffer q)) = drop k (readable q))
   \<and> (length (readable q) < k \<longrightarrow> (\<exists>e. fst (read_loop k buffer q) = Inl e))"
proof (induction k buffer q rule: read_loop.induct)
  case (1 k buffer q)
  show ?case
  proof (cases "k = 0")
    case True
    then show ?thesis by (simp add: read_loop.simps)
  next
    case False
    obtain r q' where s: "sys_read k q = (r, q')" by (cases "sys_read k q")
    show ?thesis
    proof (cases r)
      case (Inl e)
      have e: "readable q = (if e = EINTR then readable q' else [])" using s Inl sys_read_error by simp
      show ?thesis
      proof (cases "e = EINTR")
        case True
        then show ?thesis using "1.IH"(1) [OF False s [symmetric] Inl] False s Inl e
          by (simp add: read_loop.simps [of k buffer q])
      next
        case neq: False
        with False s Inl e show ?thesis by (simp add: read_loop.simps [of k buffer q])
      qed
    next
      case (Inr got)
      show ?thesis
      proof (cases "got = []")
        case True
        then have "readable q = []" using s Inr False by (auto intro: sys_read_none)
        with False s Inr True show ?thesis by (simp add: read_loop.simps [of k buffer q])
      next
        case neq: False
        then have d: "readable q = got @ readable q'" "length got \<le> k"
          using s Inr False sys_read_data [of k q got q'] by auto
        show ?thesis using "1.IH"(2) [OF False s [symmetric] Inr neq] False s Inr neq d
          by (auto simp: read_loop.simps [of k buffer q])
      qed
    qed
  qed
qed

lemma ReadFull_enough:
  "n \<le> length (unread c) \<Longrightarrow> \<exists>q. ReadFull n c = (Inr (take n (unread c)), c\<lparr>cn_reads := q\<rparr>) \<and> readable q = drop n (unread c)"
  using read_loop_spec [of n "cn_reads c" "[]"] by (auto simp: ReadFull_def Let_def split: prod.split)

lemma ReadFull_short: "length (unread c) < n \<Longrightarrow> \<exists>e q. ReadFull n c = (Inl e, c\<lparr>cn_reads := q\<rparr>)"
  using read_loop_spec [of n "cn_reads c" "[]"] by (auto simp: ReadFull_def Let_def split: prod.split)

lemma ReadFull_Inr:
  "ReadFull n c = (Inr bs, c') \<Longrightarrow> unread c = bs @ unread c' \<and> length bs = n \<and> cn_sent c' = cn_sent c \<and> cn_writes c' = cn_writes c"
proof -
  assume r: "ReadFull n c = (Inr bs, c')"
  then have n: "n \<le> length (unread c)" using ReadFull_short [of c n] by fastforce
  with ReadFull_enough [OF n] r show ?thesis by (auto simp: append_take_drop_id)
qed

lemma sys_write_count: "sys_write k q = (Inr n, q') \<Longrightarrow> n \<le> k"
  by (cases "(k, q)" rule: sys_write.cases) auto

lemma write_loop_spec:
  "write_loop buffer sent q = (e, sent', q') \<Longrightarrow>
     if e = None then sent' = sent @ buffer else \<exists>n < length buffer. sent' = sent @ take n buffer"
proof (induction buffer sent q rule: write_loop.induct)
  case (1 buffer sent q)
  show ?case
  proof (cases "buffer = []")
    case True
    with "1.prems" show ?thesis by (simp add: write_loop.simps)
  next
    case False
    obtain r q1 where s: "sys_write (length buffer) q = (r, q1)" by (cases "sys_write (length buffer) q")
    show ?thesis
    proof (cases r)
      case (Inl x)
      show ?thesis
      proof (cases "x = EINTR")
        case True
        with "1.IH"(1) [OF False s [symmetric] Inl] "1.prems" False s Inl show ?thesis
          by (simp add: write_loop.simps [of buffer sent q])
      next
        case neq: False
        with "1.prems" False s Inl show ?thesis by (auto simp: write_loop.simps [of buffer sent q] intro: exI [of _ 0])
      qed
    next
      case (Inr n)
      have n: "n \<le> length buffer" using s Inr by (auto intro: sys_write_count)
      show ?thesis
      proof (cases "n = 0")
        case True
        with "1.prems" False s Inr show ?thesis by (auto simp: write_loop.simps [of buffer sent q] intro: exI [of _ 0])
      next
        case neq: False
        with "1.prems" False s Inr have w: "write_loop (drop n buffer) (sent @ take n buffer) q1 = (e, sent', q')"
          by (simp add: write_loop.simps [of buffer sent q])
        from "1.IH"(2) [OF False s [symmetric] Inr neq w] show ?thesis
        proof (cases "e = None")
          case False
          with "1.IH"(2) [OF \<open>buffer \<noteq> []\<close> s [symmetric] Inr neq w] obtain m where
            m: "m < length buffer - n" "sent' = sent @ take n buffer @ take m (drop n buffer)" by auto
          then have "n + m < length buffer" "sent' = sent @ take (n + m) buffer" by (auto simp: take_add)
          with False show ?thesis by auto
        qed (use n in simp)
      qed
    qed
  qed
qed

lemma WriteAll_sent:
  "WriteAll buffer c = (e, c') \<Longrightarrow> cn_reads c' = cn_reads c \<and>
     (if e = None then cn_sent c' = cn_sent c @ buffer else \<exists>n < length buffer. cn_sent c' = cn_sent c @ take n buffer)"
  using write_loop_spec [of buffer "cn_sent c" "cn_writes c"] by (auto simp: WriteAll_def Let_def split: prod.splits)

section \<open>Properties\<close>

text \<open>
  C29. A connection is a byte stream whatever the kernel does with the pieces. For every sequence of pieces,
  interrupted calls and errors, \<open>ReadFull\<close> of \<open>n\<close> bytes returns exactly the first \<open>n\<close> bytes of the data before
  the first error or end of the stream and leaves the rest, or fails when fewer come; \<open>WriteAll\<close>
  returns without error only after the whole buffer was sent in order, and otherwise a proper prefix was
  sent. Both loops end.\<close>

theorem connection_is_stream:
  "(case ReadFull n c of
      (Inr bs, c') \<Rightarrow> n \<le> length (unread c) \<and> bs = take n (unread c) \<and> unread c' = drop n (unread c) \<and> cn_sent c' = cn_sent c
    | (Inl e, c') \<Rightarrow> length (unread c) < n)
   \<and> (case WriteAll buffer c of
      (None, c') \<Rightarrow> cn_sent c' = cn_sent c @ buffer \<and> unread c' = unread c
    | (Some e, c') \<Rightarrow> \<exists>k < length buffer. cn_sent c' = cn_sent c @ take k buffer)"
proof -
  obtain r c1 e c2 where rw: "ReadFull n c = (r, c1)" "WriteAll buffer c = (e, c2)" by (metis surj_pair)
  have "n \<le> length (unread c)" if "r = Inr bs" for bs
    using rw(1) that ReadFull_short [of c n] by fastforce
  moreover have "length (unread c) < n" if "r = Inl x" for x
    using rw(1) that ReadFull_enough [of n c] by fastforce
  ultimately show ?thesis
    using rw ReadFull_Inr [of n c _ c1] WriteAll_sent [OF rw(2)] by (auto split: sum.split option.split if_splits)
qed

text \<open>
  No descriptor leaks when a connection is set up. \<open>Connect\<close> leaves exactly one open descriptor when it
  succeeds and none when it fails, whichever system call failed; \<open>FromFD\<close> closes the descriptor it
  was given once on every failure after accepting it; closing a connection again does nothing.\<close>

theorem setup_closes_descriptor:
  "(case Connect a reads writes address of
      (Inr c, acts) \<Rightarrow> acts = [Opened_fd (cn_fd c)] \<and> \<not> cn_closed c \<and> cn_sent c = []
    | (Inl e, acts) \<Rightarrow> acts = [] \<or> (\<exists>fd. ca_socket a = Inr fd \<and> acts = [Opened_fd fd, Closed_fd fd]))
   \<and> (case FromFD a reads writes fd of
      (Inr c, acts) \<Rightarrow> acts = [] \<and> cn_fd c = fd \<and> \<not> cn_closed c
    | (Inl e, acts) \<Rightarrow> acts = (if fd < 0 then [] else [Closed_fd fd]))
   \<and> (case Close c of (acts, c') \<Rightarrow> cn_closed c' \<and> (acts = [] \<longleftrightarrow> cn_closed c) \<and> Close c' = ([], c'))"
  by (auto simp: Connect_def FromFD_def Close_def new_conn_def Let_def split: sum.split option.split)

text \<open>
  \<open>ParseAddress\<close> accepts exactly six two-digit hexadecimal numbers separated by colons and gives their
  values from the last to the first, the order the kernel's RFCOMM address has.\<close>

theorem ParseAddress_spec:
  "ParseAddress value = Inr address \<longleftrightarrow>
     (let parts = Split (CHR '':'') value
      in length parts = 6 \<and> list_all (\<lambda>p. length p = 2 \<and> list_all is_hex p) parts
         \<and> address = rev (map (\<lambda>p. of_nat (16 * hex_digit_val (p ! 0) + hex_digit_val (p ! 1))) parts))"
proof -
  have two: "length p = 2 \<Longrightarrow> list_all is_hex p \<Longrightarrow> ParseUint16 p 8 = Some (16 * hex_digit_val (p ! 0) + hex_digit_val (p ! 1))" for p
  proof -
    assume "length p = 2" and hex: "list_all is_hex p"
    then obtain x y where p: "p = [x, y]" by (auto simp: length_Suc_conv numeral_2_eq_2)
    have "hex_digit_val c < 16" if "is_hex c" for c
      using that by (auto simp: is_hex_def hex_digit_val_def is_digit_def)
    then have "hex_digit_val x < 16" "hex_digit_val y < 16" using hex p by auto
    with hex p show ?thesis by (simp add: ParseUint16_def)
  qed
  have none: "\<not> list_all is_hex p \<Longrightarrow> ParseUint16 p 8 = None" for p by (simp add: ParseUint16_def)
  have "address_parts parts = Inr bs \<longleftrightarrow> list_all (\<lambda>p. length p = 2 \<and> list_all is_hex p) parts
      \<and> bs = map (\<lambda>p. of_nat (16 * hex_digit_val (p ! 0) + hex_digit_val (p ! 1))) parts" for parts bs
  proof (induction parts arbitrary: bs)
    case (Cons p parts)
    show ?case
    proof (cases "length p = 2 \<and> list_all is_hex p")
      case True
      then show ?thesis using Cons two [of p] by (auto simp: bindE_Inr_iff)
    next
      case False
      then show ?thesis using none [of p] by auto
    qed
  qed auto
  then show ?thesis by (auto simp: ParseAddress_def Let_def bindE_Inr_iff)
qed

end
