(* ===== verification/Obex.thy ===== *)
theory Obex
  imports Rfcomm
begin

text \<open>
  OBEX packets and headers (\<open>internal/obex/obex.go\<close>). Packets are read and written over an interface
  with the two operations of \<open>obex.Transport\<close>, the locale \<open>obex_transport\<close>, which the connections
  of theory \<open>Rfcomm\<close> implement. \<open>MustHeader\<close> panics where \<open>BuildHeader\<close> fails: it returns \<open>None\<close>.

  The lemmas: the header format is canonical, packets and names survive a round trip, and reading a packet
  takes exactly its bytes from the stream.
\<close>

section \<open>Packets\<close>

definition ResponseContinue :: byte where "ResponseContinue = 0x90"
definition ResponseOK :: byte where "ResponseOK = 0xA0"
definition ResponseBadRequest :: byte where "ResponseBadRequest = 0xC0"
definition ResponseNotImplemented :: byte where "ResponseNotImplemented = 0xD1"

record packet =
  pk_Code :: byte
  pk_Payload :: bytes

record header =
  hd_ID :: byte
  hd_Value :: bytes

definition ReadPacket :: "(nat \<Rightarrow> 'c \<Rightarrow> (go_error + bytes) \<times> 'c) \<Rightarrow> nat \<Rightarrow> 'c \<Rightarrow> (go_error + packet) \<times> 'c" where
  "ReadPacket read_full maximum c =
     (if maximum < 3 \<or> 0xffff < maximum then (Inl (Text ''invalid OBEX packet bound''), c)
      else case read_full 3 c of
        (Inl e, c') \<Rightarrow> (Inl e, c')
      | (Inr head, c') \<Rightarrow>
          let len = unat (get_be (subslice 1 3 head) :: uint16) in
          if len < 3 \<or> maximum < len then (Inl (Text ''OBEX packet length outside bound''), c')
          else case read_full (len - 3) c' of
            (Inl e, c'') \<Rightarrow> (Inl e, c'')
          | (Inr payload, c'') \<Rightarrow> (Inr \<lparr>pk_Code = head ! 0, pk_Payload = payload\<rparr>, c''))"

definition packet_bytes :: "byte \<Rightarrow> bytes \<Rightarrow> bytes" where
  "packet_bytes code payload = code # put_be 2 (of_nat (length payload + 3) :: uint16) @ payload"

definition WritePacket :: "(bytes \<Rightarrow> 'c \<Rightarrow> go_error option \<times> 'c) \<Rightarrow> byte \<Rightarrow> bytes \<Rightarrow> 'c \<Rightarrow> go_error option \<times> 'c" where
  "WritePacket write_all code payload c =
     (if 0xffff < length payload + 3 then (Some (Text ''OBEX packet too large''), c)
      else write_all (packet_bytes code payload) c)"

section \<open>Headers\<close>

text \<open>
  The loop of \<open>ParseHeaders\<close>: \<open>data\<close> is what is left from \<open>offset\<close> on.
\<close>

function parse_headers :: "bytes \<Rightarrow> go_error + header list" where
  "parse_headers [] = Inr []"
| "parse_headers (hid # data) =
     (if hid AND 0xc0 = 0 \<or> hid AND 0xc0 = 0x40 then
        if length data < 2 then Inl (Text ''truncated OBEX length header'')
        else let len = unat (get_be (take 2 data) :: uint16) in
          if len < 3 \<or> length data < len - 1 then Inl (Text ''invalid OBEX header length'')
          else bindE (parse_headers (drop (len - 1) data))
                 (\<lambda>hs. Inr (\<lparr>hd_ID = hid, hd_Value = subslice 2 (len - 1) data\<rparr> # hs))
      else if hid AND 0xc0 = 0x80 then
        if data = [] then Inl (Text ''truncated OBEX byte header'')
        else bindE (parse_headers (drop 1 data)) (\<lambda>hs. Inr (\<lparr>hd_ID = hid, hd_Value = [data ! 0]\<rparr> # hs))
      else
        if length data < 4 then Inl (Text ''truncated OBEX uint32 header'')
        else bindE (parse_headers (drop 4 data)) (\<lambda>hs. Inr (\<lparr>hd_ID = hid, hd_Value = take 4 data\<rparr> # hs)))"
  by pat_completeness auto
termination by (relation "measure length") auto

definition ParseHeaders :: "bytes \<Rightarrow> int \<Rightarrow> go_error + header list" where
  "ParseHeaders data offset =
     (if offset < 0 \<or> int (length data) < offset then Inl (Text ''invalid OBEX header offset'')
      else parse_headers (drop (nat offset) data))"

definition BuildHeader :: "byte \<Rightarrow> bytes \<Rightarrow> go_error + bytes" where
  "BuildHeader hid value =
     (if hid AND 0xc0 = 0 \<or> hid AND 0xc0 = 0x40 then
        if 0xffff < length value + 3 then Inl (Text ''OBEX header too large'')
        else Inr (hid # put_be 2 (of_nat (length value + 3) :: uint16) @ value)
      else if hid AND 0xc0 = 0x80 then
        if length value \<noteq> 1 then Inl (Text ''OBEX byte header requires one byte'') else Inr [hid, value ! 0]
      else if hid AND 0xc0 = 0xc0 then
        if length value \<noteq> 4 then Inl (Text ''OBEX uint32 header requires four bytes'') else Inr (hid # value)
      else Inl (Text ''unknown OBEX header kind''))"

definition MustHeader :: "byte \<Rightarrow> bytes \<Rightarrow> bytes option" where
  "MustHeader hid value = (case BuildHeader hid value of Inl _ \<Rightarrow> None | Inr result \<Rightarrow> Some result)"

definition Uint32Header :: "byte \<Rightarrow> uint32 \<Rightarrow> bytes option" where
  "Uint32Header hid value = MustHeader hid (put_be 4 value)"

text \<open>\<open>utf16.Encode\<close> and \<open>utf16.Decode\<close>; an unpaired surrogate reads as the error rune.\<close>

definition utf16_units :: "rune \<Rightarrow> uint16 list" where
  "utf16_units r =
     (if r < 0xD800 \<or> 0xE000 \<le> r \<and> r < 0x10000 then [of_nat r]
      else if 0x10000 \<le> r \<and> r \<le> 0x10FFFF
      then [of_nat (0xD800 + (r - 0x10000) div 1024), of_nat (0xDC00 + (r - 0x10000) mod 1024)]
      else [of_nat RuneError])"

fun utf16_runes :: "nat list \<Rightarrow> rune list" where
  "utf16_runes [] = []"
| "utf16_runes (u # us) =
     (if u < 0xD800 \<or> 0xE000 \<le> u then u # utf16_runes us
      else case us of
        v # vs \<Rightarrow> if u < 0xDC00 \<and> 0xDC00 \<le> v \<and> v < 0xE000
                  then ((u - 0xD800) * 1024 + (v - 0xDC00) + 0x10000) # utf16_runes vs
                  else RuneError # utf16_runes us
      | [] \<Rightarrow> [RuneError])"

definition NameHeader :: "byte \<Rightarrow> string \<Rightarrow> bytes option" where
  "NameHeader hid value =
     MustHeader hid (concat (map (put_be 2) (concat (map utf16_units (runes (value @ [CHR 0x00]))))))"

fun be_units :: "bytes \<Rightarrow> uint16 list" where
  "be_units (a # b # bs) = get_be [a, b] # be_units bs"
| "be_units _ = []"

definition DecodeName :: "bytes \<Rightarrow> go_error + string" where
  "DecodeName value =
     (if length value mod 2 \<noteq> 0 then Inl (Text ''invalid OBEX Unicode header'')
      else let units = be_units value;
               units' = (if units \<noteq> [] \<and> last units = 0 then butlast units else units)
           in Inr (string_of_runes (utf16_runes (map unat units'))))"

definition Find :: "header list \<Rightarrow> byte \<Rightarrow> bytes option" where
  "Find headers hid = map_option hd_Value (find (\<lambda>h. hd_ID h = hid) headers)"

definition Uint32 :: "bytes \<Rightarrow> go_error + uint32" where
  "Uint32 value = (if length value \<noteq> 4 then Inl (Text ''invalid uint32 header length'') else Inr (get_be value))"

definition CollectBody :: "header list \<Rightarrow> byte \<Rightarrow> byte \<Rightarrow> bytes" where
  "CollectBody headers bodyID endID =
     concat (map hd_Value (filter (\<lambda>h. hd_ID h = bodyID \<or> hd_ID h = endID) headers))"

section \<open>The header format is canonical\<close>

lemma header_kinds: "hid AND 0xc0 = 0 \<or> hid AND 0xc0 = 0x40 \<or> hid AND 0xc0 = 0x80 \<or> hid AND 0xc0 = (0xc0 :: byte)"
proof -
  have "hid AND 0xc0 = (if bit hid 6 then 0x40 else 0) + (if bit hid 7 then 0x80 else 0)"
  proof (rule bit_word_eqI)
    fix n
    assume "n < LENGTH(8)"
    then have "n \<in> {0, 1, 2, 3, 4, 5, 6, 7}" by auto
    then show "bit (hid AND 0xc0) n = bit ((if bit hid 6 then 0x40 else 0) + (if bit hid 7 then 0x80 else 0) :: byte) n"
      by (elim insertE emptyE) (auto simp: bit_simps)
  qed
  then show ?thesis by auto
qed

definition header_ok :: "header \<Rightarrow> bool" where
  "header_ok h \<longleftrightarrow>
     (if hd_ID h AND 0xc0 = 0 \<or> hd_ID h AND 0xc0 = 0x40 then length (hd_Value h) + 3 \<le> 0xffff
      else if hd_ID h AND 0xc0 = 0x80 then length (hd_Value h) = 1 else length (hd_Value h) = 4)"

primrec build_headers :: "header list \<Rightarrow> go_error + bytes" where
  "build_headers [] = Inr []"
| "build_headers (h # hs) = bindE (BuildHeader (hd_ID h) (hd_Value h)) (\<lambda>b. bindE (build_headers hs) (\<lambda>bs. Inr (b @ bs)))"

lemma BuildHeader_iff: "(\<exists>b. BuildHeader (hd_ID h) (hd_Value h) = Inr b) \<longleftrightarrow> header_ok h"
  using header_kinds [of "hd_ID h"] by (auto simp: BuildHeader_def header_ok_def)

lemma parse_BuildHeader:
  assumes "BuildHeader i v = Inr b"
  shows "parse_headers (b @ rest) = bindE (parse_headers rest) (\<lambda>hs. Inr (\<lparr>hd_ID = i, hd_Value = v\<rparr> # hs))"
proof -
  consider "i AND 0xc0 = 0 \<or> i AND 0xc0 = 0x40" | "i AND 0xc0 = 0x80" | "i AND 0xc0 = 0xc0"
    using header_kinds by blast
  then show ?thesis
  proof cases
    case 1
    then have b: "b = i # put_be 2 (of_nat (length v + 3) :: uint16) @ v" "length v + 3 \<le> 0xffff"
      using assms by (auto simp: BuildHeader_def split: if_splits)
    have "unat (of_nat (length v + 3) :: uint16) = length v + 3" using b(2) by (intro unat_of_nat16) simp
    with 1 b show ?thesis by (simp add: subslice_def)
  next
    case 2
    then have "length v = 1" "b = [i, v ! 0]" using assms by (simp_all add: BuildHeader_def split: if_splits)
    then obtain x where "v = [x]" "b = [i, x]" by (cases v) simp_all
    with 2 show ?thesis by simp
  next
    case 3
    then have "b = i # v" "length v = 4" using assms by (simp_all add: BuildHeader_def split: if_splits)
    with 3 show ?thesis by simp
  qed
qed

lemma parse_build: "build_headers hs = Inr bs \<Longrightarrow> parse_headers bs = Inr hs"
proof (induction hs arbitrary: bs)
  case (Cons h hs)
  then obtain b bs' where "BuildHeader (hd_ID h) (hd_Value h) = Inr b" "build_headers hs = Inr bs'" "bs = b @ bs'"
    by (auto simp: bindE_Inr_iff)
  with Cons.IH [of bs'] parse_BuildHeader [of "hd_ID h" "hd_Value h" b bs'] show ?case by simp
qed simp

lemma build_parse: "parse_headers data = Inr hs \<Longrightarrow> build_headers hs = Inr data"
proof (induction data arbitrary: hs rule: parse_headers.induct)
  case (2 hid data)
  consider "hid AND 0xc0 = 0 \<or> hid AND 0xc0 = 0x40" | "hid AND 0xc0 = 0x80" | "hid AND 0xc0 = 0xc0"
    using header_kinds by blast
  then show ?case
  proof cases
    case 1
    define len where "len = unat (get_be (take 2 data) :: uint16)"
    have two: "\<not> length data < 2" and len: "\<not> (len < 3 \<or> length data < len - 1)"
      using "2.prems" 1 by (auto simp: len_def [symmetric] Let_def split: if_splits)
    obtain hs' where hs: "parse_headers (drop (len - 1) data) = Inr hs'"
        "hs = \<lparr>hd_ID = hid, hd_Value = subslice 2 (len - 1) data\<rparr> # hs'"
      using "2.prems" 1 two len by (auto simp: len_def [symmetric] Let_def bindE_Inr_iff)
    have IH: "build_headers hs' = Inr (drop (len - 1) data)"
      using "2.IH"(1) [OF 1 two len_def] len hs(1) by (simp add: len_def [symmetric])
    have bound: "len \<le> 0xffff" using unsigned_less [of "get_be (take 2 data) :: uint16", where 'a = nat] by (simp add: len_def)
    have val: "length (subslice 2 (len - 1) data) + 3 = len" using two len by (auto simp: min_def)
    have be: "put_be 2 (get_be (take 2 data) :: uint16) = take 2 data"
      using two put_get_le16 [of "rev (take 2 data)"] by (simp add: put_be_def get_be_def)
    have "of_nat len = (get_be (take 2 data) :: uint16)" by (simp add: len_def)
    then have "BuildHeader hid (subslice 2 (len - 1) data) = Inr (hid # take 2 data @ subslice 2 (len - 1) data)"
      using 1 bound unfolding BuildHeader_def val by (simp add: be)
    moreover have "take 2 data @ subslice 2 (len - 1) data @ drop (len - 1) data = data"
    proof -
      have "2 \<le> len - 1" using len by linarith
      from drop_subslice [OF this, of data] have "subslice 2 (len - 1) data @ drop (len - 1) data = drop 2 data" by simp
      then show ?thesis by (metis append_take_drop_id)
    qed
    ultimately show ?thesis using IH hs(2) by simp
  next
    case 2
    with "2.prems" have "data \<noteq> []" by (auto split: if_splits)
    then obtain x xs where x: "data = x # xs" by (cases data) auto
    with 2 "2.prems" obtain hs' where "parse_headers xs = Inr hs'" "hs = \<lparr>hd_ID = hid, hd_Value = [x]\<rparr> # hs'"
      by (auto simp: bindE_Inr_iff)
    with "2.IH"(2) 2 x show ?thesis by (simp add: BuildHeader_def)
  next
    case 3
    with "2.prems" have four: "\<not> length data < 4" by (auto split: if_splits)
    with 3 "2.prems" obtain hs' where "parse_headers (drop 4 data) = Inr hs'" "hs = \<lparr>hd_ID = hid, hd_Value = take 4 data\<rparr> # hs'"
      by (auto simp: bindE_Inr_iff)
    with "2.IH"(3) 3 four show ?thesis by (simp add: BuildHeader_def)
  qed
qed simp

lemma build_ok: "(\<exists>bs. build_headers hs = Inr bs) \<longleftrightarrow> list_all header_ok hs"
proof (induction hs)
  case (Cons h hs)
  have "(\<exists>bs. build_headers (h # hs) = Inr bs)
      \<longleftrightarrow> (\<exists>b. BuildHeader (hd_ID h) (hd_Value h) = Inr b) \<and> (\<exists>bs. build_headers hs = Inr bs)"
    by (auto simp: bindE_Inr_iff)
  then show ?case unfolding BuildHeader_iff Cons by simp
qed simp

interpretation headers: canonical_codec "list_all header_ok" build_headers parse_headers
proof
  show "list_all header_ok hs" if "parse_headers p = Inr hs" for hs p
    using build_parse [OF that] build_ok by blast
  show "\<exists>p. build_headers hs = Inr p" if "list_all header_ok hs" for hs
    using that build_ok by blast
qed (erule parse_build build_parse)+


section \<open>Packets on a stream\<close>

text \<open>
  The interface \<open>obex.Transport\<close> as its clients rely on it: \<open>pending\<close> is the data that can be read, \<open>written\<close>
  what was sent; \<open>ReadFull\<close> takes from the front of the one, \<open>WriteAll\<close> appends to the other.
\<close>

locale obex_transport =
  fixes read_full :: "nat \<Rightarrow> 'c \<Rightarrow> (go_error + bytes) \<times> 'c"
    and write_all :: "bytes \<Rightarrow> 'c \<Rightarrow> go_error option \<times> 'c"
    and pending :: "'c \<Rightarrow> bytes"
    and written :: "'c \<Rightarrow> bytes"
  assumes read_enough: "n \<le> length (pending c) \<Longrightarrow> \<exists>c'. read_full n c = (Inr (take n (pending c)), c')
      \<and> pending c' = drop n (pending c) \<and> written c' = written c"
    and read_short: "length (pending c) < n \<Longrightarrow> \<exists>e c'. read_full n c = (Inl e, c') \<and> written c' = written c"
    and write_ok: "write_all bs c = (None, c') \<Longrightarrow> written c' = written c @ bs \<and> pending c' = pending c"
    and write_failed: "write_all bs c = (Some e, c') \<Longrightarrow> \<exists>n < length bs. written c' = written c @ take n bs"
begin

lemma read_Inr: "read_full n c = (Inr bs, c') \<Longrightarrow> pending c = bs @ pending c' \<and> length bs = n \<and> written c' = written c"
proof -
  assume r: "read_full n c = (Inr bs, c')"
  then have n: "n \<le> length (pending c)" using read_short [of c n] by fastforce
  with read_enough [OF n] r show ?thesis by (auto simp: append_take_drop_id)
qed

lemma read_packet:
  assumes "length payload + 3 \<le> maximum" "maximum \<le> 0xffff" "pending c = packet_bytes code payload @ rest"
  shows "\<exists>c'. ReadPacket read_full maximum c = (Inr \<lparr>pk_Code = code, pk_Payload = payload\<rparr>, c')
    \<and> pending c' = rest \<and> written c' = written c"
proof -
  let ?len = "put_be 2 (of_nat (length payload + 3) :: uint16)"
  have len: "unat (of_nat (length payload + 3) :: uint16) = length payload + 3" using assms by (intro unat_of_nat16) simp
  have "3 \<le> length (pending c)" using assms(3) by (simp add: packet_bytes_def)
  from read_enough [OF this] obtain c1 where c1: "read_full 3 c = (Inr (code # ?len), c1)"
      "pending c1 = payload @ rest" "written c1 = written c"
    using assms(3) by (auto simp: packet_bytes_def)
  have "length payload \<le> length (pending c1)" using c1(2) by simp
  from read_enough [OF this] obtain c2 where c2: "read_full (length payload) c1 = (Inr payload, c2)"
      "pending c2 = rest" "written c2 = written c"
    using c1 by auto
  have "subslice 1 3 (code # ?len) = ?len" by (simp add: subslice_def)
  then show ?thesis using assms(1,2) c1(1) c2 len by (simp add: ReadPacket_def Let_def)
qed

lemma read_packet_exact:
  assumes "ReadPacket read_full maximum c = (Inr p, c')"
  shows "pending c = packet_bytes (pk_Code p) (pk_Payload p) @ pending c' \<and> length (pk_Payload p) + 3 \<le> maximum
    \<and> written c' = written c"
proof -
  obtain head c1 where h: "read_full 3 c = (Inr head, c1)" and max: "3 \<le> maximum" "maximum \<le> 0xffff"
    using assms by (auto simp: ReadPacket_def split: if_splits prod.splits sum.splits)
  define len where "len = unat (get_be (subslice 1 3 head) :: uint16)"
  have len: "3 \<le> len" "len \<le> maximum" and r: "\<exists>payload. read_full (len - 3) c1 = (Inr payload, c')
      \<and> p = \<lparr>pk_Code = head ! 0, pk_Payload = payload\<rparr>"
    using assms h max by (auto simp: ReadPacket_def len_def Let_def split: if_splits prod.splits sum.splits)
  then obtain payload where pl: "read_full (len - 3) c1 = (Inr payload, c')" "p = \<lparr>pk_Code = head ! 0, pk_Payload = payload\<rparr>"
    by blast
  note a = read_Inr [OF h] and b = read_Inr [OF pl(1)]
  have l3: "length head = 3" using a by simp
  then obtain x y z where xyz: "head = [x, y, z]" by (auto simp: length_Suc_conv numeral_3_eq_3)
  have "of_nat (length payload + 3) = (get_be [y, z] :: uint16)"
    using b len(1) xyz by (simp add: len_def subslice_def)
  moreover have "put_be 2 (get_be [y, z] :: uint16) = [y, z]"
    using put_get_le16 [of "[z, y]"] by (simp add: put_be_def get_be_def)
  ultimately have "packet_bytes (head ! 0) payload = head @ payload" by (simp only: packet_bytes_def xyz) simp
  with a b pl len show ?thesis by auto
qed

lemma read_packet_consumes:
  "ReadPacket read_full maximum c = (Inr p, c') \<Longrightarrow> length (pending c') + 3 \<le> length (pending c)"
  using read_packet_exact by (force simp: packet_bytes_def)

lemma write_packet:
  "WritePacket write_all code payload c = (None, c') \<Longrightarrow> written c' = written c @ packet_bytes code payload
     \<and> pending c' = pending c \<and> length payload + 3 \<le> 0xffff"
  using write_ok by (auto simp: WritePacket_def split: if_splits)

end

interpretation rfcomm: obex_transport ReadFull WriteAll unread cn_sent
proof
  fix n c
  show "n \<le> length (unread c) \<Longrightarrow> \<exists>c'. ReadFull n c = (Inr (take n (unread c)), c')
      \<and> unread c' = drop n (unread c) \<and> cn_sent c' = cn_sent c"
    using ReadFull_enough [of n c] by auto
  show "length (unread c) < n \<Longrightarrow> \<exists>e c'. ReadFull n c = (Inl e, c') \<and> cn_sent c' = cn_sent c"
    using ReadFull_short [of c n] by fastforce
next
  fix bs c c' and e
  show "WriteAll bs c = (None, c') \<Longrightarrow> cn_sent c' = cn_sent c @ bs \<and> unread c' = unread c"
    using WriteAll_sent [of bs c None c'] by auto
  show "WriteAll bs c = (Some e, c') \<Longrightarrow> \<exists>n < length bs. cn_sent c' = cn_sent c @ take n bs"
    using WriteAll_sent [of bs c "Some e" c'] by auto
qed

section \<open>Names\<close>

lemma utf16_runes_units:
  "valid_rune r \<Longrightarrow> utf16_runes (map unat (utf16_units r) @ us) = r # utf16_runes us"
proof -
  assume v: "valid_rune r"
  consider "r < 0xD800 \<or> 0xE000 \<le> r \<and> r < 0x10000" | "0x10000 \<le> r" "r \<le> 0x10FFFF"
    using v unfolding valid_rune_def by linarith
  then show ?thesis
  proof cases
    case 1
    then have "unat (of_nat r :: uint16) = r" by (intro unat_of_nat16) auto
    with 1 show ?thesis by (auto simp: utf16_units_def)
  next
    case 2
    define h where "h = (r - 0x10000) div 1024"
    define l where "l = (r - 0x10000) mod 1024"
    have hl: "h < 1024" "l < 1024" "h * 1024 + l + 0x10000 = r" using 2 by (auto simp: h_def l_def)
    have u: "unat (of_nat (0xD800 + h) :: uint16) = 0xD800 + h" "unat (of_nat (0xDC00 + l) :: uint16) = 0xDC00 + l"
      using hl by (intro unat_of_nat16; simp)+
    have "utf16_units r = [of_nat (0xD800 + h), of_nat (0xDC00 + l)]" using 2 by (simp add: utf16_units_def h_def l_def)
    then have "map unat (utf16_units r) = [0xD800 + h, 0xDC00 + l]" using u by simp
    with hl show ?thesis by simp
  qed
qed

lemma utf16_runes_all: "list_all valid_rune rs \<Longrightarrow> utf16_runes (map unat (concat (map utf16_units rs))) = rs"
  by (induction rs) (simp_all add: utf16_runes_units)

lemma be_units_bytes: "be_units (concat (map (put_be 2) us)) = us"
proof (induction us)
  case (Cons u us)
  obtain a b where ab: "put_be 2 u = [a, b]" by (simp add: put_be_def put_le_numeral)
  have "get_be [a, b] = u" using get_put_be16 [of u] ab by simp
  with Cons ab show ?case by simp
qed simp

lemma length_units: "length (concat (map (put_be 2) us)) = 2 * length us" for us :: "uint16 list"
  by (induction us) simp_all

lemma DecodeName_units:
  assumes "ValidString s"
  shows "DecodeName (concat (map (put_be 2) (concat (map utf16_units (runes (s @ [CHR 0x00])))))) = Inr s"
proof -
  let ?us = "concat (map utf16_units (runes s))"
  have z: "runes (s @ [CHR 0x00]) = runes s @ [0]"
    using assms runes_ascii [of "[CHR 0x00]"] by (simp add: runes_append is_ascii_def)
  have us: "concat (map utf16_units (runes (s @ [CHR 0x00]))) = ?us @ [0]" by (simp add: z utf16_units_def)
  have even: "length (concat (map (put_be 2) us)) mod 2 = 0" for us :: "uint16 list" by (induction us) auto
  show ?thesis unfolding us
    using even [of "?us @ [0]"] be_units_bytes [of "?us @ [0]"] utf16_runes_all [OF runes_valid [of s]] string_of_runes_runes [OF assms]
    by (simp add: DecodeName_def Let_def del: map_append concat_append)
qed

section \<open>Properties\<close>

text \<open>
  C30. The OBEX header format is canonical: a list of headers builds to \<open>data\<close> (each with \<open>BuildHeader\<close>, concatenated)
  exactly when \<open>ParseHeaders\<close> reads \<open>data\<close> as this list. So parsing inverts building, no other data parses to
  the same headers, and every list that parsing returns can be built again.\<close>

theorem obex_headers_canonical: "build_headers hs = Inr data \<longleftrightarrow> ParseHeaders data 0 = Inr hs"
  using headers.enc_dec [of data hs] headers.dec_enc [of hs data] headers.dec_valid [of data hs] parse_build
  by (auto simp: ParseHeaders_def)

text \<open>
  An OBEX packet arrives as it was sent. When \<open>WritePacket\<close> reports success, the peer that receives the sent bytes,
  cut into any pieces and with interrupted calls in between, followed by anything, reads with \<open>ReadPacket\<close>
  exactly this code and payload, and what follows is still to be read.\<close>

theorem obex_packet_transfer:
  assumes "WritePacket WriteAll code payload a = (None, a')" and "cn_sent a = []"
    and "unread b = cn_sent a' @ rest"
  shows "\<exists>b'. ReadPacket ReadFull 0xffff b = (Inr \<lparr>pk_Code = code, pk_Payload = payload\<rparr>, b') \<and> unread b' = rest"
proof -
  have w: "cn_sent a' = packet_bytes code payload" "length payload + 3 \<le> 0xffff"
    using rfcomm.write_packet [OF assms(1)] assms(2) by auto
  have "unread b = packet_bytes code payload @ rest" using w(1) assms(3) by simp
  from rfcomm.read_packet [OF w(2) order.refl this] show ?thesis by auto
qed

theorem obex_packet_transfer_witness:
  "\<exists>b'. ReadPacket ReadFull 0xffff (new_conn 4 [Chunk [0x82, 0], Read_interrupted, Chunk [4, 7, 9]] [])
     = (Inr \<lparr>pk_Code = 0x82, pk_Payload = [7]\<rparr>, b') \<and> unread b' = [9]"
proof -
  define a where "a = new_conn 3 [] [Accept 3, Accept 9]"
  obtain a' where w: "WritePacket WriteAll 0x82 [7] a = (None, a')" "cn_sent a' = [0x82, 0, 4, 7]"
    by (simp add: WritePacket_def WriteAll_def a_def new_conn_def packet_bytes_def put_be_def put_le_numeral write_loop.simps)
  show ?thesis
    by (rule obex_packet_transfer [OF w(1), of "new_conn 4 [Chunk [0x82, 0], Read_interrupted, Chunk [4, 7, 9]] []" "[9]"])
      (simp_all add: a_def new_conn_def w(2) [unfolded a_def new_conn_def] w(2))
qed

text \<open>
  Names survive the wire: for a valid UTF-8 string, \<open>NameHeader\<close> either panics because the header would exceed 65535
  bytes, or gives one header from which \<open>ParseHeaders\<close> and \<open>DecodeName\<close> read the string back.\<close>

theorem obex_name_roundtrip:
  assumes "ValidString s" and "hid AND 0xc0 = 0"
  shows "case NameHeader hid s of
      Some data \<Rightarrow> \<exists>v. ParseHeaders data 0 = Inr [\<lparr>hd_ID = hid, hd_Value = v\<rparr>] \<and> DecodeName v = Inr s
    | None \<Rightarrow> 0xffff < 2 * length (concat (map utf16_units (runes (s @ [CHR 0x00])))) + 3"
proof -
  define v where "v = concat (map (put_be 2) (concat (map utf16_units (runes (s @ [CHR 0x00])))))"
  have len: "length v = 2 * length (concat (map utf16_units (runes (s @ [CHR 0x00]))))"
    unfolding v_def by (rule length_units)
  show ?thesis
  proof (cases "BuildHeader hid v")
    case (Inl e)
    then have "0xffff < length v + 3" using assms(2) by (simp add: BuildHeader_def split: if_splits)
    with Inl len show ?thesis by (simp add: NameHeader_def v_def [symmetric] MustHeader_def)
  next
    case (Inr data)
    then have "ParseHeaders data 0 = Inr [\<lparr>hd_ID = hid, hd_Value = v\<rparr>]"
      using parse_BuildHeader [OF Inr, of "[]"] by (simp add: ParseHeaders_def)
    moreover have "DecodeName v = Inr s" unfolding v_def by (rule DecodeName_units) (rule assms(1))
    ultimately show ?thesis using Inr by (auto simp: NameHeader_def v_def [symmetric] MustHeader_def)
  qed
qed

theorem obex_name_roundtrip_witness:
  "case NameHeader 0x01 ''inbox'' of
      Some data \<Rightarrow> \<exists>v. ParseHeaders data 0 = Inr [\<lparr>hd_ID = 0x01, hd_Value = v\<rparr>] \<and> DecodeName v = Inr ''inbox''
    | None \<Rightarrow> 0xffff < 2 * length (concat (map utf16_units (runes (''inbox'' @ [CHR 0x00])))) + (3 :: nat)"
  by (rule obex_name_roundtrip) (simp_all add: ValidString_ascii is_ascii_def)

end
