(* ===== verification/Map_Session.thy ===== *)
theory Map_Session
  imports Obex
begin

text \<open>
  The message access session (\<open>internal/mapclient/session.go\<close> with \<open>ListingMessage\<close> of
  \<open>internal/model/model.go\<close>): one OBEX connection over RFCOMM on which folders are selected, messages listed,
  fetched and pushed.

  A session is the record \<open>map_session\<close>; every method takes it and returns it. The only call that can
  panic is the name header of a folder component, so the methods that change folders return an
  \<open>outcome\<close>. The tokens of \<open>encoding/xml\<close> are an argument of the listing. Both loops over the
  network end: a fetch because every response takes data from the stream, a push because every packet takes
  part of the body.
\<close>

section \<open>Constants and state\<close>

definition opConnect :: byte where "opConnect = 0x80"
definition opDisconnect :: byte where "opDisconnect = 0x81"
definition opPut :: byte where "opPut = 0x02"
definition opPutFinal :: byte where "opPutFinal = 0x82"
definition opGetFinal :: byte where "opGetFinal = 0x83"
definition opSetPath :: byte where "opSetPath = 0x85"
definition headerName :: byte where "headerName = 0x01"
definition headerType :: byte where "headerType = 0x42"
definition headerBody :: byte where "headerBody = 0x48"
definition headerEndOfBody :: byte where "headerEndOfBody = 0x49"
definition headerTarget :: byte where "headerTarget = 0x46"
definition headerAppParams :: byte where "headerAppParams = 0x4c"
definition headerConnectionID :: byte where "headerConnectionID = 0xcb"
definition tagNotificationStatus :: byte where "tagNotificationStatus = 0x0e"
definition tagAttachment :: byte where "tagAttachment = 0x0a"
definition tagTransparent :: byte where "tagTransparent = 0x0b"
definition tagRetry :: byte where "tagRetry = 0x0c"
definition tagCharset :: byte where "tagCharset = 0x14"
definition tagFractionRequest :: byte where "tagFractionRequest = 0x15"
definition maxCollectedBody :: nat where "maxCollectedBody = 2 * 2 ^ 20"
definition unknownPath :: string where "unknownPath = [CHR 0x00]"

definition masTargetUUID :: bytes where
  "masTargetUUID = [0xbb, 0x58, 0x2b, 0x40, 0x42, 0x0c, 0x11, 0xdb, 0xb0, 0xde, 0x08, 0x00, 0x20, 0x0c, 0x9a, 0x66]"

lemmas map_ids = opConnect_def opDisconnect_def opPut_def opPutFinal_def opGetFinal_def opSetPath_def headerName_def
  headerType_def headerBody_def headerEndOfBody_def headerTarget_def headerAppParams_def headerConnectionID_def

record map_session =
  ms_conn :: "conn option"
  ms_connection :: uint32
  ms_packetMax :: nat
  ms_currentPath :: string

record listing_message =
  lm_Handle :: string
  lm_Type :: string
  lm_DateTime :: string
  lm_Attrs :: "(string, string) gomap"

datatype 'a outcome = Returned 'a | Panicked

text \<open>\<open>must\<close> is \<open>MustHeader\<close> where it cannot panic; the lemmas below show the headers it is used for.\<close>

definition must :: "bytes option \<Rightarrow> bytes" where
  "must h = (case h of Some b \<Rightarrow> b | None \<Rightarrow> [])"

section \<open>Requests\<close>

definition connectionHeader :: "map_session \<Rightarrow> bytes" where
  "connectionHeader s = must (Uint32Header headerConnectionID (ms_connection s))"

definition request :: "byte \<Rightarrow> bytes \<Rightarrow> map_session \<Rightarrow> (go_error + packet) \<times> map_session" where
  "request opcode payload s =
     (case ms_conn s of
        None \<Rightarrow> (Inl (Text ''MAP session is closed''), s)
      | Some c \<Rightarrow>
          if ms_packetMax s < length payload + 3
          then (Inl (Text ''OBEX request exceeds negotiated packet size''), s)
          else case WritePacket WriteAll opcode payload c of
            (Some e, c') \<Rightarrow> (Inl e, s\<lparr>ms_conn := Some c'\<rparr>)
          | (None, c') \<Rightarrow> (case ReadPacket ReadFull 0xffff c' of (r, c'') \<Rightarrow> (r, s\<lparr>ms_conn := Some c''\<rparr>)))"

definition Connect :: "go_error + conn \<Rightarrow> (go_error + map_session) \<times> fd_action list" where
  "Connect dialled =
     (case dialled of
        Inl e \<Rightarrow> (Inl e, [])
      | Inr c \<Rightarrow>
          let s0 = \<lparr>ms_conn = Some c, ms_connection = 0, ms_packetMax = 0xffff, ms_currentPath = []\<rparr>;
              (r, s1) = request opConnect ([0x10, 0x00, 0x40, 0x00] @ must (MustHeader headerTarget masTargetUUID)) s0;
              fail = (\<lambda>e. (Inl e, case ms_conn s1 of Some c' \<Rightarrow> fst (Close c') | None \<Rightarrow> []))
          in case r of
               Inl e \<Rightarrow> fail (Wrap ''MAP connect'' e)
             | Inr response \<Rightarrow>
                 if pk_Code response \<noteq> ResponseOK \<or> length (pk_Payload response) < 4 then fail (Text ''MAP connect rejected'')
                 else let peerMax = unat (get_be (subslice 2 4 (pk_Payload response)) :: uint16);
                          s2 = (if 255 \<le> peerMax \<and> peerMax < ms_packetMax s1 then s1\<lparr>ms_packetMax := peerMax\<rparr> else s1)
                      in case ParseHeaders (pk_Payload response) 4 of
                           Inl e \<Rightarrow> fail (Wrap ''parse MAP connect response'' e)
                         | Inr headers \<Rightarrow>
                             (case Find headers headerConnectionID of
                                None \<Rightarrow> fail (Text ''MAP connect response lacks connection ID'')
                              | Some rawID \<Rightarrow>
                                  (case Uint32 rawID of
                                     Inl e \<Rightarrow> fail e
                                   | Inr n \<Rightarrow> (Inr (s2\<lparr>ms_connection := n\<rparr>), []))))"

definition disconnect :: "map_session \<Rightarrow> go_error option \<times> map_session" where
  "disconnect s =
     (case request opDisconnect (connectionHeader s) s of
        (Inl e, s') \<Rightarrow> (Some e, s')
      | (Inr response, s') \<Rightarrow>
          if pk_Code response \<noteq> ResponseOK then (Some (Text ''MAP disconnect rejected''), s') else (None, s'))"

definition Close_session :: "map_session \<Rightarrow> fd_action list \<times> map_session" where
  "Close_session s =
     (if ms_conn s = None then ([], s)
      else case disconnect s of (_, s') \<Rightarrow>
        ((case ms_conn s' of Some c \<Rightarrow> fst (Close c) | None \<Rightarrow> []), s'\<lparr>ms_conn := None\<rparr>))"

definition RegisterNotifications :: "bool \<Rightarrow> map_session \<Rightarrow> go_error option \<times> map_session" where
  "RegisterNotifications enabled s =
     (let params = [tagNotificationStatus, 0x01, if enabled then 1 else 0];
          payload = connectionHeader s
            @ must (MustHeader headerType (bytes_of ''x-bt/MAP-NotificationRegistration''))
            @ must (MustHeader headerAppParams params)
            @ must (MustHeader headerEndOfBody (bytes_of ''0''))
      in case request opPutFinal payload s of
           (Inl e, s') \<Rightarrow> (Some e, s')
         | (Inr response, s') \<Rightarrow>
             if pk_Code response \<noteq> ResponseOK then (Some (Text ''notification registration rejected''), s') else (None, s'))"

section \<open>Folders\<close>

definition resetPath :: "bool \<Rightarrow> map_session \<Rightarrow> go_error option \<times> map_session" where
  "resetPath force s =
     (if \<not> force \<and> ms_currentPath s = [] then (None, s)
      else case request opSetPath ([0x02, 0x00] @ connectionHeader s) s of
        (Inl e, s') \<Rightarrow> (Some e, s'\<lparr>ms_currentPath := unknownPath\<rparr>)
      | (Inr response, s') \<Rightarrow>
          if pk_Code response \<noteq> ResponseOK
          then (Some (Text ''MAP root SetPath rejected''), s'\<lparr>ms_currentPath := unknownPath\<rparr>)
          else (None, s'\<lparr>ms_currentPath := []\<rparr>))"

definition Keepalive :: "map_session \<Rightarrow> go_error option \<times> map_session" where
  "Keepalive s = resetPath True s"

primrec set_parts :: "string list \<Rightarrow> map_session \<Rightarrow> go_error option outcome \<times> map_session" where
  "set_parts [] s = (Returned None, s)"
| "set_parts (part # parts) s =
     (case NameHeader headerName part of
        None \<Rightarrow> (Panicked, s)
      | Some name \<Rightarrow>
          (case request opSetPath ([0x02, 0x00] @ connectionHeader s @ name) s of
             (Inl e, s') \<Rightarrow> (Returned (Some e), s'\<lparr>ms_currentPath := unknownPath\<rparr>)
           | (Inr response, s') \<Rightarrow>
               if pk_Code response \<noteq> ResponseOK
               then (Returned (Some (Text ''MAP SetPath rejected'')), s'\<lparr>ms_currentPath := unknownPath\<rparr>)
               else set_parts parts s'))"

definition valid_part :: "string \<Rightarrow> bool" where
  "valid_part part \<longleftrightarrow> \<not> (part = '''' \<or> part = ''.'' \<or> part = ''..'' \<or> ContainsAny part [CHR 0x00, CHR 0x0D, CHR 0x0A])"

definition gotoFolder :: "string \<Rightarrow> map_session \<Rightarrow> go_error option outcome \<times> map_session" where
  "gotoFolder folder0 s =
     (let folder = Trim folder0 ''/''; parts = Split (CHR ''/'') folder
      in if \<not> list_all valid_part parts then (Returned (Some (Text ''invalid MAP folder'')), s)
         else if folder = ms_currentPath s then (Returned None, s)
         else case resetPath False s of
           (Some e, s') \<Rightarrow> (Returned (Some e), s')
         | (None, s') \<Rightarrow>
             (case set_parts parts s' of
                (Returned None, s'') \<Rightarrow> (Returned None, s''\<lparr>ms_currentPath := folder\<rparr>)
              | (r, s'') \<Rightarrow> (r, s'')))"

section \<open>Fetching\<close>

abbreviation session_unread :: "map_session \<Rightarrow> bytes" where
  "session_unread s \<equiv> (case ms_conn s of None \<Rightarrow> [] | Some c \<Rightarrow> unread c)"

lemma request_consumes:
  "request opcode payload s = (Inr p, s') \<Longrightarrow> length (session_unread s') < length (session_unread s)"
proof -
  assume r: "request opcode payload s = (Inr p, s')"
  then obtain c where c: "ms_conn s = Some c" by (auto simp: request_def split: option.splits)
  obtain e c1 where w: "WritePacket WriteAll opcode payload c = (e, c1)" by fastforce
  obtain q c2 where rd: "ReadPacket ReadFull 0xffff c1 = (q, c2)" by fastforce
  have e: "e = None" and q: "q = Inr p" and s': "s' = s\<lparr>ms_conn := Some c2\<rparr>"
    using r c w rd by (auto simp: request_def split: if_splits option.splits)
  have "unread c1 = unread c" using rfcomm.write_packet w e by blast
  moreover have "length (unread c2) + 3 \<le> length (unread c1)" using rfcomm.read_packet_consumes rd q by blast
  ultimately show ?thesis using c s' by simp
qed

function collect_loop :: "packet \<Rightarrow> bytes \<Rightarrow> map_session \<Rightarrow> (go_error + bytes) \<times> map_session" where
  "collect_loop response body s =
     (case ParseHeaders (pk_Payload response) 0 of
        Inl e \<Rightarrow> (Inl e, s)
      | Inr headers \<Rightarrow>
          let body' = body @ CollectBody headers headerBody headerEndOfBody in
          if maxCollectedBody < length body' then (Inl (Text ''MAP response body exceeds bound''), s)
          else if pk_Code response = ResponseOK then (Inr body', s)
          else if pk_Code response \<noteq> ResponseContinue then (Inl (Text ''MAP GET rejected''), s)
          else case request opGetFinal (connectionHeader s) s of
            (Inl e, s') \<Rightarrow> (Inl e, s')
          | (Inr response', s') \<Rightarrow> collect_loop response' body' s')"
  by auto
termination
  by (relation "measure (\<lambda>(_, _, s). length (session_unread s))") (auto dest: request_consumes [OF sym])

declare collect_loop.simps [simp del]

definition collectGET :: "bytes \<Rightarrow> map_session \<Rightarrow> (go_error + bytes) \<times> map_session" where
  "collectGET initial s =
     (case request opGetFinal initial s of
        (Inl e, s') \<Rightarrow> (Inl e, s')
      | (Inr response, s') \<Rightarrow> collect_loop response [] s')"

text \<open>The tokens of the XML decoder up to its end, and whether that was the end of the input.\<close>

datatype xml_token = Start_element string "(string \<times> string) list" | Other_token

definition safeHandle :: "string \<Rightarrow> bool" where
  "safeHandle value \<longleftrightarrow> value \<noteq> [] \<and> length value \<le> 64 \<and> list_all is_hex value"

definition attr :: "(string, string) gomap \<Rightarrow> string \<Rightarrow> string" where
  "attr attrs name = (case go_get attrs name of Some v \<Rightarrow> v | None \<Rightarrow> [])"

fun listed :: "xml_token \<Rightarrow> listing_message option" where
  "listed Other_token = None"
| "listed (Start_element name attributes) =
     (if name \<noteq> ''msg'' then None
      else let attrs = foldl (\<lambda>m a. go_put (fst a) (snd a) m) [] attributes; handle = attr attrs ''handle''
           in if \<not> safeHandle handle then None
              else Some \<lparr>lm_Handle = handle, lm_Type = attr attrs ''type'', lm_DateTime = attr attrs ''datetime'', lm_Attrs = attrs\<rparr>)"

definition parseListing :: "xml_token list \<times> bool \<Rightarrow> go_error + listing_message list" where
  "parseListing decoded =
     (if \<not> snd decoded then Inl (Text ''parse MAP listing'') else Inr (List.map_filter listed (fst decoded)))"

definition ListMessages :: "(bytes \<Rightarrow> xml_token list \<times> bool) \<Rightarrow> string \<Rightarrow> int \<Rightarrow> int \<Rightarrow> map_session
    \<Rightarrow> (go_error + listing_message list) outcome \<times> map_session" where
  "ListMessages xml folder maximum offset s =
     (if maximum < 1 \<or> 500 < maximum \<or> offset < 0 \<or> 65535 < offset
      then (Returned (Inl (Text ''message listing bounds invalid'')), s)
      else case gotoFolder folder s of
        (Panicked, s') \<Rightarrow> (Panicked, s')
      | (Returned (Some e), s') \<Rightarrow> (Returned (Inl e), s')
      | (Returned None, s') \<Rightarrow>
          let params = [0x01, 0x02] @ put_be 2 (of_int maximum :: uint16) @ [0x02, 0x02] @ put_be 2 (of_int offset :: uint16)
                @ [0x13, 0x01, 0x00];
              payload = connectionHeader s' @ must (MustHeader headerType (bytes_of (''x-bt/MAP-msg-listing'' @ [CHR 0x00])))
                @ must (MustHeader headerAppParams params)
          in case collectGET payload s' of
               (Inl e, s'') \<Rightarrow> (Returned (Inl e), s'')
             | (Inr body, s'') \<Rightarrow> (Returned (parseListing (xml body)), s''))"

definition GetMessage :: "string \<Rightarrow> string \<Rightarrow> map_session \<Rightarrow> (go_error + bytes) outcome \<times> map_session" where
  "GetMessage folder handle s =
     (if \<not> safeHandle handle then (Returned (Inl (Text ''invalid message handle'')), s)
      else case gotoFolder folder s of
        (Panicked, s') \<Rightarrow> (Panicked, s')
      | (Returned (Some e), s') \<Rightarrow> (Returned (Inl e), s')
      | (Returned None, s') \<Rightarrow>
          (case NameHeader headerName handle of
             None \<Rightarrow> (Panicked, s')
           | Some name \<Rightarrow>
               let params = [tagAttachment, 0x01, 0x01, tagCharset, 0x01, 0x01, tagFractionRequest, 0x01, 0x00];
                   payload = connectionHeader s' @ name @ must (MustHeader headerType (bytes_of ''x-bt/message''))
                     @ must (MustHeader headerAppParams params)
               in case collectGET payload s' of (r, s'') \<Rightarrow> (Returned r, s'')))"

section \<open>Pushing\<close>

text \<open>The loop of \<open>putBody\<close>: the headers of the next packet and the rest of the body.\<close>

function putBody :: "bytes \<Rightarrow> bytes \<Rightarrow> map_session \<Rightarrow> go_error option \<times> map_session" where
  "putBody headers body s =
     (if ms_packetMax s < length headers + 7 then (Some (Text ''OBEX packet has no body capacity''), s)
      else
        let available = ms_packetMax s - 3 - length headers - 3 in
        if length body \<le> available then
          (case request opPutFinal (headers @ must (MustHeader headerEndOfBody body)) s of
             (Inl e, s') \<Rightarrow> (Some e, s')
           | (Inr response, s') \<Rightarrow>
               if pk_Code response \<noteq> ResponseOK then (Some (Text ''PushMessage rejected''), s') else (None, s'))
        else
          (case request opPut (headers @ must (MustHeader headerBody (take available body))) s of
             (Inl e, s') \<Rightarrow> (Some e, s')
           | (Inr response, s') \<Rightarrow>
               if pk_Code response \<noteq> ResponseContinue then (Some (Text ''PushMessage continuation rejected''), s')
               else putBody (connectionHeader s') (drop available body) s'))"
  by auto
termination by (relation "measure (\<lambda>(_, body, _). length body)") auto

declare putBody.simps [simp del]

definition PushBMessage :: "string \<Rightarrow> string \<Rightarrow> bool \<Rightarrow> bool \<Rightarrow> map_session \<Rightarrow> go_error option outcome \<times> map_session" where
  "PushBMessage folder body transparent retry s =
     (if body = [] \<or> 60 * 1024 < length body then (Returned (Some (Text ''bMessage size invalid'')), s)
      else case gotoFolder folder s of
        (Panicked, s') \<Rightarrow> (Panicked, s')
      | (Returned (Some e), s') \<Rightarrow> (Returned (Some e), s')
      | (Returned None, s') \<Rightarrow>
          let params = [tagTransparent, 0x01, if transparent then 1 else 0, tagRetry, 0x01, if retry then 1 else 0,
                        tagCharset, 0x01, 0x01];
              first = connectionHeader s' @ must (MustHeader headerType (bytes_of (''x-bt/message'' @ [CHR 0x00])))
                @ must (MustHeader headerAppParams params)
          in case putBody first (bytes_of body) s' of (r, s'') \<Rightarrow> (Returned r, s''))"

definition CRLF :: string where "CRLF = [CHR 0x0D, CHR 0x0A]"

definition MakeSMSBMessage :: "string \<Rightarrow> string \<Rightarrow> string" where
  "MakeSMSBMessage destination text =
     (let messagePart = ''BEGIN:MSG'' @ CRLF @ text @ CRLF @ ''END:MSG'' @ CRLF
      in ''BEGIN:BMSG'' @ CRLF @ ''VERSION:1.0'' @ CRLF @ ''STATUS:UNREAD'' @ CRLF @ ''TYPE:SMS_GSM'' @ CRLF
         @ ''FOLDER:telecom/msg/outbox'' @ CRLF
         @ ''BEGIN:VCARD'' @ CRLF @ ''VERSION:3.0'' @ CRLF @ ''N:'' @ CRLF @ ''TEL:'' @ CRLF @ ''END:VCARD'' @ CRLF
         @ ''BEGIN:BENV'' @ CRLF
         @ ''BEGIN:VCARD'' @ CRLF @ ''VERSION:3.0'' @ CRLF @ ''N:'' @ CRLF @ ''TEL:'' @ destination @ CRLF @ ''END:VCARD'' @ CRLF
         @ ''BEGIN:BBODY'' @ CRLF @ ''CHARSET:UTF-8'' @ CRLF
         @ ''LENGTH:'' @ Itoa (length messagePart) @ CRLF
         @ messagePart
         @ ''END:BBODY'' @ CRLF @ ''END:BENV'' @ CRLF @ ''END:BMSG'' @ CRLF)"

definition SendSMS :: "string \<Rightarrow> string \<Rightarrow> map_session \<Rightarrow> go_error option outcome \<times> map_session" where
  "SendSMS to text s = PushBMessage ''telecom/msg/outbox'' (MakeSMSBMessage to text) False True s"

section \<open>Errors\<close>

text \<open>
  Every system call error implements \<open>net.Error\<close> (it has \<open>Timeout\<close> and \<open>Temporary\<close>), so all of them count; of the errors
  of package \<open>io\<close> the unexpected end of the stream does.
\<close>

definition IsTransportError :: "go_error option \<Rightarrow> bool" where
  "IsTransportError err = (case err of None \<Rightarrow> False | Some e \<Rightarrow> (case cause e of Sys _ \<Rightarrow> True | Unexpected_EOF \<Rightarrow> True | _ \<Rightarrow> False))"

section \<open>What a request does\<close>

abbreviation session_sent :: "map_session \<Rightarrow> bytes" where
  "session_sent s \<equiv> (case ms_conn s of None \<Rightarrow> [] | Some c \<Rightarrow> cn_sent c)"

definition wire :: "packet \<Rightarrow> bytes" where
  "wire p = packet_bytes (pk_Code p) (pk_Payload p)"

lemma length_wire: "length (wire p) = length (pk_Payload p) + 3"
  by (simp add: wire_def packet_bytes_def)

lemma request_ok:
  assumes "request opcode payload s = (Inr response, s')"
  shows "session_sent s' = session_sent s @ packet_bytes opcode payload"
    and "session_unread s = wire response @ session_unread s'"
    and "length payload + 3 \<le> ms_packetMax s"
    and "s' = s\<lparr>ms_conn := ms_conn s'\<rparr>" and "ms_conn s \<noteq> None" and "ms_conn s' \<noteq> None"
proof -
  obtain c where c: "ms_conn s = Some c" using assms by (auto simp: request_def split: option.splits)
  obtain e c1 where w: "WritePacket WriteAll opcode payload c = (e, c1)" by fastforce
  obtain q c2 where rd: "ReadPacket ReadFull 0xffff c1 = (q, c2)" by fastforce
  have e: "e = None" and q: "q = Inr response" and s': "s' = s\<lparr>ms_conn := Some c2\<rparr>" and m: "length payload + 3 \<le> ms_packetMax s"
    using assms c w rd by (auto simp: request_def split: if_splits option.splits)
  have a: "cn_sent c1 = cn_sent c @ packet_bytes opcode payload" "unread c1 = unread c"
    using rfcomm.write_packet w e by blast+
  have b: "unread c1 = packet_bytes (pk_Code response) (pk_Payload response) @ unread c2" "cn_sent c2 = cn_sent c1"
    using rfcomm.read_packet_exact rd q by blast+
  show "session_sent s' = session_sent s @ packet_bytes opcode payload" "session_unread s = wire response @ session_unread s'"
    "length payload + 3 \<le> ms_packetMax s" "s' = s\<lparr>ms_conn := ms_conn s'\<rparr>" "ms_conn s \<noteq> None" "ms_conn s' \<noteq> None"
    using a b c s' m by (simp_all add: wire_def)
qed

lemma request_keeps: "request opcode payload s = (r, s') \<Longrightarrow> s' = s\<lparr>ms_conn := ms_conn s'\<rparr>"
  by (auto simp: request_def split: option.splits if_splits prod.splits)

lemma request_fields:
  "request opcode payload s = (r, s') \<Longrightarrow> ms_connection s' = ms_connection s \<and> ms_packetMax s' = ms_packetMax s
     \<and> ms_currentPath s' = ms_currentPath s"
  by (drule request_keeps) (metis map_session.select_convs(2,3,4) map_session.surjective map_session.update_convs(1))

lemma connectionHeader_bytes: "connectionHeader s = headerConnectionID # put_be 4 (ms_connection s)"
  by (simp add: connectionHeader_def must_def Uint32Header_def MustHeader_def BuildHeader_def headerConnectionID_def)

lemma must_header:
  "hid AND 0xc0 = 0x40 \<Longrightarrow> length v + 3 \<le> 0xffff
   \<Longrightarrow> MustHeader hid v = Some (hid # put_be 2 (of_nat (length v + 3) :: uint16) @ v)"
  by (simp add: MustHeader_def BuildHeader_def)

lemma must_length: "hid AND 0xc0 = 0x40 \<Longrightarrow> length v + 3 \<le> 0xffff \<Longrightarrow> length (must (MustHeader hid v)) = length v + 3"
  by (simp add: must_def must_header)

lemma parse_must:
  assumes "hid AND 0xc0 = 0x40" "length v + 3 \<le> 0xffff"
  shows "parse_headers (must (MustHeader hid v) @ rest) = bindE (parse_headers rest) (\<lambda>hs. Inr (\<lparr>hd_ID = hid, hd_Value = v\<rparr> # hs))"
proof -
  have "BuildHeader hid v = Inr (must (MustHeader hid v))"
    using assms by (simp add: must_def MustHeader_def BuildHeader_def)
  then show ?thesis by (rule parse_BuildHeader)
qed

lemma parse_connectionHeader:
  "parse_headers (connectionHeader s @ rest) = bindE (parse_headers rest) (\<lambda>hs. Inr (\<lparr>hd_ID = headerConnectionID, hd_Value = put_be 4 (ms_connection s)\<rparr> # hs))"
proof -
  have "BuildHeader headerConnectionID (put_be 4 (ms_connection s)) = Inr (connectionHeader s)"
    by (simp add: connectionHeader_bytes BuildHeader_def headerConnectionID_def)
  then show ?thesis by (rule parse_BuildHeader)
qed

section \<open>Pushing sends the body\<close>

text \<open>The part of the body that a packet carries for the peer that parses its headers.\<close>

definition carried :: "packet \<Rightarrow> bytes" where
  "carried p = (case ParseHeaders (pk_Payload p) 0 of Inl _ \<Rightarrow> [] | Inr hs \<Rightarrow> CollectBody hs headerBody headerEndOfBody)"

definition bodyless :: "bytes \<Rightarrow> bool" where
  "bodyless headers \<longleftrightarrow> (\<exists>hs. parse_headers headers = Inr hs \<and> CollectBody hs headerBody headerEndOfBody = [])"

lemma parse_append: "parse_headers a = Inr hs \<Longrightarrow> parse_headers (a @ b) = bindE (parse_headers b) (\<lambda>ks. Inr (hs @ ks))"
proof (induction hs arbitrary: a)
  case Nil
  have "a = []" using build_parse [OF Nil] by simp
  then show ?case by (cases "parse_headers b") simp_all
next
  case (Cons h hs)
  obtain d r where d: "BuildHeader (hd_ID h) (hd_Value h) = Inr d" "build_headers hs = Inr r" "a = d @ r"
    using build_parse [OF Cons.prems] by (auto simp: bindE_Inr_iff)
  have "parse_headers r = Inr hs" using d(2) by (rule parse_build)
  from Cons.IH [OF this] d parse_BuildHeader [OF d(1), of "r @ b"] show ?case
    by (cases "parse_headers b") simp_all
qed

lemma carried_body:
  assumes "bodyless headers" "hid = headerBody \<or> hid = headerEndOfBody" "length v + 3 \<le> 0xffff"
  shows "carried \<lparr>pk_Code = c, pk_Payload = headers @ must (MustHeader hid v)\<rparr> = v"
proof -
  obtain hs where hs: "parse_headers headers = Inr hs" "CollectBody hs headerBody headerEndOfBody = []"
    using assms(1) by (auto simp: bodyless_def)
  have kind: "hid AND 0xc0 = 0x40" using assms(2) by (auto simp: headerBody_def headerEndOfBody_def)
  have "parse_headers (must (MustHeader hid v)) = Inr [\<lparr>hd_ID = hid, hd_Value = v\<rparr>]"
    using parse_must [OF kind assms(3), of "[]"] by simp
  with parse_append [OF hs(1)] hs(2) assms(2) show ?thesis
    by (auto simp: carried_def ParseHeaders_def CollectBody_def)
qed

lemma bodyless_connection: "bodyless (connectionHeader s)"
  using parse_connectionHeader [of s "[]"]
  by (simp add: bodyless_def CollectBody_def headerConnectionID_def headerBody_def headerEndOfBody_def)

lemma putBody_sends:
  assumes "putBody headers body s = (None, s')" "bodyless headers" "ms_packetMax s \<le> 0xffff"
  shows "\<exists>ps q. session_sent s' = session_sent s @ concat (map wire (ps @ [q])) \<and> concat (map carried (ps @ [q])) = body
    \<and> list_all (\<lambda>p. pk_Code p = opPut) ps \<and> pk_Code q = opPutFinal
    \<and> list_all (\<lambda>p. length (wire p) \<le> ms_packetMax s) (ps @ [q])"
  using assms
proof (induction headers body s rule: putBody.induct)
  case (1 headers body s)
  let ?max = "ms_packetMax s"
  have cap: "\<not> ?max < length headers + 7" using "1.prems"(1) by (auto simp: putBody.simps [of headers body s])
  define n where "n = ?max - 3 - length headers - 3"
  have bound: "length headers + (n + 6) = ?max" using cap by (simp add: n_def)
  have unfold: "putBody headers body s =
      (if length body \<le> n then
          (case request opPutFinal (headers @ must (MustHeader headerEndOfBody body)) s of
             (Inl e, s') \<Rightarrow> (Some e, s')
           | (Inr response, s') \<Rightarrow>
               if pk_Code response \<noteq> ResponseOK then (Some (Text ''PushMessage rejected''), s') else (None, s'))
        else
          (case request opPut (headers @ must (MustHeader headerBody (take n body))) s of
             (Inl e, s') \<Rightarrow> (Some e, s')
           | (Inr response, s') \<Rightarrow>
               if pk_Code response \<noteq> ResponseContinue then (Some (Text ''PushMessage continuation rejected''), s')
               else putBody (connectionHeader s') (drop n body) s'))"
    unfolding putBody.simps [of headers body s] n_def Let_def using cap by simp
  show ?case
  proof (cases "length body \<le> n")
    case True
    let ?q = "\<lparr>pk_Code = opPutFinal, pk_Payload = headers @ must (MustHeader headerEndOfBody body)\<rparr>"
    obtain response where r: "request opPutFinal (pk_Payload ?q) s = (Inr response, s')"
      using "1.prems"(1) True by (auto simp: unfold split: prod.splits sum.splits if_splits)
    have "length body + 3 \<le> 0xffff" using True bound "1.prems"(3) by simp
    then have "carried ?q = body" using carried_body [OF "1.prems"(2)] by simp
    moreover have "session_sent s' = session_sent s @ wire ?q" "length (wire ?q) \<le> ?max"
      using request_ok(1,3) [OF r] by (simp_all add: wire_def packet_bytes_def)
    ultimately show ?thesis by (intro exI [of _ "[]"] exI [of _ ?q]) simp
  next
    case False
    let ?p = "\<lparr>pk_Code = opPut, pk_Payload = headers @ must (MustHeader headerBody (take n body))\<rparr>"
    obtain response s1 where r: "request opPut (pk_Payload ?p) s = (Inr response, s1)"
        and go: "pk_Code response = ResponseContinue" "putBody (connectionHeader s1) (drop n body) s1 = (None, s')"
      using "1.prems"(1) False by (auto simp: unfold split: prod.splits sum.splits if_splits)
    have "length (take n body) + 3 \<le> 0xffff" using bound "1.prems"(3) by simp
    then have carry: "carried ?p = take n body" using carried_body [OF "1.prems"(2)] by simp
    have IH: "\<exists>ps q. session_sent s' = session_sent s1 @ concat (map wire (ps @ [q])) \<and> concat (map carried (ps @ [q])) = drop n body
        \<and> list_all (\<lambda>p. pk_Code p = opPut) ps \<and> pk_Code q = opPutFinal
        \<and> list_all (\<lambda>p. length (wire p) \<le> ms_packetMax s1) (ps @ [q])"
      using "1.IH" [OF cap n_def False r [simplified, symmetric] refl] go bodyless_connection "1.prems"(3)
        request_fields [OF r] by simp
    then obtain ps q where pq: "session_sent s' = session_sent s1 @ concat (map wire (ps @ [q]))"
        "concat (map carried (ps @ [q])) = drop n body" "list_all (\<lambda>p. pk_Code p = opPut) ps" "pk_Code q = opPutFinal"
        "list_all (\<lambda>p. length (wire p) \<le> ms_packetMax s1) (ps @ [q])" by blast
    have w: "session_sent s1 = session_sent s @ wire ?p" "length (wire ?p) \<le> ?max"
      using request_ok(1,3) [OF r] by (simp_all add: wire_def packet_bytes_def)
    show ?thesis using w pq carry request_fields [OF r] by (intro exI [of _ "?p # ps"] exI [of _ q]) simp
  qed
qed

section \<open>Fetching assembles the responses\<close>

text \<open>The responses read after the first one, which are all but the last continuations.\<close>

lemma collect_loop_body:
  assumes "collect_loop response body s = (Inr result, s')"
  shows "\<exists>rs. session_unread s = concat (map wire rs) @ session_unread s' \<and> result = body @ concat (map carried (response # rs))
    \<and> list_all (\<lambda>r. pk_Code r = ResponseContinue) (butlast (response # rs)) \<and> pk_Code (last (response # rs)) = ResponseOK
    \<and> length result \<le> maxCollectedBody
    \<and> session_sent s' = session_sent s @ concat (replicate (length rs) (packet_bytes opGetFinal (connectionHeader s)))"
  using assms
proof (induction response body s rule: collect_loop.induct)
  case (1 response body s)
  obtain headers where h: "ParseHeaders (pk_Payload response) 0 = Inr headers"
    using "1.prems" by (auto simp: collect_loop.simps [of response body s] split: sum.splits)
  define body' where "body' = body @ CollectBody headers headerBody headerEndOfBody"
  have carry: "body' = body @ carried response" by (simp add: body'_def carried_def h)
  have fits: "\<not> maxCollectedBody < length body'"
    using "1.prems" h by (auto simp: collect_loop.simps [of response body s] body'_def [symmetric] Let_def split: if_splits)
  show ?case
  proof (cases "pk_Code response = ResponseOK")
    case True
    then have "result = body'" "s' = s"
      using "1.prems" h fits by (auto simp: collect_loop.simps [of response body s] body'_def [symmetric] Let_def)
    with True carry fits show ?thesis by (intro exI [of _ "[]"]) simp
  next
    case False
    then have cont: "pk_Code response = ResponseContinue"
      using "1.prems" h fits by (auto simp: collect_loop.simps [of response body s] body'_def [symmetric] Let_def split: if_splits)
    obtain r1 s1 where r: "request opGetFinal (connectionHeader s) s = (Inr r1, s1)" and go: "collect_loop r1 body' s1 = (Inr result, s')"
      using "1.prems" h fits False cont
      by (auto simp: collect_loop.simps [of response body s] body'_def [symmetric] Let_def split: prod.splits sum.splits)
    have same: "connectionHeader s1 = connectionHeader s" using request_fields [OF r] by (simp add: connectionHeader_bytes)
    have ncont: "\<not> pk_Code response \<noteq> ResponseContinue" using cont by simp
    obtain rs where rs: "session_unread s1 = concat (map wire rs) @ session_unread s'"
        "result = body' @ concat (map carried (r1 # rs))"
        "list_all (\<lambda>r. pk_Code r = ResponseContinue) (butlast (r1 # rs))" "pk_Code (last (r1 # rs)) = ResponseOK"
        "length result \<le> maxCollectedBody"
        "session_sent s' = session_sent s1 @ concat (replicate (length rs) (packet_bytes opGetFinal (connectionHeader s1)))"
      using "1.IH" [OF h body'_def fits False ncont r [symmetric] refl go] by blast
    show ?thesis
      using rs request_ok(1,2) [OF r] carry cont same by (intro exI [of _ "r1 # rs"]) simp
  qed
qed

section \<open>Folder changes\<close>

text \<open>What a peer does on the folder requests it accepts: go to the root, or into a folder.\<close>

datatype folder_step = To_root | Into string

fun walk :: "string list \<Rightarrow> folder_step list \<Rightarrow> string list" where
  "walk path [] = path"
| "walk path (To_root # steps) = walk [] steps"
| "walk path (Into name # steps) = walk (path @ [name]) steps"

fun step_bytes :: "map_session \<Rightarrow> folder_step \<Rightarrow> bytes" where
  "step_bytes s To_root = packet_bytes opSetPath ([0x02, 0x00] @ connectionHeader s)"
| "step_bytes s (Into name) = packet_bytes opSetPath ([0x02, 0x00] @ connectionHeader s @ must (NameHeader headerName name))"

declare step_bytes.simps [simp del]

lemma step_bytes_cong: "ms_connection s1 = ms_connection s \<Longrightarrow> step_bytes s1 = step_bytes s"
  by (rule ext, rename_tac x, case_tac x) (simp_all add: step_bytes.simps connectionHeader_bytes)

lemma walk_into: "walk path (map Into names) = path @ names"
  by (induction names arbitrary: path) simp_all

lemma set_parts_sends:
  "set_parts parts s = (Returned None, s') \<Longrightarrow>
     session_sent s' = session_sent s @ concat (map (\<lambda>part. step_bytes s (Into part)) parts) \<and> s' = s\<lparr>ms_conn := ms_conn s'\<rparr>"
proof (induction parts arbitrary: s)
  case (Cons part parts)
  obtain name response s1 where n: "NameHeader headerName part = Some name"
      and r: "request opSetPath ([0x02, 0x00] @ connectionHeader s @ name) s = (Inr response, s1)"
      and go: "set_parts parts s1 = (Returned None, s')"
    using Cons.prems by (auto split: option.splits prod.splits sum.splits if_splits)
  have same: "step_bytes s1 = step_bytes s" using request_fields [OF r] by (intro step_bytes_cong) simp
  have head: "step_bytes s (Into part) = packet_bytes opSetPath ([0x02, 0x00] @ connectionHeader s @ name)"
    using n by (simp add: step_bytes.simps must_def)
  from Cons.IH [OF go, unfolded same] have IH: "session_sent s' = session_sent s1 @ concat (map (\<lambda>part. step_bytes s (Into part)) parts)"
      "s' = s1\<lparr>ms_conn := ms_conn s'\<rparr>" by blast+
  have "s1 = s\<lparr>ms_conn := ms_conn s1\<rparr>" using request_ok(4) [OF r] .
  then have "s' = s\<lparr>ms_conn := ms_conn s'\<rparr>" using IH(2) by (metis map_session.update_convs(1) map_session.surjective)
  with IH(1) request_ok(1) [OF r] show ?case by (simp add: head)
qed simp


lemma resetPath_sends:
  "resetPath force s = (None, s') \<Longrightarrow>
     session_sent s' = session_sent s @ concat (map (step_bytes s) (if \<not> force \<and> ms_currentPath s = [] then [] else [To_root]))
     \<and> s' = s\<lparr>ms_conn := ms_conn s', ms_currentPath := []\<rparr>"
proof -
  assume run: "resetPath force s = (None, s')"
  show ?thesis
  proof (cases "\<not> force \<and> ms_currentPath s = []")
    case True
    with run show ?thesis by (auto simp: resetPath_def)
  next
    case False
    with run obtain response s1 where r: "request opSetPath ([0x02, 0x00] @ connectionHeader s) s = (Inr response, s1)"
        and s': "s' = s1\<lparr>ms_currentPath := []\<rparr>"
      by (auto simp: resetPath_def split: prod.splits sum.splits if_splits)
    have "s1 = s\<lparr>ms_conn := ms_conn s1\<rparr>" using request_ok(4) [OF r] .
    then have "s1\<lparr>ms_currentPath := []\<rparr> = s\<lparr>ms_conn := ms_conn s1, ms_currentPath := []\<rparr>" by metis
    with False request_ok(1) [OF r] s' show ?thesis by (auto simp: step_bytes.simps)
  qed
qed

lemma gotoFolder_failure:
  "gotoFolder folder s = (Returned (Some e), s') \<Longrightarrow> s' = s \<or> ms_currentPath s' = unknownPath"
proof -
  have parts: "set_parts ps s1 = (Returned (Some e), s2) \<Longrightarrow> ms_currentPath s2 = unknownPath" for ps s1 s2
    by (induction ps arbitrary: s1) (auto split: option.splits prod.splits sum.splits if_splits)
  show "gotoFolder folder s = (Returned (Some e), s') \<Longrightarrow> ?thesis"
    using parts by (auto simp: gotoFolder_def resetPath_def Let_def split: if_splits prod.splits option.splits outcome.splits sum.splits)
qed

text \<open>A folder the session may be in at the peer, according to what it remembers.\<close>

definition at_folder :: "map_session \<Rightarrow> string list \<Rightarrow> bool" where
  "at_folder s path \<longleftrightarrow> ms_currentPath s = unknownPath
     \<or> path = (if ms_currentPath s = [] then [] else Split (CHR ''/'') (ms_currentPath s))"

section \<open>Properties\<close>

text \<open>
  \<open>gotoFolder\<close> takes the peer to the folder asked for. When it returns without error, it has sent folder requests, each of
  which was accepted, that lead the peer from wherever the session could be to exactly the components of the
  trimmed folder name, and it remembers that folder. When it returns an error, either nothing changed or the session remembers that
  the folder is unknown, so that the next call starts from the root again.\<close>

theorem gotoFolder_spec:
  assumes "gotoFolder folder s = (Returned result, s')" and "at_folder s path"
  shows "case result of
      None \<Rightarrow> \<exists>steps. session_sent s' = session_sent s @ concat (map (step_bytes s) steps)
          \<and> walk path steps = Split (CHR ''/'') (Trim folder ''/'') \<and> at_folder s' (walk path steps)
    | Some e \<Rightarrow> s' = s \<or> ms_currentPath s' = unknownPath"
proof (cases result)
  case (Some e)
  with assms(1) gotoFolder_failure show ?thesis by auto
next
  case None
  define f where "f = Trim folder ''/''"
  define parts where "parts = Split (CHR ''/'') f"
  have valid: "list_all valid_part parts"
    using assms(1) None by (auto simp: gotoFolder_def Let_def f_def parts_def split: if_splits)
  then have "valid_part []" if "f = []" using that by (simp add: parts_def)
  then have ne: "f \<noteq> []" by (auto simp: valid_part_def)
  have nk: "f \<noteq> unknownPath"
  proof
    assume "f = unknownPath"
    then have "valid_part [CHR 0x00]" using valid by (simp add: parts_def unknownPath_def)
    then show False by (simp add: valid_part_def ContainsAny_def)
  qed
  show ?thesis
  proof (cases "f = ms_currentPath s")
    case True
    then have "s' = s" using assms(1) None valid by (simp add: gotoFolder_def Let_def f_def parts_def)
    moreover have "path = parts" using assms(2) True ne nk by (auto simp: at_folder_def parts_def)
    ultimately show ?thesis unfolding None option.case using assms(2)
      by (intro exI [of _ "[]"]) (simp add: parts_def f_def)
  next
    case False
    then obtain s1 s2 where r: "resetPath False s = (None, s1)" and p: "set_parts parts s1 = (Returned None, s2)"
        and s': "s' = s2\<lparr>ms_currentPath := f\<rparr>"
      using assms(1) None valid
      by (auto simp: gotoFolder_def Let_def f_def parts_def split: if_splits prod.splits option.splits outcome.splits)
    define steps where "steps = (if ms_currentPath s = [] then [] else [To_root]) @ map Into parts"
    have same: "step_bytes s1 = step_bytes s"
    proof (rule step_bytes_cong)
      obtain c where "s1 = s\<lparr>ms_conn := c, ms_currentPath := []\<rparr>" using resetPath_sends [OF r] by blast
      then show "ms_connection s1 = ms_connection s" by simp
    qed
    have "session_sent s' = session_sent s @ concat (map (step_bytes s) steps)"
      using resetPath_sends [OF r] set_parts_sends [OF p, unfolded same] s' by (auto simp: steps_def comp_def)
    moreover have "walk path steps = parts"
      using assms(2) by (auto simp: steps_def walk_into at_folder_def unknownPath_def)
    moreover have "at_folder s' parts" using s' ne by (simp add: at_folder_def parts_def)
    ultimately show ?thesis using None by (auto simp: parts_def f_def)
  qed
qed

text \<open>A request to a peer whose answer is there and a kernel that takes the whole packet.\<close>

lemma request_answered:
  assumes "ms_conn s = Some c" "cn_writes c = Accept n # ws" "length payload + 3 \<le> n" "length payload + 3 \<le> ms_packetMax s"
    "ms_packetMax s \<le> 0xffff" "unread c = wire p @ rest" "length (pk_Payload p) + 3 \<le> 0xffff"
  shows "\<exists>c'. request opcode payload s = (Inr p, s\<lparr>ms_conn := Some c'\<rparr>) \<and> unread c' = rest \<and> cn_writes c' = ws"
proof -
  let ?b = "packet_bytes opcode payload"
  have len: "length ?b = length payload + 3" by (simp add: packet_bytes_def)
  have ne: "?b \<noteq> []" by (simp add: packet_bytes_def)
  define c1 where "c1 = c\<lparr>cn_sent := cn_sent c @ ?b, cn_writes := ws\<rparr>"
  have "write_loop ?b (cn_sent c) (cn_writes c) = (None, cn_sent c @ ?b, ws)"
    using assms(2,3) len ne by (simp add: write_loop.simps [of ?b] write_loop.simps [of "[]"] min_def)
  then have w: "WritePacket WriteAll opcode payload c = (None, c1)"
    using assms(4,5) by (simp add: WritePacket_def WriteAll_def c1_def)
  have "unread c1 = packet_bytes (pk_Code p) (pk_Payload p) @ rest" using assms(6) by (simp add: c1_def wire_def)
  from rfcomm.read_packet [OF assms(7) order.refl this] obtain c2 where
    r: "ReadPacket ReadFull 0xffff c1 = (Inr p, c2)" "unread c2 = rest" by auto
  have "cn_writes c2 = cn_writes c1"
    using r(1) ReadFull_Inr by (auto simp: ReadPacket_def Let_def split: if_splits prod.splits sum.splits dest!: ReadFull_Inr)
  with r w assms show ?thesis by (auto simp: request_def c1_def)
qed

definition sample_session :: "packet list \<Rightarrow> string \<Rightarrow> map_session" where
  "sample_session responses path =
     \<lparr>ms_conn = Some (new_conn 5 (map (Chunk \<circ> wire) responses) (replicate (length responses) (Accept 1000))),
      ms_connection = 7, ms_packetMax = 255, ms_currentPath = path\<rparr>"

definition ok_response :: packet where "ok_response = \<lparr>pk_Code = ResponseOK, pk_Payload = []\<rparr>"

lemma wire_not_Nil [simp]: "wire p \<noteq> []"
  by (simp add: wire_def packet_bytes_def)

lemma sample_request:
  "length payload + 3 \<le> 255 \<Longrightarrow> length (pk_Payload p) + 3 \<le> 0xffff \<Longrightarrow> ms_conn s = Some c \<Longrightarrow> ms_packetMax s = 255
   \<Longrightarrow> cn_writes c = Accept 1000 # ws \<Longrightarrow> unread c = wire p @ rest
   \<Longrightarrow> \<exists>c'. request opcode payload s = (Inr p, s\<lparr>ms_conn := Some c'\<rparr>) \<and> unread c' = rest \<and> cn_writes c' = ws"
  by (rule request_answered) auto

lemma sample_goto:
  "\<exists>s'. gotoFolder ''/a/'' (sample_session [ok_response, ok_response] ''x'') = (Returned None, s')"
proof -
  let ?s = "sample_session [ok_response, ok_response] ''x''"
  have name: "\<exists>h. NameHeader headerName ''a'' = Some h \<and> length h = 7"
    by (simp add: NameHeader_def runes_ascii is_ascii_def utf16_units_def MustHeader_def BuildHeader_def headerName_def)
  then obtain h where h: "NameHeader headerName ''a'' = Some h" "length h = 7" by blast
  obtain c1 where c1: "request opSetPath ([0x02, 0x00] @ connectionHeader ?s) ?s = (Inr ok_response, ?s\<lparr>ms_conn := Some c1\<rparr>)"
      "unread c1 = wire ok_response" "cn_writes c1 = [Accept 1000]"
    using sample_request [of "[0x02, 0x00] @ connectionHeader ?s" ok_response ?s _ "[Accept 1000]" "wire ok_response" opSetPath]
    by (auto simp: connectionHeader_bytes sample_session_def new_conn_def ok_response_def)
  define s1 where "s1 = ?s\<lparr>ms_conn := Some c1, ms_currentPath := []\<rparr>"
  obtain c2 where c2: "request opSetPath ([0x02, 0x00] @ connectionHeader s1 @ h) s1 = (Inr ok_response, s1\<lparr>ms_conn := Some c2\<rparr>)"
    using sample_request [of "[0x02, 0x00] @ connectionHeader s1 @ h" ok_response s1 c1 "[]" "[]" opSetPath] c1(2,3) h(2)
    by (auto simp: connectionHeader_bytes s1_def sample_session_def ok_response_def)
  have f: "Trim ''/a/'' ''/'' = ''a''" by (simp add: Trim_def TrimLeft_def TrimRight_def)
  have "valid_part ''a''" by (simp add: valid_part_def ContainsAny_def)
  moreover have "resetPath False ?s = (None, s1)"
    using c1(1) by (simp add: resetPath_def s1_def ok_response_def) (simp add: sample_session_def)
  moreover have "ms_currentPath ?s = ''x''" by (simp add: sample_session_def)
  ultimately show ?thesis using c2 h(1) by (simp add: gotoFolder_def f ok_response_def)
qed

theorem gotoFolder_spec_witness:
  "\<exists>s' steps. gotoFolder ''/a/'' (sample_session [ok_response, ok_response] ''x'') = (Returned None, s')
     \<and> walk [''x''] steps = [''a''] \<and> at_folder s' (walk [''x''] steps)"
proof -
  let ?s = "sample_session [ok_response, ok_response] ''x''"
  obtain s' where r: "gotoFolder ''/a/'' ?s = (Returned None, s')" using sample_goto by blast
  have a: "at_folder ?s [''x'']" by (simp add: at_folder_def sample_session_def)
  have f: "Split (CHR ''/'') (Trim ''/a/'' ''/'') = [''a'']" by (simp add: Trim_def TrimLeft_def TrimRight_def)
  from gotoFolder_spec [OF r a] f r show ?thesis by auto
qed

lemma set_parts_fields: "set_parts parts s = (r, s') \<Longrightarrow> ms_packetMax s' = ms_packetMax s"
proof (induction parts arbitrary: s)
  case (Cons part parts)
  then show ?case by (auto split: option.splits prod.splits sum.splits if_splits dest!: request_fields)
qed simp

lemma gotoFolder_fields: "gotoFolder folder s = (r, s') \<Longrightarrow> ms_packetMax s' = ms_packetMax s"
  by (auto simp: gotoFolder_def resetPath_def Let_def split: if_splits prod.splits option.splits outcome.splits sum.splits
      dest!: request_fields set_parts_fields)

lemma CollectBody_Cons:
  "CollectBody (\<lparr>hd_ID = i, hd_Value = v\<rparr> # hs) b e = (if i = b \<or> i = e then v else []) @ CollectBody hs b e"
  by (simp add: CollectBody_def)

lemma bodyless_first:
  assumes "length ty + 3 \<le> 0xffff" "length params + 3 \<le> 0xffff"
  shows "bodyless (connectionHeader s @ must (MustHeader headerType ty) @ must (MustHeader headerAppParams params))"
proof -
  have "parse_headers (must (MustHeader headerAppParams params)) = Inr [\<lparr>hd_ID = headerAppParams, hd_Value = params\<rparr>]"
    using parse_must [of headerAppParams params "[]"] assms by (simp add: headerAppParams_def)
  moreover have "headerType AND 0xc0 = 0x40" by (simp add: headerType_def)
  ultimately show ?thesis
    unfolding bodyless_def using assms parse_must [of headerType ty] parse_connectionHeader [of s]
    by (simp add: CollectBody_Cons CollectBody_def [of "[]"] map_ids)
qed

text \<open>
  C31. A pushed message reaches the peer whole. When \<open>PushBMessage\<close> reports success, the session first reached the folder, and the
  packets it then sent are one or more: all but the last a non-final PUT, the last a final PUT, none longer
  than the negotiated packet size, and the bodies they carry concatenate to exactly the message.\<close>

theorem push_delivers_body:
  assumes "PushBMessage folder body transparent retry s = (Returned None, s')" and "ms_packetMax s \<le> 0xffff"
  shows "\<exists>s1 ps q. gotoFolder folder s = (Returned None, s1)
    \<and> session_sent s' = session_sent s1 @ concat (map wire (ps @ [q])) \<and> concat (map carried (ps @ [q])) = bytes_of body
    \<and> list_all (\<lambda>p. pk_Code p = opPut) ps \<and> pk_Code q = opPutFinal
    \<and> list_all (\<lambda>p. length (wire p) \<le> ms_packetMax s) (ps @ [q])"
proof -
  define params :: bytes where "params = [tagTransparent, 0x01, if transparent then 1 else 0, tagRetry, 0x01, if retry then 1 else 0,
    tagCharset, 0x01, 0x01]"
  define first where "first s1 = connectionHeader s1 @ must (MustHeader headerType (bytes_of (''x-bt/message'' @ [CHR 0x00])))
    @ must (MustHeader headerAppParams params)" for s1
  obtain s1 where g: "gotoFolder folder s = (Returned None, s1)" and p: "putBody (first s1) (bytes_of body) s1 = (None, s')"
    using assms(1) by (auto simp: PushBMessage_def first_def params_def Let_def split: if_splits prod.splits outcome.splits option.splits)
  have "bodyless (first s1)" unfolding first_def by (rule bodyless_first) (simp_all add: params_def)
  with putBody_sends [OF p] gotoFolder_fields [OF g] assms(2) g show ?thesis by auto
qed

lemma sample_push:
  "\<exists>s'. PushBMessage ''x'' ''hi'' False True (sample_session [ok_response] ''x'') = (Returned None, s')"
proof -
  let ?s = "sample_session [ok_response] ''x''"
  define first where "first = connectionHeader ?s @ must (MustHeader headerType (bytes_of (''x-bt/message'' @ [CHR 0x00])))
    @ must (MustHeader headerAppParams [tagTransparent, 0x01, 0, tagRetry, 0x01, 1, tagCharset, 0x01, 0x01])"
  have len: "length first = 5 + 16 + 12"
    by (simp add: first_def connectionHeader_bytes must_length headerType_def headerAppParams_def)
  have "length (must (MustHeader headerEndOfBody (bytes_of ''hi''))) = 5" by (simp add: must_length headerEndOfBody_def)
  then obtain c1 where c1: "request opPutFinal (first @ must (MustHeader headerEndOfBody (bytes_of ''hi''))) ?s
      = (Inr ok_response, ?s\<lparr>ms_conn := Some c1\<rparr>)"
    using sample_request [of "first @ must (MustHeader headerEndOfBody (bytes_of ''hi''))" ok_response ?s _ "[]" "[]" opPutFinal] len
    by (auto simp: sample_session_def new_conn_def ok_response_def)
  have g: "gotoFolder ''x'' ?s = (Returned None, ?s)"
    by (simp add: gotoFolder_def Trim_def TrimLeft_def TrimRight_def valid_part_def ContainsAny_def sample_session_def)
  have "ms_packetMax ?s = 255" by (simp add: sample_session_def)
  then have "putBody first (bytes_of ''hi'') ?s = (None, ?s\<lparr>ms_conn := Some c1\<rparr>)"
    using c1 len by (simp add: putBody.simps [of first] ok_response_def Let_def)
  with g show ?thesis by (simp add: PushBMessage_def first_def)
qed

theorem push_delivers_body_witness:
  "\<exists>s' ps q. PushBMessage ''x'' ''hi'' False True (sample_session [ok_response] ''x'') = (Returned None, s')
     \<and> concat (map carried (ps @ [q])) = bytes_of ''hi'' \<and> pk_Code q = opPutFinal"
proof -
  obtain s' where r: "PushBMessage ''x'' ''hi'' False True (sample_session [ok_response] ''x'') = (Returned None, s')"
    using sample_push by blast
  have "ms_packetMax (sample_session [ok_response] ''x'') \<le> 0xffff" by (simp add: sample_session_def)
  from push_delivers_body [OF r this] r show ?thesis by auto
qed

text \<open>
  A fetch returns what the peer sent. When \<open>collectGET\<close> succeeds, it has read one or more responses from the stream, all but the
  last continuations and the last a success, its result is the concatenation of the bodies they carry and at
  most 2 MiB, and it has sent its request followed by one continuation request for each further response. It ends
  for every stream.\<close>

theorem fetch_assembles:
  assumes "collectGET initial s = (Inr body, s')"
  shows "\<exists>rs q. session_unread s = concat (map wire (rs @ [q])) @ session_unread s' \<and> body = concat (map carried (rs @ [q]))
    \<and> list_all (\<lambda>r. pk_Code r = ResponseContinue) rs \<and> pk_Code q = ResponseOK \<and> length body \<le> maxCollectedBody
    \<and> session_sent s' = session_sent s @ packet_bytes opGetFinal initial
        @ concat (replicate (length rs) (packet_bytes opGetFinal (connectionHeader s)))"
proof -
  obtain r1 s1 where r: "request opGetFinal initial s = (Inr r1, s1)" and go: "collect_loop r1 [] s1 = (Inr body, s')"
    using assms by (auto simp: collectGET_def split: prod.splits sum.splits)
  have same: "connectionHeader s1 = connectionHeader s" using request_fields [OF r] by (simp add: connectionHeader_bytes)
  obtain rs where rs: "session_unread s1 = concat (map wire rs) @ session_unread s'" "body = concat (map carried (r1 # rs))"
      "list_all (\<lambda>r. pk_Code r = ResponseContinue) (butlast (r1 # rs))" "pk_Code (last (r1 # rs)) = ResponseOK"
      "length body \<le> maxCollectedBody"
      "session_sent s' = session_sent s1 @ concat (replicate (length rs) (packet_bytes opGetFinal (connectionHeader s)))"
    using collect_loop_body [OF go, unfolded same append_Nil] by blast
  define ps where "ps = butlast (r1 # rs)"
  define q where "q = last (r1 # rs)"
  have all: "r1 # rs = ps @ [q]" by (simp add: ps_def q_def)
  then have n: "length rs = length ps" by (metis add_right_cancel length_Cons length_append_singleton old.nat.inject)
  have "session_unread s = concat (map wire (r1 # rs)) @ session_unread s'" using request_ok(2) [OF r] rs(1) by simp
  with rs request_ok(1) [OF r] show ?thesis unfolding all n ps_def [symmetric] q_def [symmetric]
    by (intro exI [of _ ps] exI [of _ q]) simp
qed

theorem fetch_assembles_witness:
  "\<exists>s'. collectGET [0x42] (sample_session [ok_response] ''x'') = (Inr [], s')
     \<and> session_sent s' = packet_bytes opGetFinal [0x42]"
proof -
  let ?s = "sample_session [ok_response] ''x''"
  obtain c1 where "request opGetFinal [0x42] ?s = (Inr ok_response, ?s\<lparr>ms_conn := Some c1\<rparr>)"
    using sample_request [of "[0x42]" ok_response ?s _ "[]" "[]" opGetFinal]
    by (auto simp: sample_session_def new_conn_def ok_response_def)
  then have r: "collectGET [0x42] ?s = (Inr [], ?s\<lparr>ms_conn := Some c1\<rparr>)"
    by (simp add: collectGET_def collect_loop.simps ok_response_def ParseHeaders_def CollectBody_def)
  obtain rs q where "session_unread ?s = concat (map wire (rs @ [q])) @ session_unread (?s\<lparr>ms_conn := Some c1\<rparr>)"
      and sent: "session_sent (?s\<lparr>ms_conn := Some c1\<rparr>) = session_sent ?s @ packet_bytes opGetFinal [0x42]
        @ concat (replicate (length rs) (packet_bytes opGetFinal (connectionHeader ?s)))"
    using fetch_assembles [OF r] by blast
  then have "length (concat (map wire rs)) + length (wire q) \<le> length (wire ok_response)"
    by (auto simp: sample_session_def new_conn_def)
  then have "concat (map wire rs) = []" using length_wire [of q] by (auto simp: ok_response_def length_wire)
  then have "rs = []" by (cases rs) auto
  with sent r show ?thesis by (auto simp: sample_session_def new_conn_def)
qed

text \<open>
  A folder name with a component of 32766 or more ASCII characters crashes the process: the name header would be longer than an
  OBEX header can be, and \<open>PushBMessage\<close> panics before anything is sent, for every session at the root folder and
  every message of an acceptable size.\<close>

theorem long_folder_panics:
  assumes "32766 \<le> n" and "ms_currentPath s = []" and "body \<noteq> []" and "length body \<le> 60 * 1024"
  shows "PushBMessage (replicate n (CHR ''a'')) body transparent retry s = (Panicked, s)"
proof -
  let ?f = "replicate n (CHR ''a'')"
  have t: "Trim ?f ''/'' = ?f" by (simp add: Trim_def TrimLeft_def TrimRight_def dropWhile_eq_self_iff hd_replicate)
  have sp: "Split (CHR ''/'') ?f = [?f]" by (induction n) simp_all
  have v: "valid_part ?f" using assms(1) by (auto simp: valid_part_def ContainsAny_def IndexAny_None_iff replicate_eq_replicate
        dest: arg_cong [where f = length])
  have "runes (?f @ [CHR 0x00]) = replicate n 97 @ [0]"
    by (subst runes_ascii) (auto simp: is_ascii_def list_all_iff)
  then have "concat (map utf16_units (runes (?f @ [CHR 0x00]))) = replicate n 97 @ [0]"
    by (simp add: utf16_units_def concat_replicate_trivial map_replicate_const)
  then have "NameHeader headerName ?f = MustHeader headerName (concat (map (put_be 2) (replicate n (97 :: uint16) @ [0])))"
    by (simp only: NameHeader_def)
  also have "\<dots> = None"
    using assms(1) by (simp only: MustHeader_def BuildHeader_def length_units) (simp add: headerName_def)
  finally have "NameHeader headerName ?f = None" .
  then show ?thesis using assms v by (auto simp: PushBMessage_def gotoFolder_def t sp resetPath_def Let_def)
qed

theorem long_folder_panics_witness:
  "PushBMessage (replicate 40000 (CHR ''a'')) ''x'' False False (sample_session [] [])
     = (Panicked, sample_session [] [])"
  by (rule long_folder_panics) (simp_all add: sample_session_def)

lemma ReadFull_fd: "ReadFull n c = (r, c') \<Longrightarrow> cn_fd c' = cn_fd c \<and> cn_closed c' = cn_closed c"
  by (auto simp: ReadFull_def Let_def split: prod.splits)

lemma WriteAll_fd: "WriteAll b c = (r, c') \<Longrightarrow> cn_fd c' = cn_fd c \<and> cn_closed c' = cn_closed c"
  by (auto simp: WriteAll_def Let_def split: prod.splits)

lemma request_fd:
  "ms_conn s = Some c \<Longrightarrow> request opcode payload s = (r, s') \<Longrightarrow> \<exists>c'. ms_conn s' = Some c' \<and> cn_fd c' = cn_fd c \<and> cn_closed c' = cn_closed c"
  by (auto simp: request_def ReadPacket_def WritePacket_def Let_def split: if_splits prod.splits option.splits sum.splits
      dest!: ReadFull_fd WriteAll_fd)

text \<open>
  Opening a session either gives a usable session or closes the connection. A session that \<open>Connect\<close> returns is open at the root
  folder with a packet size from 255 to 65535 bytes; on every
  failure after dialling (no answer, a rejection, malformed headers, a missing or malformed connection identifier) the
  connection is closed exactly as \<open>Close\<close> would, and nothing is closed when dialling itself failed.\<close>

theorem map_connect_spec:
  "case Connect dialled of
      (Inr s, acts) \<Rightarrow> acts = [] \<and> ms_conn s \<noteq> None \<and> 255 \<le> ms_packetMax s \<and> ms_packetMax s \<le> 0xffff \<and> ms_currentPath s = []
    | (Inl e, acts) \<Rightarrow> acts = (case dialled of Inl _ \<Rightarrow> [] | Inr c \<Rightarrow> fst (Close c))"
proof (cases dialled)
  case (Inl e)
  then show ?thesis by (simp add: Connect_def)
next
  case (Inr c)
  define s0 where "s0 = \<lparr>ms_conn = Some c, ms_connection = 0, ms_packetMax = 0xffff, ms_currentPath = []\<rparr>"
  obtain r s1 where rq: "request opConnect ([0x10, 0x00, 0x40, 0x00] @ must (MustHeader headerTarget masTargetUUID)) s0 = (r, s1)"
    by fastforce
  obtain c1 where c1: "ms_conn s1 = Some c1" "cn_fd c1 = cn_fd c" "cn_closed c1 = cn_closed c"
    using request_fd [OF _ rq, of c] by (auto simp: s0_def)
  have f: "ms_packetMax s1 = 0xffff" "ms_currentPath s1 = []" using request_fields [OF rq] by (simp_all add: s0_def)
  have cl: "fst (Close c1) = fst (Close c)" using c1 by (simp add: Close_def)
  show ?thesis
    using Inr c1(1) f cl rq [unfolded s0_def] by (simp add: Connect_def Let_def split: sum.split option.split)
qed

end
