(* ===== verification/Mns.thy ===== *)
theory Mns
  imports Map_Session
begin

text \<open>
  The message notification server (\<open>internal/mns/server.go\<close> with \<open>Event\<close> of \<open>internal/model/model.go\<close>): the OBEX server to which the
  phone pushes event reports, and the BlueZ profile that hands it connections.

  \<open>handle_packet\<close> is one round of the loop in \<open>handle\<close>, \<open>handle\<close> the loop itself, which ends for every stream.
  The XML tokens, the time of day and whether the event queue has room are arguments. The profile with its
  goroutines is a step relation in which the callbacks happen after the mutex is released, as in the code.
  The functions of \<open>internal/bt\<close> and \<open>internal/obex\<close> are those of theories \<open>Rfcomm\<close> and \<open>Obex\<close>.
\<close>

section \<open>Events\<close>

definition mnsTargetUUID :: bytes where
  "mnsTargetUUID = [0xbb, 0x58, 0x2b, 0x41, 0x42, 0x0c, 0x11, 0xdb, 0xb0, 0xde, 0x08, 0x00, 0x20, 0x0c, 0x9a, 0x66]"

definition headerWho :: byte where "headerWho = 0x4a"
definition maximumEventBody :: nat where "maximumEventBody = 2 ^ 20"

record event =
  ev_EventType :: string
  ev_Handle :: string
  ev_Folder :: string
  ev_MessageType :: string
  ev_DateTime :: string
  ev_Source :: string

definition event_attr :: "string \<times> string \<Rightarrow> event \<Rightarrow> event" where
  "event_attr a e =
     (if fst a = ''type'' then e\<lparr>ev_EventType := snd a\<rparr>
      else if fst a = ''handle'' then e\<lparr>ev_Handle := snd a\<rparr>
      else if fst a = ''folder'' then e\<lparr>ev_Folder := snd a\<rparr>
      else if fst a = ''msg_type'' then e\<lparr>ev_MessageType := snd a\<rparr>
      else if fst a = ''datetime'' then (if TrimSpace (snd a) \<noteq> [] then e\<lparr>ev_DateTime := snd a\<rparr> else e)
      else e)"

fun event_element :: "xml_token list \<Rightarrow> (string \<times> string) list option" where
  "event_element [] = None"
| "event_element (Start_element name attributes # ts) = (if name = ''event'' then Some attributes else event_element ts)"
| "event_element (Other_token # ts) = event_element ts"

definition parseEvent :: "(bytes \<Rightarrow> xml_token list \<times> bool) \<Rightarrow> string \<Rightarrow> bytes \<Rightarrow> go_error + event" where
  "parseEvent xml now raw =
     (case IndexByte (string_of raw) (CHR ''<'') of
        None \<Rightarrow> Inl (Text ''event XML missing'')
      | Some start \<Rightarrow>
          (case event_element (fst (xml (drop start raw))) of
             None \<Rightarrow> Inl (Text ''XML decoder error'')
           | Some attributes \<Rightarrow>
               let e = fold event_attr attributes
                 \<lparr>ev_EventType = [], ev_Handle = [], ev_Folder = [], ev_MessageType = [], ev_DateTime = now, ev_Source = ''mns''\<rparr>
               in if \<not> safeHandle (ev_Handle e) then Inl (Text ''invalid event handle'') else Inr e))"

section \<open>The OBEX server\<close>

record mns_state =
  mh_accumulated :: bytes
  mh_contentType :: string
  mh_connected :: bool

datatype mns_output = Event_sent event | Event_dropped event | Event_rejected

definition mns_start :: mns_state where
  "mns_start = \<lparr>mh_accumulated = [], mh_contentType = [], mh_connected = False\<rparr>"

definition reply :: "byte \<Rightarrow> bytes \<Rightarrow> conn \<Rightarrow> go_error option \<times> conn" where
  "reply code payload c = WritePacket WriteAll code payload c"

definition on_connect :: "packet \<Rightarrow> mns_state \<Rightarrow> conn \<Rightarrow> bool \<times> mns_output list \<times> mns_state \<times> conn" where
  "on_connect p st c =
     (let refuse = (False, [], st, snd (reply ResponseBadRequest [] c)) in
      if length (pk_Payload p) < 4 then refuse
      else case ParseHeaders (pk_Payload p) 4 of
        Inl _ \<Rightarrow> refuse
      | Inr headers \<Rightarrow>
          if Find headers headerTarget \<noteq> Some mnsTargetUUID then refuse
          else let payload = [0x10, 0x00, 0xff, 0xff] @ must (Uint32Header headerConnectionID 1) @ must (MustHeader headerWho mnsTargetUUID)
               in case reply ResponseOK payload c of
                    (Some _, c') \<Rightarrow> (False, [], st, c')
                  | (None, c') \<Rightarrow> (True, [], \<lparr>mh_accumulated = [], mh_contentType = [], mh_connected = True\<rparr>, c'))"

text \<open>The end of an object: its event goes to the queue unless that is full.\<close>

definition finish_object :: "(bytes \<Rightarrow> xml_token list \<times> bool) \<Rightarrow> string \<Rightarrow> bool \<Rightarrow> mns_state \<Rightarrow> mns_output list" where
  "finish_object xml now room st =
     (if mh_contentType st = ''x-bt/MAP-event-report'' \<or> mh_contentType st = [] then
        (case parseEvent xml now (mh_accumulated st) of
           Inl _ \<Rightarrow> [Event_rejected]
         | Inr e \<Rightarrow>
             if ev_EventType e = ''NewMessage'' \<and> ev_Handle e \<noteq> [] then [if room then Event_sent e else Event_dropped e] else [])
      else [])"

text \<open>What the headers of a PUT change: the content type and the object received so far.\<close>

definition take_headers :: "header list \<Rightarrow> mns_state \<Rightarrow> mns_state" where
  "take_headers headers st =
     (let st1 = (case Find headers headerType of
                   Some rawType \<Rightarrow> st\<lparr>mh_contentType := TrimRight (string_of rawType) [CHR 0x00]\<rparr>
                 | None \<Rightarrow> st)
      in st1\<lparr>mh_accumulated := mh_accumulated st1 @ CollectBody headers headerBody headerEndOfBody\<rparr>)"

definition on_put :: "(bytes \<Rightarrow> xml_token list \<times> bool) \<Rightarrow> string \<Rightarrow> bool \<Rightarrow> packet \<Rightarrow> mns_state \<Rightarrow> conn
    \<Rightarrow> bool \<times> mns_output list \<times> mns_state \<times> conn" where
  "on_put xml now room p st c =
     (if \<not> mh_connected st then (False, [], st, snd (reply ResponseBadRequest [] c))
      else case ParseHeaders (pk_Payload p) 0 of
        Inl _ \<Rightarrow> (False, [], st, snd (reply ResponseBadRequest [] c))
      | Inr headers \<Rightarrow>
          let st2 = take_headers headers st
          in if maximumEventBody < length (mh_accumulated st2) then (False, [], st2, snd (reply ResponseBadRequest [] c))
             else case reply (if pk_Code p = opPutFinal then ResponseOK else ResponseContinue) [] c of
               (Some _, c') \<Rightarrow> (False, [], st2, c')
             | (None, c') \<Rightarrow>
                 if pk_Code p = opPutFinal \<and> mh_accumulated st2 \<noteq> []
                 then (True, finish_object xml now room st2, st2\<lparr>mh_accumulated := [], mh_contentType := []\<rparr>, c')
                 else (True, [], st2, c'))"

definition handle_packet :: "(bytes \<Rightarrow> xml_token list \<times> bool) \<Rightarrow> string \<Rightarrow> bool \<Rightarrow> packet \<Rightarrow> mns_state \<Rightarrow> conn
    \<Rightarrow> bool \<times> mns_output list \<times> mns_state \<times> conn" where
  "handle_packet xml now room p st c =
     (if pk_Code p = opConnect then on_connect p st c
      else if pk_Code p = opPut \<or> pk_Code p = opPutFinal then on_put xml now room p st c
      else if pk_Code p = opDisconnect then (False, [], st, snd (reply ResponseOK [] c))
      else case reply ResponseNotImplemented [] c of (e, c') \<Rightarrow> (e = None, [], st, c'))"

lemma reply_ok: "reply code payload c = (None, c') \<Longrightarrow> unread c' = unread c"
  unfolding reply_def by (drule rfcomm.write_packet) simp

lemma handle_packet_stream: "handle_packet xml now room p st c = (True, outs, st', c') \<Longrightarrow> unread c' = unread c"
  by (auto simp: handle_packet_def on_connect_def on_put_def Let_def split: if_splits sum.splits prod.splits option.splits dest!: reply_ok)

lemma handle_decreases:
  assumes "(Inr p, c') = ReadPacket ReadFull 65535 c" and "(True, outs, st', c'') = handle_packet xml now room p st c'"
  shows "length (unread c'') < length (unread c)"
proof -
  have "length (unread c') + 3 \<le> length (unread c)" using assms(1) [symmetric] by (rule rfcomm.read_packet_consumes)
  moreover have "unread c'' = unread c'" using assms(2) [symmetric] by (rule handle_packet_stream)
  ultimately show ?thesis by simp
qed

text \<open>
  The loop: in round \<open>k\<close> the context may be cancelled, the time is \<open>now k\<close> and the queue has room or not.
\<close>

record mns_world =
  mw_cancelled :: "nat \<Rightarrow> bool"
  mw_now :: "nat \<Rightarrow> string"
  mw_room :: "nat \<Rightarrow> bool"
  mw_xml :: "bytes \<Rightarrow> xml_token list \<times> bool"

function handle :: "mns_world \<Rightarrow> nat \<Rightarrow> mns_state \<Rightarrow> conn \<Rightarrow> mns_output list \<times> conn" where
  "handle w k st c =
     (if mw_cancelled w k then ([], c)
      else case ReadPacket ReadFull 0xffff c of
        (Inl _, c') \<Rightarrow> ([], c')
      | (Inr p, c') \<Rightarrow>
          (case handle_packet (mw_xml w) (mw_now w k) (mw_room w k) p st c' of
             (go, outs, st', c'') \<Rightarrow>
               if go then (case handle w (Suc k) st' c'' of (outs', c3) \<Rightarrow> (outs @ outs', c3)) else (outs, c'')))"
  by auto
termination by (relation "measure (\<lambda>(_, _, _, c). length (unread c))") (auto dest: handle_decreases)

declare handle.simps [simp del]

section \<open>The profile\<close>

record mns_server =
  sv_device :: string
  sv_adapter :: string
  sv_channel :: uint16

definition mns_New :: "string \<Rightarrow> string \<Rightarrow> uint16 \<Rightarrow> bool \<Rightarrow> bool \<Rightarrow> go_error + mns_server" where
  "mns_New device adapter channel hasEvents hasLogger =
     (if device = [] \<or> adapter = [] \<or> channel < 1 \<or> 30 < channel \<or> \<not> hasEvents \<or> \<not> hasLogger
      then Inl (Text ''invalid MNS server configuration'')
      else Inr \<lparr>sv_device = device, sv_adapter = adapter, sv_channel = channel\<rparr>)"

text \<open>The addresses are hexadecimal digits and colons, so upper case is that of ASCII letters.\<close>

definition expectedDevice :: "mns_server \<Rightarrow> string \<Rightarrow> bool" where
  "expectedDevice sv path \<longleftrightarrow>
     path = ''/org/bluez/'' @ sv_adapter sv @ ''/dev_'' @ ReplaceChar (CHR '':'') (CHR ''_'') (ToUpper (sv_device sv))"

datatype profile_output = Connected bool | Closed_connection nat | Rejected_device | Setup_failed

text \<open>
  The profile while BlueZ hands it connections: the connections it has registered, those whose goroutine has removed them
  and is about to report, with the number that remained, the connections accepted whose report is still to come, and
  the value the last \<open>Connected\<close> callback left.
\<close>

record profile =
  pf_connections :: "nat list"
  pf_announce :: "nat list"
  pf_leaving :: "nat list"
  pf_status :: bool

definition NewConnection :: "mns_server \<Rightarrow> string \<Rightarrow> (go_error + nat) \<Rightarrow> profile \<Rightarrow> profile_output list \<times> profile" where
  "NewConnection sv device fromFD pf =
     (if \<not> expectedDevice sv device
      then ((case fromFD of Inr c \<Rightarrow> [Closed_connection c] | Inl _ \<Rightarrow> []) @ [Rejected_device], pf)
      else case fromFD of
        Inl _ \<Rightarrow> ([Setup_failed], pf)
      | Inr c \<Rightarrow> ([], pf\<lparr>pf_connections := c # pf_connections pf, pf_announce := c # pf_announce pf\<rparr>))"

definition announce :: "nat \<Rightarrow> profile \<Rightarrow> profile_output list \<times> profile" where
  "announce c pf = ([Connected True], pf\<lparr>pf_announce := remove1 c (pf_announce pf), pf_status := True\<rparr>)"

text \<open>The goroutine of a connection ends: it closes the connection and removes it under the mutex.\<close>

definition leave :: "nat \<Rightarrow> profile \<Rightarrow> profile_output list \<times> profile" where
  "leave c pf =
     (let rest = remove1 c (pf_connections pf)
      in ([Closed_connection c], pf\<lparr>pf_connections := rest, pf_leaving := length rest # pf_leaving pf\<rparr>))"

text \<open>After the mutex is released it reports, when it saw no connection left.\<close>

definition report :: "nat \<Rightarrow> profile \<Rightarrow> profile_output list \<times> profile" where
  "report remaining pf =
     (if remaining = 0 then ([Connected False], pf\<lparr>pf_leaving := remove1 remaining (pf_leaving pf), pf_status := False\<rparr>)
      else ([], pf\<lparr>pf_leaving := remove1 remaining (pf_leaving pf)\<rparr>))"

definition closeAll :: "profile \<Rightarrow> profile_output list" where
  "closeAll pf = map Closed_connection (pf_connections pf)"

text \<open>What BlueZ calls on the profile: \<open>RequestDisconnection\<close>, and \<open>Release\<close>, which fills a channel of one place.\<close>

definition RequestDisconnection :: "profile \<Rightarrow> profile_output list" where
  "RequestDisconnection pf = closeAll pf"

definition profile_Release :: "unit list \<Rightarrow> unit list" where
  "profile_Release channel = (if length channel < 1 then channel @ [()] else channel)"

inductive profile_step :: "mns_server \<Rightarrow> profile \<Rightarrow> profile \<Rightarrow> bool" for sv :: mns_server where
  accepted: "NewConnection sv device fromFD pf = (outs, pf') \<Longrightarrow> (\<And>c. fromFD = Inr c \<Longrightarrow> c \<notin> set (pf_connections pf))
    \<Longrightarrow> profile_step sv pf pf'"
| announced: "c \<in> set (pf_announce pf) \<Longrightarrow> announce c pf = (outs, pf') \<Longrightarrow> profile_step sv pf pf'"
| left: "c \<in> set (pf_connections pf) \<Longrightarrow> c \<notin> set (pf_announce pf) \<Longrightarrow> leave c pf = (outs, pf') \<Longrightarrow> profile_step sv pf pf'"
| reported: "n \<in> set (pf_leaving pf) \<Longrightarrow> report n pf = (outs, pf') \<Longrightarrow> profile_step sv pf pf'"

definition profile_init :: "profile \<Rightarrow> bool" where
  "profile_init pf \<longleftrightarrow> pf = \<lparr>pf_connections = [], pf_announce = [], pf_leaving = [], pf_status = False\<rparr>"

section \<open>Registration\<close>

datatype mns_action = Bus_closed | Profile_registered | Registered bool | All_closed | Profile_unregistered

record registration =
  rg_bus :: bool
  rg_fds :: bool
  rg_export :: bool
  rg_register :: bool

datatype served_end = Context_done | Bus_lost | Profile_released

definition mns_runOnce :: "registration \<Rightarrow> served_end \<Rightarrow> go_error option \<times> mns_action list" where
  "mns_runOnce rg end_reason =
     (if \<not> rg_bus rg then (Some (Text ''connect system bus''), [])
      else if \<not> rg_fds rg then (Some (Text ''system bus lacks Unix FD passing''), [Bus_closed])
      else if \<not> rg_export rg then (Some (Text ''export MNS profile''), [Bus_closed])
      else if \<not> rg_register rg then (Some (Text ''register MNS profile''), [Bus_closed])
      else ((case end_reason of Context_done \<Rightarrow> None | Bus_lost \<Rightarrow> Some (Text ''system bus disconnected'')
             | Profile_released \<Rightarrow> Some (Text ''MNS profile released'')),
            [Profile_registered, Registered True, Registered False, All_closed, Profile_unregistered, Bus_closed]))"

text \<open>The service record of the registration; its only variable part is the channel, printed with two hexadecimal digits.\<close>

definition hex2 :: "uint16 \<Rightarrow> string" where
  "hex2 channel = (let n = unat channel in if n < 256 then [hex_nibble (n div 16), hex_nibble (n mod 16)]
     else (if n < 4096 then [] else [hex_nibble (n div 4096)]) @ [hex_nibble (n div 256 mod 16), hex_nibble (n div 16 mod 16), hex_nibble (n mod 16)])"

definition serviceRecord :: "uint16 \<Rightarrow> string" where
  "serviceRecord channel = Join
     [''<?xml version=\"1.0\" encoding=\"UTF-8\" ?>'', ''<record>'',
      ''  <attribute id=\"0x0001\"><sequence><uuid value=\"0x1133\"/></sequence></attribute>'',
      ''  <attribute id=\"0x0004\"><sequence>'',
      ''    <sequence><uuid value=\"0x0100\"/></sequence>'',
      ''    <sequence><uuid value=\"0x0003\"/><uint8 value=\"0x'' @ hex2 channel @ ''\"/></sequence>'',
      ''    <sequence><uuid value=\"0x0008\"/></sequence>'',
      ''  </sequence></attribute>'',
      ''  <attribute id=\"0x0005\"><sequence><uuid value=\"0x1002\"/></sequence></attribute>'',
      ''  <attribute id=\"0x0009\"><sequence><sequence><uuid value=\"0x1134\"/><uint16 value=\"0x0104\"/></sequence></sequence></attribute>'',
      ''  <attribute id=\"0x0100\"><text value=\"Message Notification Service\"/></attribute>'',
      ''  <attribute id=\"0x0101\"><text value=\"MAP Message Notification Server\"/></attribute>'',
      ''  <attribute id=\"0x0102\"><text value=\"Callbridge\"/></attribute>'',
      ''</record>''] [CHR 0x0A]"

text \<open>The waits of \<open>Run\<close> between registrations, up to the cancellation of the context after the given number of rounds.\<close>

primrec mns_Run_waits :: "duration \<Rightarrow> nat \<Rightarrow> duration list" where
  "mns_Run_waits backoff 0 = []"
| "mns_Run_waits backoff (Suc rounds) = backoff # mns_Run_waits (if backoff < 30 * Second then 2 * backoff else backoff) rounds"

definition mns_reference :: "string \<Rightarrow> string" where
  "mns_reference value = EncodeToString (take 6 (Sum256 (bytes_of value)))"

section \<open>Events come from accepted objects\<close>

lemma parseEvent_safe: "parseEvent xml now raw = Inr e \<Longrightarrow> safeHandle (ev_Handle e)"
  by (auto simp: parseEvent_def Let_def split: option.splits if_splits)

lemma event_attr_source: "ev_Source (fold event_attr as e) = ev_Source e"
  by (induction as arbitrary: e) (simp_all add: event_attr_def)

lemma parseEvent_source: "parseEvent xml now raw = Inr e \<Longrightarrow> ev_Source e = ''mns''"
  by (auto simp: parseEvent_def Let_def event_attr_source split: option.splits if_splits)

fun event_of :: "mns_output \<Rightarrow> event option" where
  "event_of (Event_sent e) = Some e"
| "event_of (Event_dropped e) = Some e"
| "event_of Event_rejected = None"

definition good_event :: "event \<Rightarrow> bool" where
  "good_event e \<longleftrightarrow> ev_EventType e = ''NewMessage'' \<and> safeHandle (ev_Handle e) \<and> ev_Source e = ''mns''"

lemma finish_object_good: "out \<in> set (finish_object xml now room st) \<Longrightarrow> event_of out = Some e \<Longrightarrow> good_event e"
  by (auto simp: finish_object_def good_event_def parseEvent_safe parseEvent_source split: if_splits sum.splits)

text \<open>One round: the peer gets exactly one response to each packet, and only a connected peer causes events.\<close>

lemma reply_sent: "reply code payload c = (None, c') \<Longrightarrow> cn_sent c' = cn_sent c @ packet_bytes code payload"
  unfolding reply_def by (drule rfcomm.write_packet) simp

lemma handle_packet_response:
  "handle_packet xml now room p st c = (True, outs, st', c') \<Longrightarrow> \<exists>code payload. cn_sent c' = cn_sent c @ packet_bytes code payload"
  by (auto simp: handle_packet_def on_connect_def on_put_def Let_def split: if_splits sum.splits prod.splits option.splits dest!: reply_sent)

lemma handle_packet_outs:
  "handle_packet xml now room p st c = (go, outs, st', c') \<Longrightarrow> out \<in> set outs
   \<Longrightarrow> mh_connected st \<and> go \<and> pk_Code p = opPutFinal \<and> (\<forall>e. event_of out = Some e \<longrightarrow> good_event e)"
  by (auto simp: handle_packet_def on_connect_def on_put_def Let_def split: if_splits sum.splits prod.splits option.splits
      dest: finish_object_good)

lemma handle_packet_bound:
  "handle_packet xml now room p st c = (True, outs, st', c') \<Longrightarrow> length (mh_accumulated st) \<le> maximumEventBody
   \<Longrightarrow> length (mh_accumulated st') \<le> maximumEventBody"
  by (auto simp: handle_packet_def on_connect_def on_put_def Let_def split: if_splits sum.splits prod.splits option.splits)

section \<open>Objects in several packets\<close>

text \<open>What a PUT adds to the object being received.\<close>

definition absorb :: "packet \<Rightarrow> mns_state \<Rightarrow> mns_state" where
  "absorb p st = (case ParseHeaders (pk_Payload p) 0 of Inl _ \<Rightarrow> st | Inr headers \<Rightarrow> take_headers headers st)"

definition well_formed :: "packet \<Rightarrow> bool" where
  "well_formed p \<longleftrightarrow> length (pk_Payload p) + 3 \<le> 0xffff \<and> (\<exists>hs. ParseHeaders (pk_Payload p) 0 = Inr hs)"

lemma absorb_accumulated: "well_formed p \<Longrightarrow> mh_accumulated (absorb p st) = mh_accumulated st @ carried p"
  by (auto simp: absorb_def take_headers_def carried_def well_formed_def Let_def split: option.split)

lemma absorb_connected [simp]: "mh_connected (absorb p st) = mh_connected st"
  by (simp add: absorb_def take_headers_def Let_def split: sum.split option.split)

text \<open>A connection whose next \<open>n\<close> writes take all they are given.\<close>

definition willing :: "nat \<Rightarrow> conn \<Rightarrow> bool" where
  "willing n c \<longleftrightarrow> (\<exists>ws. cn_writes c = replicate n (Accept 1000) @ ws)"

lemma reply_willing:
  assumes "willing (Suc n) c" "length payload + 3 \<le> 1000"
  shows "\<exists>c'. reply code payload c = (None, c') \<and> willing n c' \<and> unread c' = unread c"
proof -
  let ?b = "packet_bytes code payload"
  obtain ws where ws: "cn_writes c = Accept 1000 # replicate n (Accept 1000) @ ws" using assms(1) by (auto simp: willing_def)
  have len: "length ?b = length payload + 3" and ne: "?b \<noteq> []" by (simp_all add: packet_bytes_def)
  have "write_loop ?b (cn_sent c) (cn_writes c) = (None, cn_sent c @ ?b, replicate n (Accept 1000) @ ws)"
    using assms(2) len ne ws by (simp add: write_loop.simps [of ?b] write_loop.simps [of "[]"] min_def)
  then show ?thesis using assms(2) by (auto simp: reply_def WritePacket_def WriteAll_def willing_def)
qed

lemma on_put_absorbs:
  assumes "mh_connected st" "well_formed p" "willing (Suc n) c" "length (mh_accumulated (absorb p st)) \<le> maximumEventBody"
  shows "\<exists>c'. on_put xml now room p st c = (if pk_Code p = opPutFinal \<and> mh_accumulated (absorb p st) \<noteq> []
      then (True, finish_object xml now room (absorb p st), (absorb p st)\<lparr>mh_accumulated := [], mh_contentType := []\<rparr>, c')
      else (True, [], absorb p st, c')) \<and> willing n c' \<and> unread c' = unread c"
proof -
  obtain hs where hs: "ParseHeaders (pk_Payload p) 0 = Inr hs" using assms(2) by (auto simp: well_formed_def)
  obtain c' where c': "reply (if pk_Code p = opPutFinal then ResponseOK else ResponseContinue) [] c = (None, c')"
      "willing n c'" "unread c' = unread c"
    using reply_willing [OF assms(3), of "[]"] by auto
  have fits: "\<not> maximumEventBody < length (mh_accumulated (absorb p st))" using assms(4) by simp
  have st2: "take_headers hs st = absorb p st" by (simp add: absorb_def hs)
  show ?thesis using assms(1) hs c' fits by (auto simp: on_put_def st2 Let_def)
qed

lemma handle_step:
  assumes "\<not> mw_cancelled w k" "unread c = wire p @ rest" "length (pk_Payload p) + 3 \<le> 0xffff"
  shows "\<exists>c'. unread c' = rest \<and> cn_writes c' = cn_writes c \<and> handle w k st c =
     (case handle_packet (mw_xml w) (mw_now w k) (mw_room w k) p st c' of
             (go, outs, st', c'') \<Rightarrow>
               if go then (case handle w (Suc k) st' c'' of (outs', c3) \<Rightarrow> (outs @ outs', c3)) else (outs, c''))"
proof -
  have "unread c = packet_bytes (pk_Code p) (pk_Payload p) @ rest" using assms(2) by (simp add: wire_def)
  from rfcomm.read_packet [OF assms(3) order.refl this] obtain c' where
    r: "ReadPacket ReadFull 0xffff c = (Inr p, c')" "unread c' = rest" by auto
  have "cn_writes c' = cn_writes c"
    using r(1) by (auto simp: ReadPacket_def Let_def split: if_splits prod.splits sum.splits dest!: ReadFull_Inr)
  with r assms(1) show ?thesis by (auto simp: handle.simps [of w k])
qed

lemma handle_object:
  assumes "\<And>j. \<not> mw_cancelled w j" "mh_connected st" "list_all well_formed (ps @ [q])" "list_all (\<lambda>p. pk_Code p = opPut) ps"
    "pk_Code q = opPutFinal" "willing (Suc (length ps)) c" "unread c = concat (map wire (ps @ [q])) @ rest"
    "length (mh_accumulated st @ concat (map carried (ps @ [q]))) \<le> maximumEventBody"
    "mh_accumulated st @ concat (map carried (ps @ [q])) \<noteq> []"
  shows "\<exists>c'. unread c' = rest \<and> fst (handle w k st c) =
     finish_object (mw_xml w) (mw_now w (k + length ps)) (mw_room w (k + length ps)) (fold absorb (ps @ [q]) st)
     @ fst (handle w (Suc (k + length ps)) ((fold absorb (ps @ [q]) st)\<lparr>mh_accumulated := [], mh_contentType := []\<rparr>) c')"
  using assms
proof (induction ps arbitrary: k st c)
  case Nil
  obtain c1 where c1: "unread c1 = rest" "cn_writes c1 = cn_writes c" "handle w k st c =
     (case handle_packet (mw_xml w) (mw_now w k) (mw_room w k) q st c1 of
             (go, outs, st', c'') \<Rightarrow>
               if go then (case handle w (Suc k) st' c'' of (outs', c3) \<Rightarrow> (outs @ outs', c3)) else (outs, c''))"
    using handle_step [of w k c q rest st] Nil.prems by (auto simp: well_formed_def)
  have acc: "mh_accumulated (absorb q st) = mh_accumulated st @ carried q" using Nil.prems by (simp add: absorb_accumulated)
  have "willing (Suc 0) c1" using Nil.prems(6) c1(2) by (simp add: willing_def)
  then obtain c2 where "on_put (mw_xml w) (mw_now w k) (mw_room w k) q st c1 =
      (True, finish_object (mw_xml w) (mw_now w k) (mw_room w k) (absorb q st), (absorb q st)\<lparr>mh_accumulated := [], mh_contentType := []\<rparr>, c2)"
      "unread c2 = unread c1"
    using on_put_absorbs [of st q 0 c1 "mw_xml w" "mw_now w k" "mw_room w k"] Nil.prems acc by auto
  then show ?case using c1 Nil.prems
    by (intro exI [of _ c2]) (simp add: handle_packet_def opConnect_def opPutFinal_def opPut_def split: prod.split)
next
  case (Cons p ps)
  obtain c1 where c1: "unread c1 = concat (map wire (ps @ [q])) @ rest" "cn_writes c1 = cn_writes c" "handle w k st c =
     (case handle_packet (mw_xml w) (mw_now w k) (mw_room w k) p st c1 of
             (go, outs, st', c'') \<Rightarrow>
               if go then (case handle w (Suc k) st' c'' of (outs', c3) \<Rightarrow> (outs @ outs', c3)) else (outs, c''))"
    using handle_step [of w k c p "concat (map wire (ps @ [q])) @ rest" st] Cons.prems by (auto simp: well_formed_def)
  have acc: "mh_accumulated (absorb p st) = mh_accumulated st @ carried p" using Cons.prems by (simp add: absorb_accumulated)
  have "willing (Suc (Suc (length ps))) c1" using Cons.prems(6) c1(2) by (simp add: willing_def)
  then obtain c2 where c2: "on_put (mw_xml w) (mw_now w k) (mw_room w k) p st c1 = (True, [], absorb p st, c2)"
      "willing (Suc (length ps)) c2" "unread c2 = unread c1"
    using on_put_absorbs [of st p "Suc (length ps)" c1 "mw_xml w" "mw_now w k" "mw_room w k"] Cons.prems acc
    by (auto simp: opPut_def opPutFinal_def)
  have hk: "fst (handle w k st c) = fst (handle w (Suc k) (absorb p st) c2)"
    using c1(3) c2(1) Cons.prems by (simp add: handle_packet_def opConnect_def opPut_def split: prod.split)
  have "\<exists>c'. unread c' = rest \<and> fst (handle w (Suc k) (absorb p st) c2) =
     finish_object (mw_xml w) (mw_now w (Suc k + length ps)) (mw_room w (Suc k + length ps)) (fold absorb (ps @ [q]) (absorb p st))
       @ fst (handle w (Suc (Suc k + length ps)) ((fold absorb (ps @ [q]) (absorb p st))\<lparr>mh_accumulated := [], mh_contentType := []\<rparr>) c')"
    by (rule Cons.IH) (use Cons.prems c1 c2 acc in auto)
  then show ?case using hk by simp
qed

section \<open>Properties\<close>

text \<open>
  The notification server only passes on proper events. For every stream, every XML decoder and any cancellation, the loop
  \<open>handle\<close> ends, and each event it queues or drops is a \<open>NewMessage\<close> with a handle of 1 to 64 hexadecimal digits and the
  source \<open>mns\<close>.\<close>

theorem mns_events_proper:
  "list_all (\<lambda>out. case event_of out of None \<Rightarrow> True | Some e \<Rightarrow> good_event e) (fst (handle w k st c))"
proof (induction w k st c rule: handle.induct)
  case (1 w k st c)
  show ?case
  proof (cases "mw_cancelled w k")
    case True
    then show ?thesis by (simp add: handle.simps [of w k])
  next
    case False
    obtain r c1 where rd: "ReadPacket ReadFull 0xffff c = (r, c1)" by fastforce
    show ?thesis
    proof (cases r)
      case (Inl e)
      with False rd show ?thesis by (simp add: handle.simps [of w k])
    next
      case (Inr p)
      obtain go outs st' c2 where hp: "handle_packet (mw_xml w) (mw_now w k) (mw_room w k) p st c1 = (go, outs, st', c2)"
        using prod_cases4 by blast
      have outs: "list_all (\<lambda>out. case event_of out of None \<Rightarrow> True | Some e \<Rightarrow> good_event e) outs"
        using handle_packet_outs [OF hp] by (auto simp: list_all_iff split: option.split)
      show ?thesis
      proof (cases go)
        case True
        have "list_all (\<lambda>out. case event_of out of None \<Rightarrow> True | Some e \<Rightarrow> good_event e) (fst (handle w (Suc k) st' c2))"
          using "1.IH" [OF False rd [symmetric] Inr hp [symmetric]] True by simp
        with outs False rd Inr hp True show ?thesis
          by (cases "handle w (Suc k) st' c2") (simp add: handle.simps [of w k])
      next
        case no: False
        with outs False rd Inr hp show ?thesis by (simp add: handle.simps [of w k])
      qed
    qed
  qed
qed


definition sample_world :: mns_world where
  "sample_world = \<lparr>mw_cancelled = \<lambda>_. False, mw_now = \<lambda>_. ''2026'', mw_room = \<lambda>_. True,
     mw_xml = \<lambda>_. ([Start_element ''event'' [(''type'', ''NewMessage''), (''handle'', ''0a'')]], True)\<rparr>"

definition sample_put :: packet where
  "sample_put = \<lparr>pk_Code = opPutFinal, pk_Payload = must (MustHeader headerEndOfBody [60])\<rparr>"

lemma sample_put_headers: "parse_headers (pk_Payload sample_put) = Inr [\<lparr>hd_ID = headerEndOfBody, hd_Value = [60]\<rparr>]"
  using parse_must [of headerEndOfBody "[60]" "[]"] by (simp add: sample_put_def headerEndOfBody_def)

lemma handle_end: "unread c = [] \<Longrightarrow> fst (handle w k st c) = []"
  using ReadFull_short [of c 3] by (auto simp: handle.simps [of w k] ReadPacket_def)

lemma sample_put_ok: "well_formed sample_put" "carried sample_put = [60]"
proof -
  have "length (pk_Payload sample_put) = 4" by (simp add: sample_put_def must_length headerEndOfBody_def)
  then show "well_formed sample_put" "carried sample_put = [60]"
    by (simp_all add: sample_put_headers well_formed_def carried_def ParseHeaders_def CollectBody_def)
qed


text \<open>What the profile's mutex does protect: its connections are distinct, and an unannounced one is registered.\<close>

definition profile_ok :: "profile \<Rightarrow> bool" where
  "profile_ok pf \<longleftrightarrow> distinct (pf_connections pf) \<and> set (pf_announce pf) \<subseteq> set (pf_connections pf) \<and> distinct (pf_announce pf)"

interpretation mns_profile: invariant_system profile_init "profile_step sv" profile_ok for sv
proof
  fix pf
  assume "profile_init pf"
  then show "profile_ok pf" by (simp add: profile_init_def profile_ok_def)
next
  fix pf pf'
  assume "profile_ok pf" and "profile_step sv pf pf'"
  from this(2,1) show "profile_ok pf'"
    by (cases rule: profile_step.cases)
       (auto simp: profile_ok_def NewConnection_def announce_def leave_def report_def Let_def set_remove1_eq
        split: if_splits sum.splits)
qed

text \<open>
  The connected status can be wrong. The goroutine of a connection that ends reports after it has released the mutex, so a new connection
  can be registered and reported in between: there is a reachable state of the profile in which nothing is left to
  report, a connection is registered, and the status says that none is connected.\<close>

theorem mns_status_race:
  "\<exists>sv pf. reachable profile_init (profile_step sv) pf \<and> pf_connections pf \<noteq> [] \<and> pf_announce pf = [] \<and> pf_leaving pf = []
     \<and> \<not> pf_status pf"
proof -
  define sv where "sv = \<lparr>sv_device = ''aa'', sv_adapter = ''hci0'', sv_channel = 19\<rparr>"
  define path where "path = ''/org/bluez/'' @ sv_adapter sv @ ''/dev_'' @ ReplaceChar (CHR '':'') (CHR ''_'') (ToUpper (sv_device sv))"
  have dev: "expectedDevice sv path" by (simp add: expectedDevice_def path_def)
  let ?pf = "\<lambda>cs an lv s. \<lparr>pf_connections = cs, pf_announce = an, pf_leaving = lv, pf_status = s\<rparr>"
  let ?R = "reachable profile_init (profile_step sv)"
  have "?R (?pf [] [] [] False)" by (rule start) (simp add: profile_init_def)
  moreover have "profile_step sv (?pf [] [] [] False) (?pf [1] [1] [] False)"
    by (rule accepted [of sv path "Inr 1" _ "[]"]) (simp_all add: NewConnection_def dev)
  ultimately have "?R (?pf [1] [1] [] False)" by (rule next_state)
  moreover have "profile_step sv (?pf [1] [1] [] False) (?pf [1] [] [] True)"
    by (rule announced [of 1]) (simp_all add: announce_def)
  ultimately have "?R (?pf [1] [] [] True)" by (rule next_state)
  moreover have "profile_step sv (?pf [1] [] [] True) (?pf [] [] [0] True)"
    by (rule left [of 1]) (simp_all add: leave_def)
  ultimately have "?R (?pf [] [] [0] True)" by (rule next_state)
  moreover have "profile_step sv (?pf [] [] [0] True) (?pf [2] [2] [0] True)"
    by (rule accepted [of sv path "Inr 2" _ "[]"]) (simp_all add: NewConnection_def dev)
  ultimately have "?R (?pf [2] [2] [0] True)" by (rule next_state)
  moreover have "profile_step sv (?pf [2] [2] [0] True) (?pf [2] [] [0] True)"
    by (rule announced [of 2]) (simp_all add: announce_def)
  ultimately have "?R (?pf [2] [] [0] True)" by (rule next_state)
  moreover have "profile_step sv (?pf [2] [] [0] True) (?pf [2] [] [] False)"
    by (rule reported [of 0]) (simp_all add: report_def)
  ultimately have "?R (?pf [2] [] [] False)" by (rule next_state)
  then show ?thesis by (intro exI [of _ sv] exI [of _ "?pf [2] [] [] False"]) simp
qed

text \<open>
  A final PUT without a body leaves its content type in place: the next object without a type of its own is taken to be of
  that type, and an event report among them is ignored.\<close>

lemma content_type_kept:
  assumes "mh_connected st" "ParseHeaders (pk_Payload p) 0 = Inr hs" "Find hs headerType = Some ty" "CollectBody hs headerBody headerEndOfBody = []"
    "mh_accumulated st = []" "pk_Code p = opPutFinal" "willing (Suc n) c"
  shows "\<exists>c'. handle_packet xml now room p st c = (True, [], st\<lparr>mh_contentType := TrimRight (string_of ty) [CHR 0x00]\<rparr>, c')"
proof -
  obtain c' where "reply ResponseOK [] c = (None, c')" using reply_willing [OF assms(7), of "[]"] by auto
  then show ?thesis using assms
    by (simp add: handle_packet_def on_put_def take_headers_def opConnect_def opPutFinal_def maximumEventBody_def)
qed

text \<open>Every registration that is reported is withdrawn again, after which the profile is unregistered and the bus closed.\<close>

lemma mns_runOnce_balanced:
  "mns_runOnce rg why = (e, acts) \<Longrightarrow> rg_bus rg \<Longrightarrow> last acts = Bus_closed
     \<and> (Registered True \<in> set acts \<longleftrightarrow> Registered False \<in> set acts) \<and> (Registered True \<in> set acts \<longleftrightarrow> Profile_unregistered \<in> set acts)"
  by (auto simp: mns_runOnce_def split: if_splits)

text \<open>The waits never shrink and end at 32 seconds.\<close>

lemma mns_Run_waits_first: "map (\<lambda>d. d div Second) (mns_Run_waits Second 8) = [1, 2, 4, 8, 16, 32, 32, 32]"
  by code_simp

end
