(* ===== verification/Message.thy ===== *)
theory Message
  imports Map_Session
begin

text \<open>
  Message contents (\<open>internal/message/message.go\<close> with \<open>Message\<close> and \<open>Attachment\<close> of \<open>internal/model/model.go\<close>): the bMessage format of the
  phone, multimedia messages, the parts of at most 600 bytes in which a text is shown, and telephone numbers.

  Strings are byte sequences as everywhere; splitting works on runes as the code does. A MIME message is the tree \<open>entity\<close>
  that \<open>net/mail\<close>, \<open>mime\<close> and \<open>mime/multipart\<close> make of it, with the parsed header fields the code asks for; the transfer decoders
  and the content sniffer of \<open>net/http\<close> are arguments. Times are given by the fields that are printed.

  The lemmas: parts are short enough and give the text back, a sent message parses to its text, attachments
  stay within their bounds, and normalised numbers have the form the other components ask for.
\<close>

definition MaxSIPPartBytes :: nat where "MaxSIPPartBytes = 600"
definition MaxSIPParts :: nat where "MaxSIPParts = 16"
definition MaxMMSAttachments :: nat where "MaxMMSAttachments = 4"
definition maxMIMEParts :: nat where "maxMIMEParts = 32"
definition maxMMSTextBytes :: nat where "maxMMSTextBytes = 64 * 1024"
definition maxMMSTotalBytes :: nat where "maxMMSTotalBytes = 2 * 2 ^ 20"

record attachment =
  at_ContentType :: string
  at_Filename :: string
  at_Data :: bytes

record sms_message =
  sm_Body :: string
  sm_SenderName :: string
  sm_SenderNumber :: string
  sm_Attachments :: "attachment list"

abbreviation LF :: char where "LF \<equiv> CHR 0x0A"
abbreviation CR :: char where "CR \<equiv> CHR 0x0D"

section \<open>The bMessage format\<close>

definition extractBlock :: "string \<Rightarrow> string \<Rightarrow> string \<Rightarrow> string" where
  "extractBlock text startMarker endMarker =
     (case Index text startMarker of
        None \<Rightarrow> []
      | Some start \<Rightarrow>
          let rest = drop (start + length startMarker) text
          in (case Index rest endMarker of None \<Rightarrow> [] | Some stop \<Rightarrow> take stop rest))"

definition unix_lines :: "string \<Rightarrow> string" where
  "unix_lines s = ReplaceAll (ReplaceAll s [CR, LF] [LF]) [CR] [LF]"

definition vcard_line :: "string \<Rightarrow> string \<times> string \<Rightarrow> string \<times> string" where
  "vcard_line line = (\<lambda>(name, number).
     let name' = (if HasPrefix line ''FN:'' \<and> name = [] then TrimSpace (TrimPrefix line ''FN:'') else name);
         upper = ToUpper line
     in if HasPrefix upper ''TEL:'' \<or> HasPrefix upper ''TEL;''
        then (case IndexByte line (CHR '':'') of
                Some i \<Rightarrow> (name', if number = [] then TrimSpace (drop (Suc i) line) else number)
              | None \<Rightarrow> (name', number))
        else (name', number))"

definition ParseBMessage :: "bytes \<Rightarrow> sms_message" where
  "ParseBMessage raw =
     (let text = unix_lines (string_of raw);
          block = extractBlock text (''BEGIN:MSG'' @ [LF]) ([LF] @ ''END:MSG'');
          body = (if block = [] then TrimSpace text else TrimSpace block);
          vcard = extractBlock text (''BEGIN:VCARD'' @ [LF]) ([LF] @ ''END:VCARD'');
          (name, number) = (if vcard \<noteq> [] then fold vcard_line (Split LF vcard) ([], []) else ([], []))
      in \<lparr>sm_Body = body, sm_SenderName = name, sm_SenderNumber = number, sm_Attachments = []\<rparr>)"

section \<open>Multimedia messages\<close>

definition mmsEnvelopeHeaders :: "string list" where
  "mmsEnvelopeHeaders = [''date'', ''subject'', ''from'', ''to'', ''cc'', ''reply-to'', ''message-id'', ''mime-version'',
     ''content-type'', ''content-transfer-encoding'']"

primrec first_blank :: "string list \<Rightarrow> nat option" where
  "first_blank [] = None"
| "first_blank (l # ls) = (if l = [] then Some 0 else map_option Suc (first_blank ls))"

text \<open>The loop over the lines before the blank one: the header names, or \<open>None\<close> when the message has no envelope.\<close>

primrec envelope_names :: "string list \<Rightarrow> string list \<Rightarrow> bool \<Rightarrow> string list option" where
  "envelope_names [] names haveHeader = Some names"
| "envelope_names (line # ls) names haveHeader =
     (if line \<noteq> [] \<and> IsSpace (of_char (hd line)) \<and> haveHeader then envelope_names ls names haveHeader
      else case Cut line (CHR '':'') of
        None \<Rightarrow> None
      | Some (before, _) \<Rightarrow>
          let name = ToLowerASCII (TrimSpace before)
          in if name \<notin> set mmsEnvelopeHeaders \<and> \<not> HasPrefix name ''x-'' then None
             else envelope_names ls (name # names) True)"

definition StripMMSEnvelope :: "string \<Rightarrow> string \<Rightarrow> string" where
  "StripMMSEnvelope body messageType =
     (if \<not> EqualFoldASCII (TrimSpace messageType) ''MMS'' then body
      else let ls = Split LF (unix_lines body) in
        case first_blank ls of
          None \<Rightarrow> body
        | Some blank \<Rightarrow>
            if blank < 2 \<or> 20 < blank then body
            else case envelope_names (take blank ls) [] False of
              None \<Rightarrow> body
            | Some names \<Rightarrow>
                if length (filter (\<lambda>n. n \<in> set names) [''date'', ''subject'', ''from'', ''to'']) < 2 then body
                else let payload = TrimLeft (Join (drop (Suc blank) ls) [LF]) [LF]
                     in if TrimSpace payload = [] then body else payload)"

text \<open>
  An entity as the packages \<open>net/mail\<close> and \<open>mime/multipart\<close> present it: the media type with its parameters (\<open>None\<close> where
  \<open>mime.ParseMediaType\<close> fails), the transfer encoding, the parameters of the disposition, the bytes its body delivers and whether
  reading them ends in an error, the parts of a multipart body and whether the reader reached its end without an error.
\<close>

datatype entity = Entity
  (en_media: "(string \<times> (string, string) gomap) option")
  (en_encoding: string)
  (en_disposition: "(string, string) gomap option")
  (en_body: "bytes \<times> bool")
  (en_parts: "entity list")
  (en_complete: bool)

record mime_library =
  ml_base64 :: "bytes \<times> bool \<Rightarrow> bytes \<times> bool"
  ml_quoted :: "bytes \<times> bool \<Rightarrow> bytes \<times> bool"
  ml_sniff :: "bytes \<Rightarrow> string"
  ml_mail :: "string \<Rightarrow> (string \<times> entity) option"

datatype mms_error =
    Bound_invalid | Nesting | Part_count | Content_type_invalid | Boundary_invalid | Multipart_invalid | Encoding_unsupported
  | Text_bound | Text_not_utf8 | Image_bound | Image_count | Image_total

record mimeCollector =
  mc_maximum :: nat
  mc_parts :: nat
  mc_total :: nat
  mc_text :: "string list"
  mc_attachments :: "attachment list"

text \<open>What a decoder delivers, and whether it failed; \<open>None\<close> for an encoding that is not supported.\<close>

definition transferDecoded :: "mime_library \<Rightarrow> string \<Rightarrow> bytes \<times> bool \<Rightarrow> (bytes \<times> bool) option" where
  "transferDecoded lib encoding body =
     (let e = ToLowerASCII (TrimSpace encoding)
      in if e \<in> set ['''', ''7bit'', ''8bit'', ''binary''] then Some body
         else if e = ''base64'' then Some (ml_base64 lib body)
         else if e = ''quoted-printable'' then Some (ml_quoted lib body)
         else None)"

definition readBoundedMIME :: "bytes \<times> bool \<Rightarrow> nat \<Rightarrow> bytes option" where
  "readBoundedMIME decoded maximum = (if snd decoded \<or> maximum < length (fst decoded) then None else Some (fst decoded))"

definition isHEIF :: "bytes \<Rightarrow> bool" where
  "isHEIF data \<longleftrightarrow> 12 \<le> length data \<and> string_of (subslice 4 8 data) = ''ftyp''
     \<and> string_of (subslice 8 12 data) \<in> set [''heic'', ''heix'', ''hevc'', ''hevx'', ''heim'', ''heis'', ''mif1'', ''msf1'']"

definition allowedImages :: "string list" where
  "allowedImages = [''image/jpeg'', ''image/png'', ''image/gif'', ''image/webp'', ''image/heic'', ''image/heif'']"

definition supportedImageType :: "mime_library \<Rightarrow> string \<Rightarrow> bytes \<Rightarrow> string option" where
  "supportedImageType lib declared0 data =
     (let sniffed = ToLowerASCII (TrimSpace (hd (Split (CHR '';'') (ml_sniff lib data))));
          detected = (if sniffed = ''application/octet-stream'' \<and> isHEIF data then ''image/heic'' else sniffed);
          declared1 = ToLowerASCII (TrimSpace declared0);
          declared = (if declared1 = ''image/jpg'' then ''image/jpeg'' else declared1)
      in if detected \<notin> set allowedImages then None
         else if declared \<noteq> [] \<and> declared \<noteq> ''application/octet-stream'' \<and> declared \<noteq> detected
           \<and> \<not> (declared = ''image/heif'' \<and> detected = ''image/heic'') then None
         else Some detected)"

text \<open>\<open>filepath.Base\<close> on a Unix system.\<close>

definition filepath_Base :: "string \<Rightarrow> string" where
  "filepath_Base path =
     (if path = [] then ''.''
      else let p = TrimRight path ''/'' in if p = [] then ''/'' else last (Split (CHR ''/'') p))"

definition safeFilename :: "string \<Rightarrow> string" where
  "safeFilename value0 =
     (let value = TrimSpace (filepath_Base value0)
      in if value = ''.'' \<or> value = [] \<or> 120 < length value \<or> ContainsAny value [CHR 0x00, CR, LF] then [] else value)"

definition param :: "(string, string) gomap \<Rightarrow> string \<Rightarrow> string" where
  "param ps name = (case go_get ps name of Some v \<Rightarrow> v | None \<Rightarrow> [])"

text \<open>The end of \<open>walk\<close>: an image, and any part that is not a multipart.\<close>

definition walk_image :: "mime_library \<Rightarrow> string \<Rightarrow> (string, string) gomap \<Rightarrow> (string, string) gomap option \<Rightarrow> bytes \<times> bool
    \<Rightarrow> mimeCollector \<Rightarrow> mms_error + mimeCollector" where
  "walk_image lib mediaType params disposition decoded c =
     (case readBoundedMIME decoded (mc_maximum c) of
        None \<Rightarrow> Inl Image_bound
      | Some data \<Rightarrow>
          if data = [] then Inr c
          else (case supportedImageType lib mediaType data of
                  None \<Rightarrow> Inr c
                | Some detected \<Rightarrow>
                    if MaxMMSAttachments \<le> length (mc_attachments c) then Inl Image_count
                    else let sum = mc_total c + length data in
                      if maxMMSTotalBytes < sum then Inl Image_total
                      else let filename0 = safeFilename (param params ''name'');
                               filename = (case disposition of
                                  None \<Rightarrow> filename0
                                | Some dps \<Rightarrow> let v = safeFilename (param dps ''filename'') in if v \<noteq> [] then v else filename0)
                           in Inr (c\<lparr>mc_total := sum,
                                mc_attachments := mc_attachments c @ [\<lparr>at_ContentType = detected, at_Filename = filename, at_Data = data\<rparr>]\<rparr>)))"

definition walk_leaf :: "mime_library \<Rightarrow> string \<Rightarrow> (string, string) gomap \<Rightarrow> string \<Rightarrow> (string, string) gomap option \<Rightarrow> bytes \<times> bool
    \<Rightarrow> mimeCollector \<Rightarrow> mms_error + mimeCollector" where
  "walk_leaf lib mediaType params encoding disposition body c =
     (case transferDecoded lib encoding body of
        None \<Rightarrow> Inl Encoding_unsupported
      | Some decoded \<Rightarrow>
          if mediaType = ''text/plain'' then
            (case readBoundedMIME decoded maxMMSTextBytes of
               None \<Rightarrow> Inl Text_bound
             | Some data \<Rightarrow>
                 if \<not> ValidString (string_of data) then Inl Text_not_utf8
                 else let value = TrimSpace (string_of data)
                      in Inr (if value \<noteq> [] then c\<lparr>mc_text := mc_text c @ [value]\<rparr> else c))
          else if \<not> HasPrefix mediaType ''image/'' \<and> mediaType \<noteq> ''application/octet-stream'' then Inr c
          else walk_image lib mediaType params disposition decoded c)"

fun walk :: "mime_library \<Rightarrow> nat \<Rightarrow> entity \<Rightarrow> mimeCollector \<Rightarrow> mms_error + mimeCollector"
and walk_parts :: "mime_library \<Rightarrow> nat \<Rightarrow> entity list \<Rightarrow> mimeCollector \<Rightarrow> mms_error + mimeCollector" where
  "walk lib depth (Entity media encoding disposition body parts complete) c0 =
     (if 5 < depth then Inl Nesting
      else let c = c0\<lparr>mc_parts := Suc (mc_parts c0)\<rparr> in
        if maxMIMEParts < mc_parts c then Inl Part_count
        else case media of
          None \<Rightarrow> Inl Content_type_invalid
        | Some (mediaType0, params) \<Rightarrow>
            let mediaType = ToLowerASCII mediaType0 in
            if HasPrefix mediaType ''multipart/'' then
              let boundary = param params ''boundary'' in
              if boundary = [] \<or> 200 < length boundary then Inl Boundary_invalid
              else bindE (walk_parts lib (Suc depth) parts c) (\<lambda>c'. if complete then Inr c' else Inl Multipart_invalid)
            else walk_leaf lib mediaType params encoding disposition body c)"
| "walk_parts lib depth [] c = Inr c"
| "walk_parts lib depth (p # ps) c = bindE (walk lib depth p c) (\<lambda>c'. walk_parts lib depth ps c')"

definition ParseMMS :: "mime_library \<Rightarrow> sms_message \<Rightarrow> int \<Rightarrow> mms_error + sms_message" where
  "ParseMMS lib parsed maximumAttachmentBytes =
     (if maximumAttachmentBytes < 1 \<or> int maxMMSTotalBytes < maximumAttachmentBytes then Inl Bound_invalid
      else let body = TrimSpace (sm_Body parsed) in
        if body = [] then Inr parsed
        else let stripped = parsed\<lparr>sm_Body := StripMMSEnvelope (sm_Body parsed) ''MMS''\<rparr> in
          case ml_mail lib body of
            None \<Rightarrow> Inr stripped
          | Some (contentType, e) \<Rightarrow>
              if TrimSpace contentType = [] then Inr stripped
              else bindE (walk lib 0 e \<lparr>mc_maximum = nat maximumAttachmentBytes, mc_parts = 0, mc_total = 0, mc_text = [], mc_attachments = []\<rparr>)
                (\<lambda>c. Inr (parsed\<lparr>sm_Body := TrimSpace (Join (mc_text c) [LF]), sm_Attachments := mc_attachments c\<rparr>)))"

section \<open>Text in parts\<close>

text \<open>The inner loop of \<open>SplitUTF8\<close>: how many runes fit, and the position after the last white space among them.\<close>

fun scan_runes :: "nat \<Rightarrow> nat \<Rightarrow> nat \<Rightarrow> nat option \<Rightarrow> rune list \<Rightarrow> nat \<times> nat option" where
  "scan_runes maximum used stop boundary [] = (stop, boundary)"
| "scan_runes maximum used stop boundary (r # rs) =
     (if maximum < used + RuneLen r then (stop, boundary)
      else scan_runes maximum (used + RuneLen r) (Suc stop) (if IsSpace r then Some (Suc stop) else boundary) rs)"

definition part_length :: "nat \<Rightarrow> rune list \<Rightarrow> nat" where
  "part_length maximum rs =
     (let (stop, boundary) = scan_runes maximum 0 0 None rs;
          stop' = (case boundary of Some b \<Rightarrow> if stop < length rs \<and> 0 < b then b else stop | None \<Rightarrow> stop)
      in if stop' = 0 then 1 else stop')"

function split_runes :: "nat \<Rightarrow> rune list \<Rightarrow> rune list list" where
  "split_runes maximum rs =
     (if rs = [] then [] else take (part_length maximum rs) rs # split_runes maximum (drop (part_length maximum rs) rs))"
  by auto
termination
proof (relation "measure (\<lambda>(_, rs). length rs)")
  fix maximum and rs :: "rune list"
  assume "rs \<noteq> []"
  moreover have "0 < part_length maximum rs" by (simp add: part_length_def Let_def split: prod.split)
  ultimately show "((maximum, drop (part_length maximum rs) rs), maximum, rs) \<in> measure (\<lambda>(_, rs). length rs)" by simp
qed simp

declare split_runes.simps [simp del]

definition SplitUTF8 :: "string \<Rightarrow> int \<Rightarrow> string list" where
  "SplitUTF8 text maximum0 =
     (let maximum = nat (max 4 maximum0)
      in if length text \<le> maximum \<or> text = [] then [text]
         else map string_of_runes (split_runes maximum (runes text)))"

text \<open>A point in time in the zone it is printed in.\<close>

record kst_time =
  kt_month :: nat
  kt_day :: nat
  kt_hour :: nat
  kt_minute :: nat

definition two_digits :: "nat \<Rightarrow> string" where
  "two_digits n = [digit_char (n div 10 mod 10), digit_char (n mod 10)]"

definition Format :: "kst_time \<Rightarrow> string" where
  "Format t = two_digits (kt_month t) @ ''/'' @ two_digits (kt_day t) @ '' '' @ two_digits (kt_hour t) @ '':'' @ two_digits (kt_minute t)"

text \<open>The word the code writes after a time, in UTF-8.\<close>

definition received_word :: string where
  "received_word = [CHR 0xEC, CHR 0x88, CHR 0x98, CHR 0xEC, CHR 0x8B, CHR 0xA0]"

text \<open>The loop of \<open>itoa\<close>, which fills its buffer from the end.\<close>

fun itoa_loop :: "nat \<Rightarrow> string \<Rightarrow> string" where
  "itoa_loop value buffer = (if value = 0 then buffer else itoa_loop (value div 10) (digit_char (value mod 10) # buffer))"

declare itoa_loop.simps [simp del]

definition itoa :: "nat \<Rightarrow> string" where
  "itoa value = (if value = 0 then ''0'' else itoa_loop value [])"

definition multipartPrefix :: "kst_time option \<Rightarrow> nat \<Rightarrow> nat \<Rightarrow> string" where
  "multipartPrefix received index count =
     (if 0 < index then ''['' @ itoa (index + 1) @ ''/'' @ itoa count @ '']''
      else case received of
        Some t \<Rightarrow> ''['' @ Format t @ '' '' @ received_word @ '' 1/'' @ itoa count @ '']''
      | None \<Rightarrow> ''[MMS 1/'' @ itoa count @ '']'')"

definition next_chunk :: "kst_time option \<Rightarrow> nat \<Rightarrow> nat \<Rightarrow> string \<Rightarrow> string" where
  "next_chunk received index count remaining =
     hd (SplitUTF8 remaining (int MaxSIPPartBytes - int (length (multipartPrefix received index count @ [LF]))))"

subsection \<open>What splitting guarantees\<close>

lemma ValidString_string_of_runes: "list_all valid_rune rs \<Longrightarrow> ValidString (string_of_runes rs)"
proof (induction rs)
  case (Cons r rs)
  then have v: "valid_rune r" by simp
  have ne: "EncodeRune r @ string_of_runes rs \<noteq> []" using RuneLen_bounds(1) [of r] by (auto simp: RuneLen_def)
  have "(r, RuneLen r) \<noteq> (RuneError, 1)" by (auto simp: RuneLen_def EncodeRune_def encode_units_def RuneError_def)
  with Cons ne show ?case by (simp add: ValidString.simps [of "EncodeRune r @ string_of_runes rs"] DecodeRune_EncodeRune [OF v] RuneLen_def)
qed simp

lemma scan_runes_spec:
  assumes "scan_runes maximum used stop boundary rs = (stop', boundary')" "used \<le> maximum"
  shows "\<exists>k. stop' = stop + k \<and> k \<le> length rs \<and> used + length (string_of_runes (take k rs)) \<le> maximum
    \<and> (boundary' = boundary \<or> (\<exists>b. boundary' = Some b \<and> stop < b \<and> b \<le> stop'))"
  using assms
proof (induction maximum used stop boundary rs rule: scan_runes.induct)
  case (2 maximum used stop boundary r rs)
  show ?case
  proof (cases "maximum < used + RuneLen r")
    case True
    with 2 show ?thesis by (auto intro: exI [of _ 0])
  next
    case False
    from 2(1) [OF False] 2(2) False obtain k where k: "stop' = Suc stop + k" "k \<le> length rs"
      "used + RuneLen r + length (string_of_runes (take k rs)) \<le> maximum"
      "boundary' = (if IsSpace r then Some (Suc stop) else boundary) \<or> (\<exists>b. boundary' = Some b \<and> Suc stop < b \<and> b \<le> stop')"
      by auto
    then show ?thesis by (intro exI [of _ "Suc k"]) (auto simp: RuneLen_def split: if_splits)
  qed
qed auto

lemma length_string_of_runes_take:
  "k \<le> n \<Longrightarrow> length (string_of_runes (take k rs)) \<le> length (string_of_runes (take n rs))"
proof -
  assume "k \<le> n"
  then have "take n rs = take k rs @ take (n - k) (drop k rs)" by (metis take_add le_add_diff_inverse)
  then show ?thesis by simp
qed

lemma part_length_spec:
  assumes "rs \<noteq> []" "4 \<le> maximum"
  shows "1 \<le> part_length maximum rs \<and> part_length maximum rs \<le> length rs
    \<and> length (string_of_runes (take (part_length maximum rs) rs)) \<le> maximum"
proof -
  obtain stop boundary where s: "scan_runes maximum 0 0 None rs = (stop, boundary)" by fastforce
  obtain r rs' where rs: "rs = r # rs'" using assms(1) by (cases rs) auto
  from scan_runes_spec [OF s] have spec: "stop \<le> length rs" "length (string_of_runes (take stop rs)) \<le> maximum"
    "boundary = None \<or> (\<exists>b. boundary = Some b \<and> 0 < b \<and> b \<le> stop)" by auto
  define n where "n = (case boundary of Some b \<Rightarrow> if stop < length rs \<and> 0 < b then b else stop | None \<Rightarrow> stop)"
  have n: "n \<le> stop" using spec(3) by (auto simp: n_def)
  have one: "length (string_of_runes (take 1 rs)) \<le> maximum" using assms(2) RuneLen_bounds(2) [of r] by (simp add: rs RuneLen_def)
  have "part_length maximum rs = (if n = 0 then 1 else n)" by (simp add: part_length_def s n_def)
  with n spec(1) length_string_of_runes_take [OF n, of rs] spec(2) one rs show ?thesis by auto
qed

lemma split_runes_concat: "concat (split_runes maximum rs) = rs"
  by (induction maximum rs rule: split_runes.induct) (subst split_runes.simps, simp)

lemma split_runes_parts:
  "4 \<le> maximum \<Longrightarrow> p \<in> set (split_runes maximum rs) \<Longrightarrow> p \<noteq> [] \<and> length (string_of_runes p) \<le> maximum"
proof (induction maximum rs rule: split_runes.induct)
  case (1 maximum rs)
  show ?case
  proof (cases "rs = []")
    case True
    with 1 show ?thesis by (simp add: split_runes.simps)
  next
    case False
    with "1.prems"(2) have "p = take (part_length maximum rs) rs \<or> p \<in> set (split_runes maximum (drop (part_length maximum rs) rs))"
      by (subst (asm) split_runes.simps) simp
    with "1.IH" [OF False] "1.prems"(1) part_length_spec [OF False "1.prems"(1)] False show ?thesis by (auto simp: Suc_le_eq)
  qed
qed

lemma string_of_runes_concat: "concat (map string_of_runes ps) = string_of_runes (concat ps)"
  by (induction ps) simp_all

text \<open>
  \<open>SplitUTF8\<close> cuts a text between characters: no part is longer than the limit (or than four bytes, the longest character),
  no part is empty unless the text is, the parts of a UTF-8 text are UTF-8, and joined they give the text back.\<close>

theorem SplitUTF8_parts:
  assumes "ValidString text"
  shows "concat (SplitUTF8 text maximum) = text
    \<and> list_all (\<lambda>p. int (length p) \<le> max 4 maximum \<and> ValidString p \<and> (p = [] \<longrightarrow> text = [])) (SplitUTF8 text maximum)"
proof (cases "length text \<le> nat (max 4 maximum) \<or> text = []")
  case True
  with assms have "SplitUTF8 text maximum = [text]" by (simp add: SplitUTF8_def)
  with True assms show ?thesis by auto
next
  case False
  define m where "m = nat (max 4 maximum)"
  define ps where "ps = split_runes m (runes text)"
  have m: "4 \<le> m" "int m = max 4 maximum" by (auto simp: m_def)
  have S: "SplitUTF8 text maximum = map string_of_runes ps" using False by (simp add: SplitUTF8_def ps_def m_def Let_def)
  have c: "concat ps = runes text" by (simp add: ps_def split_runes_concat)
  have "concat (SplitUTF8 text maximum) = text" using assms by (simp add: S string_of_runes_concat c string_of_runes_runes)
  moreover have "int (length (string_of_runes p)) \<le> max 4 maximum \<and> ValidString (string_of_runes p) \<and> string_of_runes p \<noteq> []" if "p \<in> set ps" for p
  proof -
    have p: "p \<noteq> []" "length (string_of_runes p) \<le> m" using split_runes_parts [OF m(1)] that by (auto simp: ps_def)
    have "list_all valid_rune p" using runes_valid [of "text"] that by (auto simp: c [symmetric] list_all_iff)
    moreover have "string_of_runes p \<noteq> []" using p(1) RuneLen_bounds(1) [of "hd p"] by (cases p) (auto simp: RuneLen_def)
    ultimately show ?thesis using p(2) m(2) by (simp add: ValidString_string_of_runes)
  qed
  ultimately show ?thesis by (auto simp: S list_all_iff)
qed

text \<open>The first part, on which the numbered parts are built, for any text.\<close>

lemma first_part_runes:
  assumes "nat (max 4 maximum) < length text"
  defines "n \<equiv> part_length (nat (max 4 maximum)) (runes text)"
  shows "hd (SplitUTF8 text maximum) = string_of_runes (take n (runes text)) \<and> 1 \<le> n \<and> n \<le> length (runes text)
    \<and> int (length (string_of_runes (take n (runes text)))) \<le> max 4 maximum"
proof -
  have ne: "text \<noteq> []" "\<not> length text \<le> nat (max 4 maximum)" using assms(1) by auto
  then have "SplitUTF8 text maximum = map string_of_runes (split_runes (nat (max 4 maximum)) (runes text))"
    by (simp add: SplitUTF8_def Let_def)
  then have "hd (SplitUTF8 text maximum) = string_of_runes (take n (runes text))"
    using ne(1) by (simp add: split_runes.simps [of _ "runes text"] n_def)
  moreover have "1 \<le> n \<and> n \<le> length (runes text) \<and> length (string_of_runes (take n (runes text))) \<le> nat (max 4 maximum)"
    using part_length_spec [of "runes text" "nat (max 4 maximum)"] ne(1) by (simp add: n_def)
  ultimately show ?thesis by (auto simp: nat_le_iff)
qed

lemma first_part_bounds:
  assumes "text \<noteq> []"
  shows "1 \<le> length (hd (SplitUTF8 text maximum)) \<and> length (hd (SplitUTF8 text maximum)) \<le> length text
    \<and> int (length (hd (SplitUTF8 text maximum))) \<le> max 4 maximum"
proof (cases "length text \<le> nat (max 4 maximum)")
  case True
  then have "SplitUTF8 text maximum = [text]" by (simp add: SplitUTF8_def)
  with True assms show ?thesis by (auto simp: Suc_le_eq)
next
  case False
  then have l: "nat (max 4 maximum) < length text" by simp
  define n where "n = part_length (nat (max 4 maximum)) (runes text)"
  note f = first_part_runes [OF l, folded n_def]
  obtain r rs where "runes text = r # rs" using assms runes_eq_Nil [of "text"] by (cases "runes text") auto
  then have "1 \<le> length (string_of_runes (take n (runes text)))" using f RuneLen_bounds(1) [of r] by (cases n) (auto simp: RuneLen_def)
  with f l show ?thesis by auto
qed

lemma first_part_valid:
  assumes "ValidString text" "text \<noteq> []"
  shows "\<exists>rest. text = hd (SplitUTF8 text maximum) @ rest \<and> ValidString rest"
proof (cases "length text \<le> nat (max 4 maximum)")
  case True
  then have "SplitUTF8 text maximum = [text]" by (simp add: SplitUTF8_def)
  then show ?thesis by simp
next
  case False
  then have l: "nat (max 4 maximum) < length text" by simp
  define n where "n = part_length (nat (max 4 maximum)) (runes text)"
  have "text = string_of_runes (take n (runes text) @ drop n (runes text))" using assms(1) by (simp add: string_of_runes_runes)
  then have "text = hd (SplitUTF8 text maximum) @ string_of_runes (drop n (runes text))"
    using first_part_runes [OF l, folded n_def] by (simp only: string_of_runes_simps)
  moreover have "list_all valid_rune (drop n (runes text))" using runes_valid [of "text"] by (meson in_set_dropD list_all_iff)
  ultimately show ?thesis using ValidString_string_of_runes by blast
qed

subsection \<open>Numbered parts\<close>

function splitWithPrefixes :: "kst_time option \<Rightarrow> nat \<Rightarrow> nat \<Rightarrow> string \<Rightarrow> string list" where
  "splitWithPrefixes received count index remaining =
     (if remaining = [] then []
      else let chunk = next_chunk received index count remaining
           in chunk # splitWithPrefixes received count (Suc index) (drop (length chunk) remaining))"
  by auto
termination
  by (relation "measure (\<lambda>(_, _, _, remaining). length remaining)")
     (use first_part_bounds in \<open>auto simp: next_chunk_def Suc_le_eq\<close>)

declare splitWithPrefixes.simps [simp del]

definition number_parts :: "kst_time option \<Rightarrow> string list \<Rightarrow> string list" where
  "number_parts received pieces =
     map (\<lambda>(index, chunk). multipartPrefix received index (length pieces) @ [LF] @ chunk) (enumerate 0 pieces)"

text \<open>The attempts at a total that agrees with the number of parts it gives, and the fallback.\<close>

primrec attempt_parts :: "nat \<Rightarrow> kst_time option \<Rightarrow> nat \<Rightarrow> string \<Rightarrow> string list" where
  "attempt_parts 0 received count body = number_parts received (SplitUTF8 body (int MaxSIPPartBytes - 64))"
| "attempt_parts (Suc attempts) received count body =
     (let pieces = splitWithPrefixes received count 0 body
      in if length pieces = count then number_parts received pieces
         else attempt_parts attempts received (length pieces) body)"

definition isLeap :: "nat \<Rightarrow> bool" where
  "isLeap y \<longleftrightarrow> y mod 4 = 0 \<and> (y mod 100 \<noteq> 0 \<or> y mod 400 = 0)"

definition daysIn :: "nat \<Rightarrow> nat \<Rightarrow> nat" where
  "daysIn m y = (if m = 2 then (if isLeap y then 29 else 28) else if m \<in> {4, 6, 9, 11} then 30 else 31)"

text \<open>\<open>time.ParseInLocation\<close> with the layout of MAP, on 15 bytes.\<close>

definition parse_stamp :: "string \<Rightarrow> kst_time option" where
  "parse_stamp s =
     (let mo = decimal (subslice 4 6 s); d = decimal (subslice 6 8 s); h = decimal (subslice 9 11 s); mi = decimal (subslice 11 13 s)
      in if length s = 15 \<and> list_all is_digit (take 8 s) \<and> s ! 8 = CHR ''T'' \<and> list_all is_digit (drop 9 s)
            \<and> 1 \<le> mo \<and> mo \<le> 12 \<and> 1 \<le> d \<and> d \<le> daysIn mo (decimal (take 4 s)) \<and> h < 24 \<and> mi < 60 \<and> decimal (drop 13 s) < 60
         then Some \<lparr>kt_month = mo, kt_day = d, kt_hour = h, kt_minute = mi\<rparr> else None)"

text \<open>\<open>time.Parse\<close> for RFC 3339 followed by the change of zone is the argument \<open>rfc3339\<close>.\<close>

definition ReceivedTime :: "(string \<Rightarrow> kst_time option) \<Rightarrow> string \<Rightarrow> kst_time option" where
  "ReceivedTime rfc3339 raw0 =
     (let raw = TrimSpace raw0
      in case (if 15 \<le> length raw then parse_stamp (take 15 raw) else None) of
           Some t \<Rightarrow> Some t
         | None \<Rightarrow> rfc3339 raw)"

definition single_prefix :: "kst_time option \<Rightarrow> string" where
  "single_prefix received = (case received of Some t \<Rightarrow> ''['' @ Format t @ '' '' @ received_word @ '']'' @ [LF] | None \<Rightarrow> [])"

definition VisibleParts :: "(string \<Rightarrow> kst_time option) \<Rightarrow> string \<Rightarrow> string \<Rightarrow> string list" where
  "VisibleParts rfc3339 body mapDateTime =
     (let received = ReceivedTime rfc3339 mapDateTime;
          singlePrefix = single_prefix received
      in if length (singlePrefix @ body) \<le> MaxSIPPartBytes then [singlePrefix @ body]
         else attempt_parts 8 received 2 body)"

lemma itoa_loop_Itoa: "0 < n \<Longrightarrow> itoa_loop n buffer = Itoa n @ buffer"
proof (induction n arbitrary: buffer rule: Itoa.induct)
  case (1 n)
  show ?case
  proof (cases "n < 10")
    case True
    with 1 show ?thesis by (subst itoa_loop.simps) (simp add: itoa_loop.simps [of 0] Itoa.simps [of n])
  next
    case False
    then have "0 < n div 10" by simp
    with False 1 show ?thesis by (subst itoa_loop.simps) (simp add: Itoa.simps [of n])
  qed
qed

lemma itoa_Itoa [simp]: "itoa n = Itoa n"
proof (cases "n = 0")
  case True
  have "itoa 0 = Itoa 0" by code_simp
  with True show ?thesis by simp
qed (simp add: itoa_def itoa_loop_Itoa)

lemma length_multipartPrefix:
  assumes "Suc index < 10 ^ 19" "count < 10 ^ 19"
  shows "length (multipartPrefix received index count) \<le> 42"
proof -
  have "length (Itoa (Suc index)) \<le> 19" "length (Itoa count) \<le> 19" using assms by (simp_all only: length_Itoa zero_less_numeral)
  then show ?thesis by (auto simp: multipartPrefix_def Format_def two_digits_def received_word_def split: option.split)
qed

lemma splitWithPrefixes_step:
  "remaining \<noteq> [] \<Longrightarrow> splitWithPrefixes received count index remaining
     = next_chunk received index count remaining # splitWithPrefixes received count (Suc index) (drop (length (next_chunk received index count remaining)) remaining)"
  by (simp add: splitWithPrefixes.simps [of _ _ _ remaining] Let_def)

lemma splitWithPrefixes_Nil [simp]: "splitWithPrefixes received count index [] = []"
  by (simp add: splitWithPrefixes.simps)

lemma next_chunk_bounds:
  "remaining \<noteq> [] \<Longrightarrow> 1 \<le> length (next_chunk received index count remaining) \<and> length (next_chunk received index count remaining) \<le> length remaining"
  using first_part_bounds by (auto simp: next_chunk_def)

lemma next_chunk_fits:
  assumes "remaining \<noteq> []" "length (multipartPrefix received index count) \<le> 42"
  shows "length (multipartPrefix received index count @ [LF] @ next_chunk received index count remaining) \<le> MaxSIPPartBytes"
proof -
  have "int (length (next_chunk received index count remaining))
      \<le> max 4 (int MaxSIPPartBytes - int (length (multipartPrefix received index count @ [LF])))"
    using first_part_bounds [OF assms(1)] by (simp add: next_chunk_def)
  with assms(2) show ?thesis by (simp add: MaxSIPPartBytes_def)
qed

lemma splitWithPrefixes_length: "length (splitWithPrefixes received count index remaining) \<le> length remaining"
proof (induction received count index remaining rule: splitWithPrefixes.induct)
  case (1 received count index remaining)
  show ?case
  proof (cases "remaining = []")
    case False
    note b = next_chunk_bounds [OF False, of received index count]
    with 1 [OF False refl] have "Suc (length (splitWithPrefixes received count (Suc index)
        (drop (length (next_chunk received index count remaining)) remaining))) \<le> length remaining"
      by (simp only: length_drop) linarith
    with False show ?thesis by (simp add: splitWithPrefixes_step)
  qed simp
qed

lemma splitWithPrefixes_fits:
  assumes "Suc (index + i) < 10 ^ 19" "count < 10 ^ 19" "i < length (splitWithPrefixes received count index remaining)"
  shows "length (multipartPrefix received (index + i) count @ [LF] @ splitWithPrefixes received count index remaining ! i) \<le> MaxSIPPartBytes"
  using assms
proof (induction received count index remaining arbitrary: i rule: splitWithPrefixes.induct)
  case (1 received count index remaining)
  show ?case
  proof (cases "remaining = []")
    case True
    with "1.prems" show ?thesis by simp
  next
    case False
    define c where "c = next_chunk received index count remaining"
    note s = splitWithPrefixes_step [OF False, of received count index, folded c_def]
    show ?thesis
    proof (cases i)
      case 0
      have "Suc index < 10 ^ 19" using "1.prems"(1) 0 by simp
      with next_chunk_fits [OF False length_multipartPrefix] "1.prems"(2) 0 s show ?thesis by (simp add: c_def)
    next
      case (Suc j)
      have "Suc (Suc index + j) < 10 ^ 19" using "1.prems"(1) Suc by simp
      moreover have "j < length (splitWithPrefixes received count (Suc index) (drop (length c) remaining))" using "1.prems"(3) s Suc by simp
      ultimately show ?thesis using "1.IH" [OF False c_def] "1.prems"(2) s Suc by simp
    qed
  qed
qed

lemma splitWithPrefixes_valid:
  "ValidString remaining \<Longrightarrow> concat (splitWithPrefixes received count index remaining) = remaining"
proof (induction received count index remaining rule: splitWithPrefixes.induct)
  case (1 received count index remaining)
  show ?case
  proof (cases "remaining = []")
    case False
    obtain rest where r: "remaining = next_chunk received index count remaining @ rest" "ValidString rest"
      using first_part_valid [OF "1.prems" False] by (metis next_chunk_def)
    then have d: "drop (length (next_chunk received index count remaining)) remaining = rest" by (metis append_eq_conv_conj)
    have "concat (splitWithPrefixes received count index remaining) = next_chunk received index count remaining @ rest"
      using "1.IH" [OF False refl] r(2) by (simp add: splitWithPrefixes_step [OF False] d)
    with r(1) show ?thesis by simp
  qed simp
qed

lemma number_parts_nth:
  "i < length pieces \<Longrightarrow> number_parts received pieces ! i = multipartPrefix received i (length pieces) @ [LF] @ pieces ! i"
  by (simp add: number_parts_def nth_enumerate_eq)

lemma length_number_parts [simp]: "length (number_parts received pieces) = length pieces"
  by (simp add: number_parts_def)

lemma SplitUTF8_count:
  assumes "ValidString body" "body \<noteq> []"
  shows "length (SplitUTF8 body m) \<le> length body"
proof -
  have all: "list_all (\<lambda>p. p \<noteq> []) (SplitUTF8 body m)" and c: "concat (SplitUTF8 body m) = body"
    using SplitUTF8_parts [OF assms(1), of m] assms(2) by (auto simp: list_all_iff)
  have "length ps \<le> length (concat ps)" if "list_all (\<lambda>p. p \<noteq> []) ps" for ps :: "string list"
    using that
  proof (induction ps)
    case (Cons p ps)
    then have "1 \<le> length p" "length ps \<le> length (concat ps)" by (simp_all add: Suc_le_eq)
    then show ?case by simp
  qed simp
  from this [OF all] c show ?thesis by simp
qed

lemma attempt_parts_spec:
  assumes "ValidString body" "body \<noteq> []" "length body < 2 ^ 63" "count < 2 ^ 63"
  shows "\<exists>pieces. attempt_parts k received count body = number_parts received pieces \<and> concat pieces = body
    \<and> (\<forall>i < length pieces. length (number_parts received pieces ! i) \<le> MaxSIPPartBytes)"
  using assms(4)
proof (induction k arbitrary: count)
  case 0
  define ps where "ps = SplitUTF8 body (int MaxSIPPartBytes - 64)"
  have ps: "concat ps = body" "list_all (\<lambda>p. int (length p) \<le> max 4 (int MaxSIPPartBytes - 64)) ps"
    using SplitUTF8_parts [OF assms(1), of "int MaxSIPPartBytes - 64"] by (auto simp: ps_def list_all_iff)
  have n: "length ps < 10 ^ 19" using SplitUTF8_count [OF assms(1,2), of "int MaxSIPPartBytes - 64"] assms(3) by (simp add: ps_def)
  have "length (number_parts received ps ! i) \<le> MaxSIPPartBytes" if "i < length ps" for i
  proof -
    have "length (ps ! i) \<le> 536" using ps(2) that by (simp add: list_all_length MaxSIPPartBytes_def)
    with length_multipartPrefix [of i "length ps" received] that n show ?thesis by (simp add: number_parts_nth MaxSIPPartBytes_def)
  qed
  with ps(1) show ?case by (auto simp: ps_def)
next
  case (Suc k)
  define ps where "ps = splitWithPrefixes received count 0 body"
  have n: "length ps < 2 ^ 63" using splitWithPrefixes_length [of received count 0 body] assms(3) by (simp add: ps_def)
  show ?case
  proof (cases "length ps = count")
    case True
    have "length (number_parts received ps ! i) \<le> MaxSIPPartBytes" if "i < length ps" for i
      using splitWithPrefixes_fits [of 0 i count received body] n Suc.prems that True by (simp add: number_parts_nth ps_def [symmetric])
    moreover have "concat ps = body" using splitWithPrefixes_valid [OF assms(1)] by (simp add: ps_def)
    moreover have "attempt_parts (Suc k) received count body = number_parts received ps" using True by (simp add: ps_def Let_def)
    ultimately show ?thesis by blast
  next
    case False
    then have "attempt_parts (Suc k) received count body = attempt_parts k received (length ps) body" by (simp add: ps_def Let_def)
    with Suc.IH [OF n] show ?thesis by simp
  qed
qed

text \<open>For any text at all, valid UTF-8 or not, the parts keep to the limit while there are not too many of them.\<close>

lemma attempt_parts_fits:
  assumes "body \<noteq> []" "length (attempt_parts k received count body) \<le> MaxSIPParts" "p \<in> set (attempt_parts k received count body)"
  shows "p \<noteq> [] \<and> length p \<le> MaxSIPPartBytes"
proof -
  have "\<exists>pieces. attempt_parts k received count body = number_parts received pieces
      \<and> (pieces = splitWithPrefixes received (length pieces) 0 body \<or> pieces = SplitUTF8 body (int MaxSIPPartBytes - 64))"
    by (induction k arbitrary: count) (auto simp: Let_def)
  then obtain pieces where a: "attempt_parts k received count body = number_parts received pieces"
    and c: "pieces = splitWithPrefixes received (length pieces) 0 body \<or> pieces = SplitUTF8 body (int MaxSIPPartBytes - 64)" by blast
  obtain i where i: "i < length pieces" "p = multipartPrefix received i (length pieces) @ [LF] @ pieces ! i"
    using assms(3) by (auto simp: a in_set_conv_nth number_parts_nth)
  have n: "length pieces \<le> 16" using assms(2) by (simp add: a MaxSIPParts_def)
  from c have "length p \<le> MaxSIPPartBytes"
  proof
    assume "pieces = splitWithPrefixes received (length pieces) 0 body"
    then show ?thesis using splitWithPrefixes_fits [of 0 i "length pieces" received body] i n by simp
  next
    assume s: "pieces = SplitUTF8 body (int MaxSIPPartBytes - 64)"
    have "length q \<le> 536" if "q \<in> set pieces" for q
      using that split_runes_parts [of 536] by (auto simp: s SplitUTF8_def MaxSIPPartBytes_def split: if_splits)
    then have "length (pieces ! i) \<le> 536" using i(1) by simp
    with length_multipartPrefix [of i "length pieces" received] i n show ?thesis by (simp add: MaxSIPPartBytes_def)
  qed
  then show ?thesis by (simp add: i(2))
qed

lemma VisibleParts_fits:
  assumes "body \<noteq> []" "length (VisibleParts rfc3339 body stamp) \<le> MaxSIPParts" "p \<in> set (VisibleParts rfc3339 body stamp)"
  shows "p \<noteq> [] \<and> length p \<le> MaxSIPPartBytes"
  using assms attempt_parts_fits [OF assms(1), of 8 "ReceivedTime rfc3339 stamp" 2 p]
  by (auto simp: VisibleParts_def Let_def split: if_splits)



lemma runes_undecodable: "runes (replicate k (CHR 0xFF)) = replicate k RuneError"
proof (induction k)
  case (Suc k)
  have "DecodeRune (CHR 0xFF # replicate k (CHR 0xFF)) = (RuneError, 1)"
    by (simp add: DecodeRune_def)
  with Suc show ?case by (simp add: runes_step)
qed simp

lemma scan_runes_replicate:
  "scan_runes maximum used stop boundary (replicate k RuneError)
     = (stop + min k ((maximum - used) div 3), boundary)" if "used \<le> maximum"
  using that
proof (induction k arbitrary: used stop)
  case (Suc k)
  have w: "RuneLen RuneError = 3" "\<not> IsSpace RuneError"
    by (simp_all add: RuneLen_def EncodeRune_def encode_units_def RuneError_def IsSpace_def)
  have "(maximum - used) div 3 = Suc ((maximum - (used + 3)) div 3)" if "used + 3 \<le> maximum"
    using that by presburger
  with Suc w show ?case by (auto simp: not_less)
qed simp

text \<open>
  A text that is not UTF-8 is not shown completely. \<open>SplitUTF8\<close> replaces every undecodable byte by the three bytes of the replacement
  character, and \<open>splitWithPrefixes\<close> then advances in the original by the length of the replaced text: of 700 such bytes
  the first part shows 196 as replacement characters, 392 are skipped and the last 112 make the second part.\<close>

theorem invalid_text_lost:
  "splitWithPrefixes None 2 0 (replicate 700 (CHR 0xFF)) = [string_of_runes (replicate 196 RuneError), replicate 112 (CHR 0xFF)]"
proof -
  have p: "length (multipartPrefix None 0 2) = 9" "length (multipartPrefix None (Suc 0) 2) = 5" by code_simp+
  have pl: "part_length 590 (replicate 700 RuneError) = 196" by (simp add: part_length_def scan_runes_replicate)
  have c: "next_chunk None 0 2 (replicate 700 (CHR 0xFF)) = string_of_runes (replicate 196 RuneError)"
    using first_part_runes [of 590 "replicate 700 (CHR 0xFF)"] by (simp add: next_chunk_def p MaxSIPPartBytes_def runes_undecodable pl)
  have "length (EncodeRune RuneError) = 3" by (simp add: EncodeRune_def encode_units_def RuneError_def)
  then have "length (string_of_runes (replicate k RuneError)) = 3 * k" for k by (induction k) simp_all
  then have l: "length (string_of_runes (replicate 196 RuneError)) = 588" by simp
  have "next_chunk None (Suc 0) 2 (replicate 112 (CHR 0xFF)) = replicate 112 (CHR 0xFF)"
    by (simp add: next_chunk_def p MaxSIPPartBytes_def SplitUTF8_def)
  then show ?thesis by (simp add: splitWithPrefixes_step c l)
qed

section \<open>Telephone numbers\<close>

definition ascii_digit :: "rune \<Rightarrow> bool" where
  "ascii_digit r \<longleftrightarrow> 48 \<le> r \<and> r \<le> 57"

definition NormalizeSender :: "string \<Rightarrow> string" where
  "NormalizeSender value0 =
     (let raw = TrimSpace value0;
          value = string_of_runes (filter ascii_digit (runes raw))
      in if length value < 3 then ''000''
         else if HasPrefix raw ''+'' then ''+'' @ value
         else if HasPrefix value ''010'' then ''+82'' @ drop 1 value
         else if HasPrefix value ''82'' then ''+'' @ value
         else value)"

text \<open>The loop over the runes, told whether it is at the first one; \<open>None\<close> for a character that is not supported.\<close>

primrec dest_runes :: "bool \<Rightarrow> rune list \<Rightarrow> rune list option" where
  "dest_runes first [] = Some []"
| "dest_runes first (r # rs) =
     (if ascii_digit r \<or> r = 43 \<and> first then map_option ((#) r) (dest_runes False rs)
      else if r \<in> {45, 40, 41, 46, 32} then dest_runes False rs
      else None)"

datatype destination_error = Unsupported_characters | Length_invalid

definition NormalizeDestination :: "string \<Rightarrow> destination_error + string" where
  "NormalizeDestination value =
     (case dest_runes True (runes (TrimSpace value)) of
        None \<Rightarrow> Inl Unsupported_characters
      | Some rs \<Rightarrow>
          let normalized = string_of_runes rs;
              digits = TrimPrefix normalized ''+''
          in if length digits < 3 \<or> 20 < length digits then Inl Length_invalid
             else if HasPrefix digits ''010'' \<and> \<not> HasPrefix normalized ''+'' then Inr (''+82'' @ drop 1 digits)
             else Inr normalized)"

lemma EncodeRune_ascii: "r < 128 \<Longrightarrow> EncodeRune r = [char_of r]"
  by (simp add: EncodeRune_def encode_units_def)

lemma string_of_digit_runes:
  "list_all ascii_digit rs \<Longrightarrow> string_of_runes rs = map char_of rs \<and> list_all is_digit (map char_of rs)"
proof (induction rs)
  case (Cons r rs)
  then have r: "48 \<le> r" "r \<le> 57" by (auto simp: ascii_digit_def)
  then have "is_digit (char_of r)" using is_digit_digit_char [of "r - 48"] by (simp add: digit_char_def)
  with Cons r show ?case by (simp add: EncodeRune_ascii)
qed simp

text \<open>
  \<open>NormalizeSender\<close> always gives a number: at least three digits, perhaps after a plus sign.\<close>

definition telephone :: "string \<Rightarrow> bool" where
  "telephone s \<longleftrightarrow> (let ds = TrimPrefix s ''+'' in 3 \<le> length ds \<and> list_all is_digit ds)"

lemma telephone_digits: "list_all is_digit ds \<Longrightarrow> 3 \<le> length ds \<Longrightarrow> telephone ds \<and> telephone (''+'' @ ds)"
  by (cases ds) (auto simp: telephone_def TrimPrefix_def HasPrefix_def is_digit_def)

lemma NormalizeSender_telephone: "telephone (NormalizeSender value)"
proof -
  define v where "v = string_of_runes (filter ascii_digit (runes (TrimSpace value)))"
  have d: "list_all is_digit v" using string_of_digit_runes [of "filter ascii_digit (runes (TrimSpace value))"] by (simp add: v_def list_all_iff)
  have s: "list_all is_digit (''82'' @ drop 1 v)" using d by (auto simp: list_all_iff is_digit_def dest: in_set_dropD)
  have z: "telephone ''000''" by (simp add: telephone_def TrimPrefix_def HasPrefix_def is_digit_def)
  have "telephone v" "telephone (''+'' @ v)" "telephone (''+'' @ ''82'' @ drop 1 v)" if "3 \<le> length v"
    using telephone_digits [OF d that] telephone_digits [OF s] that by auto
  with z show ?thesis by (auto simp: NormalizeSender_def v_def [symmetric] Let_def not_less)
qed

lemma dest_runes_shape:
  "dest_runes first rs = Some ds \<Longrightarrow> list_all ascii_digit ds \<or> first \<and> (\<exists>ds'. ds = 43 # ds' \<and> list_all ascii_digit ds')"
proof (induction rs arbitrary: first ds)
  case (Cons r rs)
  from Cons.prems show ?case
    by (auto split: if_splits dest: Cons.IH simp: ascii_digit_def)
qed simp

lemma NormalizeDestination_cases:
  assumes "NormalizeDestination value = Inr d"
  obtains ds where "list_all is_digit ds" "3 \<le> length ds" "length ds \<le> 20" "d = ''+'' @ ds \<or> d = ds \<and> \<not> HasPrefix ds ''010''
    \<or> HasPrefix ds ''010'' \<and> d = ''+82'' @ drop 1 ds"
proof -
  obtain rs where rs: "dest_runes True (runes (TrimSpace value)) = Some rs"
    using assms by (auto simp: NormalizeDestination_def split: option.splits)
  have plus: "char_of (43 :: nat) = CHR ''+''" by code_simp
  from dest_runes_shape [OF rs] show thesis
  proof (elim disjE conjE exE)
    assume "list_all ascii_digit rs"
    note s = string_of_digit_runes [OF this]
    then have "TrimPrefix (string_of_runes rs) ''+'' = string_of_runes rs" "\<not> HasPrefix (string_of_runes rs) ''+''"
      by (cases rs; auto simp: TrimPrefix_def HasPrefix_def is_digit_def)+
    with assms rs s that [of "string_of_runes rs"] show thesis
      by (auto simp: NormalizeDestination_def Let_def split: if_splits)
  next
    fix ds assume ds: "rs = 43 # ds" "list_all ascii_digit ds"
    have "string_of_runes rs = ''+'' @ string_of_runes ds" by (simp add: ds(1) EncodeRune_ascii plus)
    then have "TrimPrefix (string_of_runes rs) ''+'' = string_of_runes ds" "HasPrefix (string_of_runes rs) ''+''"
      by (simp_all add: TrimPrefix_def HasPrefix_def)
    with assms rs string_of_digit_runes [OF ds(2)] that [of "string_of_runes ds"] \<open>string_of_runes rs = _\<close> show thesis
      by (auto simp: NormalizeDestination_def Let_def split: if_splits)
  qed
qed

lemma dest_runes_digits: "list_all ascii_digit rs \<Longrightarrow> dest_runes b rs = Some rs"
  by (induction rs arbitrary: b) simp_all

lemma NormalizeDestination_digits:
  assumes "list_all is_digit ds" "3 \<le> length ds" "length ds \<le> 20"
  shows "NormalizeDestination (''+'' @ ds) = Inr (''+'' @ ds) \<and> (\<not> HasPrefix ds ''010'' \<longrightarrow> NormalizeDestination ds = Inr ds)"
proof -
  have edge: "TrimSpace s = s" if "s \<noteq> []" "list_all (\<lambda>c. is_digit c \<or> c = CHR ''+'') s" for s
  proof (rule TrimSpace_id)
    have "is_digit (hd s) \<or> hd s = CHR ''+''" "is_digit (last s) \<or> last s = CHR ''+''" using that by (simp_all add: list_all_iff)
    then show "hd s \<noteq> hd e" "last s \<noteq> last e" if "e \<in> set space_encodings" for e
      using that by (auto simp: space_encodings_def is_digit_def)
  qed
  have r: "runes ds = map of_char ds" "runes (''+'' @ ds) = 43 # map of_char ds"
  proof -
    have "list_all is_ascii ds" using assms(1) by (induction ds) (auto simp: is_digit_def is_ascii_def)
    then show "runes ds = map of_char ds" "runes (''+'' @ ds) = 43 # map of_char ds"
      using runes_ascii [of ds] runes_ascii [of "''+'' @ ds"] by (simp_all add: is_ascii_def)
  qed
  have a: "list_all ascii_digit (map of_char ds)" using assms(1) by (auto simp: list_all_iff is_digit_def ascii_digit_def)
  have b: "string_of_runes (map of_char ds) = ds" using string_of_digit_runes [OF a] by (simp add: comp_def)
  have plus: "EncodeRune 43 = ''+''" using EncodeRune_ascii [of 43] by code_simp
  have h: "\<not> HasPrefix ds ''+''" using assms(1) by (cases ds) (auto simp: HasPrefix_def is_digit_def)
  have "TrimSpace ds = ds" "TrimSpace (''+'' @ ds) = ''+'' @ ds" using assms by (auto intro!: edge simp: list_all_iff)
  moreover have "HasPrefix (CHR ''+'' # ds) ''+''" by (simp add: HasPrefix_def)
  ultimately show ?thesis using assms r a b h plus
    by (simp add: NormalizeDestination_def dest_runes_digits TrimPrefix_def Let_def)
qed

text \<open>
  \<open>NormalizeDestination\<close> accepts only what it can dial: its result is a number of three to twenty digits, with one more digit at most
  where the national prefix of a mobile number became the country code, perhaps after a plus sign, and a result of at most
  twenty digits is left as it is when it is normalised again.\<close>

theorem NormalizeDestination_spec:
  assumes "NormalizeDestination value = Inr d"
  shows "telephone d \<and> length (TrimPrefix d ''+'') \<le> 21
    \<and> (length (TrimPrefix d ''+'') \<le> 20 \<longrightarrow> NormalizeDestination d = Inr d)"
proof -
  obtain ds where ds: "list_all is_digit ds" "3 \<le> length ds" "length ds \<le> 20"
    and d: "d = ''+'' @ ds \<or> d = ds \<and> \<not> HasPrefix ds ''010'' \<or> HasPrefix ds ''010'' \<and> d = ''+82'' @ drop 1 ds"
    using NormalizeDestination_cases [OF assms] by metis
  have plain: "TrimPrefix (''+'' @ es) ''+'' = es" for es by (simp add: TrimPrefix_def HasPrefix_def)
  have h: "TrimPrefix ds ''+'' = ds" using ds(1) by (cases ds) (auto simp: TrimPrefix_def HasPrefix_def is_digit_def)
  define es where "es = ''82'' @ drop 1 ds"
  have es: "list_all is_digit es" "3 \<le> length es" "length es \<le> 21"
    using ds by (auto simp: es_def list_all_iff is_digit_def dest: in_set_dropD)
  have "d = ''+'' @ ds \<or> d = ds \<and> \<not> HasPrefix ds ''010'' \<or> d = ''+'' @ es" using d by (auto simp: es_def)
  then show ?thesis
    using telephone_digits [OF ds(1,2)] telephone_digits [OF es(1,2)] NormalizeDestination_digits [OF ds]
      NormalizeDestination_digits [OF es(1,2)] ds(3) es(3) h plain [of ds] plain [of es] by auto
qed

theorem NormalizeDestination_spec_witness:
  "NormalizeDestination ''12345'' = Inr ''12345'' \<and> telephone ''12345''"
proof -
  have d: "list_all is_digit ''12345''" "3 \<le> length ''12345''" "length ''12345'' \<le> 20" by (simp_all add: is_digit_def)
  have "NormalizeDestination ''12345'' = Inr ''12345''" using NormalizeDestination_digits [OF d] by (simp add: HasPrefix_def)
  with NormalizeDestination_spec [OF this] show ?thesis by blast
qed

section \<open>A sent message parses to its text\<close>

lemma ReplaceAll_Nil [simp]: "ReplaceAll [] old new = []"
  by (simp add: ReplaceAll.simps)

lemma ReplaceAll_CR: "ReplaceAll s [CR] [LF] = map (\<lambda>c. if c = CR then LF else c) s"
  by (induction s) (subst ReplaceAll.simps, simp add: HasPrefix_def)+

lemma ReplaceAll_CRLF_plain: "CR \<notin> set a \<Longrightarrow> ReplaceAll (a @ s) [CR, LF] [LF] = a @ ReplaceAll s [CR, LF] [LF]"
  by (induction a) (simp, subst ReplaceAll.simps, auto simp: HasPrefix_def)

lemma unix_lines_plain: "CR \<notin> set a \<Longrightarrow> unix_lines (a @ s) = a @ unix_lines s"
  by (auto simp: unix_lines_def ReplaceAll_CRLF_plain ReplaceAll_CR intro: map_idI)

lemma unix_lines_CRLF: "unix_lines (CRLF @ s) = LF # unix_lines s"
  by (simp add: unix_lines_def CRLF_def ReplaceAll.simps [of "CR # LF # s"] HasPrefix_def ReplaceAll_CR)

lemma unix_lines_Nil [simp]: "unix_lines [] = []"
  by (simp add: unix_lines_def)

lemma unix_lines_line: "CR \<notin> set a \<Longrightarrow> unix_lines (a @ CRLF @ s) = a @ LF # unix_lines s"
  by (rule trans [OF unix_lines_plain]) (assumption, simp only: unix_lines_CRLF)

text \<open>A marker that is a line of its own is not found in a line that does not end with it.\<close>

lemma Index_line:
  assumes "LF \<notin> set l" "LF \<notin> set m" "m \<noteq> []" "take (length m) (rev l) \<noteq> rev m"
  shows "Index (l @ LF # s) (m @ [LF]) = map_option (\<lambda>i. Suc (length l + i)) (Index s (m @ [LF]))"
  using assms(1,4)
proof (induction l)
  case Nil
  have "\<not> HasPrefix (LF # s) (m @ [LF])" using assms(2,3) by (cases m) (auto simp: HasPrefix_iff)
  then show ?case by (simp add: option.map_comp comp_def)
next
  case (Cons c l)
  have "\<not> HasPrefix (c # l @ LF # s) (m @ [LF])"
  proof
    assume "HasPrefix (c # l @ LF # s) (m @ [LF])"
    then obtain r where "(c # l) @ LF # s = m @ LF # r" by (auto simp: HasPrefix_iff)
    then have w: "takeWhile (\<lambda>x. x \<noteq> LF) ((c # l) @ LF # s) = takeWhile (\<lambda>x. x \<noteq> LF) (m @ LF # r)" by (rule arg_cong)
    have k: "takeWhile (\<lambda>x. x \<noteq> LF) (k @ LF # t) = k" if "LF \<notin> set k" for k t using that by (induction k) auto
    have eq: "c # l = m" using w by (simp only: k [OF Cons.prems(1)] k [OF assms(2)])
    show False using Cons.prems(2) by (simp only: eq) simp
  qed
  moreover have "take (length m) (rev l) \<noteq> rev m" using Cons.prems(2) by (auto dest: arg_cong [where f = length])
  ultimately show ?case using Cons by (simp add: option.map_comp comp_def)
qed

lemma extractBlock_line:
  assumes "LF \<notin> set l" "LF \<notin> set m" "m \<noteq> []" "take (length m) (rev l) \<noteq> rev m"
  shows "extractBlock (l @ LF # s) (m @ [LF]) e = extractBlock s (m @ [LF]) e"
  using Index_line [OF assms, of s] by (auto simp: extractBlock_def Let_def split: option.split)

lemma extractBlock_here:
  assumes "Index s e = Some i"
  shows "extractBlock (m @ LF # s) (m @ [LF]) e = take i s"
proof -
  have "Index (m @ LF # s) (m @ [LF]) = Some 0" by (cases m) (simp_all add: HasPrefix_def)
  with assms show ?thesis by (simp add: extractBlock_def)
qed

text \<open>A line that starts with the end marker ends the block, whatever follows; other lines do not.\<close>

lemma HasPrefix_first_line: "LF \<notin> set e \<Longrightarrow> HasPrefix (t @ LF # s) e \<longleftrightarrow> HasPrefix (hd (Split LF t)) e"
proof (induction t arbitrary: e)
  case (Cons c t)
  show ?case
  proof (cases e)
    case (Cons d e')
    obtain p ps where "Split LF t = p # ps" by (cases "Split LF t") auto
    with Cons.IH [of e'] Cons.prems Cons show ?thesis by (auto simp: HasPrefix_def)
  qed (simp add: HasPrefix_def)
next
  case Nil
  then show ?case by (cases e) (auto simp: HasPrefix_def)
qed

lemma Index_end_line:
  assumes "LF \<notin> set e" "list_all (\<lambda>l. \<not> HasPrefix l e) (tl (Split LF t))"
  shows "Index (t @ LF # e @ s) (LF # e) = Some (length t)"
  using assms(2)
proof (induction t)
  case Nil
  show ?case by (simp add: HasPrefix_def)
next
  case (Cons c t)
  obtain p ps where p: "Split LF t = p # ps" by (cases "Split LF t") auto
  have "\<not> HasPrefix (c # t @ LF # e @ s) (LF # e)"
    using Cons.prems HasPrefix_first_line [OF assms(1), of t "e @ s"] p by (auto simp: HasPrefix_def)
  moreover have "list_all (\<lambda>l. \<not> HasPrefix l e) (tl (Split LF t))" using Cons.prems p by (auto split: if_splits)
  ultimately show ?case using Cons.IH by simp
qed

lemma other_ending: "l \<noteq> [] \<Longrightarrow> m \<noteq> [] \<Longrightarrow> last l \<noteq> last m \<Longrightarrow> take (length m) (rev l) \<noteq> rev m"
  by (cases l rule: rev_cases; cases m rule: rev_cases) auto

text \<open>The message as the parser sees it, line by line.\<close>

lemma unix_lines_bmessage:
  assumes "CR \<notin> set d" "CR \<notin> set t"
  obtains n where "unix_lines (MakeSMSBMessage d t) =
    ''BEGIN:BMSG'' @ LF # ''VERSION:1.0'' @ LF # ''STATUS:UNREAD'' @ LF # ''TYPE:SMS_GSM'' @ LF # ''FOLDER:telecom/msg/outbox'' @ LF #
    ''BEGIN:VCARD'' @ LF # ''VERSION:3.0'' @ LF # ''N:'' @ LF # ''TEL:'' @ LF # ''END:VCARD'' @ LF # ''BEGIN:BENV'' @ LF #
    ''BEGIN:VCARD'' @ LF # ''VERSION:3.0'' @ LF # ''N:'' @ LF # (''TEL:'' @ d) @ LF # ''END:VCARD'' @ LF #
    ''BEGIN:BBODY'' @ LF # ''CHARSET:UTF-8'' @ LF # (''LENGTH:'' @ Itoa n) @ LF # ''BEGIN:MSG'' @ LF # t @ LF # ''END:MSG'' @ LF #
    ''END:BBODY'' @ LF # ''END:BENV'' @ LF # ''END:BMSG'' @ [LF]"
proof -
  define n where "n = length (''BEGIN:MSG'' @ CRLF @ t @ CRLF @ ''END:MSG'' @ CRLF)"
  have i: "CR \<notin> set (Itoa n)" using Itoa_digits [of n] by (auto simp: list_all_iff is_digit_def)
  have e: "unix_lines (a @ CRLF) = a @ [LF]" if "CR \<notin> set a" for a using unix_lines_line [OF that, of "[]"] by simp
  have x: "unix_lines (a @ b @ CRLF @ s) = (a @ b) @ LF # unix_lines s" if "CR \<notin> set a" "CR \<notin> set b" for a b s
    using unix_lines_line [of "a @ b" s] that by simp
  show thesis
    by (rule that [of n], unfold MakeSMSBMessage_def Let_def append_assoc n_def [symmetric, simplified append_assoc])
       (simp add: unix_lines_line x e assms i del: append_Cons)
qed

lemma block_of_bmessage:
  assumes "CR \<notin> set d" "LF \<notin> set d" "CHR ''G'' \<notin> set d" "CR \<notin> set t" and il: "i \<le> length t"
    and i: "\<And>s. Index (t @ LF # ''END:MSG'' @ LF # s) (LF # ''END:MSG'') = Some i"
  shows "extractBlock (unix_lines (MakeSMSBMessage d t)) (''BEGIN:MSG'' @ [LF]) ([LF] @ ''END:MSG'') = take i t
    \<and> extractBlock (unix_lines (MakeSMSBMessage d t)) (''BEGIN:VCARD'' @ [LF]) ([LF] @ ''END:VCARD'') = ''VERSION:3.0'' @ [LF] @ ''N:'' @ [LF] @ ''TEL:''"
proof -
  obtain n where u: "unix_lines (MakeSMSBMessage d t) =
    ''BEGIN:BMSG'' @ LF # ''VERSION:1.0'' @ LF # ''STATUS:UNREAD'' @ LF # ''TYPE:SMS_GSM'' @ LF # ''FOLDER:telecom/msg/outbox'' @ LF #
    ''BEGIN:VCARD'' @ LF # ''VERSION:3.0'' @ LF # ''N:'' @ LF # ''TEL:'' @ LF # ''END:VCARD'' @ LF # ''BEGIN:BENV'' @ LF #
    ''BEGIN:VCARD'' @ LF # ''VERSION:3.0'' @ LF # ''N:'' @ LF # (''TEL:'' @ d) @ LF # ''END:VCARD'' @ LF #
    ''BEGIN:BBODY'' @ LF # ''CHARSET:UTF-8'' @ LF # (''LENGTH:'' @ Itoa n) @ LF # ''BEGIN:MSG'' @ LF # t @ LF # ''END:MSG'' @ LF #
    ''END:BBODY'' @ LF # ''END:BENV'' @ LF # ''END:BMSG'' @ [LF]"
    using unix_lines_bmessage [OF assms(1,4)] by metis
  have "\<not> is_digit (CHR ''G'')" "\<not> is_digit LF" by (simp_all add: is_digit_def)
  then have "last (Itoa n) \<noteq> CHR ''G''" "LF \<notin> set (Itoa n)" using Itoa_digits [of n] by (metis Itoa_not_Nil last_in_set list_all_iff)+
  then have a: "extractBlock ((''LENGTH:'' @ Itoa n) @ LF # s) (''BEGIN:MSG'' @ [LF]) e = extractBlock s (''BEGIN:MSG'' @ [LF]) e" for s e
    by (intro extractBlock_line other_ending) simp_all
  have "last (''TEL:'' @ d) \<noteq> CHR ''G''" "LF \<notin> set d" using assms(2,3) by (auto dest: last_in_set)
  then have b: "extractBlock ((''TEL:'' @ d) @ LF # s) (''BEGIN:MSG'' @ [LF]) e = extractBlock s (''BEGIN:MSG'' @ [LF]) e" for s e
    by (intro extractBlock_line other_ending) simp_all
  have j: "Index (''VERSION:3.0'' @ LF # ''N:'' @ LF # ''TEL:'' @ LF # ''END:VCARD'' @ s) ([LF] @ ''END:VCARD'') = Some 19" for s
    using Index_end_line [of "''END:VCARD''" "''VERSION:3.0'' @ LF # ''N:'' @ LF # ''TEL:''" s] by (simp add: HasPrefix_def)
  have m: "extractBlock (''BEGIN:MSG'' @ LF # t @ LF # ''END:MSG'' @ LF # s) (''BEGIN:MSG'' @ [LF]) ([LF] @ ''END:MSG'') = take i t" for s
    using extractBlock_here [OF i [of s], of "''BEGIN:MSG''"] il by simp
  have v: "extractBlock (''BEGIN:VCARD'' @ LF # ''VERSION:3.0'' @ LF # ''N:'' @ LF # ''TEL:'' @ LF # ''END:VCARD'' @ s)
      (''BEGIN:VCARD'' @ [LF]) ([LF] @ ''END:VCARD'') = ''VERSION:3.0'' @ [LF] @ ''N:'' @ [LF] @ ''TEL:''" for s
    using extractBlock_here [OF j [of s], of "''BEGIN:VCARD''"] by simp
  show ?thesis unfolding u
    by (rule conjI, simp add: extractBlock_line a b m del: append_Cons append_assoc)
       ((subst extractBlock_line, simp, simp, simp, simp)+, rule v)
qed

lemma telephone_chars: "telephone d \<Longrightarrow> c \<in> set d \<Longrightarrow> is_digit c \<or> c = CHR ''+''"
  by (cases d) (auto simp: telephone_def TrimPrefix_def HasPrefix_def list_all_iff split: if_splits)

lemma ParseBMessage_sent:
  assumes d: "telephone d" and t: "CR \<notin> set t" "t = a @ LF # ''END:MSG'' @ b \<or> t = a \<and> b = []" "a \<noteq> []"
    and l: "list_all (\<lambda>l. \<not> HasPrefix l ''END:MSG'') (tl (Split LF a))"
  shows "ParseBMessage (bytes_of (MakeSMSBMessage d t))
    = \<lparr>sm_Body = TrimSpace a, sm_SenderName = [], sm_SenderNumber = [], sm_Attachments = []\<rparr>"
proof -
  have c: "CR \<notin> set d" "LF \<notin> set d" "CHR ''G'' \<notin> set d" using telephone_chars [OF d] by (fastforce simp: is_digit_def)+
  have i: "Index (t @ LF # ''END:MSG'' @ LF # s) (LF # ''END:MSG'') = Some (length a)" for s
    using t(2) Index_end_line [OF _ l, of "b @ LF # ''END:MSG'' @ LF # s"] Index_end_line [OF _ l, of "LF # s"] by auto
  have "length a \<le> length t" using t(2) by auto
  note blocks = block_of_bmessage [OF c t(1) this i]
  have b: "take (length a) t = a" using t(2) by auto
  have v: "fold vcard_line (Split LF (''VERSION:3.0'' @ [LF] @ ''N:'' @ [LF] @ ''TEL:'')) ([], []) = ([], [])"
    by code_simp
  show ?thesis unfolding ParseBMessage_def string_of_bytes_of blocks [THEN conjunct1] blocks [THEN conjunct2] Let_def b v
    using t(3) by simp
qed

text \<open>
  A message that \<open>MakeSMSBMessage\<close> composes for a telephone number parses to its text, without the white space around it, when the text has
  no carriage return and no line after the first starts with the end marker of the format.\<close>

theorem bmessage_roundtrip:
  assumes "telephone d" "CR \<notin> set t" "t \<noteq> []" "list_all (\<lambda>l. \<not> HasPrefix l ''END:MSG'') (tl (Split LF t))"
  shows "ParseBMessage (bytes_of (MakeSMSBMessage d t))
    = \<lparr>sm_Body = TrimSpace t, sm_SenderName = [], sm_SenderNumber = [], sm_Attachments = []\<rparr>"
  using assms by (intro ParseBMessage_sent [where b = "[]"]) auto

theorem bmessage_roundtrip_witness:
  "telephone ''+8210555'' \<and> ParseBMessage (bytes_of (MakeSMSBMessage ''+8210555'' ''hello''))
    = \<lparr>sm_Body = TrimSpace ''hello'', sm_SenderName = [], sm_SenderNumber = [], sm_Attachments = []\<rparr>"
proof -
  have "telephone ''+8210555''" by (simp add: telephone_def TrimPrefix_def HasPrefix_def is_digit_def)
  with bmessage_roundtrip [of "''+8210555''" "''hello''"] show ?thesis by simp
qed

text \<open>
  The text is not protected against the markers of the format: when a later line of it starts with \<open>END:MSG\<close>, the message
  that is sent reads as one whose text ends before that line.\<close>

theorem bmessage_truncated:
  assumes "telephone d" "CR \<notin> set a" "CR \<notin> set b" "a \<noteq> []" "list_all (\<lambda>l. \<not> HasPrefix l ''END:MSG'') (tl (Split LF a))"
  shows "sm_Body (ParseBMessage (bytes_of (MakeSMSBMessage d (a @ [LF] @ ''END:MSG'' @ b)))) = TrimSpace a"
proof -
  have "CR \<notin> set (a @ [LF] @ ''END:MSG'' @ b)" using assms(2,3) by auto
  then show ?thesis by (subst ParseBMessage_sent [OF assms(1) _ _ assms(4,5), of _ b]) auto
qed

theorem bmessage_truncated_witness:
  "sm_Body (ParseBMessage (bytes_of (MakeSMSBMessage ''+8210555'' (''pay 10'' @ [LF] @ ''END:MSG'' @ '' 000'')))) = TrimSpace ''pay 10''"
proof -
  have "telephone ''+8210555''" by (simp add: telephone_def TrimPrefix_def HasPrefix_def is_digit_def)
  with bmessage_truncated [of "''+8210555''" "''pay 10''" "'' 000''"] show ?thesis by simp
qed

section \<open>Attachments stay within their bounds\<close>

definition attachments_ok :: "mimeCollector \<Rightarrow> bool" where
  "attachments_ok c \<longleftrightarrow>
     length (mc_attachments c) \<le> MaxMMSAttachments \<and> mc_parts c \<le> maxMIMEParts
     \<and> mc_total c = sum_list (map (length \<circ> at_Data) (mc_attachments c)) \<and> mc_total c \<le> maxMMSTotalBytes
     \<and> list_all (\<lambda>a. at_Data a \<noteq> [] \<and> length (at_Data a) \<le> mc_maximum c \<and> at_ContentType a \<in> set allowedImages
          \<and> length (at_Filename a) \<le> 120) (mc_attachments c)
     \<and> list_all (\<lambda>t. t \<noteq> [] \<and> length t \<le> maxMMSTextBytes) (mc_text c)"

lemma length_safeFilename: "length (safeFilename v) \<le> 120"
  by (simp add: safeFilename_def Let_def)

lemma supportedImageType_allowed: "supportedImageType lib d data = Some t \<Longrightarrow> t \<in> set allowedImages"
  by (auto simp: supportedImageType_def Let_def split: if_splits)

lemma walk_image_ok:
  assumes "attachments_ok c" "walk_image lib m ps disp dec c = Inr c'"
  shows "attachments_ok c' \<and> mc_maximum c' = mc_maximum c"
proof (cases "c' = c")
  case False
  obtain data where rb: "readBoundedMIME dec (mc_maximum c) = Some data"
    using assms(2) by (auto simp: walk_image_def split: option.splits)
  have ne: "data \<noteq> []" using assms(2) False rb by (auto simp: walk_image_def)
  obtain detected where st: "supportedImageType lib m data = Some detected"
    using assms(2) False rb ne by (cases "supportedImageType lib m data") (auto simp: walk_image_def)
  define filename where "filename = (case disp of None \<Rightarrow> safeFilename (param ps ''name'')
    | Some dps \<Rightarrow> let v = safeFilename (param dps ''filename'') in if v \<noteq> [] then v else safeFilename (param ps ''name''))"
  have f: "length filename \<le> 120" by (simp add: filename_def Let_def length_safeFilename split: option.split)
  have "walk_image lib m ps disp dec c = (if MaxMMSAttachments \<le> length (mc_attachments c) then Inl Image_count
      else if maxMMSTotalBytes < mc_total c + length data then Inl Image_total
      else Inr (c\<lparr>mc_total := mc_total c + length data,
         mc_attachments := mc_attachments c @ [\<lparr>at_ContentType = detected, at_Filename = filename, at_Data = data\<rparr>]\<rparr>))"
    using rb ne st by (simp add: walk_image_def Let_def filename_def)
  with assms(2) have data: "length (mc_attachments c) < MaxMMSAttachments" "mc_total c + length data \<le> maxMMSTotalBytes"
    "c' = c\<lparr>mc_total := mc_total c + length data,
       mc_attachments := mc_attachments c @ [\<lparr>at_ContentType = detected, at_Filename = filename, at_Data = data\<rparr>]\<rparr>"
    by (simp_all split: if_splits)
  have "length data \<le> mc_maximum c" "detected \<in> set allowedImages"
    using rb st by (auto simp: readBoundedMIME_def supportedImageType_allowed split: if_splits)
  with assms(1) data f ne show ?thesis by (simp add: attachments_ok_def)
qed (use assms(1) in simp)

lemma walk_leaf_ok:
  assumes "attachments_ok c" "walk_leaf lib m ps enc disp body c = Inr c'"
  shows "attachments_ok c' \<and> mc_maximum c' = mc_maximum c"
proof -
  obtain dec where dec: "transferDecoded lib enc body = Some dec" using assms(2) by (auto simp: walk_leaf_def split: option.splits)
  show ?thesis
  proof (cases "m = ''text/plain''")
    case True
    obtain data where data: "readBoundedMIME dec maxMMSTextBytes = Some data"
      using assms(2) dec True by (cases "readBoundedMIME dec maxMMSTextBytes") (simp_all add: walk_leaf_def)
    define v where "v = TrimSpace (string_of data)"
    have c': "c' = (if v \<noteq> [] then c\<lparr>mc_text := mc_text c @ [v]\<rparr> else c)"
      using assms(2) dec True data by (cases "ValidString (string_of data)") (auto simp: walk_leaf_def v_def Let_def)
    have "length v \<le> maxMMSTextBytes"
      using data length_TrimSpace [of "string_of data"] by (auto simp: v_def readBoundedMIME_def split: if_splits)
    with assms(1) c' show ?thesis by (simp add: attachments_ok_def)
  next
    case False
    then have "walk_leaf lib m ps enc disp body c
        = (if \<not> HasPrefix m ''image/'' \<and> m \<noteq> ''application/octet-stream'' then Inr c else walk_image lib m ps disp dec c)"
      by (simp add: walk_leaf_def dec)
    then have "c' = c \<or> walk_image lib m ps disp dec c = Inr c'" using assms(2) by (metis sum.inject(2))
    with assms(1) walk_image_ok show ?thesis by blast
  qed
qed

lemma walk_ok:
  "attachments_ok c \<Longrightarrow> walk lib depth e c = Inr c' \<Longrightarrow> attachments_ok c' \<and> mc_maximum c' = mc_maximum c"
  "attachments_ok c \<Longrightarrow> walk_parts lib depth es c = Inr c' \<Longrightarrow> attachments_ok c' \<and> mc_maximum c' = mc_maximum c"
proof (induction lib depth e c and lib depth es c arbitrary: c' and c' rule: walk_walk_parts.induct)
  case (1 lib depth media encoding disposition body parts complete c0)
  define c where "c = c0\<lparr>mc_parts := Suc (mc_parts c0)\<rparr>"
  have "\<not> 5 < depth" "\<not> maxMIMEParts < mc_parts c" using "1.prems"(2) by (auto simp: c_def Let_def split: if_splits)
  then have c: "attachments_ok c" "mc_maximum c = mc_maximum c0" using "1.prems"(1) by (simp_all add: c_def attachments_ok_def)
  obtain mt ps where m: "media = Some (mt, ps)"
    using "1.prems"(2) by (auto simp: c_def Let_def split: if_splits option.splits)
  show ?case
  proof (cases "HasPrefix (ToLowerASCII mt) ''multipart/''")
    case True
    then have "\<not> (param ps ''boundary'' = [] \<or> 200 < length (param ps ''boundary''))" "walk_parts lib (Suc depth) parts c = Inr c'"
      using "1.prems"(2) m \<open>\<not> 5 < depth\<close> \<open>\<not> maxMIMEParts < mc_parts c\<close>
      by (auto simp: c_def Let_def bindE_Inr_iff split: if_splits)
    with "1.IH" [OF \<open>\<not> 5 < depth\<close> c_def \<open>\<not> maxMIMEParts < mc_parts c\<close> m refl refl True refl] c show ?thesis by simp
  next
    case False
    then have "walk_leaf lib (ToLowerASCII mt) ps encoding disposition body c = Inr c'"
      using "1.prems"(2) m \<open>\<not> 5 < depth\<close> \<open>\<not> maxMIMEParts < mc_parts c\<close> by (simp add: c_def Let_def)
    with walk_leaf_ok [OF c(1)] c(2) show ?thesis by metis
  qed
next
  case (2 lib depth c)
  then show ?case by simp
next
  case (3 lib depth p ps c)
  from "3.prems"(2) obtain c1 where "walk lib depth p c = Inr c1" "walk_parts lib depth ps c1 = Inr c'"
    by (simp only: walk_parts.simps bindE_Inr_iff) blast
  with "3.IH" "3.prems"(1) show ?case by metis
qed

text \<open>
  Whatever a multimedia message contains, what \<open>ParseMMS\<close> keeps of it is bounded: at most four attachments, each
  with some data, within the configured size, of an allowed image type and with a short file name, and at most two
  mebibytes together.\<close>

theorem ParseMMS_bounded:
  assumes "ParseMMS lib parsed maximum = Inr m" "sm_Attachments parsed = []"
  shows "length (sm_Attachments m) \<le> MaxMMSAttachments
    \<and> sum_list (map (length \<circ> at_Data) (sm_Attachments m)) \<le> maxMMSTotalBytes
    \<and> list_all (\<lambda>a. at_Data a \<noteq> [] \<and> int (length (at_Data a)) \<le> maximum \<and> at_ContentType a \<in> set allowedImages
        \<and> length (at_Filename a) \<le> 120) (sm_Attachments m)"
proof (cases "sm_Attachments m = []")
  case False
  define c0 where "c0 = \<lparr>mc_maximum = nat maximum, mc_parts = 0, mc_total = 0, mc_text = [], mc_attachments = []\<rparr>"
  have c0: "attachments_ok c0" "mc_maximum c0 = nat maximum" by (simp_all add: c0_def attachments_ok_def)
  obtain e c where e: "walk lib 0 e c0 = Inr c" and m: "sm_Attachments m = mc_attachments c" and pos: "1 \<le> maximum"
    using assms False by (auto simp: ParseMMS_def Let_def c0_def bindE_Inr_iff split: if_splits option.splits)
  from walk_ok(1) [OF c0(1) e] c0(2) have ok: "attachments_ok c" "mc_maximum c = nat maximum" by simp_all
  then have all: "list_all (\<lambda>a. at_Data a \<noteq> [] \<and> length (at_Data a) \<le> nat maximum \<and> at_ContentType a \<in> set allowedImages
      \<and> length (at_Filename a) \<le> 120) (mc_attachments c)" by (simp add: attachments_ok_def)
  then have "list_all (\<lambda>a. at_Data a \<noteq> [] \<and> int (length (at_Data a)) \<le> maximum \<and> at_ContentType a \<in> set allowedImages
      \<and> length (at_Filename a) \<le> 120) (mc_attachments c)" using pos by (auto simp: list_all_iff nat_le_eq_zle le_nat_iff)
  with ok m show ?thesis by (simp add: attachments_ok_def)
qed simp

lemma ToLowerASCII_id: "list_all (\<lambda>c. is_ascii c \<and> \<not> (65 \<le> (of_char c :: nat) \<and> of_char c \<le> (90 :: nat))) s \<Longrightarrow> ToLowerASCII s = s"
proof (induction s)
  case (Cons c s)
  then have "runes (c # s) = of_char c # runes s" by (simp add: runes_step DecodeRune_ascii)
  with Cons show ?case by (auto simp: ToLowerASCII_def lower_rune_def EncodeRune_ascii is_ascii_def)
qed (simp add: ToLowerASCII_def)

theorem ParseMMS_bounded_witness:
  "\<exists>lib parsed m. ParseMMS lib parsed 100 = Inr m \<and> length (sm_Attachments m) = 1
     \<and> sum_list (map (length \<circ> at_Data) (sm_Attachments m)) \<le> maxMMSTotalBytes"
proof -
  define image where "image = Entity (Some (''image/png'', [])) [] None ([1, 2, 3], False) [] True"
  define lib where "lib = \<lparr>ml_base64 = (\<lambda>b. b), ml_quoted = (\<lambda>b. b), ml_sniff = (\<lambda>_. ''image/png''), ml_mail = (\<lambda>_. Some (''image/png'', image))\<rparr>"
  define parsed where "parsed = \<lparr>sm_Body = ''x'', sm_SenderName = [], sm_SenderNumber = [], sm_Attachments = []\<rparr>"
  have t: "TrimSpace ''x'' = ''x''" "TrimSpace ''image/png'' = ''image/png''"
    by (intro TrimSpace_id; auto simp: space_encodings_def)+
  have e: "TrimSpace [] = []" using length_TrimSpace [of "[]"] by simp
  have l: "ToLowerASCII ''image/png'' = ''image/png''" "ToLowerASCII [] = []" by (simp_all add: ToLowerASCII_id is_ascii_def)
  have s: "supportedImageType lib ''image/png'' [1, 2, 3] = Some ''image/png''"
    by (simp add: supportedImageType_def lib_def t l allowedImages_def)
  obtain c where "walk lib 0 image \<lparr>mc_maximum = 100, mc_parts = 0, mc_total = 0, mc_text = [], mc_attachments = []\<rparr> = Inr c"
    "length (mc_attachments c) = 1"
    by (simp add: image_def l maxMIMEParts_def HasPrefix_def walk_leaf_def transferDecoded_def t e walk_image_def readBoundedMIME_def s
        MaxMMSAttachments_def maxMMSTotalBytes_def)
  then obtain m where m: "ParseMMS lib parsed 100 = Inr m" "length (sm_Attachments m) = 1"
    by (simp add: ParseMMS_def parsed_def t lib_def [symmetric] maxMMSTotalBytes_def) (simp add: lib_def t bindE_def)
  with ParseMMS_bounded [OF m(1)] show ?thesis by (auto simp: parsed_def)
qed

end
