(* ===== verification/Ami.thy ===== *)
theory Ami
  imports Go_Std
begin

text \<open>
  The client of the Asterisk manager interface (\<open>internal/ami/client.go\<close>): one connection per message, on which it logs in,
  sends one action and logs off.

  What the secret file and the connection give is an argument: \<open>secret_file\<close> holds the answers of the file system,
  \<open>ami_world\<close> whether the connection and the writes succeed and the bytes that arrive before the end of the stream
  or the deadline. \<open>SendMessage\<close> returns its error and the texts written.

  The lemmas: what an action consists of whatever the message contains, and when a message counts as sent.
\<close>

section \<open>Base 64\<close>

text \<open>\<open>base64.StdEncoding\<close>.\<close>

definition b64_char :: "nat \<Rightarrow> char" where
  "b64_char n = char_of (if n < 26 then n + 65 else if n < 52 then n + 71 else if n < 62 then n - 4 else if n = 62 then 43 else 47)"

definition b64_val :: "char \<Rightarrow> nat" where
  "b64_val c = (let n = of_char c in
     if 97 \<le> n then n - 71 else if 65 \<le> n then n - 65 else if 48 \<le> n then n + 4 else if n = 43 then 62 else 63)"

fun b64_encode :: "nat list \<Rightarrow> string" where
  "b64_encode [] = []"
| "b64_encode [a] = [b64_char (a div 4), b64_char (a mod 4 * 16), CHR ''='', CHR ''='']"
| "b64_encode [a, b] = [b64_char (a div 4), b64_char (a mod 4 * 16 + b div 16), b64_char (b mod 16 * 4), CHR ''='']"
| "b64_encode (a # b # c # r) =
     b64_char (a div 4) # b64_char (a mod 4 * 16 + b div 16) # b64_char (b mod 16 * 4 + c div 64) # b64_char (c mod 64) # b64_encode r"

fun b64_decode :: "string \<Rightarrow> nat list" where
  "b64_decode (p # q # r # s # t) =
     (let x = b64_val p; y = b64_val q; z = b64_val r; w = b64_val s in
      if r = CHR ''='' then [x * 4 + y div 16]
      else if s = CHR ''='' then [x * 4 + y div 16, y mod 16 * 16 + z div 4]
      else [x * 4 + y div 16, y mod 16 * 16 + z div 4, z mod 4 * 64 + w] @ b64_decode t)"
| "b64_decode _ = []"

definition Base64 :: "string \<Rightarrow> string" where
  "Base64 s = b64_encode (map of_char s)"

lemma b64_chars: "n < 64 \<Longrightarrow> b64_val (b64_char n) = n \<and> b64_char n \<noteq> CHR ''='' \<and> b64_char n \<notin> {CHR 0x0D, CHR 0x0A, CHR 0x00}"
proof -
  assume n: "n < 64"
  define m where "m = (if n < 26 then n + 65 else if n < 52 then n + 71 else if n < 62 then n - 4 else if n = 62 then 43 else 47)"
  have m: "of_char (b64_char n) = m" using n by (simp add: b64_char_def m_def)
  have "of_char (b64_char n) \<noteq> (61 :: nat)" "of_char (b64_char n) \<noteq> (13 :: nat)" "of_char (b64_char n) \<noteq> (10 :: nat)" "of_char (b64_char n) \<noteq> (0 :: nat)"
    using n unfolding m by (auto simp: m_def)
  moreover have "b64_val (b64_char n) = n" unfolding b64_val_def m Let_def using n by (auto simp: m_def)
  ultimately show ?thesis by auto
qed

lemma b64_roundtrip: "list_all (\<lambda>b. b < 256) bs \<Longrightarrow> b64_decode (b64_encode bs) = bs"
proof (induction bs rule: b64_encode.induct)
  case (2 a)
  then have "a div 4 < 64" "a mod 4 * 16 < 64" by auto
  then show ?case by (simp add: b64_chars Let_def)
next
  case (3 a b)
  then have "a div 4 < 64" "a mod 4 * 16 + b div 16 < 64" "b mod 16 * 4 < 64" "b div 16 < 16" by auto
  then show ?case using 3 by (simp add: b64_chars Let_def div_mult_mod_eq)
next
  case (4 a b c r)
  then have "a div 4 < 64" "a mod 4 * 16 + b div 16 < 64" "b mod 16 * 4 + c div 64 < 64" "c mod 64 < 64" "b div 16 < 16" "c div 64 < 4" by auto
  then show ?case using 4 by (simp add: b64_chars Let_def div_mult_mod_eq)
qed simp

lemma b64_plain: "list_all (\<lambda>b. b < 256) bs \<Longrightarrow> set (b64_encode bs) \<inter> {CHR 0x0D, CHR 0x0A, CHR 0x00} = {}"
proof (induction bs rule: b64_encode.induct)
  case (2 a)
  then have "a div 4 < 64" "a mod 4 * 16 < 64" by auto
  then show ?case using b64_chars by auto
next
  case (3 a b)
  then have "a div 4 < 64" "a mod 4 * 16 + b div 16 < 64" "b mod 16 * 4 < 64" by auto
  then show ?case using b64_chars by auto
next
  case (4 a b c r)
  then have "a div 4 < 64" "a mod 4 * 16 + b div 16 < 64" "b mod 16 * 4 + c div 64 < 64" "c mod 64 < 64" by auto
  then show ?case using 4 b64_chars by auto
qed simp

section \<open>The client\<close>

definition maximumPacket :: nat where "maximumPacket = 128 * 1024"
definition MaxBodyBytes :: nat where "MaxBodyBytes = 1200"

record ami_client =
  ac_address :: string
  ac_user :: string
  ac_secret :: string

text \<open>The file with the secret: whether it is a regular file, its permission bits and size, and its contents; \<open>None\<close> for an error.\<close>

record secret_file =
  sf_stat :: "(bool \<times> uint32 \<times> int) option"
  sf_read :: "string option"

definition ami_New :: "string \<Rightarrow> string \<Rightarrow> secret_file \<Rightarrow> string + ami_client" where
  "ami_New address user f =
     (case sf_stat f of
        None \<Rightarrow> Inl ''read AMI secret metadata''
      | Some (regular, perm, fsize) \<Rightarrow>
          if \<not> regular \<or> perm AND 0x3f \<noteq> 0 \<or> fsize < 1 \<or> 4096 < fsize then Inl ''AMI secret file permissions or size invalid''
          else case sf_read f of
            None \<Rightarrow> Inl ''read AMI secret''
          | Some raw \<Rightarrow>
              let secret = TrimSpace raw
              in if address = [] \<or> user = [] \<or> secret = [] \<or> ContainsAny (user @ secret) [CHR 0x00, CHR 0x0D, CHR 0x0A]
                 then Inl ''invalid AMI client configuration''
                 else Inr \<lparr>ac_address = address, ac_user = user, ac_secret = secret\<rparr>)"

definition digits :: "string \<Rightarrow> bool" where
  "digits v \<longleftrightarrow> v \<noteq> [] \<and> list_all is_digit v"

text \<open>
  \<open>ReadString\<close> with a line feed: the bytes up to it, those after it, and whether the stream ended before one came.
\<close>

definition ReadLine :: "string \<Rightarrow> string \<times> string \<times> bool" where
  "ReadLine input =
     (case IndexByte input (CHR 0x0A) of
        Some i \<Rightarrow> (take (Suc i) input, drop (Suc i) input, False)
      | None \<Rightarrow> (input, [], True))"

definition field :: "(string, string) gomap \<Rightarrow> string \<Rightarrow> string" where
  "field fs name = (case go_get fs name of Some v \<Rightarrow> v | None \<Rightarrow> [])"

definition add_field :: "string \<Rightarrow> (string, string) gomap \<Rightarrow> (string, string) gomap" where
  "add_field line fs =
     (case Cut line (CHR '':'') of
        Some (name, v) \<Rightarrow> go_put (ToLowerASCII (TrimSpace name)) (TrimSpace v) fs
      | None \<Rightarrow> fs)"

lemma ReadLine_shorter: "ReadLine input = (line, rest, False) \<Longrightarrow> length rest < length input"
proof -
  assume "ReadLine input = (line, rest, False)"
  then obtain i where i: "IndexByte input (CHR 0x0A) = Some i" "rest = drop (Suc i) input"
    by (auto simp: ReadLine_def split: option.splits)
  then have "i < length input" using IndexAny_SomeD [of input "[CHR 0x0A]" i] by (simp add: IndexByte_def)
  with i show ?thesis by simp
qed

function response_loop :: "(string, string) gomap \<Rightarrow> nat \<Rightarrow> string \<Rightarrow> (string + (string, string) gomap) \<times> string" where
  "response_loop fs used input =
     (case ReadLine input of (raw, rest, failed) \<Rightarrow>
        let total' = used + length raw in
        if maximumPacket < total' then (Inl ''AMI response exceeds bound'', rest)
        else let line = TrimRight raw [CHR 0x0D, CHR 0x0A];
                 fs' = add_field line fs
             in if line = [] \<and> field fs' ''response'' \<noteq> [] then (Inr fs', rest)
                else if failed then (Inl ''EOF'', rest)
                else response_loop fs' total' rest)"
  by auto
termination by (relation "measure (\<lambda>(_, _, input). length input)") (auto dest: ReadLine_shorter sym)

declare response_loop.simps [simp del]

definition readResponse :: "string \<Rightarrow> (string + (string, string) gomap) \<times> string" where
  "readResponse input = response_loop [] 0 input"

record ami_world =
  aw_dial :: bool
  aw_login :: bool
  aw_action :: bool
  aw_input :: string

abbreviation eol :: string where "eol \<equiv> [CHR 0x0D, CHR 0x0A]"

definition login_text :: "ami_client \<Rightarrow> string" where
  "login_text c = ''Action: Login'' @ eol @ ''Username: '' @ ac_user c @ eol @ ''Secret: '' @ ac_secret c @ eol @ ''Events: off'' @ eol @ eol"

definition action_text :: "string \<Rightarrow> string \<Rightarrow> string \<Rightarrow> string \<Rightarrow> string \<Rightarrow> string" where
  "action_text recipient sender body contentType actionID =
     ''Action: MessageSend'' @ eol @ ''To: pjsip:'' @ recipient @ eol @ ''From: sip:'' @ sender @ ''@cellular.invalid'' @ eol
     @ ''Base64Body: '' @ Base64 body @ eol @ ''Variable: Content-Type='' @ contentType @ eol @ ''ActionID: '' @ actionID @ eol @ eol"

definition logoff_text :: string where
  "logoff_text = ''Action: Logoff'' @ eol @ eol"

definition success :: "string + (string, string) gomap \<Rightarrow> bool" where
  "success r = (case r of Inr fs \<Rightarrow> EqualFoldASCII (field fs ''response'') ''success'' | Inl _ \<Rightarrow> False)"

definition input_error :: "string \<Rightarrow> string \<Rightarrow> string \<Rightarrow> string \<Rightarrow> string \<Rightarrow> string option" where
  "input_error recipient sender body contentType actionID =
     (if \<not> digits recipient \<or> 32 < length recipient \<or> body = [] \<or> MaxBodyBytes < length body then Some ''invalid AMI MessageSend input''
      else if contentType \<noteq> ''text/plain'' \<and> contentType \<noteq> ''application/x-acro-filetransfer+json'' then Some ''invalid AMI message content type''
      else if list_ex (\<lambda>v. v = [] \<or> ContainsAny v [CHR 0x00, CHR 0x0D, CHR 0x0A]) [sender, actionID] then Some ''invalid AMI header value''
      else None)"

definition SendMessage :: "ami_client \<Rightarrow> ami_world \<Rightarrow> string \<Rightarrow> string \<Rightarrow> string \<Rightarrow> string \<Rightarrow> string \<Rightarrow> string option \<times> string list" where
  "SendMessage c w recipient sender body contentType actionID =
     (case input_error recipient sender body contentType actionID of Some e \<Rightarrow> (Some e, []) | None \<Rightarrow>
      if \<not> aw_dial w then (Some ''AMI connection failed'', [])
      else if \<not> aw_login w then (Some ''AMI login write failed'', [])
      else case readResponse (aw_input w) of (first, rest) \<Rightarrow>
        if \<not> success first then (Some ''AMI login rejected'', [login_text c])
        else if \<not> aw_action w then (Some ''AMI action write failed'', [login_text c])
        else let action = action_text recipient sender body contentType actionID in
          case readResponse rest of (second, _) \<Rightarrow>
            (case second of
               Inl _ \<Rightarrow> (Some ''AMI action response failed'', [login_text c, action])
             | Inr _ \<Rightarrow> if success second then (None, [login_text c, action, logoff_text])
                         else (Some ''AMI MessageSend rejected'', [login_text c, action])))"

section \<open>What is sent\<close>

definition ami_accepts :: "string \<Rightarrow> string \<Rightarrow> string \<Rightarrow> string \<Rightarrow> string \<Rightarrow> bool" where
  "ami_accepts recipient sender body contentType actionID \<longleftrightarrow>
     digits recipient \<and> length recipient \<le> 32 \<and> body \<noteq> [] \<and> length body \<le> MaxBodyBytes
     \<and> contentType \<in> {''text/plain'', ''application/x-acro-filetransfer+json''}
     \<and> sender \<noteq> [] \<and> \<not> ContainsAny sender [CHR 0x00, CHR 0x0D, CHR 0x0A] \<and> actionID \<noteq> [] \<and> \<not> ContainsAny actionID [CHR 0x00, CHR 0x0D, CHR 0x0A]"

lemma input_error_None: "input_error recipient sender body contentType actionID = None \<longleftrightarrow> ami_accepts recipient sender body contentType actionID"
  by (auto simp: input_error_def ami_accepts_def)



text \<open>
  \<open>SendMessage\<close> reports success exactly for an accepted message whose login and whose action the manager answered with
  success, and in every case it writes a beginning of the sequence login, action, logoff: never the action before the
  login was granted, and nothing at all for a message that is not accepted.\<close>

theorem SendMessage_spec:
  "(fst (SendMessage c w recipient sender body contentType actionID) = None) =
     (ami_accepts recipient sender body contentType actionID \<and> aw_dial w \<and> aw_login w \<and> success (fst (readResponse (aw_input w)))
      \<and> aw_action w \<and> success (fst (readResponse (snd (readResponse (aw_input w))))))
   \<and> (\<exists>n. snd (SendMessage c w recipient sender body contentType actionID)
        = take n [login_text c, action_text recipient sender body contentType actionID, logoff_text]
      \<and> (n \<le> 1 \<or> success (fst (readResponse (aw_input w)))) \<and> (n = 0 \<or> ami_accepts recipient sender body contentType actionID))"
proof (cases "ami_accepts recipient sender body contentType actionID \<and> aw_dial w \<and> aw_login w")
  case False
  then have "fst (SendMessage c w recipient sender body contentType actionID) \<noteq> None \<and> snd (SendMessage c w recipient sender body contentType actionID) = []"
    by (cases "input_error recipient sender body contentType actionID") (auto simp: SendMessage_def simp flip: input_error_None)
  with False show ?thesis by auto
next
  case True
  obtain first rest where r: "readResponse (aw_input w) = (first, rest)" by fastforce
  obtain second rest' where r': "readResponse rest = (second, rest')" by fastforce
  have S: "SendMessage c w recipient sender body contentType actionID =
      (if \<not> success first then (Some ''AMI login rejected'', [login_text c])
        else if \<not> aw_action w then (Some ''AMI action write failed'', [login_text c])
        else case second of
               Inl _ \<Rightarrow> (Some ''AMI action response failed'', [login_text c, action_text recipient sender body contentType actionID])
             | Inr _ \<Rightarrow> if success second then (None, [login_text c, action_text recipient sender body contentType actionID, logoff_text])
                         else (Some ''AMI MessageSend rejected'', [login_text c, action_text recipient sender body contentType actionID]))"
    using True input_error_None [of recipient sender body contentType actionID] by (simp add: SendMessage_def r r' Let_def)
  have "second = Inl e \<Longrightarrow> \<not> success second" for e by (simp add: success_def)
  then show ?thesis unfolding S r fst_conv snd_conv r' using True
    by (auto split: sum.split intro: exI [of _ 1] exI [of _ 2] exI [of _ 3])
qed

end
