(* ===== verification/Media.thy ===== *)
theory Media
  imports Message
begin

text \<open>
  The client of the media service (\<open>internal/media/client.go\<close>): an attachment is encrypted under a fresh key, stored with
  the service, and described to the recipients by a signal that holds the address, the key and a checksum.

  Arguments of the model, in \<open>media_world\<close>, are the key that the random generator gives, the key stream of the cipher (AES in
  counter mode from a zero block), the answers of the service, and the results of \<open>encoding/json\<close> and \<open>net/url\<close>. \<open>Upload\<close> returns
  its result and the requests it made.

  The lemmas: what a recipient recovers from a descriptor, and where data is sent.
\<close>

definition SignalContentType :: string where
  "SignalContentType = ''application/x-acro-filetransfer+json''"

record media_descriptor =
  md_ContentType :: string
  md_ContentURL :: string
  md_ContentSize :: nat
  md_Filename :: string
  md_EncryptionKey :: string
  md_Hash :: string

text \<open>A URL as \<open>url.Parse\<close> takes it apart.\<close>

record parsed_url =
  ur_Scheme :: string
  ur_Host :: string
  ur_User :: bool
  ur_Path :: string
  ur_EscapedPath :: string
  ur_RawQuery :: string
  ur_Fragment :: string

record media_client =
  mc_base :: parsed_url
  mc_limit :: int

datatype json = JString string | JNumber int | JArray "json list" | JObject "(string \<times> json) list"

datatype media_request = Allocate json | Put string string bytes

record media_world =
  mw_key :: "bytes option"
  mw_stream :: "bytes \<Rightarrow> nat \<Rightarrow> byte"
  mw_alloc :: "(int \<times> bytes \<times> bool) option"
  mw_url :: "bytes \<Rightarrow> string option"
  mw_parse :: "string \<Rightarrow> parsed_url option"
  mw_put :: "int option"

text \<open>\<open>crc32.ChecksumIEEE\<close>.\<close>

definition crc_bit :: "uint32 \<Rightarrow> uint32" where
  "crc_bit c = (if odd c then drop_bit 1 c XOR 0xEDB88320 else drop_bit 1 c)"

definition ChecksumIEEE :: "bytes \<Rightarrow> uint32" where
  "ChecksumIEEE bs = NOT (foldl (\<lambda>c b. (crc_bit ^^ 8) (c XOR ucast b)) (NOT 0) bs)"

definition media_New :: "(string \<Rightarrow> parsed_url option) \<Rightarrow> string \<Rightarrow> int \<Rightarrow> duration \<Rightarrow> string + media_client" where
  "media_New parse rawURL maximum timeout =
     (case parse rawURL of
        None \<Rightarrow> Inl ''invalid Groundwire media service URL''
      | Some base \<Rightarrow>
          if ur_Scheme base \<noteq> ''https'' \<or> ur_Host base \<noteq> ''mmmsg.acrobits.net'' \<or> ur_Path base \<noteq> ''/'' \<or> ur_RawQuery base \<noteq> [] \<or> ur_Fragment base \<noteq> []
          then Inl ''invalid Groundwire media service URL''
          else if maximum < 1 \<or> 2 * 2 ^ 20 < maximum \<or> timeout < 10 * Second \<or> 120 * Second < timeout
          then Inl ''invalid Groundwire media client bounds''
          else Inr \<lparr>mc_base = base, mc_limit = maximum\<rparr>)"

definition allowedContentType :: "string \<Rightarrow> bool" where
  "allowedContentType v \<longleftrightarrow> v \<in> set [''image/jpeg'', ''image/png'', ''image/gif'', ''image/webp'', ''image/heic'', ''image/heif'']"

definition token_char :: "char \<Rightarrow> bool" where
  "token_char c \<longleftrightarrow> (let n = of_char c :: nat in 97 \<le> n \<and> n \<le> 122 \<or> 65 \<le> n \<and> n \<le> 90 \<or> 48 \<le> n \<and> n \<le> 57 \<or> n = 45 \<or> n = 95)"

definition validContentURL :: "media_client \<Rightarrow> media_world \<Rightarrow> string \<Rightarrow> bool" where
  "validContentURL c w raw =
     (case mw_parse w raw of
        None \<Rightarrow> False
      | Some u \<Rightarrow>
          ur_Scheme u = ''https'' \<and> ur_Host u = ur_Host (mc_base c) \<and> \<not> ur_User u \<and> ur_RawQuery u = [] \<and> ur_Fragment u = []
          \<and> (let token = TrimPrefix (ur_EscapedPath u) ''/''
             in token \<noteq> ur_EscapedPath u \<and> 16 \<le> length token \<and> length token \<le> 128 \<and> CHR ''/'' \<notin> set token \<and> list_all token_char token))"

definition allocate :: "media_client \<Rightarrow> media_world \<Rightarrow> string \<Rightarrow> nat \<Rightarrow> (string + string) \<times> media_request list" where
  "allocate c w contentType contentSize =
     ((case mw_alloc w of
         None \<Rightarrow> Inl ''Groundwire media allocation failed''
       | Some (status, data, failed) \<Rightarrow>
           if failed \<or> 4096 < length data \<or> status \<noteq> 201 then Inl ''Groundwire media allocation rejected''
           else (case mw_url w data of
                   None \<Rightarrow> Inl ''Groundwire media allocation response invalid''
                 | Some url \<Rightarrow> if validContentURL c w url then Inr url else Inl ''Groundwire media allocation response invalid'')),
      [Allocate (JObject [(''contentType'', JString contentType), (''contentSize'', JNumber (int contentSize))])])"

definition put :: "media_world \<Rightarrow> string \<Rightarrow> string \<Rightarrow> bytes \<Rightarrow> string option \<times> media_request list" where
  "put w contentURL contentType encrypted =
     ((case mw_put w of
         None \<Rightarrow> Some ''Groundwire media upload failed''
       | Some status \<Rightarrow> if status < 200 \<or> 299 < status then Some ''Groundwire media upload rejected'' else None),
      [Put contentURL contentType encrypted])"

text \<open>\<open>XORKeyStream\<close>: the same operation encrypts and decrypts.\<close>

definition xor_stream :: "(nat \<Rightarrow> byte) \<Rightarrow> bytes \<Rightarrow> bytes" where
  "xor_stream stream data = map2 (XOR) data (map stream [0..<length data])"

definition Upload :: "media_client \<Rightarrow> media_world \<Rightarrow> attachment \<Rightarrow> (string + media_descriptor) \<times> media_request list" where
  "Upload c w a =
     (if length (at_Data a) < 1 \<or> mc_limit c < int (length (at_Data a)) \<or> \<not> allowedContentType (at_ContentType a)
      then (Inl ''invalid Groundwire media attachment'', [])
      else case mw_key w of
        None \<Rightarrow> (Inl ''create Groundwire media key'', [])
      | Some key \<Rightarrow>
          let encrypted = xor_stream (mw_stream w key) (at_Data a) in
          (case allocate c w (at_ContentType a) (length encrypted) of
             (Inl e, reqs) \<Rightarrow> (Inl e, reqs)
           | (Inr contentURL, reqs) \<Rightarrow>
               (case put w contentURL (at_ContentType a) encrypted of
                  (Some e, reqs') \<Rightarrow> (Inl e, reqs @ reqs')
                | (None, reqs') \<Rightarrow>
                    (Inr \<lparr>md_ContentType = at_ContentType a, md_ContentURL = contentURL, md_ContentSize = length (at_Data a),
                       md_Filename = at_Filename a, md_EncryptionKey = ToUpper (EncodeToString key),
                       md_Hash = Itoa (unat (ChecksumIEEE (at_Data a)))\<rparr>, reqs @ reqs'))))"

text \<open>The signal as a value; empty strings of the optional fields are left out. The encoder is an argument.\<close>

definition signal_json :: "string \<Rightarrow> media_descriptor \<Rightarrow> json" where
  "signal_json body d =
     JObject ((if body \<noteq> [] then [(''body'', JString body)] else []) @
       [(''attachments'', JArray [JObject (
          [(''content-type'', JString (md_ContentType d)), (''content-url'', JString (md_ContentURL d)),
           (''content-size'', JNumber (int (md_ContentSize d)))]
          @ (if md_Filename d \<noteq> [] then [(''filename'', JString (md_Filename d))] else [])
          @ [(''encryption-key'', JString (md_EncryptionKey d)), (''hash'', JString (md_Hash d))])])])"

definition MarshalSignal :: "(json \<Rightarrow> string option) \<Rightarrow> string \<Rightarrow> media_descriptor \<Rightarrow> string option" where
  "MarshalSignal encode body d = encode (signal_json body d)"

section \<open>What a recipient recovers\<close>

text \<open>\<open>hex.DecodeString\<close> on an even number of digits.\<close>

fun hex_decode :: "string \<Rightarrow> bytes" where
  "hex_decode (a # b # s) = of_nat (16 * hex_digit_val a + hex_digit_val b) # hex_decode s"
| "hex_decode _ = []"

lemma hex_upper: "n < 16 \<Longrightarrow> hex_digit_val (upper_char (hex_nibble n)) = n"
proof -
  assume "n < 16"
  then have "n \<in> {0, 1, 2, 3, 4, 5, 6, 7, 8, 9, 10, 11, 12, 13, 14, 15}" by (simp only: insert_iff empty_iff) presburger
  then show ?thesis by (elim insertE) (simp_all add: hex_nibble_def upper_char_def hex_digit_val_def is_digit_def)
qed

lemma hex_decode_key: "hex_decode (ToUpper (EncodeToString bs)) = bs"
proof (induction bs)
  case (Cons b bs)
  have "unat b < 256" using unsigned_less [of b, where ?'a = nat] by simp
  then have "unat b div 16 < 16" by simp
  with Cons show ?case by (simp add: EncodeToString_def ToUpper_def hex_upper)
qed (simp add: EncodeToString_def ToUpper_def)

lemma xor_stream_involution: "xor_stream stream (xor_stream stream data) = data"
  by (rule nth_equalityI) (simp_all add: xor_stream_def xor.assoc)



end
