(* ===== verification/Sms_Config.thy ===== *)
theory Sms_Config
  imports Rfcomm
begin

text \<open>
  The configuration of the SMS bridge (\<open>internal/config/config.go\<close>): reading it from the environment and checking it.

  The environment is a function from names to values, empty for a name that is not set. Addresses of version 4 are 32-bit words; of the packages \<open>net\<close> and
  \<open>net/netip\<close> the functions that the code uses are given for the addresses it accepts, which are those of
  version 4. The errors are the texts of the code.

  The lemmas: what a configuration that \<open>Load\<close> returns guarantees to the components that use it.
\<close>

section \<open>Addresses\<close>

type_synonym addr = uint32

text \<open>\<open>net.SplitHostPort\<close>, \<open>None\<close> for its errors, and \<open>net.JoinHostPort\<close>.\<close>

definition LastIndexByte :: "string \<Rightarrow> char \<Rightarrow> nat option" where
  "LastIndexByte s c = map_option (\<lambda>i. length s - Suc i) (IndexByte (rev s) c)"

definition SplitHostPort :: "string \<Rightarrow> (string \<times> string) option" where
  "SplitHostPort hostport =
     (case LastIndexByte hostport (CHR '':'') of
        None \<Rightarrow> None
      | Some i \<Rightarrow>
          if hd hostport = CHR ''['' then
            (case IndexByte hostport (CHR '']'') of
               None \<Rightarrow> None
             | Some stop \<Rightarrow>
                 if Suc stop \<noteq> i then None
                 else if CHR ''['' \<in> set (drop 1 hostport) \<or> CHR '']'' \<in> set (drop (Suc stop) hostport) then None
                 else Some (take (stop - 1) (drop 1 hostport), drop (Suc i) hostport))
          else let host = take i hostport in
            if CHR '':'' \<in> set host \<or> CHR ''['' \<in> set hostport \<or> CHR '']'' \<in> set hostport then None
            else Some (host, drop (Suc i) hostport))"

definition JoinHostPort :: "string \<Rightarrow> string \<Rightarrow> string" where
  "JoinHostPort host port =
     (if CHR '':'' \<in> set host \<or> CHR ''%'' \<in> set host then ''['' @ host @ '']:'' @ port else host @ '':'' @ port)"

text \<open>
  \<open>netip.ParseAddr\<close> for an address of version 4: four decimal fields without leading zeros. For every other text it
  fails or gives an address of version 6, both of which the code refuses.
\<close>

definition octet :: "string \<Rightarrow> bool" where
  "octet s \<longleftrightarrow> s \<noteq> [] \<and> list_all is_digit s \<and> (length s = 1 \<or> hd s \<noteq> CHR ''0'') \<and> decimal s \<le> 255"

definition ParseAddr4 :: "string \<Rightarrow> addr option" where
  "ParseAddr4 s =
     (let fields = Split (CHR ''.'') s
      in if length fields = 4 \<and> list_all octet fields then Some (get_be (map (\<lambda>f. of_nat (decimal f)) fields)) else None)"

definition octets :: "addr \<Rightarrow> bytes" where
  "octets a = put_be 4 a"

definition IsLoopback :: "addr \<Rightarrow> bool" where
  "IsLoopback a \<longleftrightarrow> octets a ! 0 = 127"

definition IsPrivate :: "addr \<Rightarrow> bool" where
  "IsPrivate a \<longleftrightarrow> octets a ! 0 = 10 \<or> octets a ! 0 = 172 \<and> octets a ! 1 AND 0xf0 = 16 \<or> octets a ! 0 = 192 \<and> octets a ! 1 = 168"

record prefix4 =
  px_addr :: addr
  px_bits :: nat

text \<open>\<open>netip.ParsePrefix\<close>, \<open>Masked\<close> and \<open>Contains\<close>.\<close>

definition ParsePrefix4 :: "string \<Rightarrow> prefix4 option" where
  "ParsePrefix4 s =
     (case LastIndexByte s (CHR ''/'') of
        None \<Rightarrow> None
      | Some i \<Rightarrow>
          let bits = drop (Suc i) s in
          (case ParseAddr4 (take i s) of
             None \<Rightarrow> None
           | Some a \<Rightarrow>
               if 1 < length bits \<and> (of_char (hd bits) < (49 :: nat) \<or> (57 :: nat) < of_char (hd bits)) then None
               else (case Atoi bits of
                       None \<Rightarrow> None
                     | Some n \<Rightarrow> if n < 0 \<or> 32 < n then None else Some \<lparr>px_addr = a, px_bits = nat n\<rparr>)))"

definition Masked :: "prefix4 \<Rightarrow> prefix4" where
  "Masked p = p\<lparr>px_addr := push_bit (32 - px_bits p) (drop_bit (32 - px_bits p) (px_addr p))\<rparr>"

definition prefix_Contains :: "prefix4 \<Rightarrow> addr \<Rightarrow> bool" where
  "prefix_Contains p a \<longleftrightarrow> drop_bit (32 - px_bits p) (a XOR px_addr p) = 0"

section \<open>Configuration\<close>

definition config_Version :: string where "config_Version = ''1.2.0-p6''"
definition ClassicProfileNormal :: string where "ClassicProfileNormal = ''normal''"
definition ClassicProfileIsolated :: string where "ClassicProfileIsolated = ''isolated''"

record config =
  cf_BluetoothDevice :: string
  cf_Adapter :: string
  cf_MASChannel :: byte
  cf_MNSChannel :: uint16
  cf_MAPTimeout :: duration
  cf_PollInterval :: duration
  cf_Keepalive :: duration
  cf_PollMaxCount :: int
  cf_InternalListen :: string
  cf_OutboxListen :: string
  cf_AllowedSources :: "prefix4 list"
  cf_AMIAddress :: string
  cf_AMIUser :: string
  cf_AMISecretFile :: string
  cf_Recipients :: "string list"
  cf_MediaURL :: string
  cf_MediaMaxBytes :: int
  cf_MediaTimeout :: duration
  cf_LEAudioMode :: string
  cf_LEAudioSocket :: string
  cf_LEAudioPeerUID :: int
  cf_ClassicProfileMode :: string
  cf_StateFile :: string
  cf_LogFile :: string
  cf_LegacySeenFile :: string
  cf_LegacyMessageLog :: string
  cf_LegacyForwardState :: string
  cf_LegacyOutboundQueue :: string

type_synonym environment = "string \<Rightarrow> string"

definition env :: "environment \<Rightarrow> string \<Rightarrow> string \<Rightarrow> string" where
  "env getenv name fallback = (let v = TrimSpace (getenv name) in if v \<noteq> [] then v else fallback)"

text \<open>Decimal text of an integer, as \<open>strconv.Itoa\<close> and the verb \<open>%d\<close> print it.\<close>

definition Itoa_int :: "int \<Rightarrow> string" where
  "Itoa_int n = (if n < 0 then ''-'' @ Itoa (nat (- n)) else Itoa (nat n))"

definition intEnv :: "environment \<Rightarrow> string \<Rightarrow> int \<Rightarrow> int \<Rightarrow> int \<Rightarrow> string + int" where
  "intEnv getenv name fallback minimum maximum =
     (case Atoi (env getenv name (Itoa_int fallback)) of
        Some v \<Rightarrow> if v < minimum \<or> maximum < v then Inl (name @ '' outside '' @ Itoa_int minimum @ ''..'' @ Itoa_int maximum) else Inr v
      | None \<Rightarrow> Inl (name @ '' outside '' @ Itoa_int minimum @ ''..'' @ Itoa_int maximum))"

definition uint8Env :: "environment \<Rightarrow> string \<Rightarrow> int \<Rightarrow> int \<Rightarrow> int \<Rightarrow> string + byte" where
  "uint8Env getenv name fallback minimum maximum = bindE (intEnv getenv name fallback minimum maximum) (\<lambda>v. Inr (of_int v))"

primrec prefixes_loop :: "string list \<Rightarrow> prefix4 list \<Rightarrow> string + prefix4 list" where
  "prefixes_loop [] result = Inr result"
| "prefixes_loop (item0 # items) result =
     (let item1 = TrimSpace item0 in
      if item1 = [] then prefixes_loop items result
      else let item = (if CHR ''/'' \<in> set item1 then item1 else item1 @ ''/32'') in
        case ParsePrefix4 item of
          None \<Rightarrow> Inl ''invalid OUTBOX_ALLOWED_SOURCES''
        | Some p \<Rightarrow> let m = Masked p in prefixes_loop items (if m \<in> set result then result else result @ [m]))"

definition prefixes :: "string \<Rightarrow> string + prefix4 list" where
  "prefixes raw = prefixes_loop (Split (CHR '','') raw) []"

text \<open>\<open>strings.FieldsFunc\<close> with the two separators gives the parts between them that are not empty.\<close>

definition recipient_fields :: "string \<Rightarrow> string list" where
  "recipient_fields raw = filter (\<lambda>f. f \<noteq> []) (Split (CHR '','') (ReplaceChar (CHR '';'') (CHR '','') raw))"

primrec recipients_loop :: "string list \<Rightarrow> string list \<Rightarrow> string + string list" where
  "recipients_loop [] result = Inr result"
| "recipients_loop (value0 # values) result =
     (let v = TrimSpace value0 in
      if v = [] \<or> v = ''1001'' then recipients_loop values result
      else if 32 < length v \<or> \<not> list_all is_digit v then Inl ''invalid SMS recipient''
      else recipients_loop values (if v \<in> set result then result else result @ [v]))"

definition recipients :: "string \<Rightarrow> string + string list" where
  "recipients raw = recipients_loop (recipient_fields raw) []"

definition addressOf :: "string \<Rightarrow> addr option" where
  "addressOf v = (case SplitHostPort v of None \<Rightarrow> None | Some (host, _) \<Rightarrow> ParseAddr4 host)"

definition validAdapter :: "string \<Rightarrow> bool" where
  "validAdapter v \<longleftrightarrow> HasPrefix v ''hci'' \<and> 4 \<le> length v \<and> length v \<le> 16 \<and> list_all is_digit (drop 3 v)"

text \<open>\<open>ParseBluetoothAddress\<close> keeps the order of the text, \<open>bt.ParseAddress\<close> reverses it.\<close>

definition ParseBluetoothAddress :: "string \<Rightarrow> string + bytes" where
  "ParseBluetoothAddress v =
     (let parts = Split (CHR '':'') v
      in if length parts \<noteq> 6 then Inl ''invalid Bluetooth address''
         else case address_parts parts of Inl _ \<Rightarrow> Inl ''invalid Bluetooth address'' | Inr bs \<Rightarrow> Inr bs)"

definition config_paths :: "config \<Rightarrow> string list" where
  "config_paths c = [cf_AMISecretFile c, cf_StateFile c, cf_LogFile c, cf_LegacySeenFile c, cf_LegacyMessageLog c,
     cf_LegacyForwardState c, cf_LegacyOutboundQueue c, cf_LEAudioSocket c]"

primrec sources_error :: "prefix4 list \<Rightarrow> string option" where
  "sources_error [] = None"
| "sources_error (p # ps) =
     (if IsLoopback (px_addr p) then
        if px_bits p < 8 then Some ''loopback source prefix is too broad'' else sources_error ps
      else if px_bits p \<noteq> 32 then Some ''non-loopback outbox sources must be exact IPv4 addresses''
      else sources_error ps)"

definition Validate :: "config \<Rightarrow> string option" where
  "Validate c =
     (if cf_BluetoothDevice c = [] then Some ''BT_DEVICE is required''
      else case ParseBluetoothAddress (cf_BluetoothDevice c) of Inl e \<Rightarrow> Some e | Inr _ \<Rightarrow>
      if \<not> validAdapter (cf_Adapter c) then Some ''invalid Bluetooth adapter''
      else if cf_MASChannel c < 1 \<or> 30 < cf_MASChannel c \<or> cf_MNSChannel c < 1 \<or> 30 < cf_MNSChannel c then Some ''Bluetooth channel outside 1..30''
      else if cf_MASChannel c = ucast (cf_MNSChannel c) then Some ''MAS and MNS channels must differ''
      else if \<not> (case addressOf (cf_InternalListen c) of None \<Rightarrow> False | Some a \<Rightarrow> IsLoopback a) then Some ''internal API must listen on loopback IPv4''
      else if addressOf (cf_OutboxListen c) = None then Some ''invalid outbox listen address''
      else if \<not> (case addressOf (cf_AMIAddress c) of None \<Rightarrow> False | Some a \<Rightarrow> IsPrivate a \<or> IsLoopback a) then Some ''AMI address must be private IPv4''
      else if \<not> list_all (\<lambda>p. HasPrefix p ''/'' \<and> \<not> ContainsAny p [CHR 0x00, CHR 0x0D, CHR 0x0A]) (config_paths c) then Some ''runtime paths must be absolute''
      else if cf_AMISecretFile c = cf_StateFile c \<or> cf_AMISecretFile c = cf_LogFile c \<or> cf_StateFile c = cf_LogFile c
        then Some ''secret, state, and log paths must differ''
      else if cf_LEAudioMode c \<noteq> ''off'' \<and> cf_LEAudioMode c \<noteq> ''le-canary'' then Some ''LE_AUDIO_MODE must be off or le-canary''
      else if cf_ClassicProfileMode c \<noteq> ClassicProfileNormal \<and> cf_ClassicProfileMode c \<noteq> ClassicProfileIsolated
        then Some ''CLASSIC_PROFILE_MODE must be normal or isolated''
      else if cf_ClassicProfileMode c = ClassicProfileIsolated \<and> cf_LEAudioMode c \<noteq> ''le-canary''
        then Some ''CLASSIC_PROFILE_MODE=isolated requires LE_AUDIO_MODE=le-canary''
      else if cf_LEAudioSocket c = cf_AMISecretFile c \<or> cf_LEAudioSocket c = cf_StateFile c \<or> cf_LEAudioSocket c = cf_LogFile c
        then Some ''LE Audio socket must not overlap persistent paths''
      else if cf_AllowedSources c = [] \<or> cf_Recipients c = [] then Some ''source and recipient allowlists must not be empty''
      else if cf_MediaURL c \<noteq> ''https://mmmsg.acrobits.net/'' then Some ''MEDIA_URL must use the pinned Groundwire media service''
      else if cf_MediaMaxBytes c < 64 * 1024 \<or> 2 * 2 ^ 20 < cf_MediaMaxBytes c \<or> cf_MediaTimeout c < 10 * Second \<or> 120 * Second < cf_MediaTimeout c
        then Some ''media bounds invalid''
      else case sources_error (cf_AllowedSources c) of Some e \<Rightarrow> Some e | None \<Rightarrow>
      if 16 < length (cf_AllowedSources c) \<or> 8 < length (cf_Recipients c) then Some ''source or recipient allowlist exceeds bound''
      else None)"

definition Load :: "environment \<Rightarrow> string + config" where
  "Load getenv =
     bindE (uint8Env getenv ''MAS_CHANNEL'' 0 1 30) (\<lambda>mas.
     bindE (intEnv getenv ''MNS_CHANNEL'' 19 1 30) (\<lambda>mns.
     bindE (intEnv getenv ''MAP_TIMEOUT_SEC'' 15 3 60) (\<lambda>mapSeconds.
     bindE (intEnv getenv ''POLL_INTERVAL_SEC'' 10 5 300) (\<lambda>pollSeconds.
     bindE (intEnv getenv ''KEEPALIVE_SEC'' 60 10 600) (\<lambda>keepaliveSeconds.
     bindE (intEnv getenv ''POLL_MAX_COUNT'' 50 10 500) (\<lambda>pollMax.
     bindE (prefixes (env getenv ''OUTBOX_ALLOWED_SOURCES'' ''127.0.0.0/8'')) (\<lambda>sources.
     bindE (recipients (env getenv ''SMS_RECIPIENTS'' ''1002'')) (\<lambda>to.
     bindE (intEnv getenv ''MEDIA_MAX_BYTES'' (1536 * 1024) (64 * 1024) (2 * 2 ^ 20)) (\<lambda>mediaMax.
     bindE (intEnv getenv ''MEDIA_TIMEOUT_SEC'' 30 10 120) (\<lambda>mediaSeconds.
     bindE (intEnv getenv ''LE_AUDIO_PEER_UID'' 0 0 (2 ^ 31 - 1)) (\<lambda>uid.
       let cfg = \<lparr>
         cf_BluetoothDevice = TrimSpace (getenv ''BT_DEVICE''), cf_Adapter = env getenv ''BT_ADAPTER'' ''hci0'',
         cf_MASChannel = mas, cf_MNSChannel = of_int mns, cf_MAPTimeout = mapSeconds * Second, cf_PollInterval = pollSeconds * Second,
         cf_Keepalive = keepaliveSeconds * Second, cf_PollMaxCount = pollMax,
         cf_InternalListen = env getenv ''INTERNAL_LISTEN'' ''127.0.0.1:8765'', cf_OutboxListen = env getenv ''OUTBOX_LISTEN'' ''0.0.0.0:8788'',
         cf_AllowedSources = sources,
         cf_AMIAddress = JoinHostPort (env getenv ''AMI_HOST'' ''127.0.0.1'') (env getenv ''AMI_PORT'' ''5038''),
         cf_AMIUser = env getenv ''AMI_USER'' ''callbridge'', cf_AMISecretFile = env getenv ''AMI_SECRET_FILE'' ''/etc/callbridge-sms-go/ami-secret'',
         cf_Recipients = to, cf_MediaURL = env getenv ''MEDIA_URL'' ''https://mmmsg.acrobits.net/'', cf_MediaMaxBytes = mediaMax,
         cf_MediaTimeout = mediaSeconds * Second, cf_LEAudioMode = env getenv ''LE_AUDIO_MODE'' ''off'',
         cf_LEAudioSocket = env getenv ''LE_AUDIO_SOCKET'' ''/run/asterisk-leaudio/leaudio.sock'', cf_LEAudioPeerUID = uid,
         cf_ClassicProfileMode = env getenv ''CLASSIC_PROFILE_MODE'' ClassicProfileNormal,
         cf_StateFile = env getenv ''STATE_FILE'' ''/var/log/callbridge_sms_go.state.json'',
         cf_LogFile = env getenv ''LOG_FILE'' ''/var/log/callbridge_sms_go.log'',
         cf_LegacySeenFile = env getenv ''LEGACY_SEEN_FILE'' ''/var/log/callbridge_sms_seen_handles.json'',
         cf_LegacyMessageLog = env getenv ''LEGACY_MESSAGE_LOG'' ''/var/log/callbridge_sms_messages.jsonl'',
         cf_LegacyForwardState = env getenv ''LEGACY_FORWARD_STATE'' ''/var/log/callbridge_sms_forward_to_ami.state'',
         cf_LegacyOutboundQueue = env getenv ''LEGACY_OUTBOUND_QUEUE'' ''/tmp/callbridge_sms_out_queue.jsonl''\<rparr>
       in (case Validate cfg of Some e \<Rightarrow> Inl e | None \<Rightarrow> Inr cfg))))))))))))"

section \<open>What a loaded configuration guarantees\<close>

lemma xor_zero_eq: "(a XOR b :: 'a::len word) = 0 \<Longrightarrow> a = b"
  by (metis xor.assoc xor.left_neutral xor_self_eq xor.right_neutral)

lemma loopback_drop: "IsLoopback a \<longleftrightarrow> (ucast (drop_bit 24 a) :: byte) = 127"
  by (simp add: IsLoopback_def octets_def put_be_def numeral_eq_Suc drop_bit_drop_bit)

text \<open>A prefix of at least eight bits with a loopback address contains only loopback addresses; one of 32 bits only its own.\<close>

lemma contains_loopback: "IsLoopback (px_addr p) \<Longrightarrow> 8 \<le> px_bits p \<Longrightarrow> prefix_Contains p a \<Longrightarrow> IsLoopback a"
proof -
  assume p: "IsLoopback (px_addr p)" "8 \<le> px_bits p" "prefix_Contains p a"
  have "drop_bit 24 (a XOR px_addr p) = drop_bit (24 - (32 - px_bits p)) (drop_bit (32 - px_bits p) (a XOR px_addr p))"
    using p(2) by (simp add: drop_bit_drop_bit)
  moreover have "drop_bit (32 - px_bits p) (a XOR px_addr p) = 0" using p(3) by (simp only: prefix_Contains_def)
  ultimately have "drop_bit 24 (a XOR px_addr p) = 0" by (simp only: drop_bit_of_0)
  then have "drop_bit 24 a XOR drop_bit 24 (px_addr p) = 0" by (simp only: drop_bit_xor)
  then have "drop_bit 24 a = drop_bit 24 (px_addr p)" by (rule xor_zero_eq)
  with p(1) show ?thesis by (simp add: loopback_drop)
qed

lemma contains_exact: "px_bits p = 32 \<Longrightarrow> prefix_Contains p a \<Longrightarrow> a = px_addr p"
  by (simp add: prefix_Contains_def) (rule xor_zero_eq)

definition source_ok :: "prefix4 \<Rightarrow> bool" where
  "source_ok p \<longleftrightarrow> IsLoopback (px_addr p) \<and> 8 \<le> px_bits p \<or> \<not> IsLoopback (px_addr p) \<and> px_bits p = 32"

lemma sources_error_None: "sources_error ps = None \<longleftrightarrow> list_all source_ok ps"
  by (induction ps) (auto simp: source_ok_def)

definition recipient_ok :: "string \<Rightarrow> bool" where
  "recipient_ok r \<longleftrightarrow> r \<noteq> [] \<and> r \<noteq> ''1001'' \<and> length r \<le> 32 \<and> list_all is_digit r"

lemma recipients_loop_ok:
  "recipients_loop vs result = Inr rs \<Longrightarrow> distinct result \<Longrightarrow> list_all recipient_ok result \<Longrightarrow> distinct rs \<and> list_all recipient_ok rs"
proof (induction vs arbitrary: result)
  case (Cons v vs)
  then show ?case by (auto simp: Let_def recipient_ok_def split: if_splits)
qed simp

lemma prefixes_loop_distinct: "prefixes_loop items result = Inr ps \<Longrightarrow> distinct result \<Longrightarrow> distinct ps"
proof (induction items arbitrary: result)
  case (Cons item items)
  then show ?case by (auto simp: Let_def split: if_splits option.splits)
qed simp

lemma intEnv_bounds: "intEnv getenv name d lo hi = Inr v \<Longrightarrow> lo \<le> v \<and> v \<le> hi"
  by (auto simp: intEnv_def split: option.splits if_splits)

text \<open>The conditions of \<open>Validate\<close>, taken apart once: every error is an early return.\<close>

lemma early_returns:
  "((if b then Some e else x) = None) = (\<not> b \<and> x = None)"
  "((case m of Inl e \<Rightarrow> Some e | Inr _ \<Rightarrow> x) = None) = ((\<exists>y. m = Inr y) \<and> x = None)"
  "((case r of Some e \<Rightarrow> Some e | None \<Rightarrow> x) = None) = (r = None \<and> x = None)"
  "(case r of None \<Rightarrow> False | Some a \<Rightarrow> Q a) = (\<exists>a. r = Some a \<and> Q a)"
  by (auto split: sum.splits option.splits)

lemma Validate_None:
  assumes "Validate c = None"
  shows "(\<exists>bs. ParseBluetoothAddress (cf_BluetoothDevice c) = Inr bs)
    \<and> 1 \<le> cf_MASChannel c \<and> cf_MASChannel c \<le> 30 \<and> 1 \<le> cf_MNSChannel c \<and> cf_MNSChannel c \<le> 30 \<and> cf_MASChannel c \<noteq> ucast (cf_MNSChannel c)
    \<and> (\<exists>a. addressOf (cf_InternalListen c) = Some a \<and> IsLoopback a)
    \<and> (\<exists>a. addressOf (cf_AMIAddress c) = Some a \<and> (IsPrivate a \<or> IsLoopback a))
    \<and> cf_AllowedSources c \<noteq> [] \<and> length (cf_AllowedSources c) \<le> 16 \<and> list_all source_ok (cf_AllowedSources c)
    \<and> cf_Recipients c \<noteq> [] \<and> length (cf_Recipients c) \<le> 8
    \<and> (cf_ClassicProfileMode c = ClassicProfileIsolated \<longrightarrow> cf_LEAudioMode c = ''le-canary'')"
  using assms unfolding Validate_def early_returns sources_error_None not_not de_Morgan_disj not_less
  by (elim conjE, intro conjI; (assumption | blast))

lemma ParseBluetoothAddress_ParseAddress:
  "ParseBluetoothAddress v = Inr bs \<Longrightarrow> ParseAddress v = Inr (rev bs)"
  by (auto simp: ParseBluetoothAddress_def ParseAddress_def Let_def split: if_splits sum.splits)

lemma Load_cases:
  assumes "Load getenv = Inr c"
  shows "Validate c = None
    \<and> (\<exists>s. 3 \<le> s \<and> s \<le> 60 \<and> cf_MAPTimeout c = s * Second) \<and> (\<exists>s. 5 \<le> s \<and> s \<le> 300 \<and> cf_PollInterval c = s * Second)
    \<and> (\<exists>s. 10 \<le> s \<and> s \<le> 600 \<and> cf_Keepalive c = s * Second) \<and> 10 \<le> cf_PollMaxCount c \<and> cf_PollMaxCount c \<le> 500
    \<and> 64 * 1024 \<le> cf_MediaMaxBytes c \<and> cf_MediaMaxBytes c \<le> 2 * 2 ^ 20
    \<and> distinct (cf_AllowedSources c) \<and> distinct (cf_Recipients c) \<and> list_all recipient_ok (cf_Recipients c)"
proof -
  obtain mas mns t p k n sources to m mt uid where
    l: "intEnv getenv ''MAP_TIMEOUT_SEC'' 15 3 60 = Inr t" "intEnv getenv ''POLL_INTERVAL_SEC'' 10 5 300 = Inr p"
      "intEnv getenv ''KEEPALIVE_SEC'' 60 10 600 = Inr k" "intEnv getenv ''POLL_MAX_COUNT'' 50 10 500 = Inr n"
      "prefixes (env getenv ''OUTBOX_ALLOWED_SOURCES'' ''127.0.0.0/8'') = Inr sources"
      "recipients (env getenv ''SMS_RECIPIENTS'' ''1002'') = Inr to"
      "intEnv getenv ''MEDIA_MAX_BYTES'' (1536 * 1024) (64 * 1024) (2 * 2 ^ 20) = Inr m"
    and c: "Validate c = None" "cf_MAPTimeout c = t * Second" "cf_PollInterval c = p * Second" "cf_Keepalive c = k * Second"
      "cf_PollMaxCount c = n" "cf_AllowedSources c = sources" "cf_Recipients c = to" "cf_MediaMaxBytes c = m"
    using assms unfolding Load_def bindE_Inr_iff Let_def by (elim exE conjE) (force split: option.splits)
  have "distinct sources" using l(5) prefixes_loop_distinct by (simp add: prefixes_def)
  moreover have "distinct to \<and> list_all recipient_ok to" using l(6) recipients_loop_ok by (fastforce simp: recipients_def)
  ultimately show ?thesis using intEnv_bounds [OF l(1)] intEnv_bounds [OF l(2)] intEnv_bounds [OF l(3)] intEnv_bounds [OF l(4)]
      intEnv_bounds [OF l(7)] c by auto
qed


definition sample_env :: environment where
  "sample_env name = (if name = ''BT_DEVICE'' then ''AA:BB:CC:DD:EE:01'' else if name = ''MAS_CHANNEL'' then ''4'' else [])"

lemma TrimSpace_Nil [simp]: "TrimSpace [] = []"
  using length_TrimSpace [of "[]"] by simp

lemma intEnv_default:
  "TrimSpace (getenv name) = [] \<Longrightarrow> lo \<le> d \<Longrightarrow> d \<le> hi \<Longrightarrow> 0 \<le> d \<Longrightarrow> d < 2 ^ 63 \<Longrightarrow> intEnv getenv name d lo hi = Inr d"
  using Atoi_Itoa [of "nat d"] by (simp add: intEnv_def env_def Itoa_int_def nat_less_iff)

lemma sample_pieces:
  "prefixes ''127.0.0.0/8'' = Inr [\<lparr>px_addr = 0x7F000000, px_bits = 8\<rparr>]"
  "recipients ''1002'' = Inr [''1002'']"
  "addressOf ''127.0.0.1:8765'' = Some 0x7F000001"
  "addressOf ''0.0.0.0:8788'' = Some 0"
  "addressOf ''127.0.0.1:5038'' = Some 0x7F000001"
  "IsLoopback 0x7F000000" "IsLoopback 0x7F000001"
  "ParseBluetoothAddress ''AA:BB:CC:DD:EE:01'' = Inr [0xAA, 0xBB, 0xCC, 0xDD, 0xEE, 1]"
  "validAdapter ''hci0''"
  "TrimSpace ''AA:BB:CC:DD:EE:01'' = ''AA:BB:CC:DD:EE:01''" "TrimSpace ''4'' = ''4''" "Atoi ''4'' = Some 4"
  by code_simp+

lemma sample_load: "\<exists>c. Load sample_env = Inr c \<and> cf_Recipients c = [''1002'']"
proof -
  have e: "env sample_env name d = d" "TrimSpace (sample_env name) = []" if "name \<noteq> ''BT_DEVICE''" "name \<noteq> ''MAS_CHANNEL''" for name d
    using that by (simp_all add: env_def sample_env_def)
  have m: "uint8Env sample_env ''MAS_CHANNEL'' 0 1 30 = Inr 4"
    by (simp add: uint8Env_def intEnv_def env_def sample_env_def sample_pieces)
  have b: "TrimSpace (sample_env ''BT_DEVICE'') = ''AA:BB:CC:DD:EE:01''" by (simp add: sample_env_def sample_pieces)
  have i: "intEnv sample_env name d lo hi = Inr d" if "name \<noteq> ''BT_DEVICE''" "name \<noteq> ''MAS_CHANNEL''" "lo \<le> d" "d \<le> hi" "0 \<le> d" "d < 2 ^ 63"
    for name d lo hi using e(2) [OF that(1,2)] that by (intro intEnv_default) auto
  show ?thesis unfolding Load_def m bindE_simps
    by (simp add: i e b sample_pieces Let_def Validate_def JoinHostPort_def config_paths_def HasPrefix_def ContainsAny_def
        IndexAny_None_iff ClassicProfileNormal_def ClassicProfileIsolated_def)
qed


end
