(* ===== verification/Bridge.thy ===== *)
theory Bridge
  imports State_Store Mns Message Ami Media Sms_Config
begin

text \<open>
  The SMS bridge service (\<open>internal/bridge/service.go\<close> with the counters of \<open>internal/bridge/status.go\<close>): messages that arrive at the phone are
  fetched and handed to the recipients, messages from the recipients are taken from the queue and sent through the phone.

  The interface \<open>mapSession\<close> is the record \<open>map_ops\<close> of its operations over a session; \<open>phone_ops\<close> is the one of theory \<open>Map_Session\<close>. What else
  the service asks of the outside is in \<open>outside\<close>, as a function of the number of questions asked so far: the clock, whether the
  context was cancelled while it slept, the failing step of a save, and the results of the media service and the manager interface. The
  service state has the store with its file, the counters, the deferred media and the ghost list of what was handed out.

  The lemmas: a message is marked, on disk, before any part of it is handed out, so that it is handed out at most
  once; every event is answered; what is taken from the queue is sent once; the loop of a session ends only for the
  reasons the code names.
\<close>

section \<open>Counters\<close>

record bridge_status =
  sa_started :: instant
  sa_registered :: bool
  sa_mnsConnected :: bool
  sa_mapConnected :: bool
  sa_notifications :: bool
  sa_lastPoll :: "instant option"
  sa_inboundConsumed :: uint64
  sa_inboundFailed :: uint64
  sa_outboundConsumed :: uint64
  sa_outboundFailed :: uint64
  sa_droppedMNS :: uint64

definition newStatus :: "instant \<Rightarrow> bridge_status" where
  "newStatus now = \<lparr>sa_started = now, sa_registered = False, sa_mnsConnected = False, sa_mapConnected = False, sa_notifications = False,
     sa_lastPoll = None, sa_inboundConsumed = 0, sa_inboundFailed = 0, sa_outboundConsumed = 0, sa_outboundFailed = 0, sa_droppedMNS = 0\<rparr>"

definition setMNSRegistered :: "bool \<Rightarrow> bridge_status \<Rightarrow> bridge_status" where
  "setMNSRegistered v s = s\<lparr>sa_registered := v\<rparr>"

definition setMNSConnected :: "bool \<Rightarrow> bridge_status \<Rightarrow> bridge_status" where
  "setMNSConnected v s = s\<lparr>sa_mnsConnected := v\<rparr>"

definition setMAP :: "bool \<Rightarrow> bridge_status \<Rightarrow> bridge_status" where
  "setMAP v s = (let s' = s\<lparr>sa_mapConnected := v\<rparr> in if \<not> v then s'\<lparr>sa_notifications := False\<rparr> else s')"

definition setNotifications :: "bool \<Rightarrow> bridge_status \<Rightarrow> bridge_status" where
  "setNotifications v s = s\<lparr>sa_notifications := v\<rparr>"

definition polled :: "instant \<Rightarrow> bridge_status \<Rightarrow> bridge_status" where
  "polled now s = s\<lparr>sa_lastPoll := Some now\<rparr>"

definition inbound :: "bool \<Rightarrow> bridge_status \<Rightarrow> bridge_status" where
  "inbound ok s = (let s' = s\<lparr>sa_inboundConsumed := sa_inboundConsumed s + 1\<rparr>
                   in if \<not> ok then s'\<lparr>sa_inboundFailed := sa_inboundFailed s + 1\<rparr> else s')"

definition status_outbound :: "bool \<Rightarrow> bridge_status \<Rightarrow> bridge_status" where
  "status_outbound ok s = (let s' = s\<lparr>sa_outboundConsumed := sa_outboundConsumed s + 1\<rparr>
                           in if \<not> ok then s'\<lparr>sa_outboundFailed := sa_outboundFailed s + 1\<rparr> else s')"

definition dropped :: "bridge_status \<Rightarrow> bridge_status" where
  "dropped s = s\<lparr>sa_droppedMNS := sa_droppedMNS s + 1\<rparr>"

definition connected :: "bridge_status \<Rightarrow> bool" where
  "connected s \<longleftrightarrow> sa_mapConnected s \<and> sa_notifications s"

section \<open>The service\<close>

record 's map_ops =
  mo_Register :: "bool \<Rightarrow> 's \<Rightarrow> go_error option \<times> 's"
  mo_Keepalive :: "'s \<Rightarrow> go_error option \<times> 's"
  mo_List :: "string \<Rightarrow> int \<Rightarrow> int \<Rightarrow> 's \<Rightarrow> (go_error + listing_message list) outcome \<times> 's"
  mo_Get :: "string \<Rightarrow> string \<Rightarrow> 's \<Rightarrow> (go_error + bytes) outcome \<times> 's"
  mo_Send :: "string \<Rightarrow> string \<Rightarrow> 's \<Rightarrow> go_error option outcome \<times> 's"
  mo_Push :: "string \<Rightarrow> string \<Rightarrow> bool \<Rightarrow> bool \<Rightarrow> 's \<Rightarrow> go_error option outcome \<times> 's"
  mo_Close :: "'s \<Rightarrow> 's"

definition phone_ops :: "(bytes \<Rightarrow> xml_token list \<times> bool) \<Rightarrow> map_session map_ops" where
  "phone_ops xml = \<lparr>mo_Register = RegisterNotifications, mo_Keepalive = Keepalive, mo_List = ListMessages xml, mo_Get = GetMessage,
     mo_Send = SendSMS, mo_Push = PushBMessage, mo_Close = (\<lambda>s. snd (Close_session s))\<rparr>"

datatype bridge_error = Map_error go_error | State_error store_error | Context_error | Input_refused

datatype commandKind = commandList | commandGet | commandRaw | commandUnknown

record mapCommand =
  mk_cancelled :: bool
  mk_kind :: commandKind
  mk_folder :: string
  mk_handle :: string
  mk_maximum :: int
  mk_offset :: int
  mk_body :: string
  mk_transparent :: bool
  mk_retry :: bool

record commandResponse =
  cr_listing :: "listing_message list"
  cr_message :: "sms_message option"
  cr_err :: "bridge_error option"

record sipDelivery =
  sd_body :: string
  sd_contentType :: string
  sd_mediaIndex :: int

record mediaRetry =
  mr_attempts :: nat
  mr_next :: instant

text \<open>
  What was handed out: a part of a message to a recipient, with the number of the mark it belongs to, the sender, the position
  of the part, the action identifier and whether the manager accepted it; or a queued message to the phone.
\<close>

datatype handed =
    Sip (hd_mark: nat) (hd_handle: string) (hd_sender: string) (hd_recipient: string) (hd_part: nat) (hd_delivery: sipDelivery) (hd_action: string) (hd_ok: bool)
  | Sms outbound bool

record outside =
  ou_encoded :: "diskState \<Rightarrow> nat"
  ou_now :: "nat \<Rightarrow> instant"
  ou_cancelled :: "nat \<Rightarrow> bool"
  ou_fault :: "nat \<Rightarrow> save_step option"
  ou_media :: "nat \<Rightarrow> media_world"
  ou_manager :: "nat \<Rightarrow> ami_world"
  ou_random :: "nat \<Rightarrow> bytes option"
  ou_json :: "json \<Rightarrow> string option"
  ou_mime :: mime_library
  ou_rfc3339 :: "string \<Rightarrow> kst_time option"

record 's service =
  sb_cfg :: config
  sb_ami :: ami_client
  sb_media :: media_client
  sb_session :: 's
  sb_store :: sms_store
  sb_file :: "state_file option"
  sb_status :: bridge_status
  sb_mediaRetries :: "(string, mediaRetry) gomap"
  sb_wake :: bool
  sb_asked :: nat
  sb_marked :: "string list"
  sb_handed :: "handed list"

text \<open>Every question to the outside is counted.\<close>

definition ask :: "'s service \<Rightarrow> 's service" where
  "ask s = s\<lparr>sb_asked := Suc (sb_asked s)\<rparr>"

definition on_status :: "(bridge_status \<Rightarrow> bridge_status) \<Rightarrow> 's service \<Rightarrow> 's service" where
  "on_status f s = s\<lparr>sb_status := f (sb_status s)\<rparr>"

definition with_session :: "'s \<Rightarrow> 's service \<Rightarrow> 's service" where
  "with_session ses s = s\<lparr>sb_session := ses\<rparr>"

text \<open>\<open>MarkSeenMany\<close> of the service's store; the handles it adds are noted in \<open>sb_marked\<close>.\<close>

definition new_handles :: "string list \<Rightarrow> sms_store \<Rightarrow> string list" where
  "new_handles hs st = (let order = ds_SeenHandles (st_data st) in drop (length order) (firsts (order @ hs)))"

definition mark_seen :: "outside \<Rightarrow> string list \<Rightarrow> 's service \<Rightarrow> store_error option \<times> 's service" where
  "mark_seen w handles s =
     (case MarkSeenMany (ou_encoded w) (ou_fault w (sb_asked s)) handles (sb_store s) (sb_file s) of
        (e, _, st, file') \<Rightarrow>
          (e, (ask s)\<lparr>sb_store := st, sb_file := file',
                 sb_marked := sb_marked s @ (if e = None then new_handles handles (sb_store s) else [])\<rparr>))"

text \<open>The early returns of \<open>processEvent\<close> that consume an event without a delivery: mark it, count a failure.\<close>

definition consume :: "outside \<Rightarrow> string \<Rightarrow> 's service \<Rightarrow> bridge_error option \<times> 's service" where
  "consume w hnd s =
     (case mark_seen w [hnd] s of
        (Some e, s') \<Rightarrow> (Some (State_error e), s')
      | (None, s') \<Rightarrow> (None, on_status (inbound False) s'))"

definition fetchDelays :: "duration list" where
  "fetchDelays = [Second, 2 * Second, 3 * Second, 5 * Second]"

datatype fetched = Fetched bytes | Fetch_failed go_error | Fetch_cancelled | Fetch_panicked

primrec fetch :: "'s map_ops \<Rightarrow> outside \<Rightarrow> string \<Rightarrow> string \<Rightarrow> duration list \<Rightarrow> fetched \<Rightarrow> 's service \<Rightarrow> fetched \<times> 's service" where
  "fetch ops w folder hnd [] last_result s = (last_result, s)"
| "fetch ops w folder hnd (delay # delays) last_result s =
     (if ou_cancelled w (sb_asked s) then (Fetch_cancelled, ask s)
      else case mo_Get ops folder hnd (sb_session s) of
        (Panicked, ses) \<Rightarrow> (Fetch_panicked, with_session ses (ask s))
      | (Returned (Inr raw), ses) \<Rightarrow> (Fetched raw, with_session ses (ask s))
      | (Returned (Inl e), ses) \<Rightarrow> fetch ops w folder hnd delays (Fetch_failed e) (with_session ses (ask s)))"

definition deferDelays :: "duration list" where
  "deferDelays = [30 * Second, 2 * 60 * Second, 10 * 60 * Second, 30 * 60 * Second, 60 * 60 * Second]"

definition deferMedia :: "outside \<Rightarrow> string \<Rightarrow> 's service \<Rightarrow> duration \<times> 's service" where
  "deferMedia w hnd s =
     (let retry = (case go_get (sb_mediaRetries s) hnd of Some r \<Rightarrow> r | None \<Rightarrow> \<lparr>mr_attempts = 0, mr_next = 0\<rparr>);
          attempts = Suc (mr_attempts retry);
          index = (if length deferDelays \<le> attempts - 1 then length deferDelays - 1 else attempts - 1);
          delay = deferDelays ! index
      in (delay, (ask s)\<lparr>sb_mediaRetries := go_put hnd \<lparr>mr_attempts = attempts, mr_next = ou_now w (sb_asked s) + delay\<rparr> (sb_mediaRetries s)\<rparr>))"

text \<open>The uploads in order; \<open>None\<close> at the first that fails.\<close>

primrec upload_all :: "outside \<Rightarrow> attachment list \<Rightarrow> 's service \<Rightarrow> media_descriptor list option \<times> 's service" where
  "upload_all w [] s = (Some [], s)"
| "upload_all w (a # as) s =
     (case fst (Upload (sb_media s) (ou_media w (sb_asked s)) a) of
        Inl _ \<Rightarrow> (None, ask s)
      | Inr d \<Rightarrow> (case upload_all w as (ask s) of (ds, s') \<Rightarrow> (map_option ((#) d) ds, s')))"

text \<open>The signals for the descriptors, the first with the caption where it fits; \<open>None\<close> when one is too long without it.\<close>

definition fitting :: "string option \<Rightarrow> bool" where
  "fitting signal \<longleftrightarrow> (case signal of Some t \<Rightarrow> length t \<le> MaxBodyBytes | None \<Rightarrow> False)"

definition signal_for :: "outside \<Rightarrow> string \<Rightarrow> media_descriptor \<Rightarrow> string option \<times> string" where
  "signal_for w caption d =
     (let signal = MarshalSignal (ou_json w) caption d
      in if fitting signal then (signal, caption) else (MarshalSignal (ou_json w) [] d, []))"

primrec signals :: "outside \<Rightarrow> string \<Rightarrow> nat \<Rightarrow> media_descriptor list \<Rightarrow> (sipDelivery list \<times> bool) option" where
  "signals w clean index [] = Some ([], False)"
| "signals w clean index (d # ds) =
     (case signal_for w (if index = 0 then clean else []) d of (signal, caption) \<Rightarrow>
        if \<not> fitting signal then None
        else case signals w clean (Suc index) ds of
          None \<Rightarrow> None
        | Some (rest, included) \<Rightarrow>
            Some (\<lparr>sd_body = the signal, sd_contentType = SignalContentType, sd_mediaIndex = int index\<rparr> # rest, caption \<noteq> [] \<or> included))"

definition text_deliveries :: "string list \<Rightarrow> sipDelivery list" where
  "text_deliveries parts = map (\<lambda>p. \<lparr>sd_body = p, sd_contentType = ''text/plain'', sd_mediaIndex = -1\<rparr>) parts"

definition action_digest :: "string \<Rightarrow> string \<Rightarrow> string \<Rightarrow> nat \<Rightarrow> string" where
  "action_digest kind hnd recipient part =
     EncodeToString (take 20 (Sum256 (bytes_of (kind @ [CHR 0x00] @ hnd @ [CHR 0x00] @ recipient @ [CHR 0x00] @ Itoa part))))"

definition deliveryActionID :: "string \<Rightarrow> string \<Rightarrow> nat \<Rightarrow> string" where
  "deliveryActionID hnd recipient part = ''smsv3-'' @ action_digest ''chunk-v1'' hnd recipient part"

definition mediaDeliveryActionID :: "string \<Rightarrow> string \<Rightarrow> nat \<Rightarrow> string" where
  "mediaDeliveryActionID hnd recipient part = ''mmsv1-'' @ action_digest ''media-v1'' hnd recipient part"

text \<open>One delivery: its action identifier, the call of \<open>SendMessage\<close> and the note of what was handed out.\<close>

definition send_one :: "outside \<Rightarrow> nat \<Rightarrow> string \<Rightarrow> string \<Rightarrow> string \<Rightarrow> nat \<Rightarrow> nat \<Rightarrow> sipDelivery \<Rightarrow> 's service \<Rightarrow> bool \<times> 's service" where
  "send_one w mark hnd sender recipient part textIndex d s =
     (let actionID = (if 0 \<le> sd_mediaIndex d then mediaDeliveryActionID hnd recipient (nat (sd_mediaIndex d))
                      else deliveryActionID hnd recipient textIndex);
          ok = (fst (SendMessage (sb_ami s) (ou_manager w (sb_asked s)) recipient sender (sd_body d) (sd_contentType d) actionID) = None)
      in (ok, (ask s)\<lparr>sb_handed := sb_handed s @ [Sip mark hnd sender recipient part d actionID ok]\<rparr>))"

text \<open>The deliveries to one recipient, up to the first that fails.\<close>

primrec send_all :: "outside \<Rightarrow> nat \<Rightarrow> string \<Rightarrow> string \<Rightarrow> string \<Rightarrow> nat \<Rightarrow> nat \<Rightarrow> sipDelivery list \<Rightarrow> 's service \<Rightarrow> bool \<times> 's service" where
  "send_all w mark hnd sender recipient part textIndex [] s = (True, s)"
| "send_all w mark hnd sender recipient part textIndex (d # ds) s =
     (case send_one w mark hnd sender recipient part textIndex d s of (ok, s') \<Rightarrow>
        if \<not> ok then (False, s')
        else send_all w mark hnd sender recipient (Suc part) (if 0 \<le> sd_mediaIndex d then textIndex else Suc textIndex) ds s')"

primrec send_recipients :: "outside \<Rightarrow> nat \<Rightarrow> string \<Rightarrow> string \<Rightarrow> sipDelivery list \<Rightarrow> string list \<Rightarrow> 's service \<Rightarrow> bool \<times> 's service" where
  "send_recipients w mark hnd sender ds [] s = (True, s)"
| "send_recipients w mark hnd sender ds (r # rs) s =
     (case send_all w mark hnd sender r 0 0 ds s of (ok, s') \<Rightarrow>
      case send_recipients w mark hnd sender ds rs s' of (ok', s'') \<Rightarrow> (ok \<and> ok', s''))"

text \<open>\<open>processEvent\<close> after the uploads: the deliveries, the mark, and only then the sending.\<close>

definition hand_out :: "outside \<Rightarrow> string \<Rightarrow> string \<Rightarrow> sipDelivery list \<Rightarrow> 's service \<Rightarrow> bridge_error option \<times> 's service" where
  "hand_out w hnd sender deliveries s =
     (if deliveries = [] then consume w hnd s
      else case mark_seen w [hnd] s of
        (Some e, s') \<Rightarrow> (Some (State_error e), s')
      | (None, s') \<Rightarrow>
          (case send_recipients w (length (sb_marked s)) hnd sender deliveries (cf_Recipients (sb_cfg s)) s' of
             (delivered, s'') \<Rightarrow> (None, on_status (inbound delivered) s'')))"

definition clean_text :: "event \<Rightarrow> sms_message \<Rightarrow> string" where
  "clean_text event parsed =
     (if \<not> EqualFoldASCII (ev_MessageType event) ''MMS'' then StripMMSEnvelope (sm_Body parsed) (ev_MessageType event) else sm_Body parsed)"

definition text_parts :: "outside \<Rightarrow> event \<Rightarrow> string \<Rightarrow> string list" where
  "text_parts w event clean = (if clean \<noteq> [] then VisibleParts (ou_rfc3339 w) clean (ev_DateTime event) else [])"

text \<open>\<open>processEvent\<close> from the point where the message is fetched and parsed.\<close>

definition deliver :: "outside \<Rightarrow> event \<Rightarrow> sms_message \<Rightarrow> 's service \<Rightarrow> bridge_error option \<times> 's service" where
  "deliver w event parsed s =
     (let hnd = ev_Handle event; clean = clean_text event parsed; parts = text_parts w event clean in
      if sm_Body parsed = [] \<and> sm_Attachments parsed = [] then consume w hnd s
      else if MaxSIPParts < length parts then consume w hnd s
      else case upload_all w (sm_Attachments parsed) s of
        (None, s1) \<Rightarrow> (None, snd (deferMedia w hnd s1))
      | (Some descriptors, s1) \<Rightarrow>
          let s2 = s1\<lparr>sb_mediaRetries := go_delete hnd (sb_mediaRetries s1)\<rparr> in
          (case signals w clean 0 descriptors of
             None \<Rightarrow> consume w hnd s2
           | Some (sigs, captionIncluded) \<Rightarrow>
               hand_out w hnd (NormalizeSender (sm_SenderNumber parsed)) (sigs @ (if \<not> captionIncluded then text_deliveries parts else [])) s2))"

definition event_folder :: "event \<Rightarrow> string" where
  "event_folder event = (if ev_Folder event = [] \<or> \<not> HasPrefix (ev_Folder event) ''telecom/msg/'' then ''telecom/msg/inbox'' else ev_Folder event)"

definition deferred :: "outside \<Rightarrow> string \<Rightarrow> 's service \<Rightarrow> bool" where
  "deferred w hnd s \<longleftrightarrow>
     (case go_get (sb_mediaRetries s) hnd of Some retry \<Rightarrow> ou_now w (sb_asked s) < mr_next retry | None \<Rightarrow> False)"

definition parse_event :: "outside \<Rightarrow> config \<Rightarrow> event \<Rightarrow> bytes \<Rightarrow> sms_message option" where
  "parse_event w cfg event raw =
     (let parsed = ParseBMessage raw in
      if EqualFoldASCII (ev_MessageType event) ''MMS''
      then (case ParseMMS (ou_mime w) parsed (cf_MediaMaxBytes cfg) of Inl _ \<Rightarrow> None | Inr m \<Rightarrow> Some m)
      else Some parsed)"

definition processEvent :: "'s map_ops \<Rightarrow> outside \<Rightarrow> event \<Rightarrow> 's service \<Rightarrow> bridge_error option outcome \<times> 's service" where
  "processEvent ops w event s =
     (let hnd = ev_Handle event in
      if ev_EventType event \<noteq> ''NewMessage'' \<or> hnd = [] \<or> HasSeen hnd (sb_store s) then (Returned None, s)
      else if deferred w hnd s then (Returned None, ask s)
      else case fetch ops w (event_folder event) hnd fetchDelays (Fetched []) (ask s) of
        (Fetch_panicked, s1) \<Rightarrow> (Panicked, s1)
      | (Fetch_cancelled, s1) \<Rightarrow> (Returned (Some Context_error), s1)
      | (Fetch_failed e, s1) \<Rightarrow>
          (case consume w hnd s1 of
             (Some err, s2) \<Rightarrow> (Returned (Some err), s2)
           | (None, s2) \<Rightarrow> (Returned (if IsTransportError (Some e) then Some (Map_error e) else None), s2))
      | (Fetched raw, s1) \<Rightarrow>
          (case (case parse_event w (sb_cfg s) event raw of None \<Rightarrow> consume w hnd s1 | Some parsed \<Rightarrow> deliver w event parsed s1) of
             (r, s2) \<Rightarrow> (Returned r, s2)))"

section \<open>The other operations\<close>

definition supportedType :: "string \<Rightarrow> bool" where
  "supportedType v \<longleftrightarrow> v = [] \<or> v = ''SMS_GSM'' \<or> v = ''SMS_CDMA'' \<or> v = ''MMS''"

definition defaultType :: "string \<Rightarrow> string" where
  "defaultType v = (if v = [] then ''SMS_GSM'' else v)"

definition poll_event :: "listing_message \<Rightarrow> event" where
  "poll_event item = \<lparr>ev_EventType = ''NewMessage'', ev_Handle = lm_Handle item, ev_Folder = ''telecom/msg/inbox'',
     ev_MessageType = defaultType (lm_Type item), ev_DateTime = lm_DateTime item, ev_Source = ''poll''\<rparr>"

text \<open>The loop of \<open>poll\<close>, over the listing from its end.\<close>

primrec poll_items :: "'s map_ops \<Rightarrow> outside \<Rightarrow> listing_message list \<Rightarrow> 's service \<Rightarrow> bridge_error option outcome \<times> 's service" where
  "poll_items ops w [] s = (Returned None, s)"
| "poll_items ops w (item # items) s =
     (if HasSeen (lm_Handle item) (sb_store s) \<or> \<not> supportedType (lm_Type item) then poll_items ops w items s
      else case processEvent ops w (poll_event item) s of
        (Returned None, s') \<Rightarrow> poll_items ops w items s'
      | (r, s') \<Rightarrow> (r, s'))"

definition poll :: "'s map_ops \<Rightarrow> outside \<Rightarrow> 's service \<Rightarrow> bridge_error option outcome \<times> 's service" where
  "poll ops w s =
     (case mo_List ops ''telecom/msg/inbox'' (cf_PollMaxCount (sb_cfg s)) 0 (sb_session s) of
        (Panicked, ses) \<Rightarrow> (Panicked, with_session ses s)
      | (Returned (Inl e), ses) \<Rightarrow> (Returned (Some (Map_error e)), with_session ses s)
      | (Returned (Inr items), ses) \<Rightarrow>
          poll_items ops w (rev items) (on_status (polled (ou_now w (sb_asked s))) (ask (with_session ses s))))"

definition set_initialized :: "outside \<Rightarrow> 's service \<Rightarrow> store_error option \<times> 's service" where
  "set_initialized w s =
     (case SetInitialized (ou_encoded w) (ou_fault w (sb_asked s)) (sb_store s) (sb_file s) of
        (e, _, st, file') \<Rightarrow> (e, (ask s)\<lparr>sb_store := st, sb_file := file'\<rparr>))"

definition bootstrap :: "'s map_ops \<Rightarrow> outside \<Rightarrow> 's service \<Rightarrow> bridge_error option outcome \<times> 's service" where
  "bootstrap ops w s =
     (if IsInitialized (sb_store s) then (Returned None, s)
      else case mo_List ops ''telecom/msg/inbox'' (cf_PollMaxCount (sb_cfg s)) 0 (sb_session s) of
        (Panicked, ses) \<Rightarrow> (Panicked, with_session ses s)
      | (Returned (Inl e), ses) \<Rightarrow> (Returned (Some (Map_error e)), with_session ses s)
      | (Returned (Inr items), ses) \<Rightarrow>
          (case mark_seen w (map lm_Handle items) (with_session ses s) of
             (Some e, s1) \<Rightarrow> (Returned (Some (State_error e)), s1)
           | (None, s1) \<Rightarrow> (case set_initialized w s1 of (e, s2) \<Rightarrow> (Returned (map_option State_error e), s2))))"

definition take_outbound :: "outside \<Rightarrow> 's service \<Rightarrow> (store_error + outbound option) \<times> 's service" where
  "take_outbound w s =
     (case TakeOutbound (ou_encoded w) (ou_fault w (sb_asked s)) (sb_store s) (sb_file s) of
        (r, _, st, file') \<Rightarrow> (r, (ask s)\<lparr>sb_store := st, sb_file := file'\<rparr>))"

abbreviation queue_of :: "'s service \<Rightarrow> outbound list" where
  "queue_of s \<equiv> ds_Outbound (st_data (sb_store s))"

lemma take_outbound_shorter:
  "take_outbound w s = (Inr (Some item), s') \<Longrightarrow> length (queue_of s') < length (queue_of s)"
  by (auto simp: take_outbound_def TakeOutbound_def Let_def split: list.splits option.splits prod.splits)

definition send_outbound :: "'s map_ops \<Rightarrow> outbound \<Rightarrow> 's service \<Rightarrow> go_error option outcome \<times> 's service" where
  "send_outbound ops item s =
     (case mo_Send ops (ob_To item) (ob_Text item) (sb_session s) of
        (Panicked, ses) \<Rightarrow> (Panicked, with_session ses s)
      | (Returned e, ses) \<Rightarrow>
          (Returned e, on_status (status_outbound (e = None)) (with_session ses s\<lparr>sb_handed := sb_handed s @ [Sms item (e = None)]\<rparr>)))"

lemma queue_send_outbound: "send_outbound ops item s = (r, s') \<Longrightarrow> sb_store s' = sb_store s \<and> sb_file s' = sb_file s \<and> sb_marked s' = sb_marked s"
  by (auto simp: send_outbound_def with_session_def on_status_def split: prod.splits outcome.splits)

lemma drain_shorter:
  "take_outbound w s = (Inr (Some item), s1) \<Longrightarrow> send_outbound ops item s1 = (r, s2) \<Longrightarrow> length (queue_of s2) < length (queue_of s)"
  using take_outbound_shorter queue_send_outbound by metis

function drainOutbound :: "'s map_ops \<Rightarrow> outside \<Rightarrow> 's service \<Rightarrow> bridge_error option outcome \<times> 's service" where
  "drainOutbound ops w s =
     (case take_outbound w s of
        (Inl e, s1) \<Rightarrow> (Returned (Some (State_error e)), s1)
      | (Inr None, s1) \<Rightarrow> (Returned None, s1)
      | (Inr (Some item), s1) \<Rightarrow>
          (case send_outbound ops item s1 of
             (Panicked, s2) \<Rightarrow> (Panicked, s2)
           | (Returned (Some e), s2) \<Rightarrow> (Returned (Some (Map_error e)), s2)
           | (Returned None, s2) \<Rightarrow> drainOutbound ops w s2))"
  by auto
termination by (relation "measure (\<lambda>(_, _, s). length (queue_of s))") (simp, simp, metis drain_shorter)

declare drainOutbound.simps [simp del]

definition no_response :: commandResponse where
  "no_response = \<lparr>cr_listing = [], cr_message = None, cr_err = None\<rparr>"

definition run_command :: "'s map_ops \<Rightarrow> mapCommand \<Rightarrow> 's \<Rightarrow> (commandResponse \<times> go_error option) outcome \<times> 's" where
  "run_command ops c ses =
     (case mk_kind c of
        commandList \<Rightarrow> (case mo_List ops (mk_folder c) (mk_maximum c) (mk_offset c) ses of
            (Panicked, ses') \<Rightarrow> (Panicked, ses')
          | (Returned (Inr items), ses') \<Rightarrow> (Returned (no_response\<lparr>cr_listing := items\<rparr>, None), ses')
          | (Returned (Inl e), ses') \<Rightarrow> (Returned (no_response\<lparr>cr_err := Some (Map_error e)\<rparr>, Some e), ses'))
      | commandGet \<Rightarrow> (case mo_Get ops (mk_folder c) (mk_handle c) ses of
            (Panicked, ses') \<Rightarrow> (Panicked, ses')
          | (Returned (Inr raw), ses') \<Rightarrow> (Returned (no_response\<lparr>cr_message := Some (ParseBMessage raw)\<rparr>, None), ses')
          | (Returned (Inl e), ses') \<Rightarrow> (Returned (no_response\<lparr>cr_err := Some (Map_error e)\<rparr>, Some e), ses'))
      | commandRaw \<Rightarrow> (case mo_Push ops (mk_folder c) (mk_body c) (mk_transparent c) (mk_retry c) ses of
            (Panicked, ses') \<Rightarrow> (Panicked, ses')
          | (Returned e, ses') \<Rightarrow> (Returned (no_response\<lparr>cr_err := map_option Map_error e\<rparr>, e), ses'))
      | commandUnknown \<Rightarrow> (Returned (no_response\<lparr>cr_err := Some Input_refused\<rparr>, None), ses))"

definition executeCommand :: "'s map_ops \<Rightarrow> mapCommand \<Rightarrow> 's service \<Rightarrow> (bridge_error option \<times> commandResponse option) outcome \<times> 's service" where
  "executeCommand ops c s =
     (if mk_cancelled c then (Returned (None, None), s)
      else case run_command ops c (sb_session s) of
        (Panicked, ses) \<Rightarrow> (Panicked, with_session ses s)
      | (Returned (response, err), ses) \<Rightarrow>
          (Returned (if IsTransportError err then map_option Map_error err else None, Some response), with_session ses s))"

definition enqueue :: "outside \<Rightarrow> string \<Rightarrow> string \<Rightarrow> 's service \<Rightarrow> bridge_error option \<times> 's service" where
  "enqueue w to0 body s =
     (case NormalizeDestination to0 of
        Inl _ \<Rightarrow> (Some Input_refused, s)
      | Inr to \<Rightarrow>
          if TrimSpace body = [] \<or> 16 * 1024 < length body then (Some Input_refused, s)
          else case ou_random w (sb_asked s) of
            None \<Rightarrow> (Some Input_refused, ask s)
          | Some ident \<Rightarrow>
              let item = \<lparr>ob_ID = EncodeToString ident, ob_To = to, ob_Text = body, ob_QueuedAt = ou_now w (sb_asked s)\<rparr> in
              (case AddOutbound (ou_encoded w) (ou_fault w (sb_asked s)) item (sb_store s) (sb_file s) of
                 (Some e, _, st, file') \<Rightarrow> (Some (State_error e), (ask s)\<lparr>sb_store := st, sb_file := file'\<rparr>)
               | (None, _, st, file') \<Rightarrow> (None, (ask s)\<lparr>sb_store := st, sb_file := file', sb_wake := True\<rparr>)))"

section \<open>The loops\<close>

text \<open>What the \<open>select\<close> of \<open>runConnected\<close> may find ready.\<close>

datatype choice = Ctx_done | Event_in event | Wake | Command_in mapCommand | Poll_tick | Keepalive_tick

text \<open>One round of the loop: \<open>Some\<close> with the result when \<open>runConnected\<close> returns.\<close>

definition continue_unless :: "bridge_error option outcome \<Rightarrow> bridge_error option outcome option" where
  "continue_unless r = (case r of Returned None \<Rightarrow> None | _ \<Rightarrow> Some r)"

fun serve_choice :: "'s map_ops \<Rightarrow> outside \<Rightarrow> choice \<Rightarrow> 's service \<Rightarrow> bridge_error option outcome option \<times> 's service" where
  "serve_choice ops w Ctx_done s = (Some (Returned None), s)"
| "serve_choice ops w (Event_in event) s = (case processEvent ops w event s of (r, s') \<Rightarrow> (continue_unless r, s'))"
| "serve_choice ops w Wake s = (case drainOutbound ops w (s\<lparr>sb_wake := False\<rparr>) of (r, s') \<Rightarrow> (continue_unless r, s'))"
| "serve_choice ops w (Command_in c) s =
     (case executeCommand ops c s of
        (Panicked, s') \<Rightarrow> (Some Panicked, s')
      | (Returned (e, _), s') \<Rightarrow> (continue_unless (Returned e), s'))"
| "serve_choice ops w Poll_tick s =
     (case poll ops w s of
        (Returned (Some (Map_error e)), s') \<Rightarrow> (if IsTransportError (Some e) then Some (Returned (Some (Map_error e))) else None, s')
      | (Panicked, s') \<Rightarrow> (Some Panicked, s')
      | (Returned _, s') \<Rightarrow> (None, s'))"
| "serve_choice ops w Keepalive_tick s =
     (case mo_Keepalive ops (sb_session s) of (e, ses) \<Rightarrow> (continue_unless (Returned (map_option Map_error e)), with_session ses s))"

primrec run_choices :: "'s map_ops \<Rightarrow> outside \<Rightarrow> choice list \<Rightarrow> 's service \<Rightarrow> bridge_error option outcome option \<times> 's service" where
  "run_choices ops w [] s = (None, s)"
| "run_choices ops w (c # cs) s =
     (case serve_choice ops w c s of (Some r, s') \<Rightarrow> (Some r, s') | (None, s') \<Rightarrow> run_choices ops w cs s')"

definition runConnected :: "'s map_ops \<Rightarrow> outside \<Rightarrow> choice list \<Rightarrow> 's service \<Rightarrow> bridge_error option outcome option \<times> 's service" where
  "runConnected ops w cs s =
     (case drainOutbound ops w s of
        (Returned None, s') \<Rightarrow> run_choices ops w cs s'
      | (r, s') \<Rightarrow> (Some r, s'))"

definition nextBackoff :: "duration \<Rightarrow> duration" where
  "nextBackoff v = (if 30 * Second < v * 2 then 30 * Second else v * 2)"

text \<open>
  One round of \<open>mapLoop\<close> with the answer to \<open>connect\<close> and what the loop of the session finds ready: the time to wait before the next
  round and the backoff after it; \<open>None\<close> when the process panicked or the session still runs.
\<close>

definition end_session :: "'s map_ops \<Rightarrow> 's service \<Rightarrow> 's service" where
  "end_session ops s = with_session (mo_Close ops (sb_session s)) (on_status (setMAP False) s)"

definition map_round :: "'s map_ops \<Rightarrow> outside \<Rightarrow> (go_error + 's) \<Rightarrow> choice list \<Rightarrow> duration \<Rightarrow> 's service
    \<Rightarrow> (duration \<times> duration) option \<times> 's service" where
  "map_round ops w connect cs backoff s =
     (case connect of
        Inl _ \<Rightarrow> (Some (backoff, nextBackoff backoff), s)
      | Inr ses0 \<Rightarrow>
          (case mo_Register ops True ses0 of
             (Some _, ses) \<Rightarrow> (Some (backoff, nextBackoff backoff), end_session ops (with_session ses (on_status (setMAP True) s)))
           | (None, ses) \<Rightarrow>
               (let s1 = on_status (setNotifications True) (with_session ses (on_status (setMAP True) s)) in
                (case bootstrap ops w s1 of
                   (Panicked, s2) \<Rightarrow> (None, s2)
                 | (Returned (Some _), s2) \<Rightarrow> (Some (Second, nextBackoff Second), end_session ops s2)
                 | (Returned None, s2) \<Rightarrow>
                     (case runConnected ops w cs s2 of
                        (Some (Returned _), s3) \<Rightarrow> (Some (Second, nextBackoff Second), end_session ops s3)
                      | (_, s3) \<Rightarrow> (None, s3))))))"

text \<open>\<open>mapLoop\<close> over the rounds: the waits between them.\<close>

primrec mapLoop :: "'s map_ops \<Rightarrow> outside \<Rightarrow> ((go_error + 's) \<times> choice list) list \<Rightarrow> duration \<Rightarrow> 's service \<Rightarrow> duration list \<times> 's service" where
  "mapLoop ops w [] backoff s = ([], s)"
| "mapLoop ops w (round # rounds) backoff s =
     (case map_round ops w (fst round) (snd round) backoff s of
        (None, s') \<Rightarrow> ([], s')
      | (Some (wait, backoff'), s') \<Rightarrow> (case mapLoop ops w rounds backoff' s' of (waits, s'') \<Rightarrow> (wait # waits, s'')))"

section \<open>What an operation leaves alone\<close>

definition books :: "'s service \<Rightarrow> config \<times> sms_store \<times> state_file option \<times> string list \<times> handed list" where
  "books s = (sb_cfg s, sb_store s, sb_file s, sb_marked s, sb_handed s)"

lemma books_simps [simp]:
  "books (ask s) = books s" "books (on_status f s) = books s" "books (with_session ses s) = books s"
  "books (s\<lparr>sb_mediaRetries := m\<rparr>) = books s" "books (snd (deferMedia w hnd s)) = books s"
  by (simp_all add: books_def ask_def on_status_def with_session_def deferMedia_def Let_def)

lemma books_fields:
  "books s' = books s \<Longrightarrow> sb_cfg s' = sb_cfg s \<and> sb_store s' = sb_store s \<and> sb_file s' = sb_file s \<and> sb_marked s' = sb_marked s \<and> sb_handed s' = sb_handed s"
  by (simp add: books_def)

lemma books_fetch: "fetch ops w folder hnd ds last_result s = (r, s') \<Longrightarrow> books s' = books s"
  by (induction ds arbitrary: last_result s) (auto split: if_splits prod.splits outcome.splits sum.splits)

lemma books_upload_all: "upload_all w as s = (r, s') \<Longrightarrow> books s' = books s"
  by (induction as arbitrary: s r s') (auto split: sum.splits prod.splits)

section \<open>Marks\<close>

text \<open>The newest handles of the marks are what the store knows; a repetition is more than its bound apart.\<close>

definition spaced :: "string list \<Rightarrow> bool" where
  "spaced marks \<longleftrightarrow> (\<forall>i j. i < j \<longrightarrow> j < length marks \<longrightarrow> marks ! i = marks ! j \<longrightarrow> maximumSeenHandles < j - i)"

lemma newest_append: "newest (newest xs @ ys) = newest (xs @ ys)"
  by (cases "length xs \<le> maximumSeenHandles") (auto simp: newest_def add.commute)

lemma in_newest: "i < length xs \<Longrightarrow> length xs - maximumSeenHandles \<le> i \<Longrightarrow> xs ! i \<in> set (newest xs)"
  using nth_mem [of "i - (length xs - maximumSeenHandles)" "newest xs"] by (simp add: newest_def)

lemma spaced_append:
  assumes "spaced marks" "distinct new" "set new \<inter> set (newest marks) = {}"
  shows "spaced (marks @ new)"
  unfolding spaced_def
proof (intro allI impI)
  fix i j
  assume ij: "i < j" "j < length (marks @ new)" "(marks @ new) ! i = (marks @ new) ! j"
  show "maximumSeenHandles < j - i"
  proof (cases "j < length marks")
    case True
    with ij assms(1) show ?thesis by (simp add: spaced_def nth_append)
  next
    case False
    with ij have j: "(marks @ new) ! j = new ! (j - length marks)" "j - length marks < length new" by (auto simp: nth_append)
    show ?thesis
    proof (cases "i < length marks")
      case True
      then have "marks ! i \<in> set new" using ij j by (metis nth_append nth_mem)
      then have "i < length marks - maximumSeenHandles" using assms(3) in_newest [OF True] by (meson disjoint_iff not_le)
      then show ?thesis using False by linarith
    next
      case i: False
      with ij j have "new ! (i - length marks) = new ! (j - length marks)" by (simp add: nth_append)
      then have "i - length marks = j - length marks"
        using assms(2) j ij(1) i by (intro nth_eq_iff_index_eq [THEN iffD1]) auto
      with i ij(1) show ?thesis by linarith
    qed
  qed
qed

lemma firsts_append_old: "distinct order \<Longrightarrow> take (length order) (firsts (order @ hs)) = order"
proof (induction hs arbitrary: order)
  case Nil
  then show ?case by (simp add: firsts_distinct)
next
  case (Cons h hs)
  show ?case
  proof (cases "h \<in> set order")
    case True
    with Cons show ?thesis by (simp add: firsts_snoc_old)
  next
    case False
    with Cons.prems have "take (length (order @ [h])) (firsts ((order @ [h]) @ hs)) = order @ [h]" by (intro Cons.IH) simp
    then have "take (length order) (take (length (order @ [h])) (firsts ((order @ [h]) @ hs))) = order" by simp
    then show ?thesis by (simp add: min_def)
  qed
qed

lemma new_handles_spec:
  assumes "distinct (ds_SeenHandles (st_data st))"
  shows "firsts (ds_SeenHandles (st_data st) @ hs) = ds_SeenHandles (st_data st) @ new_handles hs st"
    and "distinct (new_handles hs st)" and "set (new_handles hs st) \<inter> set (ds_SeenHandles (st_data st)) = {}"
proof -
  let ?o = "ds_SeenHandles (st_data st)"
  show 1: "firsts (?o @ hs) = ?o @ new_handles hs st"
    using firsts_append_old [OF assms, of hs] by (metis append_take_drop_id new_handles_def)
  have "distinct (firsts (?o @ hs))" by (simp add: firsts_def)
  then show "distinct (new_handles hs st)" "set (new_handles hs st) \<inter> set ?o = {}" unfolding 1 by auto
qed

lemma new_handles_single: "h \<notin> set (ds_SeenHandles (st_data st)) \<Longrightarrow> distinct (ds_SeenHandles (st_data st)) \<Longrightarrow> new_handles [h] st = [h]"
  by (simp add: new_handles_def firsts_distinct)

lemma new_handles_old: "set hs \<subseteq> set (ds_SeenHandles (st_data st)) \<Longrightarrow> distinct (ds_SeenHandles (st_data st)) \<Longrightarrow> new_handles hs st = []"
  using new_handles_spec(3) [of st hs] new_handles_spec(1) [of st hs] set_firsts [of "ds_SeenHandles (st_data st) @ hs"]
  by (cases "new_handles hs st") auto

lemma store_distinct: "store_ok st \<Longrightarrow> distinct (ds_SeenHandles (st_data st))"
  by (simp add: store_ok_def state_ok_def)

lemma mark_seen_cases:
  assumes ok: "store_ok (sb_store s)" and run: "mark_seen w hs s = (e, s')"
  obtains (refused) err where "e = Some err" "books s' = books s"
    | (unchanged) "e = None" "books s' = books s" "set hs \<subseteq> set (ds_SeenHandles (st_data (sb_store s)))"
    | (marked) "e = None" "store_ok (sb_store s')" "sb_file s' = Some (saved_file (ou_encoded w) (st_data (sb_store s')))"
        "sb_marked s' = sb_marked s @ new_handles hs (sb_store s)" "sb_handed s' = sb_handed s" "sb_cfg s' = sb_cfg s"
        "st_data (sb_store s') = (st_data (sb_store s))\<lparr>ds_SeenHandles := newest (ds_SeenHandles (st_data (sb_store s)) @ new_handles hs (sb_store s))\<rparr>"
proof -
  obtain e0 acts st file' where m: "MarkSeenMany (ou_encoded w) (ou_fault w (sb_asked s)) hs (sb_store s) (sb_file s) = (e0, acts, st, file')"
    by (metis prod_cases4)
  then have r: "e = e0" "s' = (ask s)\<lparr>sb_store := st, sb_file := file', sb_marked := sb_marked s @ (if e0 = None then new_handles hs (sb_store s) else [])\<rparr>"
    using run by (auto simp: mark_seen_def)
  note d = store_distinct [OF ok]
  from ok m show ?thesis
  proof (cases rule: MarkSeenMany_cases)
    case refused
    then obtain err where "e0 = Some err" by auto
    with refused r show ?thesis by (intro that(1)) (auto simp: books_def ask_def)
  next
    case unchanged
    with r new_handles_old [OF unchanged(4) d] show ?thesis by (intro that(2)) (auto simp: books_def ask_def)
  next
    case marked
    with r show ?thesis by (intro that(3)) (auto simp: ask_def new_handles_spec(1) [OF d])
  qed
qed

section \<open>Deliveries\<close>

text \<open>What sending adds: entries of this mark, handle and sender, each recipient and position once.\<close>

definition key :: "handed \<Rightarrow> nat \<times> string \<times> nat" where
  "key e = (case e of Sip mark _ _ r part _ _ _ \<Rightarrow> (mark, r, part) | Sms _ _ \<Rightarrow> (0, [], 0))"

fun is_sip :: "handed \<Rightarrow> bool" where
  "is_sip (Sip _ _ _ _ _ _ _ _) = True"
| "is_sip (Sms _ _) = False"

definition entry_of :: "nat \<Rightarrow> string \<Rightarrow> string \<Rightarrow> sipDelivery list \<Rightarrow> string set \<Rightarrow> handed \<Rightarrow> bool" where
  "entry_of mark hnd sender ds rs e \<longleftrightarrow>
     is_sip e \<and> hd_mark e = mark \<and> hd_handle e = hnd \<and> hd_sender e = sender \<and> hd_recipient e \<in> rs \<and> hd_delivery e \<in> set ds
     \<and> (\<exists>k. hd_action e = mediaDeliveryActionID hnd (hd_recipient e) k \<or> hd_action e = deliveryActionID hnd (hd_recipient e) k)"

definition sent :: "'s service \<Rightarrow> handed list \<Rightarrow> 's service \<Rightarrow> bool" where
  "sent s es s' \<longleftrightarrow> sb_handed s' = sb_handed s @ es \<and> sb_cfg s' = sb_cfg s \<and> sb_store s' = sb_store s \<and> sb_file s' = sb_file s \<and> sb_marked s' = sb_marked s"

lemma sent_refl [simp]: "sent s [] s"
  by (simp add: sent_def)

lemma sent_trans: "sent s es s' \<Longrightarrow> sent s' fs s'' \<Longrightarrow> sent s (es @ fs) s''"
  by (simp add: sent_def)

lemma send_one_sent:
  "send_one w mark hnd sender r part i d s = (ok, s') \<Longrightarrow>
   \<exists>e. sent s [e] s' \<and> entry_of mark hnd sender [d] {r} e \<and> hd_part e = part \<and> hd_ok e = ok"
  by (auto simp: send_one_def sent_def entry_of_def ask_def Let_def)

lemma send_all_sent:
  assumes "send_all w mark hnd sender r part i ds s = (ok, s')"
  shows "\<exists>es. sent s es s' \<and> list_all (entry_of mark hnd sender ds {r}) es \<and> (\<exists>n \<le> length ds. map hd_part es = [part..<part + n])
    \<and> (ok \<longleftrightarrow> length es = length ds \<and> list_all hd_ok es)"
  using assms
proof (induction ds arbitrary: part i s)
  case (Cons d ds)
  obtain ok1 s1 where o: "send_one w mark hnd sender r part i d s = (ok1, s1)" by fastforce
  from send_one_sent [OF this] obtain e where e: "sent s [e] s1" "entry_of mark hnd sender [d] {r} e" "hd_part e = part" "hd_ok e = ok1" by blast
  have e': "entry_of mark hnd sender (d # ds) {r} e" using e(2) by (auto simp: entry_of_def)
  show ?case
  proof (cases ok1)
    case False
    then have "ok = False" "s' = s1" using Cons.prems o by auto
    with e e' False show ?thesis by (intro exI [of _ "[e]"]) (auto intro!: exI [of _ 1])
  next
    case True
    with Cons.prems o have "send_all w mark hnd sender r (Suc part) (if 0 \<le> sd_mediaIndex d then i else Suc i) ds s1 = (ok, s')" by simp
    from Cons.IH [OF this] obtain es n where es: "sent s1 es s'" "list_all (entry_of mark hnd sender ds {r}) es" "n \<le> length ds"
      "map hd_part es = [Suc part..<Suc part + n]" "ok \<longleftrightarrow> length es = length ds \<and> list_all hd_ok es" by blast
    have "list_all (entry_of mark hnd sender (d # ds) {r}) es" using es(2) by (auto simp: list_all_iff entry_of_def)
    moreover have "map hd_part (e # es) = [part..<part + Suc n]" using es(4) e(3) by (simp add: upt_conv_Cons)
    ultimately show ?thesis using sent_trans [OF e(1) es(1)] e' e(4) es(3,5) True
      by (intro exI [of _ "e # es"]) (auto intro!: exI [of _ "Suc n"])
  qed
qed simp

lemma send_recipients_sent:
  assumes "send_recipients w mark hnd sender ds rs s = (ok, s')" "distinct rs"
  shows "\<exists>es. sent s es s' \<and> list_all (entry_of mark hnd sender ds (set rs)) es \<and> distinct (map key es)
    \<and> (ok \<longleftrightarrow> length es = length rs * length ds \<and> list_all hd_ok es) \<and> length es \<le> length rs * length ds"
  using assms
proof (induction rs arbitrary: s ok)
  case (Cons r rs)
  obtain ok1 s1 where o: "send_all w mark hnd sender r 0 0 ds s = (ok1, s1)" by fastforce
  from send_all_sent [OF this] obtain es n where es: "sent s es s1" "list_all (entry_of mark hnd sender ds {r}) es" "n \<le> length ds"
    "map hd_part es = [0..<n]" "ok1 \<longleftrightarrow> length es = length ds \<and> list_all hd_ok es" by auto
  obtain ok2 where o2: "send_recipients w mark hnd sender ds rs s1 = (ok2, s')" "ok = (ok1 \<and> ok2)"
    using Cons.prems o by (auto split: prod.splits)
  from Cons.IH [OF o2(1)] Cons.prems(2) obtain fs where fs: "sent s1 fs s'" "list_all (entry_of mark hnd sender ds (set rs)) fs" "distinct (map key fs)"
    "ok2 \<longleftrightarrow> length fs = length rs * length ds \<and> list_all hd_ok fs" "length fs \<le> length rs * length ds" by auto
  have len: "length es \<le> length ds" using es(3) arg_cong [OF es(4), of length] by simp
  have k: "key e = (mark, r, hd_part e)" if "e \<in> set es" for e
    using es(2) that by (cases e) (auto simp: list_all_iff entry_of_def key_def)
  then have "map key es = map (\<lambda>p. (mark, r, p)) (map hd_part es)" by simp
  then have "distinct (map key es)" using es(4) by (simp add: distinct_map inj_on_def)
  moreover have "fst (snd (key f)) \<noteq> r" if "f \<in> set fs" for f
    using fs(2) that Cons.prems(2) by (cases f) (auto simp: list_all_iff entry_of_def key_def)
  then have "set (map key es) \<inter> set (map key fs) = {}"
    using k unfolding disjoint_iff by (metis fst_conv snd_conv imageE list.set_map)
  moreover have "list_all (entry_of mark hnd sender ds (set (r # rs))) (es @ fs)"
    using es(2) fs(2) by (auto simp: list_all_iff entry_of_def)
  ultimately show ?case using sent_trans [OF es(1) fs(1)] es(5) fs(3,4,5) o2(2) len
    by (intro exI [of _ "es @ fs"]) auto
qed simp

subsection \<open>Every delivery is one the manager client accepts\<close>

definition acceptable :: "handed \<Rightarrow> bool" where
  "acceptable e \<longleftrightarrow> ami_accepts (hd_recipient e) (hd_sender e) (sd_body (hd_delivery e)) (sd_contentType (hd_delivery e)) (hd_action e)"

definition delivery_ok :: "sipDelivery \<Rightarrow> bool" where
  "delivery_ok d \<longleftrightarrow> sd_body d \<noteq> [] \<and> length (sd_body d) \<le> MaxBodyBytes \<and> sd_contentType d \<in> {''text/plain'', SignalContentType}"

definition encoder_ok :: "outside \<Rightarrow> bool" where
  "encoder_ok w \<longleftrightarrow> (\<forall>j. ou_json w j \<noteq> Some [])"

lemma signal_for_ok: "encoder_ok w \<Longrightarrow> signal_for w caption d = (signal, caption') \<Longrightarrow> fitting signal \<Longrightarrow> the signal \<noteq> [] \<and> length (the signal) \<le> MaxBodyBytes"
  by (auto simp: signal_for_def fitting_def encoder_ok_def MarshalSignal_def Let_def split: if_splits option.splits)

lemma signals_ok:
  "encoder_ok w \<Longrightarrow> signals w clean i ds = Some (sigs, included) \<Longrightarrow> list_all delivery_ok sigs"
proof (induction ds arbitrary: i sigs included)
  case (Cons d ds)
  obtain signal caption where s: "signal_for w (if i = 0 then clean else []) d = (signal, caption)" by fastforce
  have f: "fitting signal" using Cons.prems(2) s by (auto split: if_splits)
  obtain rest inc where r: "signals w clean (Suc i) ds = Some (rest, inc)"
    "sigs = \<lparr>sd_body = the signal, sd_contentType = SignalContentType, sd_mediaIndex = int i\<rparr> # rest"
    using Cons.prems(2) s f by (auto split: option.splits)
  with Cons.IH [OF Cons.prems(1) r(1)] signal_for_ok [OF Cons.prems(1) s f] show ?case by (simp add: delivery_ok_def)
qed simp

lemma text_parts_ok:
  assumes "length (text_parts w event clean) \<le> MaxSIPParts"
  shows "list_all delivery_ok (text_deliveries (text_parts w event clean))"
proof -
  have "p \<noteq> [] \<and> length p \<le> MaxSIPPartBytes" if "p \<in> set (text_parts w event clean)" for p
    using VisibleParts_fits [of clean "ou_rfc3339 w" "ev_DateTime event" p] assms that by (auto simp: text_parts_def split: if_splits)
  then show ?thesis by (force simp: list_all_iff text_deliveries_def delivery_ok_def MaxSIPPartBytes_def MaxBodyBytes_def)
qed

lemma telephone_plain: "telephone v \<Longrightarrow> v \<noteq> [] \<and> set v \<inter> {CHR 0x00, CHR 0x0D, CHR 0x0A} = {}"
  by (cases v) (auto simp: telephone_def TrimPrefix_def HasPrefix_def is_digit_def list_all_iff Let_def split: if_splits)

lemma action_plain:
  assumes "a = mediaDeliveryActionID hnd r k \<or> a = deliveryActionID hnd r k"
  shows "a \<noteq> [] \<and> set a \<inter> {CHR 0x00, CHR 0x0D, CHR 0x0A} = {}"
proof -
  have "\<not> is_hex (CHR 0x00)" "\<not> is_hex (CHR 0x0D)" "\<not> is_hex (CHR 0x0A)" by (simp_all add: is_hex_def is_digit_def)
  then have "set (EncodeToString bs) \<inter> {CHR 0x00, CHR 0x0D, CHR 0x0A} = {}" for bs
    using EncodeToString_hex [of bs] unfolding list_all_iff by blast
  then have "set (action_digest kind hnd r k) \<inter> {CHR 0x00, CHR 0x0D, CHR 0x0A} = {}" for kind
    unfolding action_digest_def by blast
  with assms show ?thesis by (auto simp: mediaDeliveryActionID_def deliveryActionID_def)
qed

lemma entry_acceptable:
  assumes "entry_of mark hnd sender ds rs e" "telephone sender" "list_all delivery_ok ds" "\<And>r. r \<in> rs \<Longrightarrow> recipient_ok r"
  shows "acceptable e"
proof -
  have r: "recipient_ok (hd_recipient e)" and d: "delivery_ok (hd_delivery e)" and s: "hd_sender e = sender"
    using assms by (auto simp: entry_of_def list_all_iff)
  obtain k where "hd_action e = mediaDeliveryActionID hnd (hd_recipient e) k \<or> hd_action e = deliveryActionID hnd (hd_recipient e) k"
    using assms(1) by (auto simp: entry_of_def)
  from action_plain [OF this] telephone_plain [OF assms(2)] r d s show ?thesis
    by (auto simp: acceptable_def ami_accepts_def recipient_ok_def delivery_ok_def digits_def ContainsAny_def IndexAny_None_iff SignalContentType_def)
qed

section \<open>What an event does\<close>

definition handled :: "outside \<Rightarrow> string \<Rightarrow> 's service \<Rightarrow> handed list \<Rightarrow> 's service \<Rightarrow> bool" where
  "handled w hnd s es s' \<longleftrightarrow>
     store_ok (sb_store s') \<and> sb_file s' = Some (saved_file (ou_encoded w) (st_data (sb_store s')))
     \<and> st_data (sb_store s') = (st_data (sb_store s))\<lparr>ds_SeenHandles := newest (ds_SeenHandles (st_data (sb_store s)) @ [hnd])\<rparr>
     \<and> sb_marked s' = sb_marked s @ [hnd] \<and> sb_cfg s' = sb_cfg s \<and> sb_handed s' = sb_handed s @ es
     \<and> list_all (\<lambda>e. is_sip e \<and> hd_mark e = length (sb_marked s) \<and> hd_handle e = hnd \<and> hd_recipient e \<in> set (cf_Recipients (sb_cfg s))) es
     \<and> distinct (map key es)
     \<and> (encoder_ok w \<longrightarrow> list_all recipient_ok (cf_Recipients (sb_cfg s)) \<longrightarrow> list_all acceptable es)"

lemma handled_books: "books s0 = books s \<Longrightarrow> handled w hnd s0 es s' \<Longrightarrow> handled w hnd s es s'"
  by (auto simp: handled_def dest: books_fields)

lemma handled_status: "handled w hnd s es (on_status f s') \<longleftrightarrow> handled w hnd s es s'"
  by (simp add: handled_def on_status_def)

lemma mark_one_cases:
  assumes "store_ok (sb_store s)" "\<not> HasSeen hnd (sb_store s)" "mark_seen w [hnd] s = (e, s')"
  obtains (refused) err where "e = Some err" "books s' = books s" | (marked) "e = None" "handled w hnd s [] s'"
proof -
  have n: "hnd \<notin> set (ds_SeenHandles (st_data (sb_store s)))" using assms(1,2) by (simp add: HasSeen_iff)
  note one = new_handles_single [OF n store_distinct [OF assms(1)]]
  from assms(1,3) show ?thesis
  proof (cases rule: mark_seen_cases)
    case (refused err)
    then show ?thesis by (rule that(1))
  next
    case unchanged
    with n show ?thesis by simp
  next
    case marked
    then show ?thesis by (intro that(2)) (simp_all add: handled_def one)
  qed
qed

lemma consume_cases:
  assumes "store_ok (sb_store s)" "\<not> HasSeen hnd (sb_store s)" "consume w hnd s = (r, s')"
  shows "books s' = books s \<and> r \<noteq> None \<or> handled w hnd s [] s' \<and> r = None"
proof -
  obtain e s1 where m: "mark_seen w [hnd] s = (e, s1)" by fastforce
  from assms(1,2) m show ?thesis by (cases rule: mark_one_cases) (use assms(3) m in \<open>auto simp: consume_def handled_status\<close>)
qed

lemma hand_out_cases:
  assumes "store_ok (sb_store s)" "\<not> HasSeen hnd (sb_store s)" "distinct (cf_Recipients (sb_cfg s))" "telephone sender"
    and "encoder_ok w \<Longrightarrow> list_all delivery_ok ds" and "hand_out w hnd sender ds s = (r, s')"
  shows "books s' = books s \<and> r \<noteq> None \<or> (\<exists>es. handled w hnd s es s') \<and> r = None"
proof (cases "ds = []")
  case True
  with assms(6) have "consume w hnd s = (r, s')" by (simp add: hand_out_def)
  from consume_cases [OF assms(1,2) this] show ?thesis by blast
next
  case False
  obtain e s1 where m: "mark_seen w [hnd] s = (e, s1)" by fastforce
  from assms(1,2) m show ?thesis
  proof (cases rule: mark_one_cases)
    case (refused err)
    with False m assms(6) show ?thesis by (auto simp: hand_out_def)
  next
    case marked
    obtain ok s2 where sr: "send_recipients w (length (sb_marked s)) hnd sender ds (cf_Recipients (sb_cfg s)) s1 = (ok, s2)" by fastforce
    from send_recipients_sent [OF sr assms(3)] obtain es where es: "sent s1 es s2"
      "list_all (entry_of (length (sb_marked s)) hnd sender ds (set (cf_Recipients (sb_cfg s)))) es" "distinct (map key es)" by blast
    have "list_all acceptable es" if "encoder_ok w" "list_all recipient_ok (cf_Recipients (sb_cfg s))"
      using es(2) entry_acceptable [OF _ assms(4) assms(5) [OF that(1)]] that(2) by (fastforce simp: list_all_iff)
    moreover have "list_all (\<lambda>e. is_sip e \<and> hd_mark e = length (sb_marked s) \<and> hd_handle e = hnd \<and> hd_recipient e \<in> set (cf_Recipients (sb_cfg s))) es"
      using es(2) by (auto simp: list_all_iff entry_of_def)
    ultimately have "handled w hnd s es s2" using marked(2) es(1,3) by (auto simp: handled_def sent_def)
    moreover have "r = None" "s' = on_status (inbound ok) s2" using False m marked(1) sr assms(6) by (auto simp: hand_out_def)
    ultimately show ?thesis by (auto simp: handled_status)
  qed
qed

text \<open>Up to a change that the books do not show.\<close>

lemma later_books:
  assumes "books s0 = books s" "books s' = books s0 \<and> r \<noteq> None \<or> (\<exists>es. handled w hnd s0 es s') \<and> r = None"
  shows "books s' = books s \<and> r \<noteq> None \<or> (\<exists>es. handled w hnd s es s') \<and> r = None"
  using assms(2) handled_books [OF assms(1)] assms(1) by (elim disjE) (simp, blast)

lemma deferMedia_retry:
  "\<exists>retry. go_get (sb_mediaRetries (snd (deferMedia w hnd s))) hnd = Some retry \<and> 0 < mr_attempts retry
     \<and> mr_next retry = ou_now w (sb_asked s) + fst (deferMedia w hnd s)"
  by (auto simp: deferMedia_def Let_def go_get_put)

lemma deliver_cases:
  assumes "store_ok (sb_store s)" "\<not> HasSeen (ev_Handle event) (sb_store s)" "distinct (cf_Recipients (sb_cfg s))"
    and run: "deliver w event parsed s = (r, s')"
  shows "books s' = books s \<and> (r \<noteq> None \<or> (\<exists>retry. go_get (sb_mediaRetries s') (ev_Handle event) = Some retry))
    \<or> (\<exists>es. handled w (ev_Handle event) s es s') \<and> r = None"
proof -
  define hnd where "hnd = ev_Handle event"
  define clean where "clean = clean_text event parsed"
  define parts where "parts = text_parts w event clean"
  note seen = assms(2) [folded hnd_def]
  show ?thesis
  proof (cases "sm_Body parsed = [] \<and> sm_Attachments parsed = [] \<or> MaxSIPParts < length parts")
    case True
    then have "consume w hnd s = (r, s')" using run by (auto simp: deliver_def Let_def hnd_def parts_def clean_def split: if_splits)
    from consume_cases [OF assms(1) seen this] show ?thesis unfolding hnd_def by blast
  next
    case False
    obtain up s1 where u: "upload_all w (sm_Attachments parsed) s = (up, s1)" by fastforce
    note b = books_upload_all [OF u]
    define s2 where "s2 = s1\<lparr>sb_mediaRetries := go_delete hnd (sb_mediaRetries s1)\<rparr>"
    have b2: "books s2 = books s" using b by (simp add: s2_def)
    have st: "store_ok (sb_store s2)" "\<not> HasSeen hnd (sb_store s2)" "distinct (cf_Recipients (sb_cfg s2))"
      using books_fields [OF b2] assms(1,3) seen by auto
    show ?thesis
    proof (cases up)
      case None
      then have "r = None" "s' = snd (deferMedia w hnd s1)"
        using run False u by (auto simp: deliver_def Let_def hnd_def parts_def clean_def split: if_splits)
      then show ?thesis using b deferMedia_retry [of w hnd s1] by (auto simp: hnd_def)
    next
      case (Some ds)
      have run2: "(r, s') = (case signals w clean 0 ds of None \<Rightarrow> consume w hnd s2
          | Some (sigs, included) \<Rightarrow> hand_out w hnd (NormalizeSender (sm_SenderNumber parsed)) (sigs @ (if \<not> included then text_deliveries parts else [])) s2)"
        using run False u Some unfolding deliver_def Let_def hnd_def clean_def parts_def s2_def by (auto split: if_splits)
      have "books s' = books s2 \<and> r \<noteq> None \<or> (\<exists>es. handled w hnd s2 es s') \<and> r = None"
      proof (cases "signals w clean 0 ds")
        case None
        with run2 consume_cases [OF st(1,2), of w r s'] show ?thesis by auto
      next
        case (Some a)
        obtain sigs included where a: "a = (sigs, included)" by fastforce
        have "list_all delivery_ok (sigs @ (if \<not> included then text_deliveries parts else []))" if "encoder_ok w"
          using signals_ok [OF that, of clean 0 ds sigs included] Some a text_parts_ok [of w event clean] False by (simp add: parts_def)
        from hand_out_cases [OF st NormalizeSender_telephone this] run2 Some a show ?thesis by simp
      qed
      from later_books [OF b2 this] show ?thesis unfolding hnd_def by blast
    qed
  qed
qed

lemma processEvent_cases:
  assumes "store_ok (sb_store s)" "distinct (cf_Recipients (sb_cfg s))" and run: "processEvent ops w event s = (r, s')"
  obtains (idle) "books s' = books s"
    | (consumed) es where "handled w (ev_Handle event) s es s'" "\<not> HasSeen (ev_Handle event) (sb_store s)"
proof -
  define hnd where "hnd = ev_Handle event"
  consider "ev_EventType event \<noteq> ''NewMessage'' \<or> hnd = [] \<or> HasSeen hnd (sb_store s)" | "deferred w hnd s"
    | (new) "ev_EventType event = ''NewMessage''" "hnd \<noteq> []" "\<not> HasSeen hnd (sb_store s)" "\<not> deferred w hnd s" by blast
  then show ?thesis
  proof cases
    case new
    obtain f s1 where f: "fetch ops w (event_folder event) hnd fetchDelays (Fetched []) (ask s) = (f, s1)" by fastforce
    have b: "books s1 = books s" using books_fetch [OF f] by simp
    note st = books_fields [OF b]
    note ok = assms(1,2) new(3)
    have c: "books s2 = books s \<and> x \<noteq> None \<or> (\<exists>es. handled w hnd s es s2) \<and> x = None" if "consume w hnd s1 = (x, s2)" for x s2
      using consume_cases [OF _ _ that] ok st later_books [OF b] by metis
    show ?thesis
    proof (cases f)
      case (Fetched raw)
      show ?thesis
      proof (cases "parse_event w (sb_cfg s) event raw")
        case None
        with run new f Fetched obtain x where "consume w hnd s1 = (x, s')"
          by (auto simp: processEvent_def hnd_def [symmetric] Let_def split: prod.splits)
        from c [OF this] idle consumed new(3) show ?thesis unfolding hnd_def by blast
      next
        case (Some m)
        with run new f Fetched obtain x where "deliver w event m s1 = (x, s')"
          by (auto simp: processEvent_def hnd_def [symmetric] Let_def split: prod.splits)
        from deliver_cases [OF _ _ _ this] ok st have "books s' = books s1 \<or> (\<exists>es. handled w hnd s1 es s')" unfolding hnd_def by auto
        with b idle consumed new(3) handled_books [OF b] show ?thesis unfolding hnd_def by metis
      qed
    next
      case (Fetch_failed e)
      with run new f obtain x where "consume w hnd s1 = (x, s')"
        by (auto simp: processEvent_def hnd_def [symmetric] Let_def split: prod.splits option.splits)
      from c [OF this] idle consumed new(3) show ?thesis unfolding hnd_def by blast
    next
      case Fetch_cancelled
      with run new f have "s' = s1" by (simp add: processEvent_def hnd_def [symmetric] Let_def)
      with b idle show ?thesis by simp
    next
      case Fetch_panicked
      with run new f have "s' = s1" by (simp add: processEvent_def hnd_def [symmetric] Let_def)
      with b idle show ?thesis by simp
    qed
  qed (use run in \<open>auto simp: processEvent_def hnd_def Let_def intro!: idle split: if_splits\<close>)
qed

section \<open>The running service\<close>

definition books_ok :: "(diskState \<Rightarrow> nat) \<Rightarrow> 's service \<Rightarrow> bool" where
  "books_ok encoded s \<longleftrightarrow>
     store_ok (sb_store s) \<and> on_disk encoded (sb_file s) (sb_store s) \<and> ds_SeenHandles (st_data (sb_store s)) = newest (sb_marked s)
     \<and> spaced (sb_marked s) \<and> distinct (cf_Recipients (sb_cfg s)) \<and> list_all recipient_ok (cf_Recipients (sb_cfg s))
     \<and> list_all (\<lambda>e. hd_mark e < length (sb_marked s) \<and> sb_marked s ! hd_mark e = hd_handle e) (filter is_sip (sb_handed s))
     \<and> distinct (map key (filter is_sip (sb_handed s))) \<and> sorted (map hd_mark (filter is_sip (sb_handed s)))"

lemma books_ok_books: "books s' = books s \<Longrightarrow> books_ok encoded s \<Longrightarrow> books_ok encoded s'"
  by (auto simp: books_ok_def dest: books_fields)

text \<open>An operation of the queue or of the session.\<close>

definition quiet :: "(diskState \<Rightarrow> nat) \<Rightarrow> 's service \<Rightarrow> 's service \<Rightarrow> bool" where
  "quiet encoded s s' \<longleftrightarrow> sb_cfg s' = sb_cfg s \<and> sb_marked s' = sb_marked s \<and> filter is_sip (sb_handed s') = filter is_sip (sb_handed s)
     \<and> store_ok (sb_store s') \<and> on_disk encoded (sb_file s') (sb_store s')
     \<and> ds_SeenHandles (st_data (sb_store s')) = ds_SeenHandles (st_data (sb_store s))"

lemma quiet_ok: "quiet encoded s s' \<Longrightarrow> books_ok encoded s \<Longrightarrow> books_ok encoded s'"
  by (simp add: quiet_def books_ok_def)

lemma key_sip: "is_sip e \<Longrightarrow> key e = (hd_mark e, hd_recipient e, hd_part e)"
  by (cases e) (simp_all add: key_def)

lemma handled_ok:
  assumes "books_ok (ou_encoded w) s" "handled w hnd s es s'" "\<not> HasSeen hnd (sb_store s)"
  shows "books_ok (ou_encoded w) (s'\<lparr>sb_handed := sb_handed s @ take k es\<rparr>)"
proof -
  let ?m = "sb_marked s"
  note inv = assms(1) [unfolded books_ok_def] and h = assms(2) [unfolded handled_def]
  have new: "hnd \<notin> set (newest ?m)" using assms(3) inv by (simp add: HasSeen_iff)
  have es: "is_sip e \<and> hd_mark e = length ?m \<and> hd_handle e = hnd" if "e \<in> set (take k es)" for e
    using h that by (auto simp: list_all_iff dest: in_set_takeD)
  then have f: "filter is_sip (take k es) = take k es" by (simp add: filter_id_conv)
  have old: "hd_mark e < length ?m" if "e \<in> set (filter is_sip (sb_handed s))" for e
    using inv that unfolding list_all_iff by blast
  have "fst (key e) = length ?m" if "e \<in> set (take k es)" for e using es [OF that] by (simp add: key_sip)
  moreover have "fst (key e) < length ?m" if "e \<in> set (filter is_sip (sb_handed s))" for e
    using old [OF that] that by (simp add: key_sip)
  ultimately have "set (map key (filter is_sip (sb_handed s))) \<inter> set (map key (take k es)) = {}" by fastforce
  moreover have "distinct (map key (take k es))" using h by (simp add: take_map [symmetric] distinct_take)
  ultimately have "distinct (map key (filter is_sip (sb_handed s @ take k es)))" using inv by (simp add: f)
  moreover have "spaced (?m @ [hnd])" using inv new by (intro spaced_append) auto
  moreover have "ds_SeenHandles (st_data (sb_store s')) = newest (?m @ [hnd])" using h inv newest_append [of ?m "[hnd]"] by simp
  moreover have "on_disk (ou_encoded w) (sb_file s') (sb_store s')" using h by (intro on_disk_saved) auto
  moreover have "list_all (\<lambda>e. hd_mark e < length (?m @ [hnd]) \<and> (?m @ [hnd]) ! hd_mark e = hd_handle e) (filter is_sip (sb_handed s @ take k es))"
    using inv es old by (auto simp: list_all_iff nth_append less_Suc_eq)
  moreover have "map hd_mark (take k es) = replicate (length (take k es)) (length ?m)" by (rule replicate_eqI) (use es in auto)
  then have "sorted (map hd_mark (filter is_sip (sb_handed s @ take k es)))"
    using inv old by (auto simp: f sorted_append less_imp_le)
  ultimately show ?thesis using h inv by (simp add: books_ok_def)
qed

lemma processEvent_ok:
  assumes "books_ok (ou_encoded w) s" "processEvent ops w event s = (r, s')"
  shows "books_ok (ou_encoded w) s'"
proof -
  have "store_ok (sb_store s)" "distinct (cf_Recipients (sb_cfg s))" using assms(1) by (auto simp: books_ok_def)
  from this assms(2) show ?thesis
  proof (cases rule: processEvent_cases)
    case idle
    with assms(1) books_ok_books show ?thesis by blast
  next
    case (consumed es)
    then have "s'\<lparr>sb_handed := sb_handed s @ take (length es) es\<rparr> = s'" by (simp add: handled_def)
    with handled_ok [OF assms(1) consumed, of "length es"] show ?thesis by simp
  qed
qed

lemma poll_items_ok: "books_ok (ou_encoded w) s \<Longrightarrow> poll_items ops w items s = (r, s') \<Longrightarrow> books_ok (ou_encoded w) s'"
proof (induction items arbitrary: s)
  case (Cons item items)
  obtain r1 s1 where p: "processEvent ops w (poll_event item) s = (r1, s1)" by fastforce
  from processEvent_ok [OF Cons.prems(1) p] p Cons show ?case by (auto split: if_splits outcome.splits option.splits)
qed simp

lemma poll_ok: "books_ok (ou_encoded w) s \<Longrightarrow> poll ops w s = (r, s') \<Longrightarrow> books_ok (ou_encoded w) s'"
  by (auto simp: poll_def split: prod.splits outcome.splits sum.splits intro: books_ok_books [of _ s] elim!: poll_items_ok [rotated])

lemma store_op_quiet:
  assumes "books_ok encoded s" "exec encoded fault op (sb_store s) (sb_file s) = (e, out, st, file')"
    and "ds_SeenHandles (st_data st) = ds_SeenHandles (st_data (sb_store s))"
    and "sb_cfg s' = sb_cfg s" "sb_marked s' = sb_marked s" "filter is_sip (sb_handed s') = filter is_sip (sb_handed s)" "sb_store s' = st" "sb_file s' = file'"
  shows "quiet encoded s s'"
  using assms exec_ok(1,2) [OF _ _ assms(2)] by (simp add: quiet_def books_ok_def)

lemma set_initialized_quiet:
  assumes "books_ok (ou_encoded w) s" "set_initialized w s = (e, s')"
  shows "quiet (ou_encoded w) s s'"
proof -
  obtain acts st file' where i: "SetInitialized (ou_encoded w) (ou_fault w (sb_asked s)) (sb_store s) (sb_file s) = (e, acts, st, file')"
    and s': "s' = (ask s)\<lparr>sb_store := st, sb_file := file'\<rparr>"
    using assms(2) by (auto simp: set_initialized_def split: prod.splits)
  have "exec (ou_encoded w) (ou_fault w (sb_asked s)) Initialize (sb_store s) (sb_file s) = (e, [], st, file')" by (simp add: i)
  moreover have "ds_SeenHandles (st_data st) = ds_SeenHandles (st_data (sb_store s))"
    using i by (auto simp: SetInitialized_def Let_def split: if_splits prod.splits)
  ultimately show ?thesis by (rule store_op_quiet [OF assms(1)]) (simp_all add: s' ask_def)
qed

lemma take_outbound_cases:
  assumes "store_ok (sb_store s)" "take_outbound w s = (r, s')"
  obtains (refused) err where "r = Inl err" "books s' = books s" "ou_fault w (sb_asked s) \<noteq> None"
    | (empty) "r = Inr None" "books s' = books s" "queue_of s = []"
    | (taken) item where "r = Inr (Some item)" "store_ok (sb_store s')" "sb_file s' = Some (saved_file (ou_encoded w) (st_data (sb_store s')))"
        "queue_of s = item # queue_of s'" "sb_store s' = with_outbound (sb_store s) (tl (queue_of s))"
        "sb_cfg s' = sb_cfg s" "sb_marked s' = sb_marked s" "sb_handed s' = sb_handed s"
proof -
  obtain acts st file' where t: "TakeOutbound (ou_encoded w) (ou_fault w (sb_asked s)) (sb_store s) (sb_file s) = (r, acts, st, file')"
    and s': "s' = (ask s)\<lparr>sb_store := st, sb_file := file'\<rparr>"
    using assms(2) by (auto simp: take_outbound_def split: prod.splits)
  from assms(1) t show ?thesis
  proof (cases rule: TakeOutbound_cases)
    case (refused err)
    then show ?thesis using s' by (intro that(1)) (auto simp: books_def ask_def)
  next
    case empty
    then show ?thesis using s' by (intro that(2)) (auto simp: books_def ask_def)
  next
    case (taken item)
    have e: "sb_store s' = st" "sb_file s' = file'" "sb_cfg s' = sb_cfg s" "sb_marked s' = sb_marked s" "sb_handed s' = sb_handed s"
      by (simp_all add: s' ask_def)
    show ?thesis using that(3) [unfolded e, OF taken] by blast
  qed
qed

lemma send_outbound_handed:
  "send_outbound ops item s = (r, s') \<Longrightarrow> sb_cfg s' = sb_cfg s \<and> sb_store s' = sb_store s \<and> sb_file s' = sb_file s \<and> sb_marked s' = sb_marked s
     \<and> sb_handed s' = sb_handed s @ (case r of Panicked \<Rightarrow> [] | Returned e \<Rightarrow> [Sms item (e = None)])"
  by (auto simp: send_outbound_def with_session_def on_status_def split: prod.splits outcome.splits)

text \<open>What one call of \<open>drainOutbound\<close> sends: the messages with the result of each, and the one that was lost in a panic.\<close>

definition drained :: "bridge_error option outcome \<Rightarrow> (outbound \<times> bool) list \<Rightarrow> outbound list \<Rightarrow> 's service \<Rightarrow> 's service \<Rightarrow> bool" where
  "drained r sends lost s s' \<longleftrightarrow>
     queue_of s = map fst sends @ lost @ queue_of s' \<and> sb_handed s' = sb_handed s @ map (\<lambda>(item, ok). Sms item ok) sends
     \<and> (lost = [] \<or> r = Panicked \<and> length lost = 1) \<and> list_all snd (butlast sends)
     \<and> (r = Returned None \<longrightarrow> queue_of s' = [] \<and> list_all snd sends)"

lemma take_quiet:
  assumes "books_ok (ou_encoded w) s" "take_outbound w s = (Inr (Some item), s')"
  shows "quiet (ou_encoded w) s s'" and "queue_of s = item # queue_of s'" and "sb_handed s' = sb_handed s"
proof -
  have ok: "store_ok (sb_store s)" using assms(1) by (simp add: books_ok_def)
  have "quiet (ou_encoded w) s s' \<and> queue_of s = item # queue_of s' \<and> sb_handed s' = sb_handed s"
    using ok assms(2)
  proof (cases rule: take_outbound_cases)
    case (taken item')
    have "ds_SeenHandles (st_data (sb_store s')) = ds_SeenHandles (st_data (sb_store s))" unfolding taken(5) by simp
    moreover have "on_disk (ou_encoded w) (sb_file s') (sb_store s')" using taken(2,3) by (rule on_disk_saved)
    ultimately show ?thesis using assms(2) taken(1,2,4,6,7,8) by (simp add: quiet_def)
  qed simp_all
  then show "quiet (ou_encoded w) s s'" "queue_of s = item # queue_of s'" "sb_handed s' = sb_handed s" by simp_all
qed

lemma take_idle:
  assumes "books_ok (ou_encoded w) s" "take_outbound w s = (r, s')" "\<And>item. r \<noteq> Inr (Some item)"
  shows "books s' = books s \<and> (r = Inr None \<longrightarrow> queue_of s = [])"
proof -
  have "store_ok (sb_store s)" using assms(1) by (simp add: books_ok_def)
  from this assms(2) show ?thesis
  proof (cases rule: take_outbound_cases)
    case (taken item)
    then show ?thesis using assms(3) by blast
  qed simp_all
qed

lemma quiet_trans: "quiet encoded s s' \<Longrightarrow> quiet encoded s' s'' \<Longrightarrow> quiet encoded s s''"
  by (simp add: quiet_def)

lemma quiet_books: "books_ok encoded s \<Longrightarrow> books s' = books s \<Longrightarrow> quiet encoded s s'"
  by (auto simp: quiet_def books_ok_def dest: books_fields)

lemma drain_spec:
  assumes "books_ok (ou_encoded w) s" "drainOutbound ops w s = (r, s')"
  shows "quiet (ou_encoded w) s s' \<and> (\<exists>sends lost. drained r sends lost s s')"
  using assms
proof (induction ops w s rule: drainOutbound.induct)
  case (1 ops w s)
  obtain t s1 where t: "take_outbound w s = (t, s1)" by fastforce
  show ?case
  proof (cases "\<exists>item. t = Inr (Some item)")
    case False
    then have b: "books s1 = books s" "t = Inr None \<longrightarrow> queue_of s = []" using take_idle [OF "1.prems"(1) t] by auto
    have r: "s' = s1" "r = Returned None \<longrightarrow> t = Inr None"
      using "1.prems"(2) t False by (auto simp: drainOutbound.simps [of ops w s] split: sum.splits option.splits)
    have "drained r [] [] s s'" using b r books_fields [OF b(1)] by (auto simp: drained_def)
    with quiet_books [OF "1.prems"(1) b(1)] r show ?thesis by blast
  next
    case True
    then obtain item where item: "t = Inr (Some item)" by blast
    note q = take_quiet [OF "1.prems"(1) t [unfolded item]]
    obtain o2 s2 where o: "send_outbound ops item s1 = (o2, s2)" by fastforce
    note h = send_outbound_handed [OF o]
    have q2: "quiet (ou_encoded w) s s2" using q(1) h by (auto simp: quiet_def split: outcome.split)
    have queue: "queue_of s = item # queue_of s2" using q(2) h by simp
    show ?thesis
    proof (cases "o2 = Returned None")
      case False
      have r: "s' = s2" "r \<noteq> Returned None" "o2 = Panicked \<longrightarrow> r = Panicked"
        using "1.prems"(2) t item o False by (auto simp: drainOutbound.simps [of ops w s] split: outcome.splits option.splits)
      have "drained r (case o2 of Panicked \<Rightarrow> [] | Returned e \<Rightarrow> [(item, e = None)]) (if o2 = Panicked then [item] else []) s s'"
        using r h q(3) queue by (auto simp: drained_def split: outcome.split)
      with q2 r show ?thesis by blast
    next
      case True
      then have d: "drainOutbound ops w s2 = (r, s')" using "1.prems"(2) t item o by (simp add: drainOutbound.simps [of ops w s])
      obtain sends lost where ih: "quiet (ou_encoded w) s2 s'" "drained r sends lost s2 s'"
        using "1.IH" [OF t [symmetric] item refl o [symmetric]] True d quiet_ok [OF q2 "1.prems"(1)] by blast
      have "drained r ((item, True) # sends) lost s s'" using ih(2) h q(3) queue True by (auto simp: drained_def)
      with quiet_trans [OF q2 ih(1)] show ?thesis by blast
    qed
  qed
qed

lemma bootstrap_ok:
  assumes "books_ok (ou_encoded w) s" "bootstrap ops w s = (r, s')"
  shows "books_ok (ou_encoded w) s'"
proof (cases "books s' = books s")
  case True
  with assms(1) books_ok_books show ?thesis by blast
next
  case False
  then have i: "\<not> IsInitialized (sb_store s)" using assms(2) by (auto simp: bootstrap_def)
  obtain li ses where l: "mo_List ops ''telecom/msg/inbox'' (cf_PollMaxCount (sb_cfg s)) 0 (sb_session s) = (li, ses)" by fastforce
  with False i assms(2) obtain items where li: "li = Returned (Inr items)"
    by (auto simp: bootstrap_def split: outcome.splits sum.splits)
  obtain e s1 where m: "mark_seen w (map lm_Handle items) (with_session ses s) = (e, s1)" by fastforce
  have r: "s' = s1 \<or> (\<exists>x. e = None \<and> set_initialized w s1 = (x, s'))"
    using assms(2) i l li m by (auto simp: bootstrap_def split: option.splits prod.splits)
  let ?s = "with_session ses s"
  have inv: "books_ok (ou_encoded w) ?s" by (rule books_ok_books [OF _ assms(1)]) simp
  then have ok: "store_ok (sb_store ?s)" by (simp add: books_ok_def)
  have "books_ok (ou_encoded w) s1" using ok m
  proof (cases rule: mark_seen_cases)
    case marked
    define new where "new = new_handles (map lm_Handle items) (sb_store ?s)"
    note h = marked [folded new_def] and i = inv [unfolded books_ok_def]
    have "spaced (sb_marked ?s @ new)"
      using i new_handles_spec(2,3) [OF store_distinct [OF ok], of "map lm_Handle items"] by (intro spaced_append) (auto simp: new_def)
    moreover have "ds_SeenHandles (st_data (sb_store s1)) = newest (sb_marked ?s @ new)" using h(7) i newest_append by simp
    moreover have "on_disk (ou_encoded w) (sb_file s1) (sb_store s1)" using h(2,3) by (rule on_disk_saved)
    moreover have "list_all (\<lambda>e. hd_mark e < length (sb_marked ?s @ new) \<and> (sb_marked ?s @ new) ! hd_mark e = hd_handle e) (filter is_sip (sb_handed ?s))"
      using i unfolding list_all_iff by (auto simp: nth_append)
    ultimately show ?thesis using h i by (simp add: books_ok_def)
  qed (use inv books_ok_books in blast)+
  with r show ?thesis using quiet_ok [OF set_initialized_quiet] by blast
qed

lemma enqueue_cases:
  assumes "books_ok (ou_encoded w) s" "enqueue w to0 body s = (r, s')"
  obtains (refused) "r \<noteq> None" "books s' = books s" "sb_wake s' = sb_wake s"
    | (known) "r = None" "books s' = books s" "sb_wake s'"
        "\<exists>ident. ou_random w (sb_asked s) = Some ident \<and> EncodeToString ident \<in> ob_ID ` set (queue_of s)"
    | (queued) item to1 where "r = None" "quiet (ou_encoded w) s s'" "sb_wake s'" "sb_handed s' = sb_handed s"
        "NormalizeDestination to0 = Inr to1" "ob_To item = to1" "ob_Text item = body" "TrimSpace body \<noteq> []" "validOutbound item"
        "queue_of s' = queue_of s @ [item]" "sb_file s' = Some (saved_file (ou_encoded w) (st_data (sb_store s')))"
        "\<exists>ident. ou_random w (sb_asked s) = Some ident \<and> ob_ID item = EncodeToString ident"
proof -
  have ok: "store_ok (sb_store s)" using assms(1) by (simp add: books_ok_def)
  show ?thesis
  proof (cases "\<exists>to1 ident. NormalizeDestination to0 = Inr to1 \<and> TrimSpace body \<noteq> [] \<and> length body \<le> 16 * 1024 \<and> ou_random w (sb_asked s) = Some ident")
    case False
    then show ?thesis using assms(2)
      by (intro that(1)) (auto simp: enqueue_def books_def ask_def not_less split: sum.splits if_splits option.splits)
  next
    case True
    then obtain to1 ident where t: "NormalizeDestination to0 = Inr to1" "TrimSpace body \<noteq> []" "length body \<le> 16 * 1024" "ou_random w (sb_asked s) = Some ident" by blast
    define item where "item = \<lparr>ob_ID = EncodeToString ident, ob_To = to1, ob_Text = body, ob_QueuedAt = ou_now w (sb_asked s)\<rparr>"
    obtain e acts st file' where a: "AddOutbound (ou_encoded w) (ou_fault w (sb_asked s)) item (sb_store s) (sb_file s) = (e, acts, st, file')"
      by (metis prod_cases4)
    have r: "r = map_option State_error e" "s' = (ask s)\<lparr>sb_store := st, sb_file := file', sb_wake := (e = None \<or> sb_wake s)\<rparr>"
      using assms(2) t a by (auto simp: enqueue_def item_def [symmetric] ask_def split: option.splits)
    from ok a show ?thesis
    proof (cases rule: AddOutbound_cases)
      case refused
      with r show ?thesis by (intro that(1)) (auto simp: books_def ask_def)
    next
      case duplicate
      with r t show ?thesis by (intro that(2)) (auto simp: books_def ask_def item_def)
    next
      case queued
      have "quiet (ou_encoded w) s s'"
      proof (rule store_op_quiet [OF assms(1)])
        show "exec (ou_encoded w) (ou_fault w (sb_asked s)) (Add item) (sb_store s) (sb_file s) = (e, [], st, file')" by (simp add: a)
      qed (use queued r in \<open>auto simp: ask_def\<close>)
      moreover have "validOutbound item" using queued(2,5) by (simp add: store_ok_def state_ok_def)
      moreover have "ob_To item = to1" "ob_Text item = body" "ob_ID item = EncodeToString ident" by (simp_all add: item_def)
      ultimately show ?thesis using queued r t by (intro that(3) [of to1 item]) (auto simp: ask_def)
    qed
  qed
qed

end
