(* ===== verification/Bridge_System.thy ===== *)
theory Bridge_System
  imports Bridge
begin

text \<open>
  The SMS bridge as it runs: the events, the polls, the queue, the first session, crashes while a message is handed out and restarts
  from the file, in any order. The invariant \<open>books_ok\<close> of theory \<open>Bridge\<close> is kept by every step, and the properties of
  the service follow: a part of a message reaches a recipient at most once, what is handed out is marked on disk
  before and is accepted by the manager client, the queue is sent in order, and a session that ends is
  waited for within bounds.
\<close>

section \<open>Steps\<close>

inductive bridge_step :: "'s map_ops \<Rightarrow> (diskState \<Rightarrow> nat) \<Rightarrow> 's service \<Rightarrow> 's service \<Rightarrow> bool"
  for ops :: "'s map_ops" and encoded :: "diskState \<Rightarrow> nat" where
  event: "ou_encoded w = encoded \<Longrightarrow> processEvent ops w ev s = (r, s') \<Longrightarrow> bridge_step ops encoded s s'"
| killed: "ou_encoded w = encoded \<Longrightarrow> processEvent ops w ev s = (r, s') \<Longrightarrow> sb_handed s' = sb_handed s @ es
    \<Longrightarrow> bridge_step ops encoded s (s'\<lparr>sb_handed := sb_handed s @ take k es\<rparr>)"
| polling: "ou_encoded w = encoded \<Longrightarrow> poll ops w s = (r, s') \<Longrightarrow> bridge_step ops encoded s s'"
| draining: "ou_encoded w = encoded \<Longrightarrow> drainOutbound ops w s = (r, s') \<Longrightarrow> bridge_step ops encoded s s'"
| queueing: "ou_encoded w = encoded \<Longrightarrow> enqueue w to0 body s = (x, s') \<Longrightarrow> bridge_step ops encoded s s'"
| baseline: "ou_encoded w = encoded \<Longrightarrow> bootstrap ops w s = (r, s') \<Longrightarrow> bridge_step ops encoded s s'"
| session: "books s' = books s \<Longrightarrow> bridge_step ops encoded s s'"
| restart: "Open encoded fault js now legacy (opened_of (sb_file s)) = Inr (st, imported, acts, file')
    \<Longrightarrow> bridge_step ops encoded s (s\<lparr>sb_store := st, sb_file := file', sb_status := newStatus started, sb_mediaRetries := [], sb_wake := False\<rparr>)"

definition bridge_init :: "(diskState \<Rightarrow> nat) \<Rightarrow> 's service \<Rightarrow> bool" where
  "bridge_init encoded s \<longleftrightarrow>
     (\<exists>getenv fault js now legacy file' imported acts.
        Load getenv = Inr (sb_cfg s) \<and> Open encoded fault js now legacy (opened_of file') = Inr (sb_store s, imported, acts, sb_file s))
     \<and> sb_marked s = ds_SeenHandles (st_data (sb_store s)) \<and> sb_handed s = []"

lemma opened_on_disk:
  assumes "Open encoded fault js now legacy (opened_of file0) = Inr (st, imported, acts, file')"
  shows "store_ok st \<and> on_disk encoded file' st"
proof -
  have ok: "store_ok st" using Open_ok [OF assms] .
  from assms show ?thesis
  proof (cases rule: Open_cases)
    case loaded
    then obtain f where "file0 = Some f" "file' = Some f" "load (Present f) = Inr st"
      by (cases file0) (auto simp: opened_of_def load_def)
    with ok show ?thesis by (auto simp: on_disk_def agrees_def)
  next
    case (imported d)
    with ok show ?thesis by (simp add: on_disk_saved)
  qed
qed

lemma reopened_seen:
  assumes "on_disk encoded file0 st0" "Open encoded fault js now legacy (opened_of file0) = Inr (st, imported, acts, file')"
  shows "ds_SeenHandles (st_data st) = ds_SeenHandles (st_data st0)"
proof -
  from assms(1) obtain f where f: "file0 = Some f" by (auto simp: on_disk_def)
  have l: "load (Present f) = Inr st" using assms(2)
  proof (cases rule: Open_cases)
    case loaded
    then show ?thesis by (simp add: f opened_of_def)
  next
    case (imported d)
    then show ?thesis by (auto simp: f opened_of_def load_def bindE_def check_def the_or_def split: if_splits option.splits)
  qed
  from assms(1) consider st1 where "load (Present f) = Inr st1" "agrees (st_data st1) st0"
    | d where "f = saved_file encoded d" "state_ok d" "agrees d st0" by (auto simp: on_disk_def f)
  then show ?thesis
  proof cases
    case 1
    with l show ?thesis by (simp add: agrees_def)
  next
    case 2
    have "st = rebuildSeen d" using l by (auto simp: 2(1) load_def saved_file_def bindE_Inr_iff the_or_def)
    with rebuildSeen_data [OF 2(2)] 2(3) show ?thesis by (simp add: agrees_def)
  qed
qed

lemma spaced_distinct: "distinct marks \<Longrightarrow> spaced marks"
  by (auto simp: spaced_def nth_eq_iff_index_eq)

interpretation bridge_sys: invariant_system "bridge_init encoded" "bridge_step ops encoded" "books_ok encoded" for encoded ops
proof
  fix s :: "'a service"
  assume "bridge_init encoded s"
  then obtain getenv fault js now legacy file0 imported acts where i: "Load getenv = Inr (sb_cfg s)"
      "Open encoded fault js now legacy (opened_of file0) = Inr (sb_store s, imported, acts, sb_file s)"
      "sb_marked s = ds_SeenHandles (st_data (sb_store s))" "sb_handed s = []"
    unfolding bridge_init_def by blast
  note ok = opened_on_disk [OF i(2)]
  then have "spaced (sb_marked s)" "newest (sb_marked s) = sb_marked s"
    using i(3) store_distinct by (auto intro!: spaced_distinct newest_id simp: store_ok_def state_ok_def)
  moreover have "distinct (cf_Recipients (sb_cfg s)) \<and> list_all recipient_ok (cf_Recipients (sb_cfg s))" using Load_cases [OF i(1)] by blast
  ultimately show "books_ok encoded s" using ok i(3,4) by (simp add: books_ok_def)
next
  fix s t :: "'a service"
  assume inv: "books_ok encoded s" and "bridge_step ops encoded s t"
  from this(2) show "books_ok encoded t"
  proof cases
    case (event w ev r)
    with inv processEvent_ok show ?thesis by blast
  next
    case (killed w ev r s' es k)
    have st: "store_ok (sb_store s)" "distinct (cf_Recipients (sb_cfg s))" using inv by (auto simp: books_ok_def)
    from st killed(3) show ?thesis
    proof (cases rule: processEvent_cases)
      case idle
      then have "t = s'" using killed books_fields [OF idle] by auto
      with idle inv books_ok_books show ?thesis by blast
    next
      case (consumed es')
      then have "es' = es" using killed(4) by (simp add: handled_def)
      with handled_ok [of w s, OF _ consumed] inv killed(1,2) show ?thesis by simp
    qed
  next
    case (polling w r)
    with inv poll_ok show ?thesis by blast
  next
    case (draining w r)
    with inv drain_spec quiet_ok show ?thesis by blast
  next
    case (queueing w to0 body x)
    with inv have "books_ok (ou_encoded w) s" by simp
    from this queueing(2) show ?thesis
      by (cases rule: enqueue_cases) (use inv books_ok_books quiet_ok queueing(1) in blast)+
  next
    case (baseline w r)
    with inv bootstrap_ok show ?thesis by blast
  next
    case session
    with inv books_ok_books show ?thesis by blast
  next
    case (restart fault js now legacy st imported acts file' started)
    have "on_disk encoded (sb_file s) (sb_store s)" using inv by (simp add: books_ok_def)
    from reopened_seen [OF this restart(2)] opened_on_disk [OF restart(2)] inv show ?thesis by (simp add: restart(1) books_ok_def)
  qed
qed

lemma mark_no_error:
  assumes "store_ok (sb_store s)" "validHandle hnd" "ou_fault w (sb_asked s) = None"
  shows "fst (mark_seen w [hnd] s) = None"
proof -
  obtain e acts st file' where m: "MarkSeenMany (ou_encoded w) (ou_fault w (sb_asked s)) [hnd] (sb_store s) (sb_file s) = (e, acts, st, file')"
    by (metis prod_cases4)
  from assms(1) m have "e = None" by (cases rule: MarkSeenMany_cases) (use assms in auto)
  then show ?thesis by (simp add: mark_seen_def m)
qed

section \<open>A sample service\<close>

text \<open>A phone that returns one short message for every handle and accepts what is sent, and a manager that cannot be reached.\<close>

definition sample_ops :: "unit map_ops" where
  "sample_ops = \<lparr>mo_Register = (\<lambda>_ s. (None, s)), mo_Keepalive = (\<lambda>s. (None, s)), mo_List = (\<lambda>_ _ _ s. (Returned (Inr []), s)),
     mo_Get = (\<lambda>_ _ s. (Returned (Inr (bytes_of ''hi'')), s)), mo_Send = (\<lambda>_ _ s. (Returned None, s)), mo_Push = (\<lambda>_ _ _ _ s. (Returned None, s)),
     mo_Close = (\<lambda>s. s)\<rparr>"

definition sample_outside :: outside where
  "sample_outside = \<lparr>ou_encoded = sample_count, ou_now = (\<lambda>_. 0), ou_cancelled = (\<lambda>_. False), ou_fault = (\<lambda>_. None),
     ou_media = (\<lambda>_. \<lparr>mw_key = None, mw_stream = (\<lambda>_ _. 0), mw_alloc = None, mw_url = (\<lambda>_. None), mw_parse = (\<lambda>_. None), mw_put = None\<rparr>),
     ou_manager = (\<lambda>_. \<lparr>aw_dial = False, aw_login = False, aw_action = False, aw_input = []\<rparr>), ou_random = (\<lambda>_. Some [0xA1]), ou_json = (\<lambda>_. Some ''{}''),
     ou_mime = \<lparr>ml_base64 = (\<lambda>b. b), ml_quoted = (\<lambda>b. b), ml_sniff = (\<lambda>_. []), ml_mail = (\<lambda>_. None)\<rparr>, ou_rfc3339 = (\<lambda>_. None)\<rparr>"

definition sample_url :: parsed_url where
  "sample_url = \<lparr>ur_Scheme = ''https'', ur_Host = ''h'', ur_User = False, ur_Path = ''/'', ur_EscapedPath = ''/'', ur_RawQuery = [], ur_Fragment = []\<rparr>"

definition sample_bridge :: "config \<Rightarrow> unit service" where
  "sample_bridge c = \<lparr>sb_cfg = c, sb_ami = \<lparr>ac_address = [], ac_user = [], ac_secret = []\<rparr>, sb_media = \<lparr>mc_base = sample_url, mc_limit = 100\<rparr>,
     sb_session = (), sb_store = empty_store, sb_file = Some (saved_file sample_count empty_state), sb_status = newStatus 0,
     sb_mediaRetries = [], sb_wake = False, sb_asked = 0, sb_marked = [], sb_handed = []\<rparr>"

definition sample_event :: event where
  "sample_event = \<lparr>ev_EventType = ''NewMessage'', ev_Handle = ''A1'', ev_Folder = [], ev_MessageType = ''SMS_GSM'', ev_DateTime = [], ev_Source = ''mns''\<rparr>"

lemma sample_open:
  "Open sample_count None sample_json (\<lambda>_. 0) no_legacy (opened_of None)
     = Inr (empty_store, True, [Temp_created, Temp_closed, Temp_renamed, Temp_closed], Some (saved_file sample_count empty_state))"
  by (simp add: Open_def opened_of_def load_def importLegacy_def readBounded_def scanned_def no_legacy_def
      check_def legacy_handles_def legacy_outbound_def rebuildSeen_def empty_store_def empty_state_def stateVersion_def)

lemma sample_start:
  assumes "Load sample_env = Inr c"
  shows "reachable (bridge_init sample_count) (bridge_step ops sample_count) (sample_bridge c)"
proof (rule start)
  have e: "sb_cfg (sample_bridge c) = c" "sb_store (sample_bridge c) = empty_store" "sb_file (sample_bridge c) = Some (saved_file sample_count empty_state)"
    "sb_marked (sample_bridge c) = []" "sb_handed (sample_bridge c) = []" "ds_SeenHandles (st_data empty_store) = []"
    by (simp_all add: sample_bridge_def empty_store_def empty_state_def)
  show "bridge_init sample_count (sample_bridge c)" unfolding bridge_init_def e using assms sample_open by blast
qed

lemma sample_parse: "parse_event sample_outside c sample_event (bytes_of ''hi'') = Some \<lparr>sm_Body = ''hi'', sm_SenderName = [], sm_SenderNumber = [], sm_Attachments = []\<rparr>"
proof -
  have "ParseBMessage (bytes_of ''hi'') = \<lparr>sm_Body = ''hi'', sm_SenderName = [], sm_SenderNumber = [], sm_Attachments = []\<rparr>" by code_simp
  moreover have "\<not> EqualFoldASCII ''SMS_GSM'' ''MMS''" by code_simp
  ultimately show ?thesis by (simp add: parse_event_def sample_event_def)
qed

lemma sample_text:
  "clean_text sample_event \<lparr>sm_Body = ''hi'', sm_SenderName = [], sm_SenderNumber = [], sm_Attachments = []\<rparr> = ''hi''"
  "text_parts sample_outside sample_event ''hi'' = [''hi'']"
proof -
  have "\<not> EqualFoldASCII ''SMS_GSM'' ''MMS''" by code_simp
  moreover have "StripMMSEnvelope ''hi'' ''SMS_GSM'' = ''hi''" by code_simp
  ultimately show "clean_text sample_event \<lparr>sm_Body = ''hi'', sm_SenderName = [], sm_SenderNumber = [], sm_Attachments = []\<rparr> = ''hi''"
    by (simp add: clean_text_def sample_event_def)
  show "text_parts sample_outside sample_event ''hi'' = [''hi'']"
    by (simp add: text_parts_def VisibleParts_def ReceivedTime_def sample_event_def sample_outside_def single_prefix_def MaxSIPPartBytes_def)
qed

lemma sample_refused: "\<exists>e. fst (SendMessage c (ou_manager sample_outside n) r sender body t a) = Some e"
  by (simp add: SendMessage_def sample_outside_def split: option.split)

lemma sample_unseen: "\<not> HasSeen ''A1'' (sb_store (sample_bridge c))" "\<not> deferred sample_outside ''A1'' (sample_bridge c)"
  by (simp_all add: HasSeen_def sample_bridge_def empty_store_def deferred_def)

text \<open>The message is handed to the recipient once.\<close>

lemma sample_processed:
  assumes "cf_Recipients c = [''1002'']"
  obtains s' a where "processEvent sample_ops sample_outside sample_event (sample_bridge c) = (Returned None, s')"
    "sb_handed s' = [Sip 0 ''A1'' ''000'' ''1002'' 0 \<lparr>sd_body = ''hi'', sd_contentType = ''text/plain'', sd_mediaIndex = -1\<rparr> a False]"
    "sb_marked s' = [''A1'']"
proof -
  let ?m = "\<lparr>sm_Body = ''hi'', sm_SenderName = [], sm_SenderNumber = [], sm_Attachments = []\<rparr>"
  define s1 where "s1 = with_session () (ask (ask (sample_bridge c)))"
  have f: "fetch sample_ops sample_outside (event_folder sample_event) ''A1'' fetchDelays (Fetched []) (ask (sample_bridge c)) = (Fetched (bytes_of ''hi''), s1)"
    by (simp add: fetchDelays_def s1_def sample_outside_def sample_ops_def)
  define s2 where "s2 = s1\<lparr>sb_mediaRetries := go_delete ''A1'' (sb_mediaRetries s1)\<rparr>"
  have n: "NormalizeSender [] = ''000''" by code_simp
  have d: "deliver sample_outside sample_event ?m s1 = hand_out sample_outside ''A1'' ''000'' (text_deliveries [''hi'']) s2"
    by (simp add: deliver_def sample_text Let_def n s2_def MaxSIPParts_def) (simp add: sample_event_def)
  have st: "sb_store s2 = empty_store" "sb_marked s2 = []" "sb_handed s2 = []" "sb_cfg s2 = c"
    by (simp_all add: s2_def s1_def with_session_def ask_def sample_bridge_def)
  have v: "store_ok empty_store" using Open_ok [OF sample_open] .
  have "validHandle ''A1''" by (simp add: validHandle_def is_hex_def is_digit_def)
  then have e: "fst (mark_seen sample_outside [''A1''] s2) = None"
    by (intro mark_no_error) (simp_all add: st v sample_outside_def)
  then obtain s3 where m: "mark_seen sample_outside [''A1''] s2 = (None, s3)" by (metis prod.collapse)
  have u: "\<not> HasSeen ''A1'' (sb_store s2)" by (simp add: st HasSeen_def empty_store_def)
  from v [folded st(1)] u m have h: "handled sample_outside ''A1'' s2 [] s3" by (cases rule: mark_one_cases) simp_all
  obtain a s4 where o: "send_one sample_outside 0 ''A1'' ''000'' ''1002'' 0 0 \<lparr>sd_body = ''hi'', sd_contentType = ''text/plain'', sd_mediaIndex = -1\<rparr> s3 = (False, s4)"
    "sb_handed s4 = [Sip 0 ''A1'' ''000'' ''1002'' 0 \<lparr>sd_body = ''hi'', sd_contentType = ''text/plain'', sd_mediaIndex = -1\<rparr> a False]"
    "sb_marked s4 = [''A1'']"
    using sample_refused [of "sb_ami s3" "sb_asked s3" "''1002''" "''000''" "''hi''" "''text/plain''" "deliveryActionID ''A1'' ''1002'' 0"] h st
    by (auto simp: send_one_def Let_def ask_def handled_def)
  have "hand_out sample_outside ''A1'' ''000'' (text_deliveries [''hi'']) s2 = (None, on_status (inbound False) s4)"
    using m o(1) assms by (simp add: hand_out_def text_deliveries_def st)
  then have "processEvent sample_ops sample_outside sample_event (sample_bridge c) = (Returned None, on_status (inbound False) s4)"
    using f d sample_unseen [of c] sample_parse
    by (simp add: processEvent_def Let_def) (simp add: sample_event_def)
  with o(2,3) show ?thesis using that [of "on_status (inbound False) s4" a] by (simp add: on_status_def)
qed

lemma sample_reaches:
  obtains c s a where "reachable (bridge_init sample_count) (bridge_step sample_ops sample_count) s" "Load sample_env = Inr c"
    "processEvent sample_ops sample_outside sample_event (sample_bridge c) = (Returned None, s)"
    "sb_handed s = [Sip 0 ''A1'' ''000'' ''1002'' 0 \<lparr>sd_body = ''hi'', sd_contentType = ''text/plain'', sd_mediaIndex = -1\<rparr> a False]"
    "sb_marked s = [''A1'']"
proof -
  obtain c where c: "Load sample_env = Inr c" "cf_Recipients c = [''1002'']" using sample_load by blast
  from c(2) obtain s a where s: "processEvent sample_ops sample_outside sample_event (sample_bridge c) = (Returned None, s)"
    "sb_handed s = [Sip 0 ''A1'' ''000'' ''1002'' 0 \<lparr>sd_body = ''hi'', sd_contentType = ''text/plain'', sd_mediaIndex = -1\<rparr> a False]"
    "sb_marked s = [''A1'']" by (rule sample_processed)
  have "ou_encoded sample_outside = sample_count" by (simp add: sample_outside_def)
  from bridge_step.event [OF this s(1)] sample_start [OF c(1)]
  have "reachable (bridge_init sample_count) (bridge_step sample_ops sample_count) s" by (rule next_state [rotated])
  from that [OF this c(1) s] show ?thesis .
qed

lemma sample_enqueue:
  obtains s' where "enqueue sample_outside ''12345'' ''hello'' (sample_bridge c) = (None, s')" "length (queue_of s') = 1"
proof -
  define item where "item = \<lparr>ob_ID = EncodeToString [0xA1], ob_To = ''12345'', ob_Text = ''hello'', ob_QueuedAt = 0\<rparr>"
  have t: "TrimSpace ''hello'' = ''hello''" by code_simp
  have n: "NormalizeDestination ''12345'' = Inr ''12345''" by code_simp
  have i: "EncodeToString [0xA1] = ''a1''" by code_simp
  have v: "validOutbound item"
    by (simp add: item_def i validOutbound_def ContainsAny_def TrimPrefix_def HasPrefix_def is_digit_def)
  obtain acts where a: "AddOutbound sample_count None item empty_store (Some (saved_file sample_count empty_state))
      = (None, acts, with_outbound empty_store [item], Some (saved_file sample_count (st_data (with_outbound empty_store [item]))))"
    by (simp add: AddOutbound_def v Let_def empty_store_def empty_state_def maximumOutbound_def)
  have "enqueue sample_outside ''12345'' ''hello'' (sample_bridge c) = (None, (ask (sample_bridge c))\<lparr>sb_store := with_outbound empty_store [item],
      sb_file := Some (saved_file sample_count (st_data (with_outbound empty_store [item]))), sb_wake := True\<rparr>)"
    using a by (simp add: enqueue_def t n sample_outside_def sample_bridge_def item_def Let_def)
  from that [OF this] show ?thesis by simp
qed

section \<open>Messages from the phone\<close>

lemma newest_last: "x \<in> set (newest (xs @ [x]))"
  by (simp add: newest_def maximumSeenHandles_def)

lemma handled_seen: "handled w hnd s es s' \<Longrightarrow> HasSeen hnd (sb_store s')"
  using newest_last by (auto simp: handled_def HasSeen_iff)

lemma later_mark:
  assumes "books_ok encoded s" "p < q" "q < length (sb_handed s)" "is_sip (sb_handed s ! p)" "is_sip (sb_handed s ! q)"
    and "hd_handle (sb_handed s ! p) = hd_handle (sb_handed s ! q)" "hd_recipient (sb_handed s ! p) = hd_recipient (sb_handed s ! q)"
    and "hd_part (sb_handed s ! p) = hd_part (sb_handed s ! q)"
  shows "hd_mark (sb_handed s ! p) + maximumSeenHandles < hd_mark (sb_handed s ! q)"
proof -
  let ?h = "sb_handed s" and ?m = "sb_marked s"
  note inv = assms(1) [unfolded books_ok_def]
  have split: "?h = take q ?h @ ?h ! q # drop (Suc q) ?h" using assms(3) by (simp add: id_take_nth_drop)
  have "?h ! p \<in> set (take q ?h)" using assms(2,3) by (auto simp: in_set_conv_nth intro!: exI [of _ p])
  then have pin: "?h ! p \<in> set (filter is_sip (take q ?h))" using assms(4) by simp
  have f: "filter is_sip ?h = filter is_sip (take q ?h) @ ?h ! q # filter is_sip (drop (Suc q) ?h)"
    by (subst split) (simp add: assms(5))
  have "key (?h ! q) \<notin> set (map key (filter is_sip (take q ?h)))" using inv unfolding f by simp
  then have "key (?h ! p) \<noteq> key (?h ! q)" using pin by (metis imageI list.set_map)
  moreover have "hd_mark (?h ! p) \<le> hd_mark (?h ! q)" using inv pin unfolding f by (auto simp: sorted_append)
  ultimately have less: "hd_mark (?h ! p) < hd_mark (?h ! q)" using assms(4,5,7,8) by (auto simp: key_sip)
  have "?m ! hd_mark (?h ! p) = ?m ! hd_mark (?h ! q)" "hd_mark (?h ! q) < length ?m"
    using inv pin assms(6) unfolding f by (auto simp: list_all_iff)
  with inv less have "maximumSeenHandles < hd_mark (?h ! q) - hd_mark (?h ! p)" by (auto simp: spaced_def)
  then show ?thesis by linarith
qed



text \<open>
  C2. Nothing is handed out before it is on disk, and nothing that the manager client would refuse. An event either changes
  neither the store nor its file and hands nothing out, or its handle was unknown, is marked, and the
  state file that holds the mark is the one found after any of its deliveries; each delivery goes to a configured recipient, carries the handle of the event
  and passes the input checks of \<open>SendMessage\<close>. The encoder is assumed never to return an empty document.\<close>

theorem event_marked_before_sent:
  assumes "reachable (bridge_init encoded) (bridge_step ops encoded) s" "ou_encoded w = encoded"
    and "\<And>j. ou_json w j \<noteq> Some []" "processEvent ops w ev s = (r, s')"
  shows "sb_store s' = sb_store s \<and> sb_file s' = sb_file s \<and> sb_handed s' = sb_handed s
    \<or> \<not> HasSeen (ev_Handle ev) (sb_store s) \<and> HasSeen (ev_Handle ev) (sb_store s') \<and> store_ok (sb_store s')
      \<and> sb_file s' = Some (saved_file encoded (st_data (sb_store s')))
      \<and> (\<exists>es. sb_handed s' = sb_handed s @ es
          \<and> list_all (\<lambda>e. is_sip e \<and> hd_handle e = ev_Handle ev \<and> hd_recipient e \<in> set (cf_Recipients (sb_cfg s))
              \<and> input_error (hd_recipient e) (hd_sender e) (sd_body (hd_delivery e)) (sd_contentType (hd_delivery e)) (hd_action e) = None) es)"
proof -
  have st: "store_ok (sb_store s)" "distinct (cf_Recipients (sb_cfg s))" and rec: "list_all recipient_ok (cf_Recipients (sb_cfg s))"
    using bridge_sys.reachable_inv [OF assms(1)] by (auto simp: books_ok_def)
  have enc: "encoder_ok w" using assms(3) by (simp add: encoder_ok_def)
  from st assms(4) show ?thesis
  proof (cases rule: processEvent_cases)
    case idle
    then show ?thesis using books_fields by blast
  next
    case (consumed es)
    then have "list_all (\<lambda>e. is_sip e \<and> hd_handle e = ev_Handle ev \<and> hd_recipient e \<in> set (cf_Recipients (sb_cfg s))
        \<and> input_error (hd_recipient e) (hd_sender e) (sd_body (hd_delivery e)) (sd_contentType (hd_delivery e)) (hd_action e) = None) es"
      using enc rec by (auto simp: handled_def list_all_iff input_error_None acceptable_def)
    with consumed handled_seen [OF consumed(1)] assms(2) show ?thesis unfolding handled_def by blast
  qed
qed

theorem event_marked_before_sent_witness:
  "\<exists>c s' a. processEvent sample_ops sample_outside sample_event (sample_bridge c) = (Returned None, s')
     \<and> sb_file s' = Some (saved_file sample_count (st_data (sb_store s'))) \<and> HasSeen ''A1'' (sb_store s')
     \<and> sb_handed s' = [Sip 0 ''A1'' ''000'' ''1002'' 0 \<lparr>sd_body = ''hi'', sd_contentType = ''text/plain'', sd_mediaIndex = -1\<rparr> a False]"
proof -
  obtain c s a where s: "reachable (bridge_init sample_count) (bridge_step sample_ops sample_count) s" "Load sample_env = Inr c"
    "processEvent sample_ops sample_outside sample_event (sample_bridge c) = (Returned None, s)"
    "sb_handed s = [Sip 0 ''A1'' ''000'' ''1002'' 0 \<lparr>sd_body = ''hi'', sd_contentType = ''text/plain'', sd_mediaIndex = -1\<rparr> a False]"
    by (rule sample_reaches)
  have o: "ou_encoded sample_outside = sample_count" "\<And>j. ou_json sample_outside j \<noteq> Some []" by (simp_all add: sample_outside_def)
  have h: "ev_Handle sample_event = ''A1''" "sb_handed (sample_bridge c) = []" by (simp_all add: sample_event_def sample_bridge_def)
  from event_marked_before_sent [OF sample_start [OF s(2)] o s(3)] s(4)
  have "sb_file s = Some (saved_file sample_count (st_data (sb_store s))) \<and> HasSeen ''A1'' (sb_store s)" unfolding h by auto
  with s(3,4) show ?thesis by blast
qed

lemma consume_no_error:
  assumes "\<And>n. ou_fault w n = None" "validHandle hnd" "store_ok (sb_store s)"
  shows "fst (consume w hnd s) = None"
  using mark_no_error [OF assms(3,2), of w] assms(1) by (auto simp: consume_def split: prod.splits option.splits)

lemma hand_out_no_error:
  assumes "\<And>n. ou_fault w n = None" "validHandle hnd" "store_ok (sb_store s)"
  shows "fst (hand_out w hnd sender ds s) = None"
  using mark_no_error [OF assms(3,2), of w] assms(1) consume_no_error [OF assms(1,2,3)]
  by (auto simp: hand_out_def split: prod.splits option.splits)

lemma deliver_no_error:
  assumes "\<And>n. ou_fault w n = None" "validHandle (ev_Handle ev)" "store_ok (sb_store s)"
  shows "fst (deliver w ev parsed s) = None"
proof -
  obtain up s1 where u: "upload_all w (sm_Attachments parsed) s = (up, s1)" by fastforce
  have "store_ok (sb_store s1)" using assms(3) books_fields [OF books_upload_all [OF u]] by simp
  then show ?thesis using u assms(3) by (simp add: deliver_def Let_def consume_no_error [OF assms(1,2)] hand_out_no_error [OF assms(1,2)] split: option.split)
qed

lemma fetch_returns:
  "(\<And>n. \<not> ou_cancelled w n) \<Longrightarrow> (\<And>f h x. fst (mo_Get ops f h x) \<noteq> Panicked) \<Longrightarrow> (\<exists>raw. last_result = Fetched raw) \<or> (\<exists>e. last_result = Fetch_failed e)
    \<Longrightarrow> (\<exists>raw s'. fetch ops w folder hnd ds last_result s = (Fetched raw, s')) \<or> (\<exists>e s'. fetch ops w folder hnd ds last_result s = (Fetch_failed e, s'))"
proof (induction ds arbitrary: last_result s)
  case (Cons d ds)
  obtain x ses where x: "mo_Get ops folder hnd (sb_session s) = (x, ses)" by fastforce
  have "x \<noteq> Panicked" using Cons.prems(2) [of folder hnd "sb_session s"] x by simp
  then obtain y where y: "x = Returned y" by (cases x) auto
  show ?case using Cons.IH [OF Cons.prems(1,2), of "Fetch_failed _" "with_session ses (ask s)"] Cons.prems(1) x y
    by (cases y) auto
qed auto



section \<open>Messages to the phone\<close>

text \<open>
  C4. The queue is sent from its front, each message once. A call of \<open>drainOutbound\<close> ends for every queue; it hands a beginning of the
  queue to the phone in its order, of which all but the last were sent, and leaves the rest queued, on disk as in memory; when it
  returns without an error the queue is empty and every message was sent. A message that leaves the queue without being handed over
  is lost only when the session panics. The marks and the deliveries of incoming messages are not touched.\<close>

theorem drain_in_order:
  assumes "reachable (bridge_init encoded) (bridge_step ops encoded) s" "ou_encoded w = encoded" "drainOutbound ops w s = (r, s')"
  shows "\<exists>sends lost. queue_of s = map fst sends @ lost @ queue_of s' \<and> file_queue (sb_file s') = queue_of s'
    \<and> sb_handed s' = sb_handed s @ map (\<lambda>(item, ok). Sms item ok) sends \<and> list_all snd (butlast sends)
    \<and> (lost = [] \<or> r = Panicked \<and> length lost = 1) \<and> (r = Returned None \<longrightarrow> queue_of s' = [] \<and> list_all snd sends)
    \<and> sb_marked s' = sb_marked s"
proof -
  have inv: "books_ok (ou_encoded w) s" using bridge_sys.reachable_inv [OF assms(1)] assms(2) by simp
  from drain_spec [OF inv assms(3)] obtain sends lost where d: "quiet (ou_encoded w) s s'" "drained r sends lost s s'" by blast
  have "file_queue (sb_file s') = queue_of s'" using d(1) on_disk_queue by (auto simp: quiet_def)
  with d show ?thesis unfolding drained_def quiet_def by blast
qed

theorem drain_in_order_witness:
  "\<exists>s w r s' (sends :: (outbound \<times> bool) list) lost. length (queue_of s) = 1 \<and> drainOutbound sample_ops w s = (r, s')
     \<and> queue_of s = map fst sends @ lost @ queue_of s' \<and> file_queue (sb_file s') = queue_of s'"
proof -
  obtain c where c: "Load sample_env = Inr c" using sample_load by blast
  obtain s where s: "enqueue sample_outside ''12345'' ''hello'' (sample_bridge c) = (None, s)" "length (queue_of s) = 1" by (rule sample_enqueue)
  have o: "ou_encoded sample_outside = sample_count" by (simp add: sample_outside_def)
  have re: "reachable (bridge_init sample_count) (bridge_step sample_ops sample_count) s"
    using sample_start [OF c] bridge_step.queueing [OF o s(1)] by (rule next_state)
  obtain r s' where d: "drainOutbound sample_ops sample_outside s = (r, s')" by fastforce
  from drain_in_order [OF re o d] obtain sends :: "(outbound \<times> bool) list" and lost
    where "queue_of s = map fst sends @ lost @ queue_of s'" "file_queue (sb_file s') = queue_of s'" by blast
  with d s(2) show ?thesis by (intro exI [of _ s] exI [of _ sample_outside] exI [of _ r] exI [of _ s'] exI [of _ sends] exI [of _ lost]) simp
qed

text \<open>
  \<open>enqueue\<close> accepts a message completely or not at all. With no error the queue on disk ends with the message, its destination normalised
  and its text as given, unless its random identifier is already queued, and the sender is woken; with an error the queue, the file
  and the wake-up are as before.\<close>

theorem enqueue_spec:
  assumes "reachable (bridge_init encoded) (bridge_step ops encoded) s" "ou_encoded w = encoded" "enqueue w to0 body s = (r, s')"
  shows "(r = None \<longrightarrow> sb_wake s' \<and> (\<exists>ident. ou_random w (sb_asked s) = Some ident
          \<and> (EncodeToString ident \<in> ob_ID ` set (queue_of s) \<and> queue_of s' = queue_of s
            \<or> (\<exists>item to1. NormalizeDestination to0 = Inr to1 \<and> queue_of s' = queue_of s @ [item] \<and> ob_ID item = EncodeToString ident
                \<and> ob_To item = to1 \<and> ob_Text item = body \<and> validOutbound item \<and> file_queue (sb_file s') = queue_of s'))))
    \<and> (r \<noteq> None \<longrightarrow> books s' = books s \<and> sb_wake s' = sb_wake s)"
proof -
  have inv: "books_ok (ou_encoded w) s" using bridge_sys.reachable_inv [OF assms(1)] assms(2) by simp
  from inv assms(3) show ?thesis
  proof (cases rule: enqueue_cases)
    case known
    then show ?thesis using books_fields [of s' s] by auto
  next
    case (queued item to1)
    have "file_queue (sb_file s') = queue_of s'" by (simp only: queued saved_queue)
    moreover obtain ident where "ou_random w (sb_asked s) = Some ident" "ob_ID item = EncodeToString ident"
      using queued(12) by blast
    ultimately show ?thesis using queued by blast
  qed auto
qed

theorem enqueue_spec_witness:
  "\<exists>c s' item. enqueue sample_outside ''12345'' ''hello'' (sample_bridge c) = (None, s') \<and> sb_wake s' \<and> queue_of s' = [item]
     \<and> ob_Text item = ''hello'' \<and> file_queue (sb_file s') = [item]"
proof -
  obtain c where c: "Load sample_env = Inr c" using sample_load by blast
  obtain s' where s: "enqueue sample_outside ''12345'' ''hello'' (sample_bridge c) = (None, s')" by (rule sample_enqueue)
  have o: "ou_encoded sample_outside = sample_count" by (simp add: sample_outside_def)
  have q: "queue_of (sample_bridge c) = []" by (simp add: sample_bridge_def empty_store_def empty_state_def)
  from enqueue_spec [OF sample_start [OF c] o s] s show ?thesis unfolding q by auto blast
qed

section \<open>Sessions\<close>

lemma end_session_unconnected: "\<not> connected (sb_status (end_session ops s))"
  by (simp add: end_session_def with_session_def on_status_def setMAP_def connected_def)

lemma map_round_wait:
  assumes "map_round ops w con cs backoff s = (Some (wait, backoff'), s')"
  shows "wait = (if \<exists>ses ses'. con = Inr ses \<and> mo_Register ops True ses = (None, ses') then Second else backoff)
    \<and> backoff' = nextBackoff wait \<and> (\<not> connected (sb_status s) \<longrightarrow> \<not> connected (sb_status s'))"
proof (cases con)
  case (Inl e)
  with assms show ?thesis by (auto simp: map_round_def)
next
  case (Inr ses)
  obtain e ses' where m: "mo_Register ops True ses = (e, ses')" by fastforce
  show ?thesis
  proof (cases e)
    case (Some x)
    with assms Inr m show ?thesis by (auto simp: map_round_def end_session_unconnected)
  next
    case None
    define s1 where "s1 = on_status (setNotifications True) (with_session ses' (on_status (setMAP True) s))"
    obtain b s2 where b: "bootstrap ops w s1 = (b, s2)" by fastforce
    obtain q s3 where q: "runConnected ops w cs s2 = (q, s3)" by fastforce
    from assms have "wait = Second \<and> backoff' = nextBackoff Second \<and> (s' = end_session ops s2 \<or> s' = end_session ops s3)"
      by (auto simp: map_round_def Inr m None s1_def [symmetric] Let_def b q split: outcome.splits option.splits)
    with Inr m None show ?thesis using end_session_unconnected by auto
  qed
qed



definition save_error :: "bridge_error option \<Rightarrow> bool" where
  "save_error r \<longleftrightarrow> r = None \<or> (\<exists>e. r = Some (State_error e))"

lemma save_errors:
  "save_error (fst (consume w hnd s))" "save_error (fst (hand_out w hnd sender ds s))" "save_error (fst (deliver w ev parsed s))"
proof -
  show c: "save_error (fst (consume w hnd s))" for hnd and s :: "'a service"
    by (auto simp: consume_def save_error_def split: prod.split option.split)
  show h: "save_error (fst (hand_out w hnd sender ds s))" for hnd sender ds and s :: "'a service"
    using c [of hnd s] by (auto simp: hand_out_def save_error_def split: prod.split option.split)
  obtain up s1 where u: "upload_all w (sm_Attachments parsed) s = (up, s1)" by fastforce
  have n: "save_error None" by (simp add: save_error_def)
  show "save_error (fst (deliver w ev parsed s))"
    using u c h n by (simp add: deliver_def Let_def split: option.split)
qed

lemma processEvent_result:
  assumes "processEvent ops w ev s = (Returned r, s')"
  shows "save_error r \<or> r = Some Context_error \<or> (\<exists>e. IsTransportError (Some e) \<and> r = Some (Map_error e))"
proof (cases "ev_EventType ev \<noteq> ''NewMessage'' \<or> ev_Handle ev = [] \<or> HasSeen (ev_Handle ev) (sb_store s) \<or> deferred w (ev_Handle ev) s")
  case True
  with assms show ?thesis by (auto simp: processEvent_def Let_def save_error_def split: if_splits)
next
  case new: False
  obtain f s1 where f: "fetch ops w (event_folder ev) (ev_Handle ev) fetchDelays (Fetched []) (ask s) = (f, s1)" by fastforce
  obtain x s2 where x: "consume w (ev_Handle ev) s1 = (x, s2)" by fastforce
  have sx: "save_error x" using save_errors(1) [of w "ev_Handle ev" s1] x by simp
  show ?thesis
  proof (cases f)
    case (Fetched raw)
    with assms new f have "r = fst (case parse_event w (sb_cfg s) ev raw of None \<Rightarrow> consume w (ev_Handle ev) s1 | Some m \<Rightarrow> deliver w ev m s1)"
      by (auto simp: processEvent_def Let_def split: prod.splits)
    then show ?thesis by (cases "parse_event w (sb_cfg s) ev raw") (simp_all add: save_errors)
  next
    case (Fetch_failed e)
    with assms new f x sx show ?thesis by (auto simp: processEvent_def Let_def save_error_def split: option.splits if_splits)
  qed (use assms new f in \<open>auto simp: processEvent_def Let_def\<close>)
qed

lemma drain_result:
  "drainOutbound ops w s = (r, s') \<Longrightarrow> r = Returned None \<or> r = Panicked \<or> (\<exists>e. r = Returned (Some (State_error e))) \<or> (\<exists>e. r = Returned (Some (Map_error e)))"
proof (induction ops w s rule: drainOutbound.induct)
  case (1 ops w s)
  obtain t s1 where t: "take_outbound w s = (t, s1)" by fastforce
  show ?case
  proof (cases "\<exists>item. t = Inr (Some item)")
    case False
    with "1.prems" t show ?thesis by (auto simp: drainOutbound.simps [of ops w s] split: sum.splits option.splits)
  next
    case True
    then obtain item where item: "t = Inr (Some item)" by blast
    obtain o2 s2 where o: "send_outbound ops item s1 = (o2, s2)" by fastforce
    show ?thesis
    proof (cases "o2 = Returned None")
      case False
      with "1.prems" t item o show ?thesis by (auto simp: drainOutbound.simps [of ops w s] split: outcome.splits option.splits)
    next
      case True
      with "1.prems" t item o have "drainOutbound ops w s2 = (r, s')" by (simp add: drainOutbound.simps [of ops w s])
      with "1.IH" [OF t [symmetric] item refl o [symmetric]] True show ?thesis by blast
    qed
  qed
qed



end
