(* ===== verification/Bridge_Http.thy ===== *)
theory Bridge_Http
  imports Bridge_System Broker_State
begin

text \<open>
  The health report and the two HTTP interfaces of the SMS bridge (\<open>internal/bridge/http.go\<close>, the snapshots of
  \<open>internal/bridge/status.go\<close> and \<open>internal/bridge/service.go\<close>) and the construction of the service.

  A request is the record \<open>request\<close>; a handler is a function of the request and the service state that returns the status code, the
  reply and the new state. The JSON coder is an argument, as is the answer of the session's goroutine to a command.

  The lemmas: which sources reach the outbox interface, what a request may change, when the service reports that it is ready, and
  the bound on concurrent requests.
\<close>

section \<open>The health report\<close>

record leAudioHealth =
  lh_Mode :: string
  lh_Ready :: bool
  lh_EndpointsRegistered :: bool
  lh_Advertising :: bool
  lh_Discoverable :: bool
  lh_ExtendedAdvertising :: bool
  lh_BAPAnnouncement :: bool
  lh_CAPAnnouncement :: bool
  lh_TMAPAnnouncement :: bool
  lh_HeadsetAppearance :: bool
  lh_SinkConfigured :: bool
  lh_SourceConfigured :: bool
  lh_SinkAcquired :: bool
  lh_SourceAcquired :: bool
  lh_BidirectionalCIS :: bool

record healthSnapshot =
  hs_OK :: bool
  hs_Ready :: bool
  hs_Service :: string
  hs_Version :: string
  hs_ClassicProfileMode :: string
  hs_ClassicProfilesEnabled :: bool
  hs_MNSRegistered :: bool
  hs_MNSConnected :: bool
  hs_MAPConnected :: bool
  hs_NotificationsEnabled :: bool
  hs_Initialized :: bool
  hs_SeenHandles :: nat
  hs_OutboundDepth :: nat
  hs_LastPollUnix :: int
  hs_InboundConsumed :: uint64
  hs_InboundFailed :: uint64
  hs_OutboundConsumed :: uint64
  hs_OutboundFailed :: uint64
  hs_DroppedMNSEvents :: uint64
  hs_UptimeSeconds :: int
  hs_LEAudio :: leAudioHealth

text \<open>
  The fields about LE Audio, which the code copies one by one, are kept as one record. \<open>Duration.Seconds\<close> converted to an integer is the argument \<open>seconds\<close>; instants count nanoseconds from the epoch.
\<close>

definition status_snapshot :: "(duration \<Rightarrow> int) \<Rightarrow> instant \<Rightarrow> string \<Rightarrow> string \<Rightarrow> bool \<Rightarrow> nat \<Rightarrow> nat \<Rightarrow> leAudioHealth \<Rightarrow> bridge_status \<Rightarrow> healthSnapshot" where
  "status_snapshot seconds now version classicProfileMode initialized seen outbound leAudio s =
     \<lparr>hs_OK = True, hs_Ready = sa_registered s \<and> sa_mapConnected s \<and> sa_notifications s \<and> initialized,
      hs_Service = ''sms-bridge-go'', hs_Version = version, hs_ClassicProfileMode = classicProfileMode,
      hs_ClassicProfilesEnabled = (classicProfileMode = ''normal''), hs_MNSRegistered = sa_registered s, hs_MNSConnected = sa_mnsConnected s,
      hs_MAPConnected = sa_mapConnected s, hs_NotificationsEnabled = sa_notifications s, hs_Initialized = initialized,
      hs_SeenHandles = seen, hs_OutboundDepth = outbound,
      hs_LastPollUnix = (case sa_lastPoll s of None \<Rightarrow> 0 | Some t \<Rightarrow> t div Second),
      hs_InboundConsumed = sa_inboundConsumed s, hs_InboundFailed = sa_inboundFailed s, hs_OutboundConsumed = sa_outboundConsumed s,
      hs_OutboundFailed = sa_outboundFailed s, hs_DroppedMNSEvents = sa_droppedMNS s, hs_UptimeSeconds = seconds (now - sa_started s),
      hs_LEAudio = leAudio\<rparr>"

definition classicProfileMode :: "config \<Rightarrow> string" where
  "classicProfileMode cfg = (if cf_ClassicProfileMode cfg = ClassicProfileIsolated then ClassicProfileIsolated else ClassicProfileNormal)"

definition classicProfilesEnabled :: "config \<Rightarrow> bool" where
  "classicProfilesEnabled cfg \<longleftrightarrow> classicProfileMode cfg = ClassicProfileNormal"

definition le_audio_health :: "string \<Rightarrow> broker option \<Rightarrow> leAudioHealth" where
  "le_audio_health mode leAudio =
     (case leAudio of
        None \<Rightarrow> \<lparr>lh_Mode = mode, lh_Ready = False, lh_EndpointsRegistered = False, lh_Advertising = False, lh_Discoverable = False,
          lh_ExtendedAdvertising = False, lh_BAPAnnouncement = False, lh_CAPAnnouncement = False, lh_TMAPAnnouncement = False,
          lh_HeadsetAppearance = False, lh_SinkConfigured = False, lh_SourceConfigured = False, lh_SinkAcquired = False,
          lh_SourceAcquired = False, lh_BidirectionalCIS = False\<rparr>
      | Some b \<Rightarrow>
          let r = broker_Snapshot b in
          \<lparr>lh_Mode = mode, lh_Ready = bs_EndpointsRegistered r \<and> bs_Advertising r \<and> bs_BidirectionalCIS r,
           lh_EndpointsRegistered = bs_EndpointsRegistered r, lh_Advertising = bs_Advertising r, lh_Discoverable = bs_Discoverable r,
           lh_ExtendedAdvertising = bs_ExtendedAdvertising r, lh_BAPAnnouncement = bs_BAPAnnouncement r, lh_CAPAnnouncement = bs_CAPAnnouncement r,
           lh_TMAPAnnouncement = bs_TMAPAnnouncement r, lh_HeadsetAppearance = bs_HeadsetAppearance r, lh_SinkConfigured = bs_SinkConfigured r,
           lh_SourceConfigured = bs_SourceConfigured r, lh_SinkAcquired = bs_SinkAcquired r, lh_SourceAcquired = bs_SourceAcquired r,
           lh_BidirectionalCIS = bs_BidirectionalCIS r\<rparr>)"

text \<open>What a handler may ask: the clock, the broker, the answer of the session to a command (\<open>None\<close> when the request ends first).\<close>

record http_world =
  hw_seconds :: "duration \<Rightarrow> int"
  hw_now :: instant
  hw_broker :: "broker option"
  hw_answer :: "mapCommand \<Rightarrow> commandResponse option"

definition service_snapshot :: "http_world \<Rightarrow> 's service \<Rightarrow> healthSnapshot" where
  "service_snapshot h s =
     (case Counts (sb_store s) of (seen, outbound) \<Rightarrow>
        status_snapshot (hw_seconds h) (hw_now h) config_Version (classicProfileMode (sb_cfg s)) (IsInitialized (sb_store s)) seen outbound
          (le_audio_health (cf_LEAudioMode (sb_cfg s)) (hw_broker h)) (sb_status s))"

section \<open>Requests\<close>

definition maximumHTTPBody :: nat where "maximumHTTPBody = 64 * 1024"

record http_request =
  rq_Method :: string
  rq_Path :: string
  rq_RemoteAddr :: string
  rq_Query :: "string \<Rightarrow> string"
  rq_Body :: "bytes option"

record raw_payload =
  rw_BMessage :: string
  rw_Folder :: string
  rw_Transparent :: bool
  rw_Retry :: bool

text \<open>The JSON decoder: the first value with what follows it, and whether a second call reports the end of the input.\<close>

record 'a decoder =
  de_Decode :: "bytes \<Rightarrow> ('a \<times> bytes) option"
  de_EOF :: "bytes \<Rightarrow> bool"

record coders =
  co_send :: "(string \<times> string) decoder"
  co_raw :: "raw_payload decoder"

datatype http_reply = Health healthSnapshot | Failure string | Queued | Messages "listing_message list" | Message_of string "sms_message option" | Accepted

definition decodeJSON :: "'a decoder \<Rightarrow> http_request \<Rightarrow> 'a option" where
  "decodeJSON d r =
     (case rq_Body r of
        None \<Rightarrow> None
      | Some body \<Rightarrow> (case de_Decode d (take (maximumHTTPBody + 1) body) of
          None \<Rightarrow> None
        | Some (v, rest) \<Rightarrow> if de_EOF d rest then Some v else None))"

definition queryInt :: "http_request \<Rightarrow> string \<Rightarrow> int \<Rightarrow> int \<Rightarrow> int \<Rightarrow> int option" where
  "queryInt r name fallback minimum maximum =
     (let raw = rq_Query r name in
      if raw = [] then Some fallback
      else case Atoi raw of
        None \<Rightarrow> None
      | Some v \<Rightarrow> if v < minimum \<or> maximum < v then None else Some v)"

definition readinessCode :: "healthSnapshot \<Rightarrow> nat" where
  "readinessCode snapshot = (if hs_Ready snapshot then 200 else 503)"

primrec contains_any :: "prefix4 list \<Rightarrow> addr \<Rightarrow> bool" where
  "contains_any [] a = False"
| "contains_any (p # ps) a = (if prefix_Contains p a then True else contains_any ps a)"

definition sourceAllowed :: "config \<Rightarrow> string \<Rightarrow> bool" where
  "sourceAllowed cfg remote = (case addressOf remote of None \<Rightarrow> False | Some a \<Rightarrow> contains_any (cf_AllowedSources cfg) a)"

definition submit :: "http_world \<Rightarrow> mapCommand \<Rightarrow> 's service \<Rightarrow> commandResponse" where
  "submit h c s =
     (if \<not> connected (sb_status s) then no_response\<lparr>cr_err := Some Input_refused\<rparr>
      else case hw_answer h c of Some r \<Rightarrow> r | None \<Rightarrow> no_response\<lparr>cr_err := Some Context_error\<rparr>)"

definition map_command :: "commandKind \<Rightarrow> string \<Rightarrow> mapCommand" where
  "map_command k folder = \<lparr>mk_cancelled = False, mk_kind = k, mk_folder = folder, mk_handle = [], mk_maximum = 0, mk_offset = 0, mk_body = [],
     mk_transparent = False, mk_retry = False\<rparr>"

definition query_folder :: "http_request \<Rightarrow> string" where
  "query_folder r = (if rq_Query r ''folder'' = [] then ''telecom/msg/inbox'' else rq_Query r ''folder'')"

definition handleSend :: "coders \<Rightarrow> outside \<Rightarrow> http_request \<Rightarrow> 's service \<Rightarrow> (nat \<times> http_reply) \<times> 's service" where
  "handleSend co w r s =
     (case decodeJSON (co_send co) r of
        None \<Rightarrow> ((400, Failure ''invalid request''), s)
      | Some (to0, body) \<Rightarrow>
          (case enqueue w to0 body s of
             (Some _, s') \<Rightarrow> ((503, Failure ''queue rejected''), s')
           | (None, s') \<Rightarrow> ((200, Queued), s')))"

definition handleList :: "http_world \<Rightarrow> http_request \<Rightarrow> bool \<Rightarrow> 's service \<Rightarrow> nat \<times> http_reply" where
  "handleList h r onlyNew s =
     (case queryInt r ''max'' 20 1 500 of
        None \<Rightarrow> (400, Failure ''invalid max'')
      | Some maximum \<Rightarrow>
          (case queryInt r ''offset'' 0 0 65535 of
             None \<Rightarrow> (400, Failure ''invalid offset'')
           | Some offset \<Rightarrow>
               let response = submit h ((map_command commandList (query_folder r))\<lparr>mk_maximum := maximum, mk_offset := offset\<rparr>) s in
               if cr_err response \<noteq> None then (503, Failure ''MAP unavailable'')
               else (200, Messages (if onlyNew then filter (\<lambda>item. \<not> HasSeen (lm_Handle item) (sb_store s)) (cr_listing response) else cr_listing response))))"

definition handleGet :: "http_world \<Rightarrow> http_request \<Rightarrow> 's service \<Rightarrow> nat \<times> http_reply" where
  "handleGet h r s =
     (let hnd = TrimPrefix (rq_Path r) ''/messages/'';
          response = submit h ((map_command commandGet (query_folder r))\<lparr>mk_handle := hnd\<rparr>) s
      in if cr_err response \<noteq> None then (503, Failure ''MAP unavailable'') else (200, Message_of hnd (cr_message response)))"

definition handleRaw :: "coders \<Rightarrow> http_world \<Rightarrow> http_request \<Rightarrow> 's service \<Rightarrow> nat \<times> http_reply" where
  "handleRaw co h r s =
     (case decodeJSON (co_raw co) r of
        None \<Rightarrow> (400, Failure ''invalid request'')
      | Some p \<Rightarrow>
          if rw_BMessage p = [] then (400, Failure ''invalid request'')
          else let folder = (if rw_Folder p = [] then ''telecom/msg/outbox'' else rw_Folder p);
                   response = submit h ((map_command commandRaw folder)\<lparr>mk_body := rw_BMessage p, mk_transparent := rw_Transparent p, mk_retry := rw_Retry p\<rparr>) s
               in if cr_err response \<noteq> None then (503, Failure ''MAP send failed'') else (200, Accepted))"

definition internalHandler :: "coders \<Rightarrow> http_world \<Rightarrow> outside \<Rightarrow> http_request \<Rightarrow> 's service \<Rightarrow> (nat \<times> http_reply) \<times> 's service" where
  "internalHandler co h w r s =
     (let get = (rq_Method r = ''GET''); post = (rq_Method r = ''POST''); path = rq_Path r; snap = service_snapshot h s in
      if get \<and> path = ''/health'' then ((200, Health snap), s)
      else if get \<and> path = ''/ready'' then ((readinessCode snap, Health snap), s)
      else if get \<and> path = ''/messages'' then (handleList h r False s, s)
      else if get \<and> HasPrefix path ''/messages/'' then (handleGet h r s, s)
      else if get \<and> path = ''/poll'' then (handleList h r True s, s)
      else if post \<and> path = ''/send/sms'' then handleSend co w r s
      else if post \<and> path = ''/send/raw'' then (handleRaw co h r s, s)
      else if post \<and> path = ''/send/mms'' then ((501, Failure ''MMS sending is not enabled''), s)
      else ((404, Failure ''not found''), s))"

definition outboxHandler :: "coders \<Rightarrow> http_world \<Rightarrow> outside \<Rightarrow> http_request \<Rightarrow> 's service \<Rightarrow> (nat \<times> http_reply) \<times> 's service" where
  "outboxHandler co h w r s =
     (let snap = service_snapshot h s in
      if \<not> sourceAllowed (sb_cfg s) (rq_RemoteAddr r) then ((403, Failure ''source not allowed''), s)
      else if rq_Method r = ''GET'' \<and> rq_Path r = ''/health'' then ((200, Health snap), s)
      else if rq_Method r = ''GET'' \<and> rq_Path r = ''/ready'' then ((readinessCode snap, Health snap), s)
      else if rq_Method r \<noteq> ''POST'' \<or> rq_Path r \<noteq> ''/send/sms'' then ((404, Failure ''not found''), s)
      else handleSend co w r s)"

text \<open>\<open>bounded\<close>: the requests being served, by number; one is admitted while there is room and leaves when its handler returns.\<close>

datatype http_event = Arrive nat | Finish nat

definition concurrency :: nat where "concurrency = 16"

fun bounded :: "http_event \<Rightarrow> nat list \<Rightarrow> (nat \<times> http_reply) option \<times> nat list" where
  "bounded (Arrive n) serving =
     (if length serving < concurrency then (None, serving @ [n]) else (Some (503, Failure ''busy''), serving))"
| "bounded (Finish n) serving = (None, remove1 n serving)"

section \<open>Construction\<close>

text \<open>\<open>New\<close> and the parts it opens; the file system is in the arguments.\<close>

definition service_New :: "(diskState \<Rightarrow> nat) \<Rightarrow> save_step option \<Rightarrow> legacy_json \<Rightarrow> (nat \<Rightarrow> instant) \<Rightarrow> legacy_files \<Rightarrow> state_file option \<Rightarrow> secret_file
    \<Rightarrow> (string \<Rightarrow> parsed_url option) \<Rightarrow> instant \<Rightarrow> 's \<Rightarrow> config \<Rightarrow> string + 's service" where
  "service_New encoded fault js now legacy file0 secret parse started ses cfg =
     (case Open encoded fault js now legacy (opened_of file0) of
        Inl _ \<Rightarrow> Inl ''open SMS state''
      | Inr (st, imported, _, file') \<Rightarrow>
          bindE (ami_New (cf_AMIAddress cfg) (cf_AMIUser cfg) secret) (\<lambda>client.
          bindE (media_New parse (cf_MediaURL cfg) (cf_MediaMaxBytes cfg) (cf_MediaTimeout cfg)) (\<lambda>uploader.
            Inr \<lparr>sb_cfg = cfg, sb_ami = client, sb_media = uploader, sb_session = ses, sb_store = st, sb_file = file', sb_status = newStatus started,
                 sb_mediaRetries = [], sb_wake = False, sb_asked = 0, sb_marked = ds_SeenHandles (st_data st), sb_handed = []\<rparr>)))"

section \<open>Properties\<close>

lemma contains_any_iff: "contains_any ps a \<longleftrightarrow> (\<exists>p \<in> set ps. prefix_Contains p a)"
  by (induction ps) auto

lemma service_New_init:
  assumes "Load getenv = Inr cfg" "service_New encoded fault js now legacy file0 secret parse started ses cfg = Inr s"
  shows "bridge_init encoded s"
proof -
  obtain st imported acts file' where o: "Open encoded fault js now legacy (opened_of file0) = Inr (st, imported, acts, file')"
    using assms(2) by (auto simp: service_New_def split: sum.splits)
  with assms(2) have s: "sb_cfg s = cfg" "sb_store s = st" "sb_file s = file'" "sb_marked s = ds_SeenHandles (st_data st)" "sb_handed s = []"
    by (auto simp: service_New_def bindE_Inr_iff)
  show ?thesis unfolding bridge_init_def s using assms(1) o by blast
qed

text \<open>
  C34. The outbox interface serves only the machine itself and the addresses it was configured with: with a configuration that
  \<open>Load\<close> accepted, a request that is not answered with 403 comes from an IPv4 address that is a loopback address or exactly one of the
  configured addresses; a request from anywhere else changes nothing.\<close>

theorem outbox_sources:
  assumes "Load getenv = Inr cfg" "sb_cfg s = cfg" "outboxHandler co h w r s = ((code, rep), s')"
  shows "(code \<noteq> 403 \<longrightarrow> (\<exists>a. addressOf (rq_RemoteAddr r) = Some a
        \<and> (IsLoopback a \<or> (\<exists>p \<in> set (cf_AllowedSources cfg). px_bits p = 32 \<and> px_addr p = a))))
    \<and> (\<not> sourceAllowed cfg (rq_RemoteAddr r) \<longrightarrow> code = 403 \<and> s' = s)"
proof -
  have "list_all source_ok (cf_AllowedSources cfg)" using Load_cases [OF assms(1)] Validate_None [of cfg] by blast
  then have ok: "IsLoopback a \<or> px_bits p = 32 \<and> px_addr p = a" if "p \<in> set (cf_AllowedSources cfg)" "prefix_Contains p a" for p a
    using that contains_loopback contains_exact by (auto simp: list_all_iff source_ok_def)
  have no: "code = 403 \<and> s' = s" if "\<not> sourceAllowed cfg (rq_RemoteAddr r)" using assms(2,3) that by (simp add: outboxHandler_def)
  show ?thesis
  proof (cases "sourceAllowed cfg (rq_RemoteAddr r)")
    case True
    then obtain a p where a: "addressOf (rq_RemoteAddr r) = Some a" "p \<in> set (cf_AllowedSources cfg)" "prefix_Contains p a"
      by (auto simp: sourceAllowed_def contains_any_iff split: option.splits)
    with ok [OF a(2,3)] True show ?thesis by blast
  qed (use no in auto)
qed

lemma sample_loaded:
  obtains c where "Load sample_env = Inr c" "cf_Recipients c = [''1002'']"
  using sample_load by blast

definition sample_request :: "string \<Rightarrow> string \<Rightarrow> string \<Rightarrow> http_request" where
  "sample_request verb path remote = \<lparr>rq_Method = verb, rq_Path = path, rq_RemoteAddr = remote, rq_Query = (\<lambda>_. []), rq_Body = Some []\<rparr>"

definition sample_coders :: coders where
  "sample_coders = \<lparr>co_send = \<lparr>de_Decode = (\<lambda>b. Some ((''12345'', ''hello''), [])), de_EOF = (\<lambda>b. b = [])\<rparr>,
     co_raw = \<lparr>de_Decode = (\<lambda>_. None), de_EOF = (\<lambda>b. b = [])\<rparr>\<rparr>"

definition sample_world :: http_world where
  "sample_world = \<lparr>hw_seconds = (\<lambda>d. d div Second), hw_now = 0, hw_broker = None, hw_answer = (\<lambda>_. None)\<rparr>"

theorem outbox_sources_witness:
  "\<exists>c. Load sample_env = Inr c
     \<and> fst (fst (outboxHandler sample_coders sample_world sample_outside (sample_request ''GET'' ''/health'' ''8.8.8.8'') (sample_bridge c))) = 403"
proof -
  obtain c where c: "Load sample_env = Inr c" by (rule sample_loaded)
  let ?r = "sample_request ''GET'' ''/health'' ''8.8.8.8''"
  obtain code rep s' where o: "outboxHandler sample_coders sample_world sample_outside ?r (sample_bridge c) = ((code, rep), s')" by (metis prod.collapse)
  have b: "sb_cfg (sample_bridge c) = c" by (simp add: sample_bridge_def)
  have "addressOf ''8.8.8.8'' = None" by code_simp
  then have "code = 403" using outbox_sources [OF c b o] by (auto simp: sample_request_def)
  with o c show ?thesis by auto
qed

text \<open>What a request can change: the queue, by one message, and nothing else.\<close>

definition request_effect :: "outside \<Rightarrow> http_request \<Rightarrow> nat \<Rightarrow> 's service \<Rightarrow> 's service \<Rightarrow> bool" where
  "request_effect w r code s s' \<longleftrightarrow>
     sb_handed s' = sb_handed s \<and> sb_marked s' = sb_marked s \<and> sb_session s' = sb_session s \<and> sb_status s' = sb_status s
     \<and> ds_SeenHandles (st_data (sb_store s')) = ds_SeenHandles (st_data (sb_store s))
     \<and> (queue_of s' = queue_of s \<or>
        rq_Method r = ''POST'' \<and> rq_Path r = ''/send/sms'' \<and> code = 200 \<and> (\<exists>item. validOutbound item \<and> queue_of s' = queue_of s @ [item]))
     \<and> file_queue (sb_file s') = queue_of s'"

lemma enqueue_keeps: "enqueue w to0 body s = (r, s') \<Longrightarrow> sb_session s' = sb_session s \<and> sb_status s' = sb_status s"
  by (auto simp: enqueue_def ask_def Let_def split: sum.splits if_splits option.splits prod.splits)

lemma handleSend_effect:
  assumes inv: "books_ok (ou_encoded w) s" and run: "handleSend co w r s = ((code, rep), s')" and path: "rq_Method r = ''POST''" "rq_Path r = ''/send/sms''"
  shows "request_effect w r code s s'"
proof (cases "decodeJSON (co_send co) r")
  case None
  with run inv on_disk_queue show ?thesis by (auto simp: handleSend_def request_effect_def books_ok_def)
next
  case (Some p)
  obtain to0 body where p: "p = (to0, body)" by fastforce
  obtain e t where e: "enqueue w to0 body s = (e, t)" by fastforce
  have r: "s' = t" "code = (if e = None then 200 else 503)" using run Some p e by (auto simp: handleSend_def split: option.splits)
  note k = enqueue_keeps [OF e]
  have q: "file_queue (sb_file s) = queue_of s" using inv on_disk_queue by (auto simp: books_ok_def)
  from inv e show ?thesis
  proof (cases rule: enqueue_cases)
    case (queued item to1)
    have "file_queue (sb_file t) = queue_of t" by (simp only: queued saved_queue)
    with queued k r path show ?thesis by (auto simp: request_effect_def quiet_def)
  qed (use k r q in \<open>auto simp: request_effect_def dest: books_fields\<close>)
qed

lemma no_effect: "books_ok encoded s \<Longrightarrow> request_effect w r code s s"
  using on_disk_queue by (auto simp: request_effect_def books_ok_def)



text \<open>
  \<open>/ready\<close> tells the truth: both interfaces answer it with 200 exactly when the notification server is registered, a session is
  connected with notifications, and the baseline was taken, and otherwise with 503; so it is 503 from the end of a session to the next registration.\<close>

theorem ready_spec:
  assumes "rq_Method r = ''GET''" "rq_Path r = ''/ready''"
  shows "fst (fst (internalHandler co h w r s))
      = (if sa_registered (sb_status s) \<and> connected (sb_status s) \<and> IsInitialized (sb_store s) then 200 else 503)
    \<and> (sourceAllowed (sb_cfg s) (rq_RemoteAddr r) \<longrightarrow> fst (outboxHandler co h w r s) = fst (internalHandler co h w r s))
    \<and> fst (fst (internalHandler co h w r (end_session ops s))) = 503"
proof -
  have i: "internalHandler co h w r t = ((readinessCode (service_snapshot h t), Health (service_snapshot h t)), t)" for t :: "'a service"
    using assms by (simp add: internalHandler_def Let_def)
  have code: "readinessCode (service_snapshot h t)
      = (if sa_registered (sb_status t) \<and> connected (sb_status t) \<and> IsInitialized (sb_store t) then 200 else 503)" for t :: "'a service"
    by (simp add: readinessCode_def service_snapshot_def status_snapshot_def connected_def split: prod.split)
  show ?thesis unfolding i using assms by (simp add: code outboxHandler_def Let_def end_session_unconnected)
qed

theorem ready_spec_witness:
  "\<forall>c. fst (fst (internalHandler sample_coders sample_world sample_outside (sample_request ''GET'' ''/ready'' ''127.0.0.1:5000'') (end_session sample_ops (sample_bridge c)))) = 503"
proof
  fix c
  have "rq_Method (sample_request ''GET'' ''/ready'' ''127.0.0.1:5000'') = ''GET''" "rq_Path (sample_request ''GET'' ''/ready'' ''127.0.0.1:5000'') = ''/ready''"
    by (simp_all add: sample_request_def)
  from ready_spec [OF this] show "fst (fst (internalHandler sample_coders sample_world sample_outside (sample_request ''GET'' ''/ready'' ''127.0.0.1:5000'')
    (end_session sample_ops (sample_bridge c)))) = 503" by blast
qed

text \<open>
  The report says that LE Audio is ready only while the broker has registered its endpoints, advertises, and holds an acquired
  transport in each direction.\<close>

lemma snapshot_acquired:
  "(bs_SinkAcquired (fold (snapshot_configured b) cs r) \<longrightarrow> bs_SinkAcquired r \<or> (\<exists>(path, c) \<in> set cs. tc_direction c = DirectionSink \<and> go_flag (bk_acquired b) path))
   \<and> (bs_SourceAcquired (fold (snapshot_configured b) cs r) \<longrightarrow> bs_SourceAcquired r \<or> (\<exists>(path, c) \<in> set cs. tc_direction c = DirectionSource \<and> go_flag (bk_acquired b) path))
   \<and> bs_EndpointsRegistered (fold (snapshot_configured b) cs r) = bs_EndpointsRegistered r \<and> bs_Advertising (fold (snapshot_configured b) cs r) = bs_Advertising r"
proof (induction cs arbitrary: r)
  case (Cons c cs)
  from Cons [of "snapshot_configured b c r"] show ?case by (auto simp: snapshot_configured_def split: prod.splits if_splits)
qed simp

lemma le_ready_sound:
  assumes "lh_Ready (le_audio_health mode leAudio)"
  shows "\<exists>b. leAudio = Some b \<and> bk_registered b \<and> bk_advertising b
     \<and> (\<exists>(path, c) \<in> set (bk_configured b). tc_direction c = DirectionSink \<and> go_flag (bk_acquired b) path)
     \<and> (\<exists>(path, c) \<in> set (bk_configured b). tc_direction c = DirectionSource \<and> go_flag (bk_acquired b) path)"
proof -
  from assms obtain b where b: "leAudio = Some b" by (cases leAudio) (simp_all add: le_audio_health_def)
  obtain r0 where r0: "broker_Snapshot b = (let r = fold (snapshot_configured b) (bk_configured b) r0 in r\<lparr>bs_BidirectionalCIS := bs_SinkAcquired r \<and> bs_SourceAcquired r\<rparr>)"
      "bs_EndpointsRegistered r0 = bk_registered b" "bs_Advertising r0 = bk_advertising b" "\<not> bs_SinkAcquired r0" "\<not> bs_SourceAcquired r0"
    unfolding broker_Snapshot_def Let_def using that by force
  from assms b show ?thesis using snapshot_acquired [of b "bk_configured b" r0] r0(2-5)
    by (simp add: le_audio_health_def r0(1) Let_def)
qed

lemma bounded_fold: "length serving \<le> concurrency \<Longrightarrow> length (fold (\<lambda>e t. snd (bounded e t)) events serving) \<le> concurrency"
proof (induction events arbitrary: serving)
  case (Cons e events)
  have "length (snd (bounded e serving)) \<le> concurrency" using Cons.prems by (cases e) (auto simp: length_remove1)
  with Cons.IH show ?case by simp
qed simp

end
