(* ===== verification/Safelog.thy ===== *)
theory Safelog
  imports Go_Std
begin

text \<open>
  The log file of the SMS bridge (\<open>internal/safelog/writer.go\<close>): a file that is renamed and started again when it would grow past
  its maximum. The answers of the file system are arguments; the writer keeps whether it holds an open file and the
  size it counts.

  The lemmas: the file stays within its maximum, and how long a writer that lost its file stays without one.
\<close>

datatype log_error = Invalid_configuration | Os_error | File_invalid

record log_writer =
  lw_path :: string
  lw_maximum :: int
  lw_file :: bool
  lw_written :: int

record open_answers =
  oa_open :: bool
  oa_chmod :: bool
  oa_stat :: "int option"

datatype rename_answer = Renamed | No_file | Rename_failed

record rotate_answers =
  ra_close :: bool
  ra_rename :: rename_answer
  ra_open :: open_answers

definition open_log :: "open_answers \<Rightarrow> log_writer \<Rightarrow> log_error option \<times> log_writer" where
  "open_log oa w =
     (if \<not> oa_open oa then (Some Os_error, w)
      else if \<not> oa_chmod oa then (Some Os_error, w)
      else case oa_stat oa of
        None \<Rightarrow> (Some Os_error, w)
      | Some n \<Rightarrow> (None, w\<lparr>lw_file := True, lw_written := n\<rparr>))"

definition log_Open :: "bool \<Rightarrow> open_answers \<Rightarrow> string \<Rightarrow> int \<Rightarrow> log_error + log_writer" where
  "log_Open mkdir oa path maximum =
     (if \<not> HasPrefix path ''/'' \<or> maximum < 64 * 1024 \<or> 64 * 2 ^ 20 < maximum then Inl Invalid_configuration
      else if \<not> mkdir then Inl Os_error
      else case open_log oa \<lparr>lw_path = path, lw_maximum = maximum, lw_file = False, lw_written = 0\<rparr> of
        (Some e, _) \<Rightarrow> Inl e
      | (None, w) \<Rightarrow> Inr w)"

definition rotate :: "rotate_answers \<Rightarrow> log_writer \<Rightarrow> log_error option \<times> log_writer" where
  "rotate ra w =
     (if lw_file w \<and> \<not> ra_close ra then (Some Os_error, w)
      else let w' = w\<lparr>lw_file := False\<rparr> in
        if ra_rename ra = Rename_failed then (Some Os_error, w') else open_log (ra_open ra) w')"

text \<open>The count and the error of the write itself; a writer without a file gets the error of a nil file.\<close>

definition log_Write :: "rotate_answers \<Rightarrow> nat \<times> bool \<Rightarrow> bytes \<Rightarrow> log_writer \<Rightarrow> (nat \<times> log_error option) \<times> log_writer" where
  "log_Write ra wa data w =
     (case (if lw_maximum w < lw_written w + int (length data) then rotate ra w else (None, w)) of
        (Some e, w') \<Rightarrow> ((0, Some e), w')
      | (None, w') \<Rightarrow>
          if lw_file w' then ((fst wa, if snd wa then None else Some Os_error), w'\<lparr>lw_written := lw_written w' + int (fst wa)\<rparr>)
          else ((0, Some File_invalid), w'))"

definition log_Close :: "bool \<Rightarrow> log_writer \<Rightarrow> log_error option \<times> log_writer" where
  "log_Close close_ok w =
     (if \<not> lw_file w then (None, w) else (if close_ok then None else Some Os_error, w\<lparr>lw_file := False\<rparr>))"

section \<open>Size and loss\<close>

lemma open_log_cases: "open_log oa w = (None, w') \<Longrightarrow> \<exists>n. oa_stat oa = Some n \<and> w' = w\<lparr>lw_file := True, lw_written := n\<rparr>"
  by (auto simp: open_log_def split: if_splits option.splits)

lemma open_log_error: "open_log oa w = (Some e, w') \<Longrightarrow> w' = w"
  by (auto simp: open_log_def split: if_splits option.splits)

text \<open>A write keeps the counted size within the maximum, when the record fits and a file that was just renamed away is followed by an empty one.\<close>

theorem log_within_maximum:
  assumes "lw_written w \<le> lw_maximum w" "int (length data) \<le> lw_maximum w" "fst wa \<le> length data" "oa_stat (ra_open ra) \<in> {None, Some 0}"
  shows "lw_written (snd (log_Write ra wa data w)) \<le> lw_maximum (snd (log_Write ra wa data w))"
proof (cases "lw_maximum w < lw_written w + int (length data)")
  case False
  then show ?thesis using assms by (auto simp: log_Write_def)
next
  case True
  obtain e w' where r: "rotate ra w = (e, w')" by fastforce
  have w': "lw_maximum w' = lw_maximum w \<and> (lw_written w' = lw_written w \<and> e \<noteq> None \<or> e = None \<and> lw_written w' = 0)"
    using r assms(4) open_log_cases open_log_error
    by (cases e) (fastforce simp: rotate_def Let_def split: if_splits)+
  then show ?thesis using True r assms by (cases e) (auto simp: log_Write_def)
qed

text \<open>
  After a rotation that renamed the file but could not open the new one, the writer has no file and still counts the old size: every
  record that would have fitted into the old file is refused without an attempt to open a file, so short records are lost until a
  longer one comes.\<close>

theorem log_loses_short_records:
  assumes "lw_written w + int (length long) > lw_maximum w" "lw_file w" "ra_close ra" "ra_rename ra = Renamed" "\<not> oa_open (ra_open ra)"
    and "lw_written w + int (length short) \<le> lw_maximum w"
  shows "let w' = snd (log_Write ra wa long w) in log_Write ra' wa' short w' = ((0, Some File_invalid), w')"
  using assms by (simp add: log_Write_def rotate_def open_log_def Let_def)

end
