(* ===== verification/Spec2Isabelle.thy ===== *)
theory Spec2Isabelle
  imports Le_Call Broker_System State_Store Mns Message Bridge_Http Safelog
begin

text \<open>
  Verification of the LE Audio and call bridge services.
\<close>

end
